(* ===== verification/Dage_Prelude.thy ===== *)
theory Dage_Prelude
  imports Complex_Main "HOL-Library.Word" "HOL-Library.Char_ord" "HOL-Library.List_Lexorder"
begin

text \<open>
  Shared vocabulary of the development.

  \<^item> Machine integers: the C++ types \<open>std::uint8_t\<close>, \<open>std::uint32_t\<close> and \<open>std::uint64_t\<close>
    as words of that width.
  \<^item> \<open>Error\<close> and \<open>Result\<close> of \<open>include/dage/result.hpp\<close>: a record, and a sum type whose left
    summand is the error.
  \<^item> \<open>std::map\<close> with a totally ordered key type: a strictly sorted association list, so that
    iteration order is part of the value.
  \<^item> The parts of \<open>std::string\<close>, \<open>std::to_string\<close>, \<open>std::stoull\<close> and \<open>std::getline\<close> that the
    sources use.
  \<^item> The rule collection \<open>dage_simps\<close> for the facts that the component proofs share.
\<close>

named_theorems dage_simps \<open>equations shared by the component proofs\<close>

subsection \<open>Machine integers\<close>

type_synonym u8 = "8 word"
type_synonym u32 = "32 word"
type_synonym u64 = "64 word"

lemma unat_u64_less: "unat (w :: u64) < 2 ^ 64"
  using unsigned_less [of w] by simp

lemma unat_of_nat_u64: "n < 2 ^ 64 \<Longrightarrow> unat (of_nat n :: u64) = n"
  by (simp add: unat_of_nat take_bit_nat_eq_self)

lemma u64_succ_neq [simp]: "(w :: u64) + 1 \<noteq> w"
  by simp

lemma unat_u64_succ:
  fixes w :: u64
  assumes "w \<noteq> - 1"
  shows "unat (w + 1) = Suc (unat w)"
  using assms unatSuc [of w] by (simp add: add.commute eq_neg_iff_add_eq_0)

subsection \<open>Result and Error\<close>

record err =
  err_category :: string
  err_code :: string
  err_message :: string
  err_retryable :: bool

type_synonym 'a result = "err + 'a"

abbreviation is_ok :: "'e + 'a \<Rightarrow> bool" where
  "is_ok r \<equiv> \<not> isl r"

lemma result_cases [case_names Failure Success]:
  assumes "\<And>e. r = Inl e \<Longrightarrow> P" and "\<And>v. r = Inr v \<Longrightarrow> P"
  shows P
  using assms by (cases r) auto

subsection \<open>std::map as a strictly sorted association list\<close>

type_synonym ('k, 'v) smap = "('k \<times> 'v) list"

fun sm_get :: "('k, 'v) smap \<Rightarrow> 'k \<Rightarrow> 'v option" where
  "sm_get [] k = None"
| "sm_get ((a, b) # m) k = (if k = a then Some b else sm_get m k)"

fun sm_put :: "('k::linorder) \<Rightarrow> 'v \<Rightarrow> ('k, 'v) smap \<Rightarrow> ('k, 'v) smap" where
  "sm_put k v [] = [(k, v)]"
| "sm_put k v ((a, b) # m) =
     (if k < a then (k, v) # (a, b) # m
      else if k = a then (k, v) # m else (a, b) # sm_put k v m)"

fun sm_del :: "'k \<Rightarrow> ('k, 'v) smap \<Rightarrow> ('k, 'v) smap" where
  "sm_del k [] = []"
| "sm_del k ((a, b) # m) = (if k = a then m else (a, b) # sm_del k m)"

abbreviation sm_keys :: "('k, 'v) smap \<Rightarrow> 'k list" where
  "sm_keys m \<equiv> map fst m"

definition sm_ok :: "('k::linorder, 'v) smap \<Rightarrow> bool" where
  "sm_ok m \<longleftrightarrow> sorted_wrt (<) (sm_keys m)"

abbreviation sm_has :: "('k, 'v) smap \<Rightarrow> 'k \<Rightarrow> bool" where
  "sm_has m k \<equiv> sm_get m k \<noteq> None"

lemma sm_ok_Nil [simp]: "sm_ok []"
  by (simp add: sm_ok_def)

lemma sm_ok_Cons: "sm_ok ((a, b) # m) \<longleftrightarrow> (\<forall>k \<in> set (sm_keys m). a < k) \<and> sm_ok m"
  by (auto simp: sm_ok_def)

lemma sm_get_None_iff: "sm_get m k = None \<longleftrightarrow> k \<notin> set (sm_keys m)"
  by (induction m k rule: sm_get.induct) simp_all

lemma sm_get_Some_key: "sm_get m k = Some v \<Longrightarrow> k \<in> set (sm_keys m)"
  using sm_get_None_iff [of m k] by simp

lemma sm_get_in_set: "sm_get m k = Some v \<Longrightarrow> (k, v) \<in> set m"
  by (induction m k rule: sm_get.induct) (simp_all split: if_splits)

lemma sm_get_put [simp]: "sm_get (sm_put k v m) k' = (if k' = k then Some v else sm_get m k')"
  by (induction k v m rule: sm_put.induct) auto

lemma sm_keys_put [simp]: "set (sm_keys (sm_put k v m)) = insert k (set (sm_keys m))"
  by (induction k v m rule: sm_put.induct) (simp_all add: insert_commute)

lemma sm_ok_put [simp]: "sm_ok m \<Longrightarrow> sm_ok (sm_put k v m)"
proof (induction k v m rule: sm_put.induct)
  case (2 k v a b m)
  have "\<forall>x \<in> set (sm_keys (sm_put k v m)). a < x" if "\<not> k < a" and "k \<noteq> a"
    using 2(2) that unfolding sm_keys_put by (simp add: sm_ok_Cons)
  moreover have "\<forall>x \<in> set (sm_keys m). k < x" if "k < a"
    using 2(2) that less_trans [OF that] unfolding sm_ok_Cons by blast
  ultimately show ?case using 2 by (simp add: sm_ok_Cons)
qed (simp add: sm_ok_Cons)

lemma sm_put_set: "x \<in> set (sm_put k v m) \<Longrightarrow> x = (k, v) \<or> x \<in> set m"
  by (induction k v m rule: sm_put.induct) (auto split: if_splits)

lemma sm_get_notin: "sm_ok ((a, b) # m) \<Longrightarrow> sm_get m a = None"
  unfolding sm_ok_Cons sm_get_None_iff by blast

lemma sm_get_del: "sm_ok m \<Longrightarrow> sm_get (sm_del k m) k' = (if k' = k then None else sm_get m k')"
proof (induction k m rule: sm_del.induct)
  case (2 k a b m)
  then show ?case using sm_get_notin [OF 2(2)] by (auto simp: sm_ok_Cons)
qed simp

lemma sm_keys_del_subset: "set (sm_keys (sm_del k m)) \<subseteq> set (sm_keys m)"
  by (induction k m rule: sm_del.induct) (simp_all add: subset_insertI2 subset_insertI)

lemma sm_ok_del [simp]: "sm_ok m \<Longrightarrow> sm_ok (sm_del k m)"
proof (induction k m rule: sm_del.induct)
  case (2 k a b m)
  have "\<forall>x \<in> set (sm_keys (sm_del k m)). a < x"
    using 2(2) sm_keys_del_subset [of k m] unfolding sm_ok_Cons by blast
  with 2 show ?case by (simp add: sm_ok_Cons)
qed simp

lemma sm_ok_distinct: "sm_ok m \<Longrightarrow> distinct (sm_keys m)"
  unfolding sm_ok_def by (simp add: strict_sorted_iff)

lemma sm_ok_tail: "sm_ok (p # m) \<Longrightarrow> sm_ok m"
  by (cases p) (simp add: sm_ok_Cons)

lemma sm_first_least: "sm_ok ((a, b) # m) \<Longrightarrow> sm_get m k = Some v \<Longrightarrow> a < k"
  using sm_get_Some_key [of m k v] by (auto simp: sm_ok_Cons)

lemma sm_ext:
  assumes "sm_ok m" and "sm_ok n" and "\<And>k. sm_get m k = sm_get n k"
  shows "m = n"
  using assms
proof (induction m arbitrary: n)
  case Nil
  show ?case
  proof (cases n)
    case (Cons q n')
    then show ?thesis using Nil.prems(3) [of "fst q"] by (cases q) simp
  qed simp
next
  case (Cons p m)
  obtain a b where p: "p = (a, b)" by (cases p)
  obtain c d n' where n: "n = (c, d) # n'"
    using Cons.prems(3) [of a] p by (cases n) auto
  have ok: "sm_ok ((a, b) # m)" "sm_ok ((c, d) # n')" using Cons.prems p n by simp_all
  have ac: "a = c"
  proof (rule ccontr)
    assume ne: "a \<noteq> c"
    from Cons.prems(3) [of a] p n ne have "sm_get n' a = Some b" by simp
    then have "c < a" by (rule sm_first_least [OF ok(2)])
    moreover from Cons.prems(3) [of c] p n ne have "sm_get m c = Some d" by simp
    then have "a < c" by (rule sm_first_least [OF ok(1)])
    ultimately show False by simp
  qed
  have bd: "b = d" using Cons.prems(3) [of a] p n ac by simp
  have "sm_get m k = sm_get n' k" for k
    using Cons.prems(3) [of k] p n ac sm_get_notin [OF ok(1)] sm_get_notin [OF ok(2)]
    by (cases "k = a") simp_all
  then have "m = n'"
    using Cons.IH [OF sm_ok_tail [OF ok(1)] sm_ok_tail [OF ok(2)]] by simp
  then show ?case using p n ac bd by simp
qed

lemmas sm_simps = sm_get_put sm_keys_put sm_ok_put sm_get_del sm_ok_del

subsection \<open>Decimal text: std::to_string and std::stoull\<close>

definition digit_char :: "nat \<Rightarrow> char" where
  "digit_char d = char_of (48 + d)"

definition is_digit :: "char \<Rightarrow> bool" where
  "is_digit c \<longleftrightarrow> 48 \<le> (of_char c :: nat) \<and> (of_char c :: nat) \<le> 57"

definition digit_value :: "char \<Rightarrow> nat" where
  "digit_value c = of_char c - 48"

fun to_string :: "nat \<Rightarrow> string" where
  "to_string n =
     (if n < 10 then [digit_char n] else to_string (n div 10) @ [digit_char (n mod 10)])"

declare to_string.simps [simp del]

definition is_space :: "char \<Rightarrow> bool" where
  "is_space c \<longleftrightarrow> (of_char c :: nat) = 32 \<or> 9 \<le> (of_char c :: nat) \<and> (of_char c :: nat) \<le> 13"

definition digits_value :: "string \<Rightarrow> nat" where
  "digits_value ds = foldl (\<lambda>acc c. 10 * acc + digit_value c) 0 ds"

datatype std_exception = Invalid_argument | Out_of_range

text \<open>
  \<open>std::stoull\<close> in base 10: white space, an optional sign, the longest run of digits; no digit
  is \<open>invalid_argument\<close>, a magnitude above \<open>2\<^sup>6\<^sup>4 - 1\<close> is \<open>out_of_range\<close>, a minus sign negates the
  unsigned result, and what follows the digits is ignored.
\<close>

definition stoull :: "string \<Rightarrow> std_exception + u64" where
  "stoull s =
     (let t = dropWhile is_space s;
          neg = (t \<noteq> [] \<and> hd t = CHR ''-'');
          u = (if t \<noteq> [] \<and> (hd t = CHR ''-'' \<or> hd t = CHR ''+'') then tl t else t);
          ds = takeWhile is_digit u;
          v = digits_value ds
      in if ds = [] then Inl Invalid_argument
         else if 2 ^ 64 \<le> v then Inl Out_of_range
         else Inr (if neg then - of_nat v else of_nat v))"

lemma of_char_digit_char: "d < 10 \<Longrightarrow> (of_char (digit_char d) :: nat) = 48 + d"
  by (simp add: digit_char_def)

lemma digit_char_facts:
  assumes "d < 10"
  shows "is_digit (digit_char d)" and "digit_value (digit_char d) = d"
    and "\<not> is_space (digit_char d)" and "digit_char d \<noteq> CHR ''-''"
    and "digit_char d \<noteq> CHR ''+''" and "digit_char d \<noteq> CHR 0x0A"
proof -
  have v: "(of_char (digit_char d) :: nat) = 48 + d" using assms by (rule of_char_digit_char)
  show "is_digit (digit_char d)" "digit_value (digit_char d) = d" "\<not> is_space (digit_char d)"
    using v assms by (auto simp: is_digit_def digit_value_def is_space_def)
  show "digit_char d \<noteq> CHR ''-''" "digit_char d \<noteq> CHR ''+''" "digit_char d \<noteq> CHR 0x0A"
    using v by auto
qed

lemma to_string_nonempty [simp]: "to_string n \<noteq> []"
  by (subst to_string.simps) simp

lemma to_string_digits:
  "\<forall>c \<in> set (to_string n). is_digit c \<and> \<not> is_space c \<and> c \<noteq> CHR ''-'' \<and> c \<noteq> CHR ''+'' \<and> c \<noteq> CHR 0x0A"
proof (induction n rule: to_string.induct)
  case (1 n)
  show ?case
  proof (cases "n < 10")
    case True
    then show ?thesis by (subst to_string.simps) (simp add: digit_char_facts)
  next
    case False
    with "1.IH" show ?thesis
      by (subst to_string.simps) (auto simp: digit_char_facts)
  qed
qed

lemma digits_value_to_string: "digits_value (to_string n) = n"
proof (induction n rule: to_string.induct)
  case (1 n)
  show ?case
  proof (cases "n < 10")
    case True
    then show ?thesis
      by (subst to_string.simps) (simp add: digits_value_def digit_char_facts)
  next
    case False
    with "1.IH" show ?thesis
      by (subst to_string.simps) (simp add: digits_value_def digit_char_facts)
  qed
qed

lemma stoull_to_string:
  assumes "n < 2 ^ 64"
  shows "stoull (to_string n) = Inr (of_nat n)"
proof -
  obtain c cs where s: "to_string n = c # cs" by (meson neq_Nil_conv to_string_nonempty)
  have c: "\<not> is_space c" "c \<noteq> CHR ''-''" "c \<noteq> CHR ''+''" and all: "\<forall>x \<in> set (c # cs). is_digit x"
    using to_string_digits [of n] s by auto
  have "takeWhile is_digit (c # cs) = c # cs" using all by (simp add: takeWhile_eq_all_conv)
  then show ?thesis
    using c assms digits_value_to_string [of n] s by (simp add: stoull_def Let_def)
qed

lemma stoull_to_string_unat [simp]: "stoull (to_string (unat (w :: u64))) = Inr w"
  using stoull_to_string [OF unat_u64_less, of w] by simp

subsection \<open>std::getline\<close>

text \<open>
  \<open>getline\<close> on a string stream: the text up to the next newline, which is removed. It fails when
  nothing is left to read.
\<close>

definition newline :: char where
  "newline = CHR 0x0A"

definition getline :: "string \<Rightarrow> (string \<times> string) option" where
  "getline s =
     (if s = [] then None
      else Some (takeWhile (\<lambda>c. c \<noteq> newline) s, tl (dropWhile (\<lambda>c. c \<noteq> newline) s)))"

lemma getline_line:
  assumes "newline \<notin> set l"
  shows "getline (l @ newline # rest) = Some (l, rest)"
proof -
  have all: "\<forall>c \<in> set l. c \<noteq> newline" using assms by auto
  show ?thesis
    using all by (auto simp: getline_def takeWhile_append dropWhile_append)
qed

lemma newline_notin_to_string [simp]: "newline \<notin> set (to_string n)"
  using to_string_digits [of n] by (auto simp: newline_def)

section \<open>Transition systems\<close>

text \<open>
  The components that several threads share are modelled by the atomic steps they take under their
  mutex. A state is reachable when some interleaving of steps leads to it from an initial state; the
  contract \<open>machine\<close> is that an invariant holds initially and is kept by every step.
\<close>

inductive reachable :: "('s \<Rightarrow> bool) \<Rightarrow> ('s \<Rightarrow> 's \<Rightarrow> bool) \<Rightarrow> 's \<Rightarrow> bool" for init step where
  start: "init s \<Longrightarrow> reachable init step s"
| advance: "reachable init step s \<Longrightarrow> step s t \<Longrightarrow> reachable init step t"

locale machine =
  fixes init :: "'s \<Rightarrow> bool" and step :: "'s \<Rightarrow> 's \<Rightarrow> bool" and inv :: "'s \<Rightarrow> bool"
  assumes inv_init: "init s \<Longrightarrow> inv s"
    and inv_step: "inv s \<Longrightarrow> step s t \<Longrightarrow> inv t"
begin

lemma reachable_inv: "reachable init step s \<Longrightarrow> inv s"
  by (induction rule: reachable.induct) (auto intro: inv_init inv_step)

lemma steps_inv: "step\<^sup>*\<^sup>* s t \<Longrightarrow> inv s \<Longrightarrow> inv t"
  by (induction rule: rtranclp_induct) (auto intro: inv_step)

end

end
