(* ===== verification/Sha256.thy ===== *)
theory Sha256
  imports Dage_Prelude
begin

text \<open>
  Model of \<open>src/sha256.cpp\<close>: the digest that names workflows, bundles, state records and trace
  buckets. Every \<open>std::uint32_t\<close> is a 32-bit word, so additions wrap as they do in the code; the
  message schedule and the round loop are the loops of \<open>sha256_digest\<close>. The lemmas show that
  padding ends at a block boundary, that the schedule loop computes the recurrence of FIPS 180-4,
  that \<open>rotr\<close> is rotation, and that the text of every digest is \<open>sha256:\<close> and 64 lower-case
  hexadecimal digits.
\<close>

unbundle bit_operations_syntax

subsection \<open>The code\<close>

definition rotr :: "u32 \<Rightarrow> nat \<Rightarrow> u32" where
  "rotr value bits = drop_bit bits value OR push_bit (32 - bits) value"

definition k_table :: "u32 list" where
  "k_table = concat [
    [0x428a2f98, 0x71374491, 0xb5c0fbcf, 0xe9b5dba5, 0x3956c25b, 0x59f111f1, 0x923f82a4, 0xab1c5ed5],
    [0xd807aa98, 0x12835b01, 0x243185be, 0x550c7dc3, 0x72be5d74, 0x80deb1fe, 0x9bdc06a7, 0xc19bf174],
    [0xe49b69c1, 0xefbe4786, 0x0fc19dc6, 0x240ca1cc, 0x2de92c6f, 0x4a7484aa, 0x5cb0a9dc, 0x76f988da],
    [0x983e5152, 0xa831c66d, 0xb00327c8, 0xbf597fc7, 0xc6e00bf3, 0xd5a79147, 0x06ca6351, 0x14292967],
    [0x27b70a85, 0x2e1b2138, 0x4d2c6dfc, 0x53380d13, 0x650a7354, 0x766a0abb, 0x81c2c92e, 0x92722c85],
    [0xa2bfe8a1, 0xa81a664b, 0xc24b8b70, 0xc76c51a3, 0xd192e819, 0xd6990624, 0xf40e3585, 0x106aa070],
    [0x19a4c116, 0x1e376c08, 0x2748774c, 0x34b0bcb5, 0x391c0cb3, 0x4ed8aa4a, 0x5b9cca4f, 0x682e6ff3],
    [0x748f82ee, 0x78a5636f, 0x84c87814, 0x8cc70208, 0x90befffa, 0xa4506ceb, 0xbef9a3f7, 0xc67178f2]]"

definition h_init :: "u32 list" where
  "h_init = [0x6a09e667, 0xbb67ae85, 0x3c6ef372, 0xa54ff53a,
             0x510e527f, 0x9b05688c, 0x1f83d9ab, 0x5be0cd19]"

function pad_zeros :: "u8 list \<Rightarrow> u8 list" where
  "pad_zeros data = (if length data mod 64 = 56 then data else pad_zeros (data @ [0]))"
  by pat_completeness auto
termination
  by (relation "measure (\<lambda>data. let r = length data mod 64 in if r \<le> 56 then 56 - r else 120 - r)")
    (auto simp: Let_def mod_Suc)

declare pad_zeros.simps [simp del]

definition size_bytes :: "u64 \<Rightarrow> u8 list" where
  "size_bytes bit_size = map (\<lambda>i. ucast (drop_bit (i * 8) bit_size)) [7, 6, 5, 4, 3, 2, 1, 0]"

definition pad_message :: "u8 list \<Rightarrow> u8 list" where
  "pad_message data = pad_zeros (data @ [0x80]) @ size_bytes (of_nat (length data) * 8)"

definition load_word :: "u8 list \<Rightarrow> nat \<Rightarrow> u32" where
  "load_word data p =
     push_bit 24 (ucast (data ! p)) OR push_bit 16 (ucast (data ! (p + 1))) OR
     push_bit 8 (ucast (data ! (p + 2))) OR ucast (data ! (p + 3))"

definition schedule_next :: "u32 list \<Rightarrow> u32 list" where
  "schedule_next w =
     (let i = length w;
          s0 = rotr (w ! (i - 15)) 7 XOR rotr (w ! (i - 15)) 18 XOR drop_bit 3 (w ! (i - 15));
          s1 = rotr (w ! (i - 2)) 17 XOR rotr (w ! (i - 2)) 19 XOR drop_bit 10 (w ! (i - 2))
      in w @ [w ! (i - 16) + s0 + w ! (i - 7) + s1])"

definition schedule :: "u8 list \<Rightarrow> nat \<Rightarrow> u32 list" where
  "schedule data offset =
     (schedule_next ^^ 48) (map (\<lambda>i. load_word data (offset + i * 4)) [0..<16])"

type_synonym working = "u32 \<times> u32 \<times> u32 \<times> u32 \<times> u32 \<times> u32 \<times> u32 \<times> u32"

fun compress_round :: "u32 list \<Rightarrow> working \<Rightarrow> nat \<Rightarrow> working" where
  "compress_round w (a, b, c, d, e, f, g, hh) i =
     (let s1 = rotr e 6 XOR rotr e 11 XOR rotr e 25;
          ch = (e AND f) XOR (NOT e AND g);
          t1 = hh + s1 + ch + k_table ! i + w ! i;
          s0 = rotr a 2 XOR rotr a 13 XOR rotr a 22;
          maj = (a AND b) XOR (a AND c) XOR (b AND c);
          t2 = s0 + maj
      in (t1 + t2, a, b, c, d + t1, e, f, g))"

fun working_of :: "u32 list \<Rightarrow> working" where
  "working_of h = (h ! 0, h ! 1, h ! 2, h ! 3, h ! 4, h ! 5, h ! 6, h ! 7)"

fun list_of_working :: "working \<Rightarrow> u32 list" where
  "list_of_working (a, b, c, d, e, f, g, hh) = [a, b, c, d, e, f, g, hh]"

definition compress_block :: "u8 list \<Rightarrow> u32 list \<Rightarrow> nat \<Rightarrow> u32 list" where
  "compress_block data h offset =
     (let w = schedule data offset
      in map2 (+) h (list_of_working (foldl (compress_round w) (working_of h) [0..<64])))"

definition sha256_words :: "u8 list \<Rightarrow> u32 list" where
  "sha256_words input =
     (let data = pad_message input
      in foldl (compress_block data) h_init (map (\<lambda>b. b * 64) [0..<length data div 64]))"

definition hex_char :: "nat \<Rightarrow> char" where
  "hex_char n = (if n < 10 then char_of (48 + n) else char_of (87 + n))"

definition hex8 :: "u32 \<Rightarrow> string" where
  "hex8 value = map (\<lambda>i. hex_char (unat (drop_bit (4 * i) value AND 15))) [7, 6, 5, 4, 3, 2, 1, 0]"

definition bytes_of_string :: "string \<Rightarrow> u8 list" where
  "bytes_of_string s = map (\<lambda>c. of_nat (of_char c)) s"

definition sha256_digest :: "string \<Rightarrow> string" where
  "sha256_digest input =
     ''sha256:'' @ concat (map hex8 (sha256_words (bytes_of_string input)))"

subsection \<open>Padding\<close>

lemma pad_zeros_length_mod: "length (pad_zeros data) mod 64 = 56"
  by (induction data rule: pad_zeros.induct) (subst pad_zeros.simps, simp)

lemma pad_zeros_prefix: "\<exists>n. pad_zeros data = data @ replicate n 0"
proof (induction data rule: pad_zeros.induct)
  case (1 data)
  show ?case
  proof (cases "length data mod 64 = 56")
    case True
    then show ?thesis by (subst pad_zeros.simps) (simp add: exI [of _ 0])
  next
    case False
    with "1.IH" obtain n where "pad_zeros (data @ [0]) = (data @ [0]) @ replicate n 0" by blast
    with False have "pad_zeros data = data @ replicate (Suc n) 0"
      by (subst pad_zeros.simps) simp
    then show ?thesis ..
  qed
qed

lemma pad_message_blocks: "length (pad_message data) mod 64 = 0"
proof -
  have "length (pad_message data) = length (pad_zeros (data @ [0x80])) + 8"
    by (simp add: pad_message_def size_bytes_def)
  then show ?thesis using pad_zeros_length_mod [of "data @ [0x80]"] by presburger
qed

lemma pad_message_prefix: "take (length data) (pad_message data) = data"
  using pad_zeros_prefix [of "data @ [0x80]"] by (auto simp: pad_message_def)

subsection \<open>Rotation\<close>

lemma rotr_word_rotr:
  assumes "0 < bits" and "bits < 32"
  shows "rotr value bits = word_rotr bits value"
proof (rule bit_word_eqI)
  fix n
  assume n: "n < LENGTH(32)"
  have "(n + bits) mod 32 = (if n + bits < 32 then n + bits else n + bits - 32)"
    using assms n by (simp add: mod_if)
  then show "bit (rotr value bits) n \<longleftrightarrow> bit (word_rotr bits value) n"
    using assms n
    by (auto simp: rotr_def bit_word_rotr_iff bit_or_iff bit_drop_bit_eq bit_push_bit_iff
        add.commute dest: bit_imp_le_length split: if_splits)
qed

subsection \<open>The message schedule\<close>

text \<open>The recurrence of FIPS 180-4, section 6.2.2, over the sixteen words of a block.\<close>

fun fips_W :: "(nat \<Rightarrow> u32) \<Rightarrow> nat \<Rightarrow> u32" where
  "fips_W m t =
     (if t < 16 then m t
      else (word_rotr 17 (fips_W m (t - 2)) XOR word_rotr 19 (fips_W m (t - 2)) XOR
              drop_bit 10 (fips_W m (t - 2))) + fips_W m (t - 7) +
           (word_rotr 7 (fips_W m (t - 15)) XOR word_rotr 18 (fips_W m (t - 15)) XOR
              drop_bit 3 (fips_W m (t - 15))) + fips_W m (t - 16))"

declare fips_W.simps [simp del]

lemma schedule_next_fips:
  assumes "w = map (fips_W m) [0..<n]" and "16 \<le> n"
  shows "schedule_next w = map (fips_W m) [0..<Suc n]"
proof -
  have len: "length w = n" using assms by simp
  have nth: "w ! i = fips_W m i" if "i < n" for i using assms that by simp
  show ?thesis
    using assms(2) len
    by (simp add: schedule_next_def Let_def nth rotr_word_rotr fips_W.simps [of m n] assms(1)
        add.assoc add.commute add.left_commute)
qed

lemma schedule_iterate_fips:
  "(schedule_next ^^ j) (map (fips_W m) [0..<16]) = map (fips_W m) [0..<16 + j]"
proof (induction j)
  case (Suc j)
  then show ?case using schedule_next_fips [of _ m "16 + j"] by simp
qed simp

lemma schedule_fips:
  "schedule data offset = map (fips_W (\<lambda>i. load_word data (offset + i * 4))) [0..<64]"
proof -
  let ?m = "\<lambda>i. load_word data (offset + i * 4)"
  have start: "map ?m [0..<16] = map (fips_W ?m) [0..<16]" by (simp add: fips_W.simps)
  have "(schedule_next ^^ 48) (map (fips_W ?m) [0..<16]) = map (fips_W ?m) [0..<64]"
    using schedule_iterate_fips [of 48 ?m] by simp
  then show ?thesis unfolding schedule_def start .
qed

subsection \<open>The digest text\<close>

lemma length_list_of_working [simp]: "length (list_of_working t) = 8"
  by (cases t rule: list_of_working.cases) simp

lemma length_compress_block: "length h = 8 \<Longrightarrow> length (compress_block data h offset) = 8"
  by (simp add: compress_block_def Let_def)

lemma length_fold_blocks: "length h = 8 \<Longrightarrow> length (foldl (compress_block data) h offs) = 8"
  by (induction offs arbitrary: h) (simp_all add: length_compress_block)

lemma length_sha256_words [simp]: "length (sha256_words input) = 8"
  by (simp add: sha256_words_def Let_def length_fold_blocks h_init_def)

lemma length_concat_hex8: "length (concat (map hex8 ws)) = 8 * length ws"
  by (induction ws) (simp_all add: hex8_def)

definition lower_hex :: "char \<Rightarrow> bool" where
  "lower_hex c \<longleftrightarrow> CHR ''0'' \<le> c \<and> c \<le> CHR ''9'' \<or> CHR ''a'' \<le> c \<and> c \<le> CHR ''f''"

lemma lower_hex_hex_char: "n < 16 \<Longrightarrow> lower_hex (hex_char n)"
  by (auto simp: lower_hex_def hex_char_def less_eq_char_def)

lemma unat_nibble_less: "unat ((w :: u32) AND 15) < 16"
  using word_and_le1 [of w 15] by (simp add: word_le_nat_alt)

lemma hex8_lower: "\<forall>c \<in> set (hex8 w). lower_hex c"
  by (simp add: hex8_def lower_hex_hex_char unat_nibble_less)

lemma length_sha256_digest [simp]: "length (sha256_digest s) = 71"
  by (simp add: sha256_digest_def length_concat_hex8)

lemma sha256_digest_shape:
  "\<exists>hex. sha256_digest s = ''sha256:'' @ hex \<and> length hex = 64 \<and> (\<forall>c \<in> set hex. lower_hex c)"
  using hex8_lower by (auto simp: sha256_digest_def length_concat_hex8)

lemma newline_notin_sha256_digest [simp]: "newline \<notin> set (sha256_digest s)"
proof
  assume "newline \<in> set (sha256_digest s)"
  with sha256_digest_shape [of s] have "lower_hex newline \<or> newline \<in> set ''sha256:''" by auto
  then show False by (auto simp: lower_hex_def newline_def less_eq_char_def)
qed

end
