(* ===== verification/State_Store.thy ===== *)
theory State_Store
  imports Sha256
begin

text \<open>
  Model of \<open>src/reliability.cpp\<close> and \<open>include/dage/reliability.hpp\<close>: the cancellation token, the
  in-memory state store and the durable file store.

  A store directory is a sorted map from file names to contents. What the operating system decides
  is an argument: whether the lock is obtained, whether a file can be opened, at which point of
  \<open>atomic_write\<close> the write stops, and whether the temporary file is removed then (\<open>io_env\<close>). The POSIX
  branches of the source are modelled.

  The locale \<open>versioned_store\<close> is the contract the engine relies on: compare-and-exchange and claim
  succeed only against the expected version and then advance it by one, \<open>put\<close> advances it without a
  condition, \<open>erase\<close> restarts it. Both stores are interpretations of it, so that the protocol lemmas proved once (no lost update, fencing of a
  displaced owner, the version counts the installed writes) hold for both.
\<close>

subsection \<open>CancellationToken\<close>

record cancellation_token =
  ct_cancelled :: bool
  ct_reason :: string

definition new_token :: cancellation_token where
  "new_token = \<lparr>ct_cancelled = False, ct_reason = []\<rparr>"

definition request_cancel :: "string \<Rightarrow> cancellation_token \<Rightarrow> cancellation_token" where
  "request_cancel reason t =
     t\<lparr>ct_reason := (if ct_reason t = [] then reason else ct_reason t), ct_cancelled := True\<rparr>"

lemma request_cancel_first_reason:
  "ct_reason t \<noteq> [] \<Longrightarrow> ct_reason (request_cancel r t) = ct_reason t"
  by (simp add: request_cancel_def)

subsection \<open>State records\<close>

record StateRecord =
  sr_version :: u64
  sr_epoch :: u64
  sr_owner :: string
  sr_checkpoint :: string

definition default_record :: StateRecord where
  "default_record = \<lparr>sr_version = 0, sr_epoch = 0, sr_owner = [], sr_checkpoint = []\<rparr>"

definition state_error :: "string \<Rightarrow> string \<Rightarrow> err" where
  "state_error c m = \<lparr>err_category = ''state_store'', err_code = c, err_message = m, err_retryable = False\<rparr>"

subsection \<open>MemoryStateStore\<close>

type_synonym memory_store = "(string, StateRecord) smap"

text \<open>\<open>states_[run_id]\<close> inserts a default record when the key is missing.\<close>

definition mem_slot :: "memory_store \<Rightarrow> string \<Rightarrow> StateRecord" where
  "mem_slot m run_id = (case sm_get m run_id of None \<Rightarrow> default_record | Some r \<Rightarrow> r)"

definition mem_put :: "memory_store \<Rightarrow> string \<Rightarrow> string \<Rightarrow> memory_store \<times> bool result" where
  "mem_put m run_id cp =
     (if run_id = [] then (m, Inl (state_error ''INVALID_RUN_ID'' ''run id is empty''))
      else let r = mem_slot m run_id
           in (sm_put run_id (r\<lparr>sr_version := sr_version r + 1, sr_checkpoint := cp\<rparr>) m, Inr True))"

definition mem_load :: "memory_store \<Rightarrow> string \<Rightarrow> StateRecord result" where
  "mem_load m run_id =
     (case sm_get m run_id of
        None \<Rightarrow> Inl (state_error ''STATE_NOT_FOUND'' (''run state not found: '' @ run_id))
      | Some r \<Rightarrow> Inr r)"

definition mem_get :: "memory_store \<Rightarrow> string \<Rightarrow> string result" where
  "mem_get m run_id =
     (case sm_get m run_id of
        None \<Rightarrow> Inl (state_error ''STATE_NOT_FOUND'' (''run state not found: '' @ run_id))
      | Some r \<Rightarrow> Inr (sr_checkpoint r))"

definition mem_erase :: "memory_store \<Rightarrow> string \<Rightarrow> memory_store \<times> bool result" where
  "mem_erase m run_id = (sm_del run_id m, Inr (sm_has m run_id))"

definition mem_compare_exchange ::
  "memory_store \<Rightarrow> string \<Rightarrow> u64 \<Rightarrow> string \<Rightarrow> memory_store \<times> u64 result" where
  "mem_compare_exchange m run_id expected cp =
     (let r = mem_slot m run_id; m' = sm_put run_id r m
      in if sr_version r \<noteq> expected
         then (m', Inl (state_error ''STATE_CONFLICT'' ''state version conflict''))
         else (sm_put run_id (r\<lparr>sr_version := sr_version r + 1, sr_checkpoint := cp\<rparr>) m',
               Inr (sr_version r + 1)))"

definition mem_claim ::
  "memory_store \<Rightarrow> string \<Rightarrow> u64 \<Rightarrow> string \<Rightarrow> memory_store \<times> StateRecord result" where
  "mem_claim m run_id expected owner =
     (case sm_get m run_id of
        None \<Rightarrow> (m, Inl (state_error ''STATE_NOT_FOUND'' ''run state not found''))
      | Some r \<Rightarrow>
          if sr_version r \<noteq> expected
          then (m, Inl (state_error ''STATE_CONFLICT'' ''recovery ownership conflict''))
          else let r' = r\<lparr>sr_version := sr_version r + 1, sr_epoch := sr_epoch r + 1, sr_owner := owner\<rparr>
               in (sm_put run_id r' m, Inr r'))"

definition mem_list :: "memory_store \<Rightarrow> string \<Rightarrow> string list result" where
  "mem_list m prefix = Inr (filter (\<lambda>k. take (length prefix) k = prefix) (sm_keys m))"

subsection \<open>The record file format\<close>

datatype exc = Runtime_error string | Std_exception std_exception

text \<open>\<open>what()\<close> of an exception; for \<open>std::stoull\<close> the text the standard library gives is the
  name of the function.\<close>

fun what :: "exc \<Rightarrow> string" where
  "what (Runtime_error m) = m"
| "what (Std_exception _) = ''stoull''"

definition valid_run_id :: "string \<Rightarrow> bool" where
  "valid_run_id value \<longleftrightarrow>
     value \<noteq> [] \<and> value \<noteq> ''.'' \<and> value \<noteq> ''..'' \<and>
     list_all (\<lambda>c. (CHR ''a'' \<le> c \<and> c \<le> CHR ''z'') \<or> (CHR ''A'' \<le> c \<and> c \<le> CHR ''Z'') \<or>
                   (CHR ''0'' \<le> c \<and> c \<le> CHR ''9'') \<or> c = CHR ''-'' \<or> c = CHR ''_'') value"

definition record_magic :: string where
  "record_magic = ''DAGESTATE1''"

text \<open>\<open>std::string::size\<close> is a 64-bit \<open>std::size_t\<close>.\<close>

definition string_size :: "string \<Rightarrow> u64" where
  "string_size s = of_nat (length s)"

definition encode_record :: "StateRecord \<Rightarrow> string" where
  "encode_record r =
     record_magic @ newline # to_string (unat (sr_version r)) @ newline #
     to_string (unat (sr_epoch r)) @ newline # sr_owner r @ newline #
     to_string (unat (string_size (sr_checkpoint r))) @ newline #
     sha256_digest (sr_checkpoint r) @ newline # sr_checkpoint r"

fun getlines :: "nat \<Rightarrow> string \<Rightarrow> (string list \<times> string) option" where
  "getlines 0 s = Some ([], s)"
| "getlines (Suc n) s =
     (case getline s of
        None \<Rightarrow> None
      | Some (l, rest) \<Rightarrow>
          (case getlines n rest of None \<Rightarrow> None | Some (ls, rest') \<Rightarrow> Some (l # ls, rest')))"

definition decode_record :: "string \<Rightarrow> exc + StateRecord" where
  "decode_record bytes =
     (case getlines 6 bytes of
        Some ([magic, version, epoch, owner, len, checksum], rest) \<Rightarrow>
          if magic \<noteq> record_magic then Inl (Runtime_error ''invalid state record header'')
          else (case stoull version of
              Inl e \<Rightarrow> Inl (Std_exception e)
            | Inr v \<Rightarrow> (case stoull epoch of
                Inl e \<Rightarrow> Inl (Std_exception e)
              | Inr ep \<Rightarrow> (case stoull len of
                  Inl e \<Rightarrow> Inl (Std_exception e)
                | Inr n \<Rightarrow>
                    if string_size rest \<noteq> n
                    then Inl (Runtime_error ''state record length mismatch'')
                    else if sha256_digest rest \<noteq> checksum
                    then Inl (Runtime_error ''state record checksum mismatch'')
                    else Inr \<lparr>sr_version = v, sr_epoch = ep, sr_owner = owner, sr_checkpoint = rest\<rparr>)))
      | _ \<Rightarrow> Inl (Runtime_error ''invalid state record header''))"

subsection \<open>The state directory and atomic replacement\<close>

type_synonym files = "(string, string) smap"

text \<open>
  What the operating system decides in one call: whether the lock file could be opened and locked
  within the 500 attempts, whether the record can be opened for reading, where the atomic write
  fails (a failed flush leaves some first bytes in the temporary file), the suffix of the temporary
  name, whether the removal in \<open>TemporaryCleanup\<close> works, whose error is ignored, and the error of the
  removal in \<open>erase\<close>.
\<close>

datatype lock_outcome = Locked | Busy | Unopened

datatype write_fault =
  NoFault | CreateFails | FlushFails nat | SyncFails | RenameFails | DirSyncFails

record io_env =
  io_lock :: lock_outcome
  io_open :: bool
  io_fault :: write_fault
  io_temp :: string
  io_cleaned :: bool
  io_remove_error :: "string option"

definition state_path :: "string \<Rightarrow> string" where
  "state_path run_id = run_id @ ''.state''"

definition lock_path :: "string \<Rightarrow> string" where
  "lock_path run_id = run_id @ ''.lock''"

text \<open>\<open>DirectoryLock\<close>: the lock file is created by the first \<open>open(O_CREAT)\<close> that succeeds and stays;
  after 500 attempts the constructor throws.\<close>

definition directory_lock :: "io_env \<Rightarrow> files \<Rightarrow> string \<Rightarrow> files \<times> (exc + unit)" where
  "directory_lock env fs path =
     (let fs' = (if sm_has fs path then fs else sm_put path [] fs)
      in case io_lock env of
           Locked \<Rightarrow> (fs', Inr ())
         | Busy \<Rightarrow> (fs', Inl (Runtime_error ''state store lock timeout''))
         | Unopened \<Rightarrow> (fs, Inl (Runtime_error ''state store lock timeout'')))"

definition read_file :: "io_env \<Rightarrow> files \<Rightarrow> string \<Rightarrow> exc + string" where
  "read_file env fs path =
     (case sm_get fs path of
        None \<Rightarrow> Inl (Runtime_error ''state record not found'')
      | Some c \<Rightarrow> if io_open env then Inr c else Inl (Runtime_error ''state record not found''))"

text \<open>
  The content is written to a temporary file that is renamed over the record. \<open>TemporaryCleanup\<close>
  removes the temporary when an exception leaves the function, and ignores an error of that removal;
  once the rename has happened there is nothing left to remove, and a failure to flush the directory
  is reported with the new record in place.
\<close>

definition atomic_write :: "io_env \<Rightarrow> files \<Rightarrow> string \<Rightarrow> string \<Rightarrow> files \<times> (exc + unit)" where
  "atomic_write env fs path content =
     (let temporary = path @ ''.tmp.'' @ io_temp env;
          cleanup = (\<lambda>d. if io_cleaned env then sm_del temporary d else d);
          written = sm_put temporary content fs;
          renamed = sm_put path content (sm_del temporary written)
      in case io_fault env of
           CreateFails \<Rightarrow>
             (cleanup fs, Inl (Runtime_error ''cannot create temporary state record''))
         | FlushFails n \<Rightarrow>
             (cleanup (sm_put temporary (take n content) fs),
              Inl (Runtime_error ''cannot flush state record''))
         | SyncFails \<Rightarrow>
             (cleanup written, Inl (Runtime_error ''cannot durably flush state record''))
         | RenameFails \<Rightarrow>
             (cleanup written, Inl (Runtime_error ''cannot atomically replace state record''))
         | DirSyncFails \<Rightarrow>
             (cleanup renamed, Inl (Runtime_error ''cannot durably flush state directory''))
         | NoFault \<Rightarrow> (renamed, Inr ()))"

subsection \<open>FileStateStore\<close>

definition io_error :: "exc \<Rightarrow> err" where
  "io_error e = state_error ''STATE_IO_ERROR'' (what e)"

definition file_load :: "io_env \<Rightarrow> files \<Rightarrow> string \<Rightarrow> StateRecord result" where
  "file_load env fs run_id =
     (if \<not> valid_run_id run_id then Inl (state_error ''INVALID_RUN_ID'' ''invalid run id'')
      else if \<not> sm_has fs (state_path run_id)
      then Inl (state_error ''STATE_NOT_FOUND'' ''state record not found'')
      else case read_file env fs (state_path run_id) of
             Inl e \<Rightarrow> Inl (state_error ''STATE_CORRUPT'' (what e))
           | Inr bytes \<Rightarrow>
               (case decode_record bytes of
                  Inl e \<Rightarrow> Inl (state_error ''STATE_CORRUPT'' (what e))
                | Inr r \<Rightarrow> Inr r))"

definition file_get :: "io_env \<Rightarrow> files \<Rightarrow> string \<Rightarrow> string result" where
  "file_get env fs run_id =
     (case file_load env fs run_id of Inl e \<Rightarrow> Inl e | Inr r \<Rightarrow> Inr (sr_checkpoint r))"

text \<open>The record read under the lock: a missing file counts as version zero.\<close>

definition read_current :: "io_env \<Rightarrow> files \<Rightarrow> string \<Rightarrow> exc + StateRecord" where
  "read_current env fs run_id =
     (if sm_has fs (state_path run_id)
      then (case read_file env fs (state_path run_id) of
              Inl e \<Rightarrow> Inl e | Inr bytes \<Rightarrow> decode_record bytes)
      else Inr default_record)"

definition file_compare_exchange ::
  "io_env \<Rightarrow> files \<Rightarrow> string \<Rightarrow> u64 \<Rightarrow> string \<Rightarrow> files \<times> u64 result" where
  "file_compare_exchange env fs run_id expected cp =
     (if \<not> valid_run_id run_id then (fs, Inl (state_error ''INVALID_RUN_ID'' ''invalid run id''))
      else case directory_lock env fs (lock_path run_id) of
             (fs1, Inl e) \<Rightarrow> (fs1, Inl (io_error e))
           | (fs1, Inr _) \<Rightarrow>
               (case read_current env fs1 run_id of
                  Inl e \<Rightarrow> (fs1, Inl (io_error e))
                | Inr old \<Rightarrow>
                    if sr_version old \<noteq> expected
                    then (fs1, Inl (state_error ''STATE_CONFLICT'' ''state version conflict''))
                    else (case atomic_write env fs1 (state_path run_id)
                                 (encode_record \<lparr>sr_version = sr_version old + 1, sr_epoch = sr_epoch old,
                                                 sr_owner = sr_owner old, sr_checkpoint = cp\<rparr>) of
                            (fs2, Inl e) \<Rightarrow> (fs2, Inl (io_error e))
                          | (fs2, Inr _) \<Rightarrow> (fs2, Inr (sr_version old + 1)))))"

definition file_claim ::
  "io_env \<Rightarrow> files \<Rightarrow> string \<Rightarrow> u64 \<Rightarrow> string \<Rightarrow> files \<times> StateRecord result" where
  "file_claim env fs run_id expected owner =
     (if \<not> valid_run_id run_id \<or> \<not> valid_run_id owner
      then (fs, Inl (state_error ''INVALID_OWNER'' ''invalid recovery owner''))
      else case directory_lock env fs (lock_path run_id) of
             (fs1, Inl e) \<Rightarrow> (fs1, Inl (io_error e))
           | (fs1, Inr _) \<Rightarrow>
               (case read_file env fs1 (state_path run_id) of
                  Inl e \<Rightarrow> (fs1, Inl (io_error e))
                | Inr bytes \<Rightarrow>
                    (case decode_record bytes of
                       Inl e \<Rightarrow> (fs1, Inl (io_error e))
                     | Inr r \<Rightarrow>
                         if sr_version r \<noteq> expected
                         then (fs1, Inl (state_error ''STATE_CONFLICT'' ''recovery ownership conflict''))
                         else let r' = r\<lparr>sr_version := sr_version r + 1, sr_epoch := sr_epoch r + 1,
                                         sr_owner := owner\<rparr>
                              in (case atomic_write env fs1 (state_path run_id) (encode_record r') of
                                    (fs2, Inl e) \<Rightarrow> (fs2, Inl (io_error e))
                                  | (fs2, Inr _) \<Rightarrow> (fs2, Inr r')))))"

text \<open>\<open>path::extension\<close> and \<open>path::stem\<close>: the last dot splits the name unless it is the first
  character.\<close>

definition path_extension :: "string \<Rightarrow> string" where
  "path_extension name =
     (let r = rev name; e = takeWhile (\<lambda>c. c \<noteq> CHR ''.'') r
      in if length e + 1 < length name \<and> name \<noteq> ''..'' then CHR ''.'' # rev e else [])"

definition path_stem :: "string \<Rightarrow> string" where
  "path_stem name = take (length name - length (path_extension name)) name"

definition file_list :: "files \<Rightarrow> string \<Rightarrow> string list result" where
  "file_list fs prefix =
     Inr (sort (filter (\<lambda>i. take (length prefix) i = prefix)
                 (map path_stem (filter (\<lambda>n. path_extension n = ''.state'') (sm_keys fs)))))"

definition file_erase :: "io_env \<Rightarrow> files \<Rightarrow> string \<Rightarrow> files \<times> bool result" where
  "file_erase env fs run_id =
     (if \<not> valid_run_id run_id then (fs, Inl (state_error ''INVALID_RUN_ID'' ''invalid run id''))
      else case directory_lock env fs (lock_path run_id) of
             (fs1, Inl e) \<Rightarrow> (fs1, Inl (io_error e))
           | (fs1, Inr _) \<Rightarrow>
               (case io_remove_error env of
                  Some m \<Rightarrow> (fs1, Inl (state_error ''STATE_IO_ERROR'' m))
                | None \<Rightarrow> (sm_del (state_path run_id) fs1, Inr (sm_has fs1 (state_path run_id)))))"

text \<open>
  \<open>FileStateStore::put\<close> reads without the lock and retries its compare-and-exchange: other processes
  may act before the read and between the read and the exchange of every attempt.
\<close>

record put_env =
  pe_before :: "files \<Rightarrow> files"
  pe_between :: "files \<Rightarrow> files"
  pe_io :: io_env

fun file_put_loop :: "nat \<Rightarrow> (nat \<Rightarrow> put_env) \<Rightarrow> files \<Rightarrow> string \<Rightarrow> string \<Rightarrow> files \<times> bool result" where
  "file_put_loop 0 envs fs run_id cp =
     (fs, Inl (state_error ''STATE_CONFLICT'' ''state update retries exhausted''))"
| "file_put_loop (Suc n) envs fs run_id cp =
     (let env = envs n;
          fs1 = pe_before env fs;
          version = (case file_load (pe_io env) fs1 run_id of Inl _ \<Rightarrow> 0 | Inr r \<Rightarrow> sr_version r)
      in case file_compare_exchange (pe_io env) (pe_between env fs1) run_id version cp of
           (fs2, Inr _) \<Rightarrow> (fs2, Inr True)
         | (fs2, Inl e) \<Rightarrow>
             if err_code e \<noteq> ''STATE_CONFLICT'' then (fs2, Inl e)
             else file_put_loop n envs fs2 run_id cp)"

definition file_put :: "(nat \<Rightarrow> put_env) \<Rightarrow> files \<Rightarrow> string \<Rightarrow> string \<Rightarrow> files \<times> bool result" where
  "file_put envs fs run_id cp = file_put_loop 16 envs fs run_id cp"

subsection \<open>The contract of a versioned store\<close>

datatype store_op =
  Cas string u64 string
| Claim string u64 string
| Put string string
| Erase string

text \<open>One call of a mutating operation of the store interface, and a sequence of such calls by any
  callers, each with what the environment decides for it.\<close>

fun store_step ::
  "('e \<Rightarrow> 's \<Rightarrow> string \<Rightarrow> u64 \<Rightarrow> string \<Rightarrow> 's \<times> u64 result) \<Rightarrow>
   ('e \<Rightarrow> 's \<Rightarrow> string \<Rightarrow> u64 \<Rightarrow> string \<Rightarrow> 's \<times> StateRecord result) \<Rightarrow>
   ('e \<Rightarrow> 's \<Rightarrow> string \<Rightarrow> string \<Rightarrow> 's \<times> bool result) \<Rightarrow>
   ('e \<Rightarrow> 's \<Rightarrow> string \<Rightarrow> 's \<times> bool result) \<Rightarrow> 'e \<Rightarrow> store_op \<Rightarrow> 's \<Rightarrow> 's" where
  "store_step cas claim put erase e (Cas i v c) s = fst (cas e s i v c)"
| "store_step cas claim put erase e (Claim i v ow) s = fst (claim e s i v ow)"
| "store_step cas claim put erase e (Put i c) s = fst (put e s i c)"
| "store_step cas claim put erase e (Erase i) s = fst (erase e s i)"

fun run_ops ::
  "('e \<Rightarrow> store_op \<Rightarrow> 's \<Rightarrow> 's) \<Rightarrow> ('e \<times> store_op) list \<Rightarrow> 's \<Rightarrow> 's" where
  "run_ops step [] s = s"
| "run_ops step ((e, op) # ops) s = run_ops step ops (step e op s)"

lemma run_ops_append: "run_ops step (xs @ ys) s = run_ops step ys (run_ops step xs s)"
  by (induction step xs s rule: run_ops.induct) simp_all

text \<open>No call of the sequence erases the run.\<close>

definition keeps_run :: "string \<Rightarrow> ('e \<times> store_op) list \<Rightarrow> bool" where
  "keeps_run i ops \<longleftrightarrow> list_all (\<lambda>p. snd p \<noteq> Erase i) ops"

lemma keeps_run_simps [simp]:
  "keeps_run i []" "keeps_run i (p # ops) \<longleftrightarrow> snd p \<noteq> Erase i \<and> keeps_run i ops"
  "keeps_run i (xs @ ys) \<longleftrightarrow> keeps_run i xs \<and> keeps_run i ys"
  by (simp_all add: keeps_run_def)

definition put_checkpoint :: "string \<Rightarrow> StateRecord \<Rightarrow> StateRecord" where
  "put_checkpoint c r = r\<lparr>sr_version := sr_version r + 1, sr_checkpoint := c\<rparr>"

definition put_owner :: "string \<Rightarrow> StateRecord \<Rightarrow> StateRecord" where
  "put_owner ow r = r\<lparr>sr_version := sr_version r + 1, sr_epoch := sr_epoch r + 1, sr_owner := ow\<rparr>"

lemma put_version [simp]:
  "sr_version (put_checkpoint c r) = sr_version r + 1" "sr_version (put_owner ow r) = sr_version r + 1"
  by (simp_all add: put_checkpoint_def put_owner_def)

locale versioned_store =
  fixes current :: "'s \<Rightarrow> string \<Rightarrow> StateRecord"
    and good :: "'s \<Rightarrow> bool"
    and cas :: "'e \<Rightarrow> 's \<Rightarrow> string \<Rightarrow> u64 \<Rightarrow> string \<Rightarrow> 's \<times> u64 result"
    and claim :: "'e \<Rightarrow> 's \<Rightarrow> string \<Rightarrow> u64 \<Rightarrow> string \<Rightarrow> 's \<times> StateRecord result"
    and put :: "'e \<Rightarrow> 's \<Rightarrow> string \<Rightarrow> string \<Rightarrow> 's \<times> bool result"
    and erase :: "'e \<Rightarrow> 's \<Rightarrow> string \<Rightarrow> 's \<times> bool result"
  assumes cas_good: "good s \<Longrightarrow> good (fst (cas e s i v c))"
    and claim_good: "good s \<Longrightarrow> good (fst (claim e s i v ow))"
    and put_good: "good s \<Longrightarrow> good (fst (put e s i c))"
    and erase_good: "good s \<Longrightarrow> good (fst (erase e s i))"
    and cas_success: "good s \<Longrightarrow> cas e s i v c = (s', Inr w) \<Longrightarrow>
      sr_version (current s i) = v \<and> w = v + 1 \<and>
      current s' = (current s)(i := put_checkpoint c (current s i))"
    and cas_failure: "good s \<Longrightarrow> cas e s i v c = (s', Inl x) \<Longrightarrow>
      current s' = current s \<or>
      sr_version (current s i) = v \<and> current s' = (current s)(i := put_checkpoint c (current s i))"
    and claim_success: "good s \<Longrightarrow> claim e s i v ow = (s', Inr r) \<Longrightarrow>
      sr_version (current s i) = v \<and> r = put_owner ow (current s i) \<and>
      current s' = (current s)(i := r)"
    and claim_failure: "good s \<Longrightarrow> claim e s i v ow = (s', Inl x) \<Longrightarrow>
      current s' = current s \<or>
      sr_version (current s i) = v \<and> current s' = (current s)(i := put_owner ow (current s i))"
    and put_effect: "good s \<Longrightarrow>
      current (fst (put e s i c)) = current s \<and> isl (snd (put e s i c)) \<or>
      current (fst (put e s i c)) = (current s)(i := put_checkpoint c (current s i))"
    and erase_effect: "good s \<Longrightarrow> current (fst (erase e s i)) =
      (if isl (snd (erase e s i)) then current s else (current s)(i := default_record))"
begin

abbreviation call :: "'e \<Rightarrow> store_op \<Rightarrow> 's \<Rightarrow> 's" where
  "call \<equiv> store_step cas claim put erase"

lemma cas_cases:
  assumes "good s"
  shows "current (fst (cas e s i v c)) = current s \<or>
    sr_version (current s i) = v \<and>
    current (fst (cas e s i v c)) = (current s)(i := put_checkpoint c (current s i))"
proof (cases "cas e s i v c")
  case (Pair s' r)
  then show ?thesis
    using cas_success [OF assms, of e i v c s'] cas_failure [OF assms, of e i v c s']
    by (cases r) auto
qed

lemma claim_cases:
  assumes "good s"
  shows "current (fst (claim e s i v ow)) = current s \<or>
    sr_version (current s i) = v \<and>
    current (fst (claim e s i v ow)) = (current s)(i := put_owner ow (current s i))"
proof (cases "claim e s i v ow")
  case (Pair s' r)
  then show ?thesis
    using claim_success [OF assms, of e i v ow s'] claim_failure [OF assms, of e i v ow s']
    by (cases r) auto
qed

lemma call_good: "good s \<Longrightarrow> good (call e op s)"
  by (cases op) (simp_all add: cas_good claim_good put_good erase_good)

lemma run_ops_good: "good s \<Longrightarrow> good (run_ops call ops s)"
  by (induction ops arbitrary: s) (auto simp: call_good)

text \<open>One call that does not erase the run keeps the version of its record or advances it by one.\<close>

lemma call_version:
  assumes "good s" and "op \<noteq> Erase i"
  shows "sr_version (current (call e op s) i) = sr_version (current s i) \<or>
    sr_version (current (call e op s) i) = sr_version (current s i) + 1"
proof (cases op)
  case (Cas j v c)
  then show ?thesis using cas_cases [OF assms(1), of e j v c] by auto
next
  case (Claim j v ow)
  then show ?thesis using claim_cases [OF assms(1), of e j v ow] by auto
next
  case (Put j c)
  then show ?thesis using put_effect [OF assms(1), of e j c] by auto
next
  case (Erase j)
  then show ?thesis using erase_effect [OF assms(1), of e j] assms(2) by auto
qed

text \<open>The version of a record that is not erased advances by the number of installed writes, at most
  one per call.\<close>

lemma run_ops_version:
  assumes "good s" and "keeps_run i ops"
  shows "\<exists>n \<le> length ops. sr_version (current (run_ops call ops s) i) =
    sr_version (current s i) + of_nat n"
  using assms
proof (induction ops arbitrary: s)
  case Nil
  then show ?case by simp
next
  case (Cons p ops)
  obtain e op where p: "p = (e, op)" by fastforce
  let ?s = "call e op s"
  have good: "good ?s" using Cons.prems(1) by (rule call_good)
  have keeps: "op \<noteq> Erase i" "keeps_run i ops" using Cons.prems(2) p by simp_all
  from Cons.IH [OF good keeps(2)] obtain n where n: "n \<le> length ops"
    and v: "sr_version (current (run_ops call ops ?s) i) = sr_version (current ?s i) + of_nat n"
    by blast
  from call_version [OF Cons.prems(1) keeps(1), of e] show ?case
  proof
    assume "sr_version (current ?s i) = sr_version (current s i)"
    then show ?thesis using p n v by (intro exI [of _ n]) auto
  next
    assume "sr_version (current ?s i) = sr_version (current s i) + 1"
    then show ?thesis using p n v by (intro exI [of _ "Suc n"]) (auto simp: algebra_simps)
  qed
qed

lemma conflict_refused:
  assumes "good s" and "sr_version (current s i) \<noteq> v"
  shows "\<exists>x. snd (cas e s i v c) = Inl x" and "current (fst (cas e s i v c)) = current s"
proof -
  obtain s' r where p: "cas e s i v c = (s', r)" by fastforce
  show "\<exists>x. snd (cas e s i v c) = Inl x"
    using cas_success [OF assms(1), of e i v c s'] assms(2) p by (cases r) auto
  show "current (fst (cas e s i v c)) = current s"
    using cas_cases [OF assms(1), of e i v c] assms(2) by auto
qed

text \<open>A version that a successful write has consumed is never accepted again, whatever calls
  follow that do not erase the run, within a full period of the 64-bit counter.\<close>

lemma consumed_version_refused:
  assumes "good s" and "sr_version (current s i) = v + 1" and "length ops < 2 ^ 64 - 1"
    and "keeps_run i ops"
  shows "\<exists>x. snd (cas e (run_ops call ops s) i v c) = Inl x"
    and "current (fst (cas e (run_ops call ops s) i v c)) = current (run_ops call ops s)"
proof -
  from run_ops_version [OF assms(1,4)] obtain n where n: "n \<le> length ops"
    and v: "sr_version (current (run_ops call ops s) i) = v + 1 + of_nat n"
    using assms(2) by auto
  have "of_nat (Suc n) \<noteq> (0 :: u64)"
  proof
    assume "of_nat (Suc n) = (0 :: u64)"
    then have "unat (of_nat (Suc n) :: u64) = 0" by simp
    moreover have "unat (of_nat (Suc n) :: u64) = Suc n"
      using n assms(3) by (intro unat_of_nat_u64) simp
    ultimately show False by simp
  qed
  then have "v + 1 + of_nat n \<noteq> v" by (simp add: algebra_simps)
  then have ne: "sr_version (current (run_ops call ops s) i) \<noteq> v" using v by simp
  show "\<exists>x. snd (cas e (run_ops call ops s) i v c) = Inl x"
    by (rule conflict_refused(1) [OF run_ops_good [OF assms(1)] ne])
  show "current (fst (cas e (run_ops call ops s) i v c)) = current (run_ops call ops s)"
    by (rule conflict_refused(2) [OF run_ops_good [OF assms(1)] ne])
qed

lemma no_lost_update:
  assumes "good s" and "cas e s i v c = (s', Inr w)" and "length ops < 2 ^ 64 - 1"
    and "keeps_run i ops"
  shows "\<exists>x. snd (cas e2 (run_ops call ops s') i v c2) = Inl x"
proof -
  have "good s'" using cas_good [OF assms(1), of e i v c] assms(2) by simp
  moreover have "sr_version (current s' i) = v + 1"
    using cas_success [OF assms(1,2)] by simp
  ultimately show ?thesis using consumed_version_refused(1) assms(3,4) by blast
qed

lemma displaced_owner_fenced:
  assumes "good s" and "claim e s i v ow = (s', Inr r)" and "length ops < 2 ^ 64 - 1"
    and "keeps_run i ops"
  shows "\<exists>x. snd (cas e2 (run_ops call ops s') i v c2) = Inl x"
proof -
  have "good s'" using claim_good [OF assms(1), of e i v ow] assms(2) by simp
  moreover have "sr_version (current s' i) = v + 1"
    using claim_success [OF assms(1,2)] by simp
  ultimately show ?thesis using consumed_version_refused(1) assms(3,4) by blast
qed

end

subsection \<open>The in-memory store meets the contract\<close>

lemma mem_slot_put [simp]: "mem_slot (sm_put i r m) = (mem_slot m)(i := r)"
  by (auto simp: mem_slot_def)

lemma mem_slot_vivify [simp]: "(mem_slot m)(i := mem_slot m i) = mem_slot m"
  by simp

abbreviation memory_call :: "unit \<Rightarrow> store_op \<Rightarrow> memory_store \<Rightarrow> memory_store" where
  "memory_call \<equiv> store_step (\<lambda>_. mem_compare_exchange) (\<lambda>_. mem_claim) (\<lambda>_. mem_put) (\<lambda>_. mem_erase)"

lemma mem_slot_del: "sm_ok m \<Longrightarrow> mem_slot (sm_del i m) = (mem_slot m)(i := default_record)"
  by (auto simp: mem_slot_def sm_get_del)

interpretation memory_store: versioned_store mem_slot sm_ok
  "\<lambda>_ :: unit. mem_compare_exchange" "\<lambda>_ :: unit. mem_claim" "\<lambda>_ :: unit. mem_put" "\<lambda>_ :: unit. mem_erase"
proof
  fix s i v c s' w x e
  show "sm_ok s \<Longrightarrow> sm_ok (fst (mem_compare_exchange s i v c))"
    by (simp add: mem_compare_exchange_def Let_def)
  show "sm_ok s \<Longrightarrow> mem_compare_exchange s i v c = (s', Inr w) \<Longrightarrow>
      sr_version (mem_slot s i) = v \<and> w = v + 1 \<and>
      mem_slot s' = (mem_slot s)(i := put_checkpoint c (mem_slot s i))"
    by (auto simp: mem_compare_exchange_def put_checkpoint_def Let_def split: if_splits)
  show "sm_ok s \<Longrightarrow> mem_compare_exchange s i v c = (s', Inl x) \<Longrightarrow>
      mem_slot s' = mem_slot s \<or>
      sr_version (mem_slot s i) = v \<and> mem_slot s' = (mem_slot s)(i := put_checkpoint c (mem_slot s i))"
    by (auto simp: mem_compare_exchange_def Let_def split: if_splits)
next
  fix s i v ow s' r x e
  show "sm_ok s \<Longrightarrow> sm_ok (fst (mem_claim s i v ow))"
    by (simp add: mem_claim_def Let_def split: option.splits)
  show "sm_ok s \<Longrightarrow> mem_claim s i v ow = (s', Inr r) \<Longrightarrow>
      sr_version (mem_slot s i) = v \<and> r = put_owner ow (mem_slot s i) \<and> mem_slot s' = (mem_slot s)(i := r)"
    by (auto simp: mem_claim_def put_owner_def mem_slot_def Let_def fun_eq_iff
        split: option.splits if_splits)
  show "sm_ok s \<Longrightarrow> mem_claim s i v ow = (s', Inl x) \<Longrightarrow>
      mem_slot s' = mem_slot s \<or>
      sr_version (mem_slot s i) = v \<and> mem_slot s' = (mem_slot s)(i := put_owner ow (mem_slot s i))"
    by (auto simp: mem_claim_def Let_def split: option.splits if_splits)
next
  fix s i c
  show "sm_ok s \<Longrightarrow> sm_ok (fst (mem_put s i c))"
    by (simp add: mem_put_def Let_def)
  show "sm_ok s \<Longrightarrow> mem_slot (fst (mem_put s i c)) = mem_slot s \<and> isl (snd (mem_put s i c)) \<or>
      mem_slot (fst (mem_put s i c)) = (mem_slot s)(i := put_checkpoint c (mem_slot s i))"
    by (simp add: mem_put_def put_checkpoint_def Let_def)
  show "sm_ok s \<Longrightarrow> sm_ok (fst (mem_erase s i))"
    by (simp add: mem_erase_def)
  show "sm_ok s \<Longrightarrow> mem_slot (fst (mem_erase s i)) =
      (if isl (snd (mem_erase s i)) then mem_slot s else (mem_slot s)(i := default_record))"
    by (simp add: mem_erase_def mem_slot_del)
qed

subsection \<open>The record format round trip\<close>

lemma getlines_Suc_line:
  assumes "newline \<notin> set l"
  shows "getlines (Suc n) (l @ newline # rest) =
    (case getlines n rest of None \<Rightarrow> None | Some (ls, rest') \<Rightarrow> Some (l # ls, rest'))"
  by (simp add: getline_line [OF assms])

lemma getlines_encode:
  assumes "newline \<notin> set (sr_owner r)"
  shows "getlines 6 (encode_record r) =
    Some ([record_magic, to_string (unat (sr_version r)), to_string (unat (sr_epoch r)), sr_owner r,
           to_string (unat (string_size (sr_checkpoint r))), sha256_digest (sr_checkpoint r)], sr_checkpoint r)"
proof -
  have magic: "newline \<notin> set record_magic" by (simp add: record_magic_def newline_def)
  have six: "(6 :: nat) = Suc (Suc (Suc (Suc (Suc (Suc 0)))))" by simp
  show ?thesis
    unfolding six encode_record_def
    by (simp add: getline_line magic assms)
qed

lemma decode_encode:
  assumes "newline \<notin> set (sr_owner r)"
  shows "decode_record (encode_record r) = Inr r"
  by (simp add: decode_record_def getlines_encode [OF assms])

lemma getline_no_newline: "getline s = Some (l, rest) \<Longrightarrow> newline \<notin> set l"
  by (auto simp: getline_def split: if_splits dest: set_takeWhileD)

lemma getlines_no_newline:
  "getlines n s = Some (ls, rest) \<Longrightarrow> l \<in> set ls \<Longrightarrow> newline \<notin> set l"
proof (induction n arbitrary: s ls)
  case (Suc n)
  then obtain a r ls' where g: "getline s = Some (a, r)" and n: "getlines n r = Some (ls', rest)"
    and ls: "ls = a # ls'"
    by (auto split: option.splits)
  from Suc.prems(2) ls consider "l = a" | "l \<in> set ls'" by auto
  then show ?case
    using getline_no_newline [OF g] Suc.IH [OF n] by cases simp_all
qed simp

lemma decode_owner_no_newline: "decode_record b = Inr r \<Longrightarrow> newline \<notin> set (sr_owner r)"
  by (auto simp: decode_record_def split: option.splits list.splits prod.splits if_splits sum.splits
      dest: getlines_no_newline)

subsection \<open>File names\<close>

lemma valid_run_id_no_dot: "valid_run_id i \<Longrightarrow> CHR ''.'' \<notin> set i"
  by (auto simp: valid_run_id_def list_all_iff less_eq_char_def)

lemma valid_run_id_no_newline: "valid_run_id i \<Longrightarrow> newline \<notin> set i"
  by (auto simp: valid_run_id_def list_all_iff less_eq_char_def newline_def)

lemma dot_split_unique:
  assumes "CHR ''.'' \<notin> set i" and "CHR ''.'' \<notin> set j"
    and "i @ CHR ''.'' # s = j @ CHR ''.'' # t"
  shows "i = j \<and> s = t"
  using assms by (induction i arbitrary: j) (case_tac j, auto)+

lemma state_path_inj:
  "valid_run_id i \<Longrightarrow> valid_run_id j \<Longrightarrow> state_path i = state_path j \<Longrightarrow> i = j"
  using dot_split_unique [of i j "''state''" "''state''"] valid_run_id_no_dot
  by (auto simp: state_path_def)

lemma state_path_neq_lock:
  "valid_run_id i \<Longrightarrow> valid_run_id j \<Longrightarrow> state_path i \<noteq> lock_path j"
  using dot_split_unique [of i j "''state''" "''lock''"] valid_run_id_no_dot
  by (auto simp: state_path_def lock_path_def)

lemma state_path_neq_temp:
  "valid_run_id i \<Longrightarrow> valid_run_id j \<Longrightarrow> state_path i \<noteq> state_path j @ ''.tmp.'' @ t"
  using dot_split_unique [of i j "''state''" "''state.tmp.'' @ t"] valid_run_id_no_dot
  by (auto simp: state_path_def)

subsection \<open>The file store meets the contract\<close>

definition file_current :: "files \<Rightarrow> string \<Rightarrow> StateRecord" where
  "file_current fs i =
     (if valid_run_id i
      then (case sm_get fs (state_path i) of
              None \<Rightarrow> default_record
            | Some b \<Rightarrow> (case decode_record b of Inl _ \<Rightarrow> default_record | Inr r \<Rightarrow> r))
      else default_record)"

text \<open>Every record file of the directory holds an encoded record.\<close>

definition files_ok :: "files \<Rightarrow> bool" where
  "files_ok fs \<longleftrightarrow> sm_ok fs \<and>
     (\<forall>i b. valid_run_id i \<longrightarrow> sm_get fs (state_path i) = Some b \<longrightarrow> is_ok (decode_record b))"

lemma files_okD: "files_ok fs \<Longrightarrow> sm_ok fs"
  by (simp add: files_ok_def)

text \<open>Two directories with the same record files are the same store.\<close>

definition same_records :: "files \<Rightarrow> files \<Rightarrow> bool" where
  "same_records fs fs' \<longleftrightarrow>
     (\<forall>i. valid_run_id i \<longrightarrow> sm_get fs' (state_path i) = sm_get fs (state_path i))"

lemma same_records_current: "same_records fs fs' \<Longrightarrow> file_current fs' = file_current fs"
  by (auto simp: same_records_def file_current_def fun_eq_iff)

lemma same_records_ok: "same_records fs fs' \<Longrightarrow> sm_ok fs' \<Longrightarrow> files_ok fs \<Longrightarrow> files_ok fs'"
  by (auto simp: same_records_def files_ok_def)

lemma directory_lock_same:
  assumes "sm_ok fs" and "valid_run_id i" and "directory_lock env fs (lock_path i) = (fs', r)"
  shows "same_records fs fs'" and "sm_ok fs'"
  using assms state_path_neq_lock [OF _ assms(2)]
  by (auto simp: directory_lock_def same_records_def Let_def split: if_splits lock_outcome.splits)

lemma atomic_write_cases:
  assumes "sm_ok fs" and "valid_run_id i" and "atomic_write env fs (state_path i) c = (fs', r)"
  shows "sm_ok fs'"
    and "same_records fs fs' \<and> isl r \<or> same_records (sm_put (state_path i) c fs) fs'"
proof -
  let ?t = "state_path i @ ''.tmp.'' @ io_temp env"
  have ne: "state_path j \<noteq> ?t" if "valid_run_id j" for j
    using that assms(2) by (rule state_path_neq_temp)
  show "sm_ok fs'"
    using assms by (auto simp: atomic_write_def Let_def split: write_fault.splits)
  show "same_records fs fs' \<and> isl r \<or> same_records (sm_put (state_path i) c fs) fs'"
    using assms(1,3) ne
    by (cases "io_cleaned env")
      (auto simp: atomic_write_def Let_def same_records_def sm_get_del split: write_fault.splits)
qed

lemma same_records_trans: "same_records a b \<Longrightarrow> same_records b c \<Longrightarrow> same_records a c"
  by (simp add: same_records_def)

lemma same_records_put:
  "same_records a b \<Longrightarrow> same_records (sm_put p c a) (sm_put p c b)"
  by (simp add: same_records_def)

lemma file_current_put:
  assumes "valid_run_id i" and "newline \<notin> set (sr_owner r)"
  shows "file_current (sm_put (state_path i) (encode_record r) fs) = (file_current fs)(i := r)"
  using assms state_path_inj [OF _ assms(1)]
  by (auto simp: file_current_def fun_eq_iff decode_encode)

lemma files_ok_put:
  assumes "files_ok fs" and "valid_run_id i" and "newline \<notin> set (sr_owner r)"
  shows "files_ok (sm_put (state_path i) (encode_record r) fs)"
  using assms by (auto simp: files_ok_def decode_encode)

text \<open>What one locked update of the record \<open>i\<close> to \<open>r\<close> can leave behind: the old records, or the
  complete new one.\<close>

lemma locked_write:
  assumes "files_ok fs" and "same_records fs fs1" and "sm_ok fs1" and "valid_run_id i"
    and "newline \<notin> set (sr_owner r)"
    and "atomic_write env fs1 (state_path i) (encode_record r) = (fs2, w)"
  shows "files_ok fs2"
    and "file_current fs2 = file_current fs \<and> isl w \<or> file_current fs2 = (file_current fs)(i := r)"
proof -
  have ok1: "files_ok fs1" using assms(1-3) by (blast intro: same_records_ok)
  note c = atomic_write_cases [OF assms(3,4,6)]
  show "files_ok fs2"
    using c same_records_ok ok1 files_ok_put [OF ok1 assms(4,5)] by blast
  show "file_current fs2 = file_current fs \<and> isl w \<or> file_current fs2 = (file_current fs)(i := r)"
    using c(2) same_records_current assms(2) same_records_current [of fs1 fs2]
      same_records_current [of "sm_put (state_path i) (encode_record r) fs1" fs2]
      file_current_put [OF assms(4,5), of fs1] by metis
qed

lemma read_current_file_current:
  assumes "files_ok fs" and "valid_run_id i" and "read_current env fs i = Inr r"
  shows "r = file_current fs i"
  using assms
  by (auto simp: read_current_def read_file_def file_current_def split: if_splits sum.splits option.splits)

lemma file_current_no_newline: "newline \<notin> set (sr_owner (file_current fs i))"
  by (auto simp: file_current_def default_record_def split: option.splits sum.splits
      dest: decode_owner_no_newline)

lemma file_cas_cases:
  assumes "files_ok fs" and "file_compare_exchange env fs i v c = (fs', r)"
  shows "files_ok fs'"
    and "file_current fs' = file_current fs \<and> isl r \<or>
      sr_version (file_current fs i) = v \<and>
      file_current fs' = (file_current fs)(i := put_checkpoint c (file_current fs i)) \<and>
      (\<forall>w. r = Inr w \<longrightarrow> w = v + 1)"
proof -
  let ?new = "put_checkpoint c (file_current fs i)"
  have new: "newline \<notin> set (sr_owner ?new)"
    using file_current_no_newline by (simp add: put_checkpoint_def)
  have "files_ok fs' \<and> (file_current fs' = file_current fs \<and> isl r \<or>
      sr_version (file_current fs i) = v \<and> file_current fs' = (file_current fs)(i := ?new) \<and>
      (\<forall>w. r = Inr w \<longrightarrow> w = v + 1))"
  proof (cases "valid_run_id i")
    case False
    then show ?thesis using assms by (auto simp: file_compare_exchange_def)
  next
    case valid: True
    obtain fs1 l where lock: "directory_lock env fs (lock_path i) = (fs1, l)" by fastforce
    note same = directory_lock_same [OF files_okD [OF assms(1)] valid lock]
    have ok1: "files_ok fs1" using same assms(1) by (blast intro: same_records_ok)
    have cur1: "file_current fs1 = file_current fs" using same(1) by (rule same_records_current)
    show ?thesis
    proof (cases l)
      case (Inl e)
      then show ?thesis using assms(2) valid lock ok1 cur1 by (auto simp: file_compare_exchange_def)
    next
      case (Inr u)
      show ?thesis
      proof (cases "read_current env fs1 i")
        case (Inl e)
        then show ?thesis
          using assms(2) valid lock Inr ok1 cur1 by (auto simp: file_compare_exchange_def)
      next
        case old: (Inr old)
        have o: "old = file_current fs i"
          using read_current_file_current [OF ok1 valid old] cur1 by simp
        have rec: "\<lparr>sr_version = sr_version (file_current fs i) + 1,
            sr_epoch = sr_epoch (file_current fs i), sr_owner = sr_owner (file_current fs i),
            sr_checkpoint = c\<rparr> = ?new"
          by (simp add: put_checkpoint_def)
        obtain fs2 w where wr: "atomic_write env fs1 (state_path i) (encode_record ?new) = (fs2, w)"
          by fastforce
        note lw = locked_write [OF assms(1) same valid new wr]
        show ?thesis
          using assms(2) valid lock Inr old wr lw ok1 cur1
          by (cases w) (auto simp: file_compare_exchange_def rec o split: if_splits)
      qed
    qed
  qed
  then show "files_ok fs'" and "file_current fs' = file_current fs \<and> isl r \<or>
      sr_version (file_current fs i) = v \<and> file_current fs' = (file_current fs)(i := ?new) \<and>
      (\<forall>w. r = Inr w \<longrightarrow> w = v + 1)"
    by simp_all
qed

lemma file_cas_conflict:
  assumes "files_ok fs" and "file_compare_exchange env fs i v c = (fs', Inl e)"
    and "err_code e = ''STATE_CONFLICT''"
  shows "file_current fs' = file_current fs"
proof (cases "valid_run_id i")
  case valid: True
  obtain fs1 l where lock: "directory_lock env fs (lock_path i) = (fs1, l)" by fastforce
  have "fs' = fs1"
    using assms(2,3) valid lock
    by (auto simp: file_compare_exchange_def io_error_def state_error_def split: sum.splits if_splits prod.splits)
  then show ?thesis
    using directory_lock_same(1) [OF files_okD [OF assms(1)] valid lock] by (simp add: same_records_current)
qed (use assms in \<open>auto simp: file_compare_exchange_def\<close>)

lemma file_claim_cases:
  assumes "files_ok fs" and "file_claim env fs i v ow = (fs', r)"
  shows "files_ok fs'"
    and "file_current fs' = file_current fs \<and> isl r \<or>
      sr_version (file_current fs i) = v \<and>
      file_current fs' = (file_current fs)(i := put_owner ow (file_current fs i)) \<and>
      (\<forall>w. r = Inr w \<longrightarrow> w = put_owner ow (file_current fs i))"
proof -
  let ?new = "put_owner ow (file_current fs i)"
  have "files_ok fs' \<and> (file_current fs' = file_current fs \<and> isl r \<or>
      sr_version (file_current fs i) = v \<and> file_current fs' = (file_current fs)(i := ?new) \<and>
      (\<forall>w. r = Inr w \<longrightarrow> w = ?new))"
  proof (cases "valid_run_id i \<and> valid_run_id ow")
    case False
    then show ?thesis using assms by (auto simp: file_claim_def)
  next
    case True
    then have valid: "valid_run_id i" "valid_run_id ow" by simp_all
    have new: "newline \<notin> set (sr_owner ?new)"
      using valid_run_id_no_newline [OF valid(2)] by (simp add: put_owner_def)
    obtain fs1 l where lock: "directory_lock env fs (lock_path i) = (fs1, l)" by fastforce
    note same = directory_lock_same [OF files_okD [OF assms(1)] valid(1) lock]
    have ok1: "files_ok fs1" using same assms(1) by (blast intro: same_records_ok)
    have cur1: "file_current fs1 = file_current fs" using same(1) by (rule same_records_current)
    show ?thesis
    proof (cases "\<exists>u b old. l = Inr u \<and> read_file env fs1 (state_path i) = Inr b \<and> decode_record b = Inr old")
      case False
      then show ?thesis using assms(2) valid lock ok1 cur1
        by (auto simp: file_claim_def split: sum.splits)
    next
      case True
      then obtain b old where l: "l = Inr ()" and b: "read_file env fs1 (state_path i) = Inr b"
        and d: "decode_record b = Inr old" by auto
      have "old = file_current fs1 i"
        using b d valid by (auto simp: read_file_def file_current_def split: option.splits if_splits)
      then have o: "old = file_current fs i" using cur1 by simp
      have rec: "(file_current fs i)\<lparr>sr_version := sr_version (file_current fs i) + 1,
          sr_epoch := sr_epoch (file_current fs i) + 1, sr_owner := ow\<rparr> = ?new"
        by (simp add: put_owner_def)
      obtain fs2 w where wr: "atomic_write env fs1 (state_path i) (encode_record ?new) = (fs2, w)"
        by fastforce
      note lw = locked_write [OF assms(1) same valid(1) new wr]
      show ?thesis
        using assms(2) valid lock l b d wr lw ok1 cur1
        by (cases w) (auto simp: file_claim_def rec o split: if_splits)
    qed
  qed
  then show "files_ok fs'" and "file_current fs' = file_current fs \<and> isl r \<or>
      sr_version (file_current fs i) = v \<and> file_current fs' = (file_current fs)(i := ?new) \<and>
      (\<forall>w. r = Inr w \<longrightarrow> w = ?new)"
    by simp_all
qed

text \<open>\<open>put\<close> with no other process acting between its steps.\<close>

definition undisturbed :: "io_env \<Rightarrow> put_env" where
  "undisturbed env = \<lparr>pe_before = (\<lambda>fs. fs), pe_between = (\<lambda>fs. fs), pe_io = env\<rparr>"

definition file_put_alone :: "io_env \<Rightarrow> files \<Rightarrow> string \<Rightarrow> string \<Rightarrow> files \<times> bool result" where
  "file_put_alone env = file_put (\<lambda>_. undisturbed env)"

abbreviation file_call :: "io_env \<Rightarrow> store_op \<Rightarrow> files \<Rightarrow> files" where
  "file_call \<equiv> store_step file_compare_exchange file_claim file_put_alone file_erase"

lemma file_put_loop_alone:
  assumes "files_ok fs" and "file_put_loop n (\<lambda>_. undisturbed env) fs i c = (fs', r)"
  shows "files_ok fs' \<and> (file_current fs' = file_current fs \<and> isl r \<or>
    file_current fs' = (file_current fs)(i := put_checkpoint c (file_current fs i)))"
  using assms
proof (induction n arbitrary: fs)
  case 0
  then show ?case by auto
next
  case (Suc n)
  define v where "v = (case file_load env fs i of Inl _ \<Rightarrow> 0 | Inr r \<Rightarrow> sr_version r)"
  obtain fs2 x where cas: "file_compare_exchange env fs i v c = (fs2, x)" by fastforce
  note step = file_cas_cases [OF Suc.prems(1) cas]
  show ?case
  proof (cases "\<exists>e. x = Inl e \<and> err_code e = ''STATE_CONFLICT''")
    case False
    then have "fs' = fs2 \<and> isl r = isl x"
      using Suc.prems(2) cas by (auto simp: undisturbed_def Let_def v_def split: sum.splits if_splits)
    then show ?thesis using step by auto
  next
    case True
    then have rest: "file_put_loop n (\<lambda>_. undisturbed env) fs2 i c = (fs', r)"
      using Suc.prems(2) cas by (auto simp: undisturbed_def Let_def v_def)
    have "file_current fs2 = file_current fs"
      using True file_cas_conflict [OF Suc.prems(1)] cas by blast
    then show ?thesis using Suc.IH [OF step(1) rest] by simp
  qed
qed

lemma file_erase_cases:
  assumes "files_ok fs" and "file_erase env fs i = (fs', r)"
  shows "files_ok fs'"
    and "file_current fs' = (if isl r then file_current fs else (file_current fs)(i := default_record))"
proof -
  have "files_ok fs' \<and>
    file_current fs' = (if isl r then file_current fs else (file_current fs)(i := default_record))"
  proof (cases "valid_run_id i")
    case False
    then show ?thesis using assms by (auto simp: file_erase_def)
  next
    case valid: True
    obtain fs1 l where lock: "directory_lock env fs (lock_path i) = (fs1, l)" by fastforce
    note same = directory_lock_same [OF files_okD [OF assms(1)] valid lock]
    have ok1: "files_ok fs1" using same assms(1) by (blast intro: same_records_ok)
    have cur1: "file_current fs1 = file_current fs" using same(1) by (rule same_records_current)
    have "files_ok (sm_del (state_path i) fs1)"
      using ok1 by (auto simp: files_ok_def sm_get_del split: if_splits)
    moreover have "file_current (sm_del (state_path i) fs1) = (file_current fs1)(i := default_record)"
      using valid same(2) state_path_inj [OF _ valid]
      by (auto simp: file_current_def fun_eq_iff sm_get_del)
    ultimately show ?thesis using assms(2) valid lock ok1 cur1
      by (auto simp: file_erase_def split: sum.splits option.splits)
  qed
  then show "files_ok fs'"
    and "file_current fs' = (if isl r then file_current fs else (file_current fs)(i := default_record))"
    by simp_all
qed

interpretation file_store: versioned_store file_current files_ok file_compare_exchange file_claim
  file_put_alone file_erase
proof
  fix s e i v c s' w x
  show "files_ok s \<Longrightarrow> files_ok (fst (file_compare_exchange e s i v c))"
    using file_cas_cases(1) [of s e i v c] by (cases "file_compare_exchange e s i v c") simp
  show "files_ok s \<Longrightarrow> file_compare_exchange e s i v c = (s', Inr w) \<Longrightarrow>
      sr_version (file_current s i) = v \<and> w = v + 1 \<and>
      file_current s' = (file_current s)(i := put_checkpoint c (file_current s i))"
    using file_cas_cases(2) [of s e i v c s' "Inr w"] by auto
  show "files_ok s \<Longrightarrow> file_compare_exchange e s i v c = (s', Inl x) \<Longrightarrow>
      file_current s' = file_current s \<or> sr_version (file_current s i) = v \<and>
      file_current s' = (file_current s)(i := put_checkpoint c (file_current s i))"
    using file_cas_cases(2) [of s e i v c s' "Inl x"] by auto
next
  fix s e i v ow s' r x
  show "files_ok s \<Longrightarrow> files_ok (fst (file_claim e s i v ow))"
    using file_claim_cases(1) [of s e i v ow] by (cases "file_claim e s i v ow") simp
  show "files_ok s \<Longrightarrow> file_claim e s i v ow = (s', Inr r) \<Longrightarrow>
      sr_version (file_current s i) = v \<and> r = put_owner ow (file_current s i) \<and>
      file_current s' = (file_current s)(i := r)"
    using file_claim_cases(2) [of s e i v ow s' "Inr r"] by auto
  show "files_ok s \<Longrightarrow> file_claim e s i v ow = (s', Inl x) \<Longrightarrow>
      file_current s' = file_current s \<or> sr_version (file_current s i) = v \<and>
      file_current s' = (file_current s)(i := put_owner ow (file_current s i))"
    using file_claim_cases(2) [of s e i v ow s' "Inl x"] by auto
next
  fix s e i c
  show "files_ok s \<Longrightarrow> files_ok (fst (file_put_alone e s i c))"
    using file_put_loop_alone [of s 16 e i c]
    by (cases "file_put_alone e s i c") (simp add: file_put_alone_def file_put_def)
  show "files_ok s \<Longrightarrow>
      file_current (fst (file_put_alone e s i c)) = file_current s \<and> isl (snd (file_put_alone e s i c)) \<or>
      file_current (fst (file_put_alone e s i c)) =
        (file_current s)(i := put_checkpoint c (file_current s i))"
    using file_put_loop_alone [of s 16 e i c]
    by (cases "file_put_alone e s i c") (simp add: file_put_alone_def file_put_def)
  show "files_ok s \<Longrightarrow> files_ok (fst (file_erase e s i))"
    using file_erase_cases(1) [of s e i] by (cases "file_erase e s i") simp
  show "files_ok s \<Longrightarrow> file_current (fst (file_erase e s i)) =
      (if isl (snd (file_erase e s i)) then file_current s else (file_current s)(i := default_record))"
    using file_erase_cases(2) [of s e i] by (cases "file_erase e s i") simp
qed

text \<open>
  A \<open>put\<close> that other processes interrupt is a sequence of calls too: when what they do before and
  within each attempt is a sequence of calls, so is the whole \<open>put\<close>, each attempt being one
  compare-and-exchange against the version that was read.
\<close>

lemma file_put_loop_calls:
  assumes others: "\<And>k f. f \<in> {pe_before (envs k), pe_between (envs k)} \<Longrightarrow>
      \<exists>ops. f = run_ops file_call ops \<and> keeps_run j ops \<and> length ops \<le> m"
  shows "\<exists>ops. fst (file_put_loop n envs fs i c) = run_ops file_call ops fs \<and> keeps_run j ops \<and>
    length ops \<le> n * (2 * m + 1)"
proof (induction n arbitrary: fs)
  case 0
  show ?case by (rule exI [of _ "[]"]) simp
next
  case (Suc n)
  obtain b where b: "pe_before (envs n) = run_ops file_call b" "keeps_run j b" "length b \<le> m"
    using others [of "pe_before (envs n)" n] by auto
  obtain w where w: "pe_between (envs n) = run_ops file_call w" "keeps_run j w" "length w \<le> m"
    using others [of "pe_between (envs n)" n] by auto
  define v where "v = (case file_load (pe_io (envs n)) (run_ops file_call b fs) i of
    Inl _ \<Rightarrow> 0 | Inr r \<Rightarrow> sr_version r)"
  define one where "one = b @ w @ [(pe_io (envs n), Cas i v c)]"
  obtain fs2 x where cas:
    "file_compare_exchange (pe_io (envs n)) (run_ops file_call w (run_ops file_call b fs)) i v c = (fs2, x)"
    by fastforce
  have one: "run_ops file_call one fs = fs2" "keeps_run j one" "length one \<le> 2 * m + 1"
    using b w cas by (simp_all add: one_def run_ops_append)
  have next_files: "fst (file_put_loop (Suc n) envs fs i c) = fs2 \<or>
      fst (file_put_loop (Suc n) envs fs i c) = fst (file_put_loop n envs fs2 i c)"
    using cas b(1) w(1) by (auto simp: Let_def v_def split: sum.splits)
  from Suc.IH [of fs2] obtain ops where ops: "fst (file_put_loop n envs fs2 i c) = run_ops file_call ops fs2"
    "keeps_run j ops" "length ops \<le> n * (2 * m + 1)" by blast
  from next_files show ?case
  proof
    assume "fst (file_put_loop (Suc n) envs fs i c) = fs2"
    then show ?thesis using one by (intro exI [of _ one]) auto
  next
    assume "fst (file_put_loop (Suc n) envs fs i c) = fst (file_put_loop n envs fs2 i c)"
    then show ?thesis using one ops by (intro exI [of _ "one @ ops"]) (auto simp: run_ops_append)
  qed
qed

subsection \<open>The file store implements the memory store\<close>

definition healthy :: "io_env \<Rightarrow> bool" where
  "healthy env \<longleftrightarrow> io_lock env = Locked \<and> io_open env \<and> io_fault env = NoFault \<and> io_remove_error env = None"

definition implements :: "files \<Rightarrow> memory_store \<Rightarrow> bool" where
  "implements fs m \<longleftrightarrow> (\<forall>i. valid_run_id i \<longrightarrow> file_current fs i = mem_slot m i)"

lemma healthy_lock:
  "healthy env \<Longrightarrow> \<exists>fs1. directory_lock env fs p = (fs1, Inr ())"
  by (simp add: healthy_def directory_lock_def Let_def)

lemma healthy_write: "healthy env \<Longrightarrow> \<exists>fs1. atomic_write env fs p c = (fs1, Inr ())"
  by (simp add: healthy_def atomic_write_def Let_def)

lemma healthy_read_current:
  assumes "healthy env" and "files_ok fs" and "valid_run_id i"
  shows "read_current env fs i = Inr (file_current fs i)"
  using assms
  by (auto simp: healthy_def files_ok_def read_current_def read_file_def file_current_def
      split: option.splits sum.splits)

lemma healthy_cas_result:
  assumes "healthy env" and "files_ok fs" and "valid_run_id i"
  shows "snd (file_compare_exchange env fs i v c) =
    (if sr_version (file_current fs i) = v then Inr (v + 1)
     else Inl (state_error ''STATE_CONFLICT'' ''state version conflict''))"
proof -
  obtain fs1 where l: "directory_lock env fs (lock_path i) = (fs1, Inr ())"
    using healthy_lock [OF assms(1)] by blast
  note same = directory_lock_same [OF files_okD [OF assms(2)] assms(3) l]
  have ok1: "files_ok fs1" using same assms(2) by (blast intro: same_records_ok)
  have "read_current env fs1 i = Inr (file_current fs i)"
    using healthy_read_current [OF assms(1) ok1 assms(3)] same_records_current [OF same(1)] by simp
  moreover obtain fs2 where "atomic_write env fs1 (state_path i) (encode_record
      \<lparr>sr_version = sr_version (file_current fs i) + 1, sr_epoch = sr_epoch (file_current fs i),
       sr_owner = sr_owner (file_current fs i), sr_checkpoint = c\<rparr>) = (fs2, Inr ())"
    using healthy_write [OF assms(1)] by blast
  ultimately show ?thesis using l assms(3) by (auto simp: file_compare_exchange_def)
qed

lemma cas_refinement:
  assumes "healthy env" and "files_ok fs" and "implements fs m" and "valid_run_id i"
  shows "snd (file_compare_exchange env fs i v c) = snd (mem_compare_exchange m i v c)"
    and "implements (fst (file_compare_exchange env fs i v c)) (fst (mem_compare_exchange m i v c))"
proof -
  have eq: "file_current fs i = mem_slot m i" using assms(3,4) by (simp add: implements_def)
  show res: "snd (file_compare_exchange env fs i v c) = snd (mem_compare_exchange m i v c)"
    using healthy_cas_result [OF assms(1,2,4), of v c] eq
    by (simp add: mem_compare_exchange_def Let_def)
  obtain fs' r where f: "file_compare_exchange env fs i v c = (fs', r)" by fastforce
  show "implements (fst (file_compare_exchange env fs i v c)) (fst (mem_compare_exchange m i v c))"
    using file_cas_cases(2) [OF assms(2) f] f eq assms(3) healthy_cas_result [OF assms(1,2,4), of v c]
    by (auto simp: implements_def mem_compare_exchange_def put_checkpoint_def Let_def split: if_splits)
qed

subsection \<open>Properties\<close>

text \<open>
  C5. Encoding a state record and decoding the bytes gives the record back, for every record whose
  owner has no line break (which \<open>valid_run_id\<close> guarantees for every owner a claim stores).
\<close>

theorem state_record_roundtrip:
  "newline \<notin> set (sr_owner r) \<Longrightarrow> decode_record (encode_record r) = Inr r"
  by (rule decode_encode)

theorem state_record_roundtrip_witness:
  "decode_record (encode_record \<lparr>sr_version = 3, sr_epoch = 1, sr_owner = ''recovery-1'',
      sr_checkpoint = [newline, CHR ''x'']\<rparr>) =
    Inr \<lparr>sr_version = 3, sr_epoch = 1, sr_owner = ''recovery-1'', sr_checkpoint = [newline, CHR ''x'']\<rparr>"
  by (rule state_record_roundtrip) (simp add: newline_def)

text \<open>
  C1. Crash atomicity of the durable store: whatever the operating system does during a
  compare-and-exchange (lock timeout, unreadable file, a fault at any point of the atomic write), the
  directory afterwards still holds decodable records only, every other run is untouched, and the
  addressed record is either the old one or the complete new one; the new one is installed only
  against the expected version, and a reported success means it was installed.
\<close>

theorem file_cas_atomic:
  assumes "files_ok fs" and "file_compare_exchange env fs i v c = (fs', r)"
  shows "files_ok fs' \<and>
    (file_current fs' = file_current fs \<and> isl r \<or>
     sr_version (file_current fs i) = v \<and>
     file_current fs' = (file_current fs)(i := put_checkpoint c (file_current fs i)) \<and>
     (\<forall>w. r = Inr w \<longrightarrow> w = v + 1))"
  using file_cas_cases [OF assms] by blast

definition sample_env :: "write_fault \<Rightarrow> io_env" where
  "sample_env f = \<lparr>io_lock = Locked, io_open = True, io_fault = f, io_temp = ''1.2'',
     io_cleaned = True, io_remove_error = None\<rparr>"

theorem file_cas_atomic_witness:
  "\<exists>fs' r. files_ok [] \<and> file_compare_exchange (sample_env DirSyncFails) [] ''run-1'' 0 ''cp'' = (fs', r) \<and>
    isl r \<and> sr_version (file_current fs' ''run-1'') = 1"
proof -
  have ok: "files_ok []" by (simp add: files_ok_def)
  obtain fs' r where f: "file_compare_exchange (sample_env DirSyncFails) [] ''run-1'' 0 ''cp'' = (fs', r)"
    by fastforce
  have "isl r"
    using f by (auto simp: file_compare_exchange_def sample_env_def directory_lock_def read_current_def
        valid_run_id_def less_eq_char_def lock_path_def state_path_def default_record_def
        atomic_write_def Let_def)
  moreover have "file_current fs' ''run-1'' \<noteq> default_record"
    using f
    by (auto simp: file_compare_exchange_def sample_env_def directory_lock_def read_current_def
        valid_run_id_def less_eq_char_def lock_path_def state_path_def default_record_def
        atomic_write_def Let_def file_current_def decode_encode sm_get_del)
  moreover have "file_current [] ''run-1'' = default_record" by (simp add: file_current_def)
  ultimately show ?thesis
    using file_cas_atomic [OF ok f] ok f by (auto simp: put_checkpoint_def default_record_def)
qed

text \<open>
  C2. No lost update on the durable store: once a compare-and-exchange on a run against version \<open>v\<close>
  has succeeded, no later one on that run against \<open>v\<close> succeeds, whatever calls of the mutating
  operations of the store lie between them: compare-and-exchange, claim and \<open>put\<close> on any run and
  \<open>erase\<close> on any other run, each with whatever input/output faults. There are fewer than
  \<open>2 ^ 64 - 1\<close> of them, so that the 64-bit version counter does not come round. An \<open>erase\<close> of the run
  itself is excluded, since it starts the run's versions again (\<open>erase_restarts_versions\<close>); a \<open>put\<close>
  that other processes interrupt is the sequence of compare-and-exchange calls that
  \<open>file_put_loop_calls\<close> gives.
\<close>

theorem file_no_lost_update:
  assumes "files_ok fs" and "file_compare_exchange env fs i v c = (fs', Inr w)"
    and "length ops < 2 ^ 64 - 1" and "keeps_run i ops"
  shows "\<exists>x. snd (file_compare_exchange env2 (run_ops file_call ops fs') i v c2) = Inl x"
  using assms by (rule file_store.no_lost_update)

lemma file_cas_fresh_succeeds:
  assumes "valid_run_id i"
  shows "\<exists>fs'. file_compare_exchange (sample_env NoFault) [] i 0 c = (fs', Inr 1)"
proof -
  have "snd (file_compare_exchange (sample_env NoFault) [] i 0 c) = Inr 1"
    using healthy_cas_result [of "sample_env NoFault" "[]" i 0 c] assms
    by (simp add: healthy_def sample_env_def files_ok_def file_current_def default_record_def)
  then show ?thesis by (metis prod.collapse)
qed

theorem file_no_lost_update_witness:
  "\<exists>fs' x. file_compare_exchange (sample_env NoFault) [] ''run-1'' 0 ''a'' = (fs', Inr 1) \<and>
    snd (file_compare_exchange (sample_env NoFault)
      (run_ops file_call
        [(sample_env RenameFails, Cas ''run-1'' 1 ''b''), (sample_env NoFault, Claim ''run-1'' 1 ''me''),
         (sample_env NoFault, Put ''run-1'' ''d''), (sample_env NoFault, Erase ''run-2'')] fs')
      ''run-1'' 0 ''c'') = Inl x"
proof -
  have v: "valid_run_id ''run-1''" by (simp add: valid_run_id_def less_eq_char_def)
  have ok: "files_ok []" by (simp add: files_ok_def)
  obtain fs' where f: "file_compare_exchange (sample_env NoFault) [] ''run-1'' 0 ''a'' = (fs', Inr 1)"
    using file_cas_fresh_succeeds [OF v] by blast
  let ?ops = "[(sample_env RenameFails, Cas ''run-1'' 1 ''b''), (sample_env NoFault, Claim ''run-1'' 1 ''me''),
    (sample_env NoFault, Put ''run-1'' ''d''), (sample_env NoFault, Erase ''run-2'')]"
  have "length ?ops < 2 ^ 64 - 1" and "keeps_run ''run-1'' ?ops" by simp_all
  then show ?thesis
    using f file_no_lost_update [OF ok f, of ?ops "sample_env NoFault" "''c''"] by blast
qed

text \<open>The run itself must not be erased in between: after an \<open>erase\<close> a second compare-and-exchange
  against version zero succeeds.\<close>

lemma erase_restarts_versions:
  assumes "healthy env" and "files_ok fs" and "valid_run_id i"
  shows "snd (file_erase env fs i) = Inr (sm_has fs (state_path i))"
    and "snd (file_compare_exchange env (fst (file_erase env fs i)) i 0 c) = Inr 1"
proof -
  obtain fs1 where l: "directory_lock env fs (lock_path i) = (fs1, Inr ())"
    using healthy_lock [OF assms(1)] by blast
  have same: "same_records fs fs1" using directory_lock_same [OF files_okD [OF assms(2)] assms(3) l] by simp
  show result: "snd (file_erase env fs i) = Inr (sm_has fs (state_path i))"
    using l same assms(1,3) by (simp add: file_erase_def healthy_def same_records_def)
  obtain fs' r where e: "file_erase env fs i = (fs', r)" by fastforce
  note erased = file_erase_cases [OF assms(2) e]
  have "sr_version (file_current fs' i) = 0" using erased(2) result e by (simp add: default_record_def)
  then show "snd (file_compare_exchange env (fst (file_erase env fs i)) i 0 c) = Inr 1"
    using healthy_cas_result [OF assms(1) erased(1) assms(3), of 0 c] e by simp
qed

text \<open>
  C3. A displaced owner is fenced off: after a recovery claim at version \<open>v\<close> has succeeded in the
  memory store, a process that still holds version \<open>v\<close> cannot store a checkpoint with a
  compare-and-exchange, whatever calls follow: fewer than \<open>2 ^ 64 - 1\<close> compare-and-exchange, claim and
  \<open>put\<close> calls on any run and \<open>erase\<close> calls on other runs. The claim has advanced the version and the
  epoch and recorded the new owner.
\<close>

theorem memory_claim_fences:
  assumes "sm_ok m" and "mem_claim m i v ow = (m', Inr r)" and "length ops < 2 ^ 64 - 1"
    and "keeps_run i ops"
  shows "r = put_owner ow (mem_slot m i) \<and>
    (\<exists>x. snd (mem_compare_exchange (run_ops memory_call ops m') i v c) = Inl x)"
  using memory_store.displaced_owner_fenced [OF assms] memory_store.claim_success [OF assms(1,2)]
  by blast

definition sample_store :: memory_store where
  "sample_store = [(''run-1'', \<lparr>sr_version = 4, sr_epoch = 0, sr_owner = [], sr_checkpoint = ''{}''\<rparr>)]"

theorem memory_claim_fences_witness:
  "\<exists>m' r x. mem_claim sample_store ''run-1'' 4 ''recovery-2'' = (m', Inr r) \<and>
    sr_version r = 5 \<and> sr_epoch r = 1 \<and> sr_owner r = ''recovery-2'' \<and>
    snd (mem_compare_exchange
       (run_ops memory_call [((), Cas ''run-1'' 5 ''b''), ((), Put ''run-1'' ''c'')] m')
       ''run-1'' 4 ''a'') = Inl x"
proof -
  have ok: "sm_ok sample_store" by (simp add: sample_store_def sm_ok_Cons)
  obtain m' r where c: "mem_claim sample_store ''run-1'' 4 ''recovery-2'' = (m', Inr r)"
    by (simp add: mem_claim_def sample_store_def Let_def)
  show ?thesis
    using c memory_claim_fences [OF ok c, of "[((), Cas ''run-1'' 5 ''b''), ((), Put ''run-1'' ''c'')]" "''a''"]
    by (auto simp: put_owner_def mem_slot_def sample_store_def)
qed



text \<open>
  The two stores part on a refused exchange for a run that does not exist: the memory store
  leaves an empty record of version zero behind, which \<open>load\<close> then returns, while the file store
  still reports that the run has no state.
\<close>

theorem refused_cas_materialises_record:
  assumes "sm_get m i = None" and "sm_get fs (state_path i) = None" and "valid_run_id i"
    and "sm_ok fs" and "v \<noteq> 0"
  shows "isl (snd (mem_compare_exchange m i v c)) \<and>
    mem_load (fst (mem_compare_exchange m i v c)) i = Inr default_record \<and>
    isl (snd (file_compare_exchange env fs i v c)) \<and>
    file_load env (fst (file_compare_exchange env fs i v c)) i =
      Inl (state_error ''STATE_NOT_FOUND'' ''state record not found'')"
proof -
  obtain fs1 l where lock: "directory_lock env fs (lock_path i) = (fs1, l)" by fastforce
  have g: "sm_get fs1 (state_path i) = None"
    using directory_lock_same [OF assms(4,3) lock] assms(2,3) by (simp add: same_records_def)
  have "fst (file_compare_exchange env fs i v c) = fs1 \<and> isl (snd (file_compare_exchange env fs i v c))"
    using lock g assms(3,5)
    by (cases l) (simp_all add: file_compare_exchange_def read_current_def default_record_def)
  moreover have "isl (snd (mem_compare_exchange m i v c)) \<and>
      mem_load (fst (mem_compare_exchange m i v c)) i = Inr default_record"
    using assms(1,5) by (simp add: mem_compare_exchange_def mem_slot_def mem_load_def default_record_def Let_def)
  ultimately show ?thesis using g assms(3) by (simp add: file_load_def)
qed

theorem refused_cas_materialises_record_witness:
  "mem_load (fst (mem_compare_exchange [] ''run-1'' 2 ''c'')) ''run-1'' = Inr default_record \<and>
   file_load (sample_env NoFault) (fst (file_compare_exchange (sample_env NoFault) [] ''run-1'' 2 ''c''))
     ''run-1'' = Inl (state_error ''STATE_NOT_FOUND'' ''state record not found'')"
  using refused_cas_materialises_record [of "[]" "''run-1''" "[]" 2 "''c''" "sample_env NoFault"]
  by (simp add: valid_run_id_def less_eq_char_def)

end
