(* ===== verification/Std_String.thy ===== *)
theory Std_String
  imports Dage_Prelude "HOL-Library.Sublist"
begin

text \<open>
  The operations of \<open>std::string\<close> that the expression evaluator, the template expander and the
  patch code use: \<open>find\<close> with a start position, \<open>substr\<close>, the \<open>trim\<close> and \<open>replace_token\<close> helpers
  of \<open>dage.cpp\<close>, and splitting at a character. Positions are natural numbers and \<open>npos\<close> is \<open>None\<close>.
  The lemmas give the first-occurrence characterisation of \<open>find\<close> and that every piece cut out of a
  string at a found position is shorter than the string, which is what the termination proofs of the
  evaluator need.
\<close>

section \<open>Searching and cutting\<close>

fun find_str :: "string \<Rightarrow> string \<Rightarrow> nat option" where
  "find_str p [] = (if p = [] then Some 0 else None)"
| "find_str p (c # s) = (if prefix p (c # s) then Some 0 else map_option Suc (find_str p s))"

definition str_find :: "string \<Rightarrow> string \<Rightarrow> nat \<Rightarrow> nat option" where
  "str_find s p pos = (if length s < pos then None else map_option ((+) pos) (find_str p (drop pos s)))"

definition substr :: "string \<Rightarrow> nat \<Rightarrow> nat \<Rightarrow> string" where
  "substr s pos n = take n (drop pos s)"

definition is_blank :: "char \<Rightarrow> bool" where
  "is_blank c = (c \<in> {CHR '' '', CHR 0x09, CHR 0x0D, CHR 0x0A})"

definition rtrim :: "string \<Rightarrow> string" where
  "rtrim s = rev (dropWhile is_blank (rev s))"

definition trim :: "string \<Rightarrow> string" where
  "trim s = rtrim (dropWhile is_blank s)"

definition contains_str :: "string \<Rightarrow> string \<Rightarrow> bool" where
  "contains_str s p = (find_str p s \<noteq> None)"

definition ends_with :: "string \<Rightarrow> string \<Rightarrow> bool" where
  "ends_with s p = (length p \<le> length s \<and> drop (length s - length p) s = p)"

subsection \<open>Characterisation of find\<close>

lemma find_str_Some:
  assumes "find_str p s = Some i"
  shows "i + length p \<le> length s \<and> prefix p (drop i s) \<and> (\<forall>j<i. \<not> prefix p (drop j s))"
  using assms
proof (induction p s arbitrary: i rule: find_str.induct)
  case (1 p)
  then show ?case by (auto split: if_splits)
next
  case (2 p c s)
  show ?case
  proof (cases "prefix p (c # s)")
    case True
    then have "i = 0" using 2 by simp
    then show ?thesis using True prefix_length_le [OF True] by simp
  next
    case False
    then obtain k where k: "find_str p s = Some k" "i = Suc k" using 2 by auto
    have ih: "k + length p \<le> length s \<and> prefix p (drop k s) \<and> (\<forall>j<k. \<not> prefix p (drop j s))"
      using 2 False k by blast
    have "\<not> prefix p (drop j (c # s))" if "j < i" for j
      using that False ih k(2) by (cases j) auto
    then show ?thesis using ih k(2) by simp
  qed
qed

lemma find_str_None:
  "find_str p s = None \<longleftrightarrow> (\<forall>j\<le>length s. \<not> prefix p (drop j s))"
proof (induction p s rule: find_str.induct)
  case (1 p)
  then show ?case by auto
next
  case (2 p c s)
  have "(\<forall>j\<le>length (c # s). \<not> prefix p (drop j (c # s))) \<longleftrightarrow>
      \<not> prefix p (c # s) \<and> (\<forall>j\<le>length s. \<not> prefix p (drop j s))"
    by (metis (no_types, lifting) Suc_le_mono drop0 drop_Suc_Cons length_Cons not0_implies_Suc zero_le)
  then show ?case using 2 by auto
qed

lemma str_find_Some:
  assumes "str_find s p pos = Some i"
  shows "pos \<le> i \<and> i + length p \<le> length s \<and> prefix p (drop i s)"
proof -
  obtain k where k: "find_str p (drop pos s) = Some k" "i = pos + k" and "pos \<le> length s"
    using assms by (auto simp: str_find_def split: if_splits)
  then show ?thesis using find_str_Some [OF k(1)] by (auto simp: add.commute)
qed

lemma find_str_lt:
  "find_str p s = Some i \<Longrightarrow> p \<noteq> [] \<Longrightarrow> i < length s"
  using find_str_Some [of p s i] by (cases p) auto

lemma find_str_cut:
  assumes "find_str p s = Some i"
  shows "s = take i s @ p @ drop (i + length p) s"
proof -
  obtain r where "drop i s = p @ r" using find_str_Some [OF assms] by (auto simp: prefix_def)
  then show ?thesis by (metis append_eq_conv_conj append_take_drop_id drop_drop add.commute)
qed

subsection \<open>Trimming\<close>

lemma length_rtrim: "length (rtrim s) \<le> length s"
  using length_dropWhile_le [of is_blank "rev s"] by (simp add: rtrim_def)

lemma length_trim: "length (trim s) \<le> length s"
  using length_rtrim [of "dropWhile is_blank s"] length_dropWhile_le [of is_blank s]
  by (simp add: trim_def)

text \<open>
  \<open>replace_token\<close>: every occurrence of a token is replaced from left to right, the replacement is not
  searched again. The callers pass non-empty tokens only.
\<close>

function replace_token :: "string \<Rightarrow> string \<Rightarrow> string \<Rightarrow> string" where
  "replace_token source token replacement =
    (if token = [] then source
     else case find_str token source of
       None \<Rightarrow> source
     | Some p \<Rightarrow> take p source @ replacement @ replace_token (drop (p + length token) source) token replacement)"
  by pat_completeness auto
termination
proof (relation "measure (\<lambda>(v, _, _). length v)")
  fix token p and source replacement :: string
  assume a: "token \<noteq> []" "find_str token source = Some p"
  then have "p < length source" by (simp add: find_str_lt)
  then show "((drop (p + length token) source, token, replacement), source, token, replacement) \<in>
      measure (\<lambda>(v, _, _). length v)"
    using a(1) by (cases token) auto
qed simp

declare replace_token.simps [simp del]

definition trimmed :: "string \<Rightarrow> bool" where
  "trimmed s = (s = [] \<or> \<not> is_blank (hd s) \<and> \<not> is_blank (last s))"

lemma rtrim_id: "s \<noteq> [] \<Longrightarrow> \<not> is_blank (last s) \<Longrightarrow> rtrim s = s"
  by (cases s rule: rev_cases) (simp_all add: rtrim_def)

lemma rtrim_Nil [simp]: "rtrim [] = []"
  by (simp add: rtrim_def)

lemma trim_trimmed [simp]: "trimmed s \<Longrightarrow> trim s = s"
  by (cases s) (simp_all add: trimmed_def trim_def rtrim_id)

lemma rtrim_append_blank [simp]: "is_blank c \<Longrightarrow> rtrim (s @ [c]) = rtrim s"
  by (simp add: rtrim_def)

end
