(* ===== verification/Json_Value.thy ===== *)
theory Json_Value
  imports Std_String
begin

text \<open>
  JSON values as the program holds them (\<open>Json::Value\<close>): a tree with the integer, unsigned and real
  number tags kept apart, objects ordered by key. The JSON library itself is third-party code: its
  reader, its writers, the text and the double value of a number and its exception texts are the
  fields of the record \<open>jsonlib\<close>, an argument of every definition that uses them. What is defined
  here is the access to the tree: membership, lookup with and without a default, size and emptiness,
  insertion, and the conversions with the range checks whose violation the library reports by an
  exception (\<open>json_fault\<close>).
\<close>

section \<open>Values and the library interface\<close>

datatype json =
  JNull
| JBool bool
| JInt int
| JUInt int
| JReal rat
| JStr string
| JArr "json list"
| JObj "(string, json) smap"

datatype json_fault = Not_object | Not_array | Not_convertible | Not_in_range

datatype writer = Compact | Styled | Compact_ascii

record jsonlib =
  jl_parse :: "nat option \<Rightarrow> string \<Rightarrow> string + json"
  jl_write :: "writer \<Rightarrow> json \<Rightarrow> string"
  jl_number_text :: "json \<Rightarrow> string"
  jl_double :: "json \<Rightarrow> rat"
  jl_what :: "json_fault \<Rightarrow> string"

datatype fault = Json_error json_fault | Thrown string | Invalid_arg string

type_synonym 'a res = "fault + 'a"

fun fault_what :: "jsonlib \<Rightarrow> fault \<Rightarrow> string" where
  "fault_what L (Json_error f) = jl_what L f"
| "fault_what L (Thrown m) = m"
| "fault_what L (Invalid_arg m) = m"

definition bindR :: "'e + 'a \<Rightarrow> ('a \<Rightarrow> 'e + 'b) \<Rightarrow> 'e + 'b" where
  "bindR r f = (case r of Inl e \<Rightarrow> Inl e | Inr x \<Rightarrow> f x)"

fun mapR :: "('a \<Rightarrow> 'e + 'b) \<Rightarrow> 'a list \<Rightarrow> 'e + 'b list" where
  "mapR f [] = Inr []"
| "mapR f (x # xs) = bindR (f x) (\<lambda>y. bindR (mapR f xs) (\<lambda>ys. Inr (y # ys)))"

fun foldR :: "('a \<Rightarrow> 's \<Rightarrow> 'e + 's) \<Rightarrow> 'a list \<Rightarrow> 's \<Rightarrow> 'e + 's" where
  "foldR f [] s = Inr s"
| "foldR f (x # xs) s = bindR (f x s) (foldR f xs)"

lemma bindR_simps [simp]:
  "bindR (Inl e) f = Inl e"
  "bindR (Inr x) f = f x"
  by (simp_all add: bindR_def)

lemma bindR_Inr: "bindR r f = Inr y \<longleftrightarrow> (\<exists>x. r = Inr x \<and> f x = Inr y)"
  by (cases r) auto

lemma bindR_Inl: "bindR r f = Inl e \<longleftrightarrow> r = Inl e \<or> (\<exists>x. r = Inr x \<and> f x = Inl e)"
  by (cases r) auto

text \<open>An error value inside a computation that can throw: the success of the sequence of two.\<close>

lemma bindR_nested:
  "bindR r (\<lambda>s. case s of Inl x \<Rightarrow> Inr (Inl x) | Inr y \<Rightarrow> k y) = Inr (Inr z) \<longleftrightarrow> (\<exists>y. r = Inr (Inr y) \<and> k y = Inr (Inr z))"
proof (cases r)
  case (Inr s)
  then show ?thesis by (cases s) simp_all
qed simp

lemma bindR_cong [fundef_cong]:
  "r = r' \<Longrightarrow> (\<And>x. r' = Inr x \<Longrightarrow> f x = f' x) \<Longrightarrow> bindR r f = bindR r' f'"
  by (cases r') auto

lemma mapR_cong [fundef_cong]:
  "xs = ys \<Longrightarrow> (\<And>x. x \<in> set ys \<Longrightarrow> f x = g x) \<Longrightarrow> mapR f xs = mapR g ys"
  by (induction xs arbitrary: ys) auto

lemma mapR_Inr: "mapR f xs = Inr ys \<longleftrightarrow> list_all2 (\<lambda>x y. f x = Inr y) xs ys"
  by (induction xs arbitrary: ys) (auto simp: bindR_Inr list_all2_Cons1)

lemma foldR_append: "foldR f (xs @ ys) s = bindR (foldR f xs s) (foldR f ys)"
proof (induction xs arbitrary: s)
  case (Cons x xs)
  then show ?case by (cases "f x s") auto
qed simp

lemma foldR_invariant:
  assumes "foldR f xs s = Inr s'" and "P s"
    and "\<And>x s s'. x \<in> set xs \<Longrightarrow> P s \<Longrightarrow> f x s = Inr s' \<Longrightarrow> P s'"
  shows "P s'"
  using assms
proof (induction xs arbitrary: s)
  case (Cons x xs)
  then obtain t where t: "f x s = Inr t" "foldR f xs t = Inr s'" by (auto simp: bindR_Inr)
  have "P t" by (rule Cons.prems(3) [of x s]) (use Cons.prems(2) t(1) in simp_all)
  show ?case
    by (rule Cons.IH [OF t(2) \<open>P t\<close>]) (use Cons.prems(3) in auto)
qed simp

section \<open>Access to the tree\<close>

fun is_null :: "json \<Rightarrow> bool" where
  "is_null JNull = True"
| "is_null _ = False"

fun is_bool :: "json \<Rightarrow> bool" where
  "is_bool (JBool _) = True"
| "is_bool _ = False"

fun is_string :: "json \<Rightarrow> bool" where
  "is_string (JStr _) = True"
| "is_string _ = False"

fun is_array :: "json \<Rightarrow> bool" where
  "is_array (JArr _) = True"
| "is_array _ = False"

fun is_object :: "json \<Rightarrow> bool" where
  "is_object (JObj _) = True"
| "is_object _ = False"

fun is_numeric :: "json \<Rightarrow> bool" where
  "is_numeric (JInt _) = True"
| "is_numeric (JUInt _) = True"
| "is_numeric (JReal _) = True"
| "is_numeric _ = False"

fun members :: "json \<Rightarrow> (string, json) smap res" where
  "members (JObj m) = Inr m"
| "members JNull = Inr []"
| "members _ = Inl (Json_error Not_object)"

definition is_member :: "json \<Rightarrow> string \<Rightarrow> bool res" where
  "is_member j k = bindR (members j) (\<lambda>m. Inr (sm_has m k))"

definition j_get :: "json \<Rightarrow> string \<Rightarrow> json \<Rightarrow> json res" where
  "j_get j k d = bindR (members j) (\<lambda>m. Inr (case sm_get m k of None \<Rightarrow> d | Some v \<Rightarrow> v))"

definition j_at :: "json \<Rightarrow> string \<Rightarrow> json res" where
  "j_at j k = j_get j k JNull"

definition member_names :: "json \<Rightarrow> string list res" where
  "member_names j = bindR (members j) (\<lambda>m. Inr (sm_keys m))"

definition j_put :: "json \<Rightarrow> string \<Rightarrow> json \<Rightarrow> json res" where
  "j_put j k v = bindR (members j) (\<lambda>m. Inr (JObj (sm_put k v m)))"

definition remove_member :: "json \<Rightarrow> string \<Rightarrow> json res" where
  "remove_member j k = (if is_null j then Inr JNull else bindR (members j) (\<lambda>m. Inr (JObj (sm_del k m))))"

fun j_items :: "json \<Rightarrow> json list" where
  "j_items (JArr xs) = xs"
| "j_items (JObj m) = map snd m"
| "j_items _ = []"

fun j_append :: "json \<Rightarrow> json \<Rightarrow> json res" where
  "j_append (JArr xs) v = Inr (JArr (xs @ [v]))"
| "j_append JNull v = Inr (JArr [v])"
| "j_append _ v = Inl (Json_error Not_array)"

fun j_size :: "json \<Rightarrow> nat" where
  "j_size (JArr xs) = length xs"
| "j_size (JObj m) = length m"
| "j_size _ = 0"

fun j_empty :: "json \<Rightarrow> bool" where
  "j_empty JNull = True"
| "j_empty (JArr xs) = (xs = [])"
| "j_empty (JObj m) = (m = [])"
| "j_empty _ = False"

section \<open>Conversions\<close>

fun as_string :: "jsonlib \<Rightarrow> json \<Rightarrow> string res" where
  "as_string L JNull = Inr []"
| "as_string L (JStr s) = Inr s"
| "as_string L (JBool b) = Inr (if b then ''true'' else ''false'')"
| "as_string L (JArr _) = Inl (Json_error Not_convertible)"
| "as_string L (JObj _) = Inl (Json_error Not_convertible)"
| "as_string L j = Inr (jl_number_text L j)"

fun as_bool :: "json \<Rightarrow> bool res" where
  "as_bool (JBool b) = Inr b"
| "as_bool JNull = Inr False"
| "as_bool (JInt i) = Inr (i \<noteq> 0)"
| "as_bool (JUInt i) = Inr (i \<noteq> 0)"
| "as_bool (JReal r) = Inr (r \<noteq> 0)"
| "as_bool _ = Inl (Json_error Not_convertible)"

definition in_range :: "int \<Rightarrow> int \<Rightarrow> int \<Rightarrow> int res" where
  "in_range lo hi i = (if lo \<le> i \<and> i \<le> hi then Inr i else Inl (Json_error Not_in_range))"

fun as_integer :: "int \<Rightarrow> int \<Rightarrow> json \<Rightarrow> int res" where
  "as_integer lo hi (JInt i) = in_range lo hi i"
| "as_integer lo hi (JUInt i) = in_range lo hi i"
| "as_integer lo hi (JReal r) =
    (if rat_of_int lo \<le> r \<and> r \<le> rat_of_int hi then Inr (if 0 \<le> r then \<lfloor>r\<rfloor> else \<lceil>r\<rceil>)
     else Inl (Json_error Not_in_range))"
| "as_integer lo hi JNull = Inr 0"
| "as_integer lo hi (JBool b) = Inr (if b then 1 else 0)"
| "as_integer lo hi _ = Inl (Json_error Not_convertible)"

definition as_uint64 :: "json \<Rightarrow> u64 res" where
  "as_uint64 j = bindR (as_integer 0 (2 ^ 64 - 1) j) (\<lambda>i. Inr (word_of_int i))"

definition as_uint :: "json \<Rightarrow> u32 res" where
  "as_uint j = bindR (as_integer 0 (2 ^ 32 - 1) j) (\<lambda>i. Inr (word_of_int i))"

section \<open>Well-formed trees\<close>

fun json_ok :: "json \<Rightarrow> bool" where
  "json_ok (JArr xs) = (\<forall>x \<in> set xs. json_ok x)"
| "json_ok (JObj m) = (sm_ok m \<and> (\<forall>x \<in> set m. json_ok (snd x)))"
| "json_ok _ = True"

lemma members_ok: "json_ok j \<Longrightarrow> members j = Inr m \<Longrightarrow> sm_ok m \<and> (\<forall>x \<in> set m. json_ok (snd x))"
  by (cases j) (auto simp: sm_ok_def)

lemma json_ok_get:
  assumes "json_ok j" and "j_get j k d = Inr v" and "json_ok d"
  shows "json_ok v"
proof -
  obtain m where m: "members j = Inr m" "v = (case sm_get m k of None \<Rightarrow> d | Some v \<Rightarrow> v)"
    using assms(2) by (auto simp: j_get_def bindR_Inr)
  show ?thesis
  proof (cases "sm_get m k")
    case None
    then show ?thesis using m(2) assms(3) by simp
  next
    case (Some x)
    then have "(k, x) \<in> set m" by (rule sm_get_in_set)
    then show ?thesis using members_ok [OF assms(1) m(1)] Some m(2) by force
  qed
qed

lemma json_ok_at: "json_ok j \<Longrightarrow> j_at j k = Inr v \<Longrightarrow> json_ok v"
  using json_ok_get [of j k JNull v] by (simp add: j_at_def)

lemma distinct_member_names:
  assumes "json_ok j" and "member_names j = Inr names"
  shows "distinct names"
proof -
  obtain m where "members j = Inr m" "names = sm_keys m"
    using assms(2) by (auto simp: member_names_def bindR_Inr)
  then show ?thesis using members_ok [OF assms(1)] sm_ok_distinct by blast
qed

lemma is_object_members: "is_object j \<Longrightarrow> \<exists>m. members j = Inr m \<and> j = JObj m"
  by (cases j) auto

lemma j_get_put:
  assumes "j_put j k v = Inr j'"
  shows "j_get j' k' d = (if k' = k then Inr v else j_get j k' d)"
  using assms by (auto simp: j_put_def j_get_def bindR_Inr sm_get_put)

lemma json_ok_put:
  assumes "json_ok j" and "json_ok v" and "j_put j k v = Inr j'"
  shows "json_ok j'"
proof -
  obtain m where m: "members j = Inr m" "j' = JObj (sm_put k v m)"
    using assms(3) by (auto simp: j_put_def bindR_Inr)
  have "sm_ok (sm_put k v m)" using members_ok [OF assms(1) m(1)] by (simp add: sm_ok_put)
  moreover have "\<forall>x \<in> set (sm_put k v m). json_ok (snd x)"
    using members_ok [OF assms(1) m(1)] assms(2) by (auto dest: sm_put_set)
  ultimately show ?thesis using m(2) by simp
qed

section \<open>Reading back\<close>

text \<open>
  A tree that was written and read again is the same tree up to the tag of non-negative integers: the
  reader gives the signed tag to those that fit.
\<close>

fun canon :: "json \<Rightarrow> json" where
  "canon (JUInt n) = (if n < 2 ^ 63 then JInt n else JUInt n)"
| "canon (JArr xs) = JArr (map canon xs)"
| "canon (JObj m) = JObj (map (\<lambda>(k, v). (k, canon v)) m)"
| "canon j = j"

lemma canon_JObj_map [simp]: "canon (JObj (map (\<lambda>(k, v). (k, f v)) m)) = JObj (map (\<lambda>(k, v). (k, canon (f v))) m)"
  by (auto simp: o_def case_prod_unfold)

declare canon.simps(3) [simp del]

lemma sm_get_map: "sm_get (map (\<lambda>(k, v). (k, f v)) m) k = map_option f (sm_get m k)"
  by (induction m k rule: sm_get.induct) auto

lemma sm_get_map_of: "sm_get m k = map_of m k"
  by (induction m k rule: sm_get.induct) auto

lemma sm_get_mem: "sm_ok m \<Longrightarrow> (k, v) \<in> set m \<Longrightarrow> sm_get m k = Some v"
  using sm_ok_distinct [of m] by (simp add: sm_get_map_of)

end
