(* ===== verification/Expr_Eval.thy ===== *)
theory Expr_Eval
  imports Json_Value
begin

text \<open>
  Edge conditions and input templates (\<open>dage.cpp\<close>, from \<open>truthy\<close> to \<open>resolve_template\<close>). The seven
  JSON arguments every function of the group passes along (workflow input, node input, output, error,
  node results, state, run) are the record \<open>scope\<close>. The evaluator works on the text of an expression:
  it cuts at the first \<open> or \<close>, then at the first \<open> and \<close>, strips \<open>not \<close>, then looks for a comparison
  operator and for the built-in functions, and throws when a conversion of the JSON library does.

  The lemmas show that evaluation terminates, that it agrees with the Boolean reading of an
  expression printed from a disjunction of conjunctions, and that template expansion is one
  left-to-right pass that never expands a substituted value again.
\<close>

section \<open>Model\<close>

record scope =
  sc_workflow_input :: json
  sc_input :: json
  sc_output :: json
  sc_error :: json
  sc_nodes :: json
  sc_state :: json
  sc_run :: json

definition truthy :: "jsonlib \<Rightarrow> json \<Rightarrow> bool" where
  "truthy L v = (case v of
     JBool b \<Rightarrow> b
   | JNull \<Rightarrow> False
   | JStr s \<Rightarrow> s \<noteq> []
   | _ \<Rightarrow> if is_numeric v then jl_double L v \<noteq> 0 else \<not> j_empty v)"

definition scope_root :: "scope \<Rightarrow> string \<Rightarrow> json option" where
  "scope_root sc name =
    (if name = ''workflow'' then Some (JObj [(''input'', sc_workflow_input sc)])
     else if name = ''input'' then Some (sc_input sc)
     else if name = ''output'' then Some (sc_output sc)
     else if name = ''error'' then Some (sc_error sc)
     else if name = ''nodes'' then Some (sc_nodes sc)
     else if name = ''state'' then Some (sc_state sc)
     else if name = ''run'' then Some (sc_run sc)
     else None)"

definition until_dot :: "string \<Rightarrow> string" where
  "until_dot s = takeWhile (\<lambda>c. c \<noteq> CHR ''.'') s"

definition after_dot :: "string \<Rightarrow> string option" where
  "after_dot s = (case dropWhile (\<lambda>c. c \<noteq> CHR ''.'') s of [] \<Rightarrow> None | _ # r \<Rightarrow> Some r)"

lemma after_dot_shorter: "after_dot s = Some r \<Longrightarrow> length r < length s"
  using length_dropWhile_le [of "\<lambda>c. c \<noteq> CHR ''.''" s] by (auto simp: after_dot_def split: list.splits)

text \<open>The loop of \<open>lookup_path\<close> over the rest of the path from \<open>pos\<close> on.\<close>

function lookup_rest :: "json \<Rightarrow> string \<Rightarrow> json" where
  "lookup_rest cur rest =
    (if rest = [] then cur
     else case cur of
       JObj m \<Rightarrow>
         (case sm_get m (until_dot rest) of
            None \<Rightarrow> JNull
          | Some v \<Rightarrow> (case after_dot rest of None \<Rightarrow> v | Some r \<Rightarrow> lookup_rest v r))
     | _ \<Rightarrow> JNull)"
  by pat_completeness auto
termination by (relation "measure (\<lambda>(_, r). length r)") (auto dest: after_dot_shorter)

declare lookup_rest.simps [simp del]

definition lookup_path :: "scope \<Rightarrow> string \<Rightarrow> json" where
  "lookup_path sc path =
    (case scope_root sc (until_dot path) of
       None \<Rightarrow> JNull
     | Some cur \<Rightarrow> lookup_rest cur (case after_dot path of None \<Rightarrow> [] | Some r \<Rightarrow> r))"

definition parse_json :: "jsonlib \<Rightarrow> string \<Rightarrow> json res" where
  "parse_json L text =
    (if 16 * 1024 * 1024 < length text then Inl (Thrown ''JSON exceeds 16 MiB limit'')
     else case jl_parse L None text of Inl e \<Rightarrow> Inl (Thrown e) | Inr j \<Rightarrow> Inr j)"

definition write_json :: "jsonlib \<Rightarrow> json \<Rightarrow> bool \<Rightarrow> string" where
  "write_json L j styled = jl_write L (if styled then Styled else Compact) j"

definition quoted_by :: "char \<Rightarrow> string \<Rightarrow> bool" where
  "quoted_by q t = (2 \<le> length t \<and> hd t = q \<and> last t = q)"

definition literal :: "jsonlib \<Rightarrow> string \<Rightarrow> json" where
  "literal L text = (let t = trim text in
     if t = ''true'' then JBool True
     else if t = ''false'' then JBool False
     else if t = ''null'' then JNull
     else if quoted_by (CHR 0x27) t \<or> quoted_by (CHR 0x22) t then JStr (substr t 1 (length t - 2))
     else case parse_json L t of Inr j \<Rightarrow> j | Inl _ \<Rightarrow> JStr t)"

definition order_op :: "string \<Rightarrow> 'a::linorder \<Rightarrow> 'a \<Rightarrow> bool" where
  "order_op op x y =
    (if op = ''>'' then y < x else if op = ''>='' then y \<le> x
     else if op = ''<'' then x < y else if op = ''<='' then x \<le> y else False)"

definition compare :: "jsonlib \<Rightarrow> json \<Rightarrow> json \<Rightarrow> string \<Rightarrow> bool res" where
  "compare L a b op =
    (if op = ''=='' \<or> op = ''!='' then
       (let eq = (if is_numeric a \<and> is_numeric b then jl_double L a = jl_double L b else a = b)
        in Inr (if op = ''=='' then eq else \<not> eq))
     else if is_numeric a \<and> is_numeric b \<and> op \<in> {''>'', ''>='', ''<'', ''<=''} then
       Inr (order_op op (jl_double L a) (jl_double L b))
     else bindR (as_string L a) (\<lambda>x. bindR (as_string L b) (\<lambda>y. Inr (order_op op x y))))"

definition eval_operand :: "jsonlib \<Rightarrow> scope \<Rightarrow> string \<Rightarrow> json" where
  "eval_operand L sc raw = (let text = trim raw in
     if substr text 0 7 = ''length('' \<and> 8 < length text \<and> last text = CHR '')'' then
       JUInt (int (j_size (lookup_path sc (trim (substr text 7 (length text - 8))))))
     else if CHR ''.'' \<in> set text then
       (let v = lookup_path sc text in if \<not> is_null v then v else literal L text)
     else literal L text)"

definition comparison_ops :: "string list" where
  "comparison_ops = [''=='', ''!='', ''>='', ''<='', ''>'', ''<'']"

fun eval_comparison :: "jsonlib \<Rightarrow> scope \<Rightarrow> string \<Rightarrow> string list \<Rightarrow> bool res option" where
  "eval_comparison L sc expr [] = None"
| "eval_comparison L sc expr (op # ops) =
    (case find_str op expr of
       None \<Rightarrow> eval_comparison L sc expr ops
     | Some p \<Rightarrow> Some (compare L (eval_operand L sc (substr expr 0 p))
                          (eval_operand L sc (drop (p + length op) expr)) op))"

definition call_args :: "string \<Rightarrow> string \<Rightarrow> string option" where
  "call_args f expr =
    (if substr expr 0 (length f + 1) = f @ ''('' \<and> last expr = CHR '')''
     then Some (substr expr (length f + 1) (length expr - (length f + 1) - 1)) else None)"

definition eval_binary :: "jsonlib \<Rightarrow> scope \<Rightarrow> string \<Rightarrow> string \<Rightarrow> bool res" where
  "eval_binary L sc f args =
    (case find_str '','' args of
       None \<Rightarrow> Inr False
     | Some comma \<Rightarrow>
         (let a = lookup_path sc (trim (substr args 0 comma));
              b = literal L (drop (comma + 1) args)
          in if f = ''contains'' then
               (case a of
                  JArr xs \<Rightarrow> Inr (b \<in> set xs)
                | JObj m \<Rightarrow> bindR (as_string L b) (\<lambda>k. Inr (sm_has m k))
                | _ \<Rightarrow> bindR (as_string L a) (\<lambda>x. bindR (as_string L b) (\<lambda>y. Inr (contains_str x y))))
             else bindR (as_string L a) (\<lambda>x. bindR (as_string L b) (\<lambda>y.
               Inr (if f = ''starts_with'' then prefix y x else ends_with x y)))))"

definition eval_unary :: "scope \<Rightarrow> string \<Rightarrow> string \<Rightarrow> bool" where
  "eval_unary sc f args = (let v = lookup_path sc (trim args) in
     if f = ''exists'' then \<not> is_null v
     else if f = ''empty'' then is_null v \<or> j_empty v
     else j_size v \<noteq> 0)"

fun first_call :: "string list \<Rightarrow> string \<Rightarrow> (string \<times> string) option" where
  "first_call [] expr = None"
| "first_call (f # fs) expr = (case call_args f expr of Some a \<Rightarrow> Some (f, a) | None \<Rightarrow> first_call fs expr)"

text \<open>The part of \<open>eval_expr\<close> after the Boolean connectives.\<close>

definition eval_atom :: "jsonlib \<Rightarrow> scope \<Rightarrow> string \<Rightarrow> bool res" where
  "eval_atom L sc expr =
    (case eval_comparison L sc expr comparison_ops of
       Some r \<Rightarrow> r
     | None \<Rightarrow>
         (case first_call [''contains'', ''starts_with'', ''ends_with''] expr of
            Some (f, args) \<Rightarrow> eval_binary L sc f args
          | None \<Rightarrow>
              (case first_call [''exists'', ''empty'', ''length''] expr of
                 Some (f, args) \<Rightarrow> Inr (eval_unary sc f args)
               | None \<Rightarrow> Inr (truthy L (lookup_path sc expr)))))"

definition unwrap :: "string \<Rightarrow> string" where
  "unwrap s = (let e = trim s in
     if 3 \<le> length e \<and> substr e 0 2 = ''${'' \<and> last e = CHR ''}'' then trim (substr e 2 (length e - 3)) else e)"

lemma length_unwrap: "length (unwrap s) \<le> length s"
proof -
  have "length (trim (substr e 2 (length e - 3))) \<le> length e" for e
    using length_trim [of "substr e 2 (length e - 3)"] by (simp add: substr_def)
  then show ?thesis
    using length_trim [of s] by (auto simp: unwrap_def Let_def intro: order_trans)
qed

definition or_text :: string where "or_text = '' or ''"

definition and_text :: string where "and_text = '' and ''"

lemma cut_shorter:
  assumes "find_str p (unwrap s) = Some i" and "p \<noteq> []"
  shows "length (substr (unwrap s) 0 i) < length s"
    and "0 < n \<Longrightarrow> length (unwrap s) - (i + n) < length s"
proof -
  have i: "i < length (unwrap s)" using find_str_lt [OF assms] .
  then show "length (substr (unwrap s) 0 i) < length s"
    using length_unwrap [of s] by (simp add: substr_def)
  show "0 < n \<Longrightarrow> length (unwrap s) - (i + n) < length s"
    using length_unwrap [of s] i by linarith
qed

lemma not_shorter: "substr (unwrap s) 0 4 = ''not '' \<Longrightarrow> length (unwrap s) - 4 < length s"
  using length_unwrap [of s] by (cases "unwrap s") (auto simp: substr_def)

lemma connective_nonempty [simp]: "or_text \<noteq> []" "and_text \<noteq> []"
  by (simp_all add: or_text_def and_text_def)

function (sequential) eval_expr :: "jsonlib \<Rightarrow> scope \<Rightarrow> string \<Rightarrow> bool res" where
  "eval_expr L sc wrapped = (let expr = unwrap wrapped in
     case find_str or_text expr of
       Some p \<Rightarrow> bindR (eval_expr L sc (substr expr 0 p)) (\<lambda>b.
                   if b then Inr True else eval_expr L sc (drop (p + 4) expr))
     | None \<Rightarrow>
        (case find_str and_text expr of
           Some p \<Rightarrow> bindR (eval_expr L sc (substr expr 0 p)) (\<lambda>b.
                       if b then eval_expr L sc (drop (p + 5) expr) else Inr False)
         | None \<Rightarrow>
            if substr expr 0 4 = ''not '' then bindR (eval_expr L sc (drop 4 expr)) (\<lambda>b. Inr (\<not> b))
            else eval_atom L sc expr))"
  by pat_completeness auto
termination
  by (relation "measure (\<lambda>(_, _, s). length s)") (auto intro: cut_shorter not_shorter)

declare eval_expr.simps [simp del]

text \<open>The text loop of \<open>resolve_template\<close>: \<open>result\<close> is edited in place, \<open>start\<close> moves past each replacement.\<close>

definition template_value :: "jsonlib \<Rightarrow> scope \<Rightarrow> string \<Rightarrow> string" where
  "template_value L sc path = (case lookup_path sc (trim path) of
     JStr s \<Rightarrow> s | v \<Rightarrow> write_json L v False)"

function template_loop :: "jsonlib \<Rightarrow> scope \<Rightarrow> string \<Rightarrow> nat \<Rightarrow> string" where
  "template_loop L sc result start =
    (case str_find result ''${'' start of
       None \<Rightarrow> result
     | Some s \<Rightarrow>
        (case str_find result ''}'' (s + 2) of
           None \<Rightarrow> result
         | Some e \<Rightarrow>
            (let replacement = template_value L sc (substr result (s + 2) (e - s - 2))
             in template_loop L sc (take s result @ replacement @ drop (e + 1) result)
                  (s + length replacement))))"
  by pat_completeness auto
termination
proof (relation "measure (\<lambda>(_, _, r, s). length r - s)")
  fix L sc result start s e replacement
  assume "str_find result ''${'' start = Some s" and "str_find result ''}'' (s + 2) = Some e"
  then have "start \<le> s" "s + 2 \<le> e" "e + 1 \<le> length result"
    using str_find_Some [of result "''${''" start s] str_find_Some [of result "''}''" "s + 2" e] by auto
  then show "((L, sc, take s result @ replacement @ drop (e + 1) result, s + length replacement),
      L, sc, result, start) \<in> measure (\<lambda>(_, _, r, s). length r - s)"
    by auto
qed simp

declare template_loop.simps [simp del]

definition whole_template :: "string \<Rightarrow> bool" where
  "whole_template s = (3 \<le> length s \<and> substr s 0 2 = ''${'' \<and> last s = CHR ''}'')"

fun resolve_template :: "jsonlib \<Rightarrow> scope \<Rightarrow> json \<Rightarrow> json" where
  "resolve_template L sc (JStr s) =
    (if whole_template s then lookup_path sc (trim (substr s 2 (length s - 3)))
     else JStr (template_loop L sc s 0))"
| "resolve_template L sc (JArr xs) = JArr (map (resolve_template L sc) xs)"
| "resolve_template L sc (JObj m) = JObj (map (\<lambda>(k, v). (k, resolve_template L sc v)) m)"
| "resolve_template L sc v = v"

section \<open>Template expansion is one pass\<close>

text \<open>The reference: copy up to a reference, insert its value, continue behind it.\<close>

function expand_template :: "jsonlib \<Rightarrow> scope \<Rightarrow> string \<Rightarrow> string" where
  "expand_template L sc text =
    (case find_str ''${'' text of
       None \<Rightarrow> text
     | Some s \<Rightarrow>
        (case find_str ''}'' (drop (s + 2) text) of
           None \<Rightarrow> text
         | Some k \<Rightarrow> take s text @ template_value L sc (take k (drop (s + 2) text)) @
                      expand_template L sc (drop (s + k + 3) text)))"
  by pat_completeness auto
termination
  by (relation "measure (\<lambda>(_, _, t). length t)") (auto dest!: find_str_lt)

declare expand_template.simps [simp del]

lemma template_loop_expand:
  assumes "start \<le> length result"
  shows "template_loop L sc result start = take start result @ expand_template L sc (drop start result)"
  using assms
proof (induction L sc result start rule: template_loop.induct)
  case (1 L sc result start)
  show ?case
  proof (cases "str_find result ''${'' start")
    case None
    then have "find_str ''${'' (drop start result) = None"
      using 1(2) by (simp add: str_find_def)
    then show ?thesis using None by (simp add: template_loop.simps expand_template.simps)
  next
    case (Some s)
    then obtain k where k: "find_str ''${'' (drop start result) = Some k" "s = start + k"
      using 1(2) by (auto simp: str_find_def)
    note bound = str_find_Some [OF Some]
    show ?thesis
    proof (cases "str_find result ''}'' (s + 2)")
      case None
      then have "find_str ''}'' (drop (k + 2) (drop start result)) = None"
        using bound k(2) by (simp add: str_find_def add.commute add.left_commute)
      then show ?thesis
        using None Some k(1) by (simp add: template_loop.simps expand_template.simps)
    next
      case e: (Some e)
      then obtain m where m: "find_str ''}'' (drop (k + 2) (drop start result)) = Some m" "e = s + 2 + m"
        using bound k(2) by (auto simp: str_find_def add.commute add.left_commute)
      let ?rep = "template_value L sc (substr result (s + 2) (e - s - 2))"
      have e_lt: "e < length result" using str_find_Some [OF e] by simp
      have rep: "?rep = template_value L sc (take m (drop (k + 2) (drop start result)))"
        using m(2) k(2) by (simp add: substr_def add.commute add.left_commute)
      have "template_loop L sc result start =
          template_loop L sc (take s result @ ?rep @ drop (e + 1) result) (s + length ?rep)"
        using Some e by (simp add: template_loop.simps [of L sc result start] Let_def)
      also have "\<dots> = take s result @ ?rep @ expand_template L sc (drop (e + 1) result)"
        using 1(1) [OF Some e refl] bound by simp
      also have "take s result = take start result @ take k (drop start result)"
        by (simp add: k(2) take_add)
      also have "drop (e + 1) result = drop (k + m + 3) (drop start result)"
        unfolding drop_drop by (rule arg_cong [of _ _ "\<lambda>n. drop n result"]) (simp add: m(2) k(2))
      finally show ?thesis
        using k(1) m(1) rep by (simp add: expand_template.simps [of L sc "drop start result"])
    qed
  qed
qed

section \<open>The Boolean reading of an expression\<close>

text \<open>
  Expressions written as a disjunction of conjunctions of possibly negated atoms, and their value
  with the short-circuit evaluation of \<open>||\<close> and \<open>&&\<close>: a later operand is not evaluated, so it cannot
  throw, once the earlier ones decide.
\<close>

fun join_str :: "string \<Rightarrow> string list \<Rightarrow> string" where
  "join_str sep [] = []"
| "join_str sep [x] = x"
| "join_str sep (x # y # ys) = x @ sep @ join_str sep (y # ys)"

fun anyR :: "bool res list \<Rightarrow> bool res" where
  "anyR [] = Inr False"
| "anyR (x # xs) = bindR x (\<lambda>b. if b then Inr True else anyR xs)"

fun allR :: "bool res list \<Rightarrow> bool res" where
  "allR [] = Inr True"
| "allR (x # xs) = bindR x (\<lambda>b. if b then allR xs else Inr False)"

type_synonym lit = "bool \<times> string"

definition print_lit :: "lit \<Rightarrow> string" where
  "print_lit l = (if fst l then snd l else ''not '' @ snd l)"

definition print_dnf :: "lit list list \<Rightarrow> string" where
  "print_dnf d = join_str or_text (map (\<lambda>c. join_str and_text (map print_lit c)) d)"

definition lit_value :: "jsonlib \<Rightarrow> scope \<Rightarrow> lit \<Rightarrow> bool res" where
  "lit_value L sc l = bindR (eval_atom L sc (snd l)) (\<lambda>b. Inr (b = fst l))"

definition dnf_value :: "jsonlib \<Rightarrow> scope \<Rightarrow> lit list list \<Rightarrow> bool res" where
  "dnf_value L sc d = anyR (map (\<lambda>c. allR (map (lit_value L sc) c)) d)"

text \<open>An atom is plain when it is trimmed and no connective can be read inside it or across its ends.\<close>

definition quiet :: "string \<Rightarrow> string \<Rightarrow> bool" where
  "quiet sep a = (find_str sep ('' '' @ a @ '' '') = None)"

definition plain_atom :: "string \<Rightarrow> bool" where
  "plain_atom a = (a \<noteq> [] \<and> trimmed a \<and> hd a \<noteq> CHR ''$'' \<and> quiet or_text a \<and> quiet and_text a \<and>
     substr a 0 4 \<noteq> ''not '')"

definition framed :: "string \<Rightarrow> bool" where
  "framed s = (s \<noteq> [] \<and> trimmed s \<and> hd s \<noteq> CHR ''$'')"

lemma unwrap_framed: "framed s \<Longrightarrow> unwrap s = s"
  by (cases s) (auto simp: framed_def unwrap_def Let_def substr_def)

lemma find_or_sep:
  "find_str or_text (x @ '' '') = None \<Longrightarrow> find_str or_text (x @ or_text @ r) = Some (length x)"
proof (induction x)
  case (Cons c x)
  then have "find_str or_text (x @ '' '') = None" and p: "\<not> prefix or_text (c # x @ '' '')"
    by (auto split: if_splits)
  moreover have "\<not> prefix or_text (c # x @ or_text @ r)"
  proof (cases "length x < 3")
    case True
    then show ?thesis
      using p by (cases x rule: list.exhaust; cases "tl x" rule: list.exhaust;
          cases "tl (tl x)" rule: list.exhaust) (auto simp: or_text_def)
  next
    case False
    then obtain a b d y where "x = a # b # d # y" by (cases x; cases "tl x"; cases "tl (tl x)") auto
    then show ?thesis using p by (auto simp: or_text_def)
  qed
  ultimately show ?case using Cons.IH by simp
qed (simp add: or_text_def)

lemma find_and_sep:
  "find_str and_text (x @ '' '') = None \<Longrightarrow> find_str and_text (x @ and_text @ r) = Some (length x)"
proof (induction x)
  case (Cons c x)
  then have "find_str and_text (x @ '' '') = None" and p: "\<not> prefix and_text (c # x @ '' '')"
    by (auto split: if_splits)
  moreover have "\<not> prefix and_text (c # x @ and_text @ r)"
  proof (cases "length x < 4")
    case True
    then show ?thesis
      using p by (cases x rule: list.exhaust; cases "tl x" rule: list.exhaust;
          cases "tl (tl x)" rule: list.exhaust; cases "tl (tl (tl x))" rule: list.exhaust)
        (auto simp: and_text_def)
  next
    case False
    then obtain a b d e y where "x = a # b # d # e # y"
      by (cases x; cases "tl x"; cases "tl (tl x)"; cases "tl (tl (tl x))") auto
    then show ?thesis using p by (auto simp: and_text_def)
  qed
  ultimately show ?case using Cons.IH by simp
qed (simp add: and_text_def)

lemma find_or_across_and:
  "find_str or_text (x @ '' '') = None \<Longrightarrow> find_str or_text ('' '' @ r) = None \<Longrightarrow>
    find_str or_text (x @ and_text @ r) = None"
proof (induction x)
  case (Cons c x)
  then have "find_str or_text (x @ '' '') = None" and p: "\<not> prefix or_text (c # x @ '' '')"
    by (auto split: if_splits)
  moreover have "\<not> prefix or_text (c # x @ and_text @ r)"
  proof (cases "length x < 3")
    case True
    then show ?thesis
      using p by (cases x rule: list.exhaust; cases "tl x" rule: list.exhaust;
          cases "tl (tl x)" rule: list.exhaust) (auto simp: or_text_def and_text_def)
  next
    case False
    then obtain a b d y where "x = a # b # d # y" by (cases x; cases "tl x"; cases "tl (tl x)") auto
    then show ?thesis using p by (auto simp: or_text_def)
  qed
  ultimately show ?case using Cons.IH Cons.prems by simp
qed (simp add: or_text_def and_text_def)

lemma find_str_suffix: "find_str p (x @ y) = None \<Longrightarrow> find_str p y = None"
  by (induction x) (auto split: if_splits)

lemma quiet_ends: "quiet sep a \<Longrightarrow> find_str sep (a @ '' '') = None"
  using find_str_suffix [of sep "'' ''" "a @ '' ''"] by (simp add: quiet_def)

lemma find_str_prefix:
  assumes "find_str p (x @ y) = None"
  shows "find_str p x = None"
  unfolding find_str_None
proof (intro allI impI notI)
  fix j assume j: "j \<le> length x" and "prefix p (drop j x)"
  then have "prefix p (drop j (x @ y))" unfolding drop_append using prefix_prefix by blast
  then show False using assms j unfolding find_str_None by (metis length_append trans_le_add1)
qed

lemma framed_join:
  assumes "xs \<noteq> []" and "\<forall>x \<in> set xs. framed x"
  shows "framed (join_str sep xs)"
proof -
  have "join_str sep xs \<noteq> [] \<and> hd (join_str sep xs) = hd (hd xs) \<and> last (join_str sep xs) = last (last xs)"
    using assms by (induction sep xs rule: join_str.induct) (auto simp: framed_def)
  moreover have "framed (hd xs)" "framed (last xs)" using assms by auto
  ultimately show ?thesis by (auto simp: framed_def trimmed_def)
qed

lemma eval_or_join:
  assumes "xs \<noteq> []" and "\<forall>x \<in> set xs. framed x \<and> find_str or_text (x @ '' '') = None"
  shows "eval_expr L sc (join_str or_text xs) = anyR (map (eval_expr L sc) xs)"
  using assms
proof (induction or_text xs rule: join_str.induct)
  case (2 x)
  then show ?case by (cases "eval_expr L sc x") auto
next
  case (3 x y ys)
  let ?e = "x @ or_text @ join_str or_text (y # ys)"
  have "framed ?e" using framed_join [of "x # y # ys" or_text] 3(2,3) by simp
  moreover have "find_str or_text ?e = Some (length x)" using find_or_sep 3(3) by simp
  moreover have "drop (length x + 4) ?e = join_str or_text (y # ys)"
    by (simp add: or_text_def)
  ultimately have "eval_expr L sc ?e = bindR (eval_expr L sc x) (\<lambda>b. if b then Inr True
      else eval_expr L sc (join_str or_text (y # ys)))"
    by (subst eval_expr.simps) (simp add: unwrap_framed substr_def Let_def cong: if_cong)
  then show ?case using 3 by (simp cong: if_cong)
qed simp

lemma eval_and_join:
  assumes "xs \<noteq> []" and "\<forall>x \<in> set xs. framed x \<and> find_str and_text (x @ '' '') = None"
    and "find_str or_text (join_str and_text xs) = None"
  shows "eval_expr L sc (join_str and_text xs) = allR (map (eval_expr L sc) xs)"
  using assms
proof (induction and_text xs rule: join_str.induct)
  case (2 x)
  then show ?case by (cases "eval_expr L sc x") auto
next
  case (3 x y ys)
  let ?e = "x @ and_text @ join_str and_text (y # ys)"
  have "framed ?e" using framed_join [of "x # y # ys" and_text] 3(2,3) by simp
  moreover have "find_str and_text ?e = Some (length x)" using find_and_sep 3(3) by simp
  moreover have "drop (length x + 5) ?e = join_str and_text (y # ys)"
    by (simp add: and_text_def)
  moreover have no_or: "find_str or_text ?e = None" using 3(4) by simp
  ultimately have "eval_expr L sc ?e = bindR (eval_expr L sc x) (\<lambda>b.
      if b then eval_expr L sc (join_str and_text (y # ys)) else Inr False)"
    by (subst eval_expr.simps) (simp add: unwrap_framed substr_def Let_def cong: if_cong)
  moreover have "find_str or_text (join_str and_text (y # ys)) = None"
    using find_str_suffix [of or_text "x @ and_text"] no_or by simp
  ultimately show ?case using 3 by (simp cong: if_cong)
qed simp

lemma quiet_print_lit:
  assumes "plain_atom (snd l)"
  shows "quiet or_text (print_lit l)" and "quiet and_text (print_lit l)" and "framed (print_lit l)"
  using assms
  by (auto simp: print_lit_def plain_atom_def quiet_def or_text_def and_text_def framed_def trimmed_def
      is_blank_def)

lemma eval_lit:
  assumes "plain_atom (snd l)"
  shows "eval_expr L sc (print_lit l) = lit_value L sc l"
proof -
  obtain pos a where l: "l = (pos, a)" by fastforce
  have f: "framed a" using assms l by (simp add: plain_atom_def framed_def)
  have o: "find_str or_text a = None" "find_str and_text a = None"
    using quiet_ends [of or_text a] quiet_ends [of and_text a] assms l
      find_str_prefix [of or_text a "'' ''"] find_str_prefix [of and_text a "'' ''"]
    by (simp_all add: plain_atom_def)
  have atom: "eval_expr L sc a = eval_atom L sc a"
    using f o assms l by (subst eval_expr.simps) (simp add: unwrap_framed plain_atom_def)
  show ?thesis
  proof (cases pos)
    case True
    then show ?thesis using atom l by (cases "eval_atom L sc a") (simp_all add: print_lit_def lit_value_def)
  next
    case False
    let ?e = "''not '' @ a"
    have q: "quiet or_text ?e" "quiet and_text ?e" "framed ?e"
      using quiet_print_lit [of l] assms l False by (simp_all add: print_lit_def)
    have "find_str or_text ?e = None" "find_str and_text ?e = None"
      using find_str_prefix [OF quiet_ends [OF q(1)]] find_str_prefix [OF quiet_ends [OF q(2)]] by blast+
    then have "eval_expr L sc ?e = bindR (eval_expr L sc a) (\<lambda>b. Inr (\<not> b))"
      using q(3) by (subst eval_expr.simps) (simp add: unwrap_framed substr_def)
    then show ?thesis
      using atom l False by (cases "eval_atom L sc a") (simp_all add: print_lit_def lit_value_def)
  qed
qed

lemma conj_no_or:
  assumes "ys \<noteq> []" and "\<forall>y \<in> set ys. quiet or_text y"
  shows "find_str or_text ('' '' @ join_str and_text ys @ '' '') = None"
  using assms
proof (induction and_text ys rule: join_str.induct)
  case (3 x y ys)
  have "find_str or_text (('' '' @ x) @ and_text @ (join_str and_text (y # ys) @ '' '')) = None"
    by (rule find_or_across_and) (use 3 in \<open>simp_all add: quiet_def\<close>)
  then show ?case by simp
qed (simp_all add: quiet_def)

definition plain_dnf :: "lit list list \<Rightarrow> bool" where
  "plain_dnf d = (d \<noteq> [] \<and> (\<forall>c \<in> set d. c \<noteq> [] \<and> (\<forall>l \<in> set c. plain_atom (snd l))))"

lemma eval_conj:
  assumes "c \<noteq> []" and "\<forall>l \<in> set c. plain_atom (snd l)"
  shows "eval_expr L sc (join_str and_text (map print_lit c)) = allR (map (lit_value L sc) c)"
    and "framed (join_str and_text (map print_lit c))"
    and "find_str or_text (join_str and_text (map print_lit c) @ '' '') = None"
proof -
  let ?ys = "map print_lit c"
  have ne: "?ys \<noteq> []" using assms(1) by simp
  have q: "\<forall>y \<in> set ?ys. quiet or_text y \<and> quiet and_text y \<and> framed y"
    using quiet_print_lit assms(2) by auto
  show "framed (join_str and_text ?ys)" using framed_join [OF ne] q by blast
  have no_or: "find_str or_text ('' '' @ join_str and_text ?ys @ '' '') = None"
    using conj_no_or [OF ne] q by blast
  then show tail: "find_str or_text (join_str and_text ?ys @ '' '') = None"
    using find_str_suffix [of or_text "'' ''"] by blast
  have "eval_expr L sc (join_str and_text ?ys) = allR (map (eval_expr L sc) ?ys)"
    by (rule eval_and_join [OF ne]) (use q quiet_ends find_str_prefix [OF tail] in auto)
  also have "map (eval_expr L sc) ?ys = map (lit_value L sc) c"
    using assms(2) by (simp add: eval_lit)
  finally show "eval_expr L sc (join_str and_text ?ys) = allR (map (lit_value L sc) c)" .
qed

section \<open>Properties\<close>

text \<open>
  C9. Precedence and short-circuiting: the text evaluator computes the Boolean value of every
  expression printed from a disjunction of conjunctions of possibly negated atoms, where \<open>or\<close> binds
  weakest and \<open>not\<close> strongest, and an operand that throws only matters when it is reached. The atoms
  are plain: trimmed texts that do not begin with a reference or a negation and contain neither
  connective, not even inside quotes, where the evaluator would split them as well
  (\<open>quoted_connective_is_split\<close>).
\<close>

theorem eval_expr_dnf:
  assumes "plain_dnf d"
  shows "eval_expr L sc (print_dnf d) = dnf_value L sc d"
proof -
  let ?cs = "map (\<lambda>c. join_str and_text (map print_lit c)) d"
  have "?cs \<noteq> []" using assms by (simp add: plain_dnf_def)
  moreover have "\<forall>x \<in> set ?cs. framed x \<and> find_str or_text (x @ '' '') = None"
    using eval_conj assms by (auto simp: plain_dnf_def)
  ultimately have "eval_expr L sc (print_dnf d) = anyR (map (eval_expr L sc) ?cs)"
    unfolding print_dnf_def by (rule eval_or_join)
  also have "map (eval_expr L sc) ?cs = map (\<lambda>c. allR (map (lit_value L sc) c)) d"
    using eval_conj assms by (simp add: plain_dnf_def)
  finally show ?thesis by (simp add: dnf_value_def)
qed

text \<open>A scope for the examples: the node input has the members \<open>a\<close> and \<open>b\<close>.\<close>

definition sample_scope :: scope where
  "sample_scope = \<lparr>sc_workflow_input = JNull, sc_input = JObj [(''a'', JStr ''1''), (''b'', JStr ''x or y'')],
     sc_output = JNull, sc_error = JNull, sc_nodes = JNull, sc_state = JNull, sc_run = JNull\<rparr>"

definition bare_lib :: jsonlib where
  "bare_lib = \<lparr>jl_parse = (\<lambda>_ _. Inl ''syntax error''), jl_write = (\<lambda>_ _. ''null''),
     jl_number_text = (\<lambda>_. ''0''), jl_double = (\<lambda>_. 0), jl_what = (\<lambda>_. ''error'')\<rparr>"

theorem eval_expr_dnf_witness:
  "eval_expr bare_lib sample_scope ''input.z or not input.z and input.a'' = Inr True"
proof -
  let ?d = "[[(True, ''input.z'')], [(False, ''input.z''), (True, ''input.a'')]]"
  have "plain_dnf ?d"
    by (simp add: plain_dnf_def plain_atom_def quiet_def or_text_def and_text_def trimmed_def is_blank_def
        substr_def)
  then have "eval_expr bare_lib sample_scope (print_dnf ?d) = dnf_value bare_lib sample_scope ?d"
    by (rule eval_expr_dnf)
  moreover have "print_dnf ?d = ''input.z or not input.z and input.a''"
    by (simp add: print_dnf_def print_lit_def or_text_def and_text_def)
  moreover have "dnf_value bare_lib sample_scope ?d = Inr True"
    by (simp add: dnf_value_def lit_value_def eval_atom_def comparison_ops_def call_args_def substr_def
        lookup_path_def scope_root_def until_dot_def after_dot_def lookup_rest.simps sample_scope_def
        truthy_def)
  ultimately show ?thesis by simp
qed

text \<open>
  Template expansion is a single pass: the in-place editing loop computes the left-to-right
  expansion of the text, in which a substituted value is never scanned for references again.
\<close>

theorem template_single_pass:
  "resolve_template L sc (JStr s) =
    (if whole_template s then lookup_path sc (trim (substr s 2 (length s - 3)))
     else JStr (expand_template L sc s))"
  using template_loop_expand [of 0 s L sc] by simp

text \<open>
  Connectives are cut out of string literals as well: the comparison of \<open>input.b\<close> with the quoted
  text \<open>x or y\<close> is false although \<open>input.b\<close> is that text, because the expression is split inside
  the quotes (whenever the JSON reader rejects the unbalanced half \<open>'x\<close>).
\<close>

theorem quoted_connective_is_split:
  assumes "sc_input sc = JObj [(''b'', JStr ''x or y'')]" and "isl (jl_parse L None (CHR 0x27 # ''x''))"
  shows "eval_expr L sc (''input.b == '' @ [CHR 0x27] @ ''x or y'' @ [CHR 0x27]) = Inr False"
proof -
  let ?l = "''input.b == '' @ [CHR 0x27] @ ''x''" and ?r = "''y'' @ [CHR 0x27]"
  have f: "framed ?l" "framed ?r" by (simp_all add: framed_def trimmed_def is_blank_def)
  have no: "find_str or_text (?l @ '' '') = None" "find_str or_text (?r @ '' '') = None"
    "find_str or_text ?l = None" "find_str and_text ?l = None"
    "find_str or_text ?r = None" "find_str and_text ?r = None"
    by (simp_all add: or_text_def and_text_def)
  have "eval_expr L sc ?l = eval_atom L sc ?l"
    using no f by (subst eval_expr.simps) (simp add: unwrap_framed substr_def)
  moreover have "eval_atom L sc ?l = Inr False"
    using assms
    by (auto simp: eval_atom_def comparison_ops_def eval_operand_def Let_def trim_def rtrim_def is_blank_def
        substr_def literal_def quoted_by_def parse_json_def lookup_path_def scope_root_def until_dot_def
        after_dot_def lookup_rest.simps compare_def isl_def)
  moreover have "eval_expr L sc ?r = eval_atom L sc ?r"
    using no f by (subst eval_expr.simps) (simp add: unwrap_framed substr_def)
  moreover have "eval_atom L sc ?r = Inr False"
    by (simp add: eval_atom_def comparison_ops_def call_args_def substr_def lookup_path_def scope_root_def
        until_dot_def after_dot_def truthy_def)
  moreover have "eval_expr L sc (join_str or_text [?l, ?r]) = anyR (map (eval_expr L sc) [?l, ?r])"
    by (rule eval_or_join) (use no f in simp_all)
  ultimately show ?thesis by (simp add: or_text_def)
qed

theorem quoted_connective_is_split_witness:
  "sc_input (sample_scope\<lparr>sc_input := JObj [(''b'', JStr ''x or y'')]\<rparr>) = JObj [(''b'', JStr ''x or y'')] \<and>
   eval_expr bare_lib (sample_scope\<lparr>sc_input := JObj [(''b'', JStr ''x or y'')]\<rparr>)
     (''input.b == '' @ [CHR 0x27] @ ''x or y'' @ [CHR 0x27]) = Inr False"
  using quoted_connective_is_split [of "sample_scope\<lparr>sc_input := JObj [(''b'', JStr ''x or y'')]\<rparr>" bare_lib]
  by (simp add: bare_lib_def)

text \<open>
  A text that starts and ends with a reference is taken for one reference: a template with two
  references and a blank between them resolves to null, although both exist and its loop would
  expand them.
\<close>

theorem two_references_resolve_to_null:
  assumes "sc_input sc = JObj [(''a'', JStr x), (''b'', JStr y)]"
  shows "resolve_template L sc (JStr ''${input.a} ${input.b}'') = JNull \<and>
    template_loop L sc ''${input.a} ${input.b}'' 0 = x @ '' '' @ y"
proof -
  have "template_loop L sc ''${input.a} ${input.b}'' 0 = expand_template L sc ''${input.a} ${input.b}''"
    using template_loop_expand [of 0 "''${input.a} ${input.b}''" L sc] by simp
  also have "\<dots> = x @ '' '' @ y"
    using assms
    by (simp add: expand_template.simps template_value_def lookup_path_def scope_root_def until_dot_def
        after_dot_def lookup_rest.simps trim_def rtrim_def is_blank_def)
  finally show ?thesis
    using assms
    by (simp add: whole_template_def substr_def trim_def rtrim_def is_blank_def lookup_path_def
        scope_root_def until_dot_def after_dot_def lookup_rest.simps)
qed

theorem two_references_resolve_to_null_witness:
  "resolve_template bare_lib sample_scope (JStr ''${input.a} ${input.b}'') = JNull \<and>
   template_loop bare_lib sample_scope ''${input.a} ${input.b}'' 0 = ''1 x or y''"
  using two_references_resolve_to_null [of sample_scope "''1''" "''x or y''" bare_lib]
  by (simp add: sample_scope_def)

end
