(* ===== verification/Workflow_IR.thy ===== *)
theory Workflow_IR
  imports Expr_Eval Sha256
begin

text \<open>
  The compiled form of a workflow (\<open>ir.cpp\<close>, \<open>ir.hpp\<close>): edges, nodes and the workflow with its index,
  and the compiler that builds them from the normalized JSON text while accounting for every byte it
  keeps. Object sizes are natural numbers (the sizes of objects in memory, which fit \<open>size_t\<close>); the
  numbers read from the workflow keep their width. The lemmas show that a compiled workflow stays
  within its byte budget, that its index finds exactly the nodes of the source, and which fields of
  the source each compiled node carries.
\<close>

section \<open>Model\<close>

datatype NodeType =
  Llm | Tool | Transform | Condition | Parallel | Join | Subflow | Human | Start | End | Noop | Custom

datatype EffectKind = Pure | LocalState | ExternalRead | ExternalWrite | Irreversible

datatype ReplayPolicy = Safe | Idempotent | AtMostOnce | Manual | Forbidden

record EdgeIR =
  ed_target :: string
  ed_condition :: string
  ed_otherwise :: bool
  ed_set :: json
  ed_loop :: json
  ed_max_hits :: u32

record NodeIR =
  nd_id :: string
  nd_name :: string
  nd_executor :: string
  nd_idempotency_key :: string
  nd_join :: string
  nd_type :: NodeType
  nd_enabled :: bool
  nd_guarantees :: bool
  nd_input :: json
  nd_config :: json
  nd_policy :: json
  nd_effect :: EffectKind
  nd_replay :: ReplayPolicy
  nd_timeout_ms :: u64
  nd_retry_delay_ms :: u64
  nd_retry_jitter_ms :: u64
  nd_max_attempts :: u32
  nd_retry_backoff :: string
  nd_next :: "EdgeIR list"
  nd_error :: "EdgeIR list"
  nd_branches :: "string list"

record WorkflowIR =
  wf_id :: string
  wf_entry :: string
  wf_digest :: string
  wf_max_steps :: u64
  wf_timeout_ms :: u64
  wf_max_parallel :: u32
  wf_nodes :: "NodeIR list"
  wf_index :: "(string, nat) smap"

definition node_type_table :: "(string \<times> NodeType) list" where
  "node_type_table =
    [(''llm'', Llm), (''tool'', Tool), (''transform'', Transform), (''condition'', Condition),
     (''parallel'', Parallel), (''join'', Join), (''subflow'', Subflow), (''human'', Human),
     (''start'', Start), (''end'', End), (''noop'', Noop), (''custom'', Custom)]"

definition node_type :: "string \<Rightarrow> NodeType res" where
  "node_type t = (case map_of node_type_table t of
     None \<Rightarrow> Inl (Thrown ''unknown node type'') | Some x \<Rightarrow> Inr x)"

definition effect_kind :: "string \<Rightarrow> EffectKind" where
  "effect_kind v =
    (if v = ''pure'' then Pure else if v = ''local_state'' then LocalState
     else if v = ''external_read'' then ExternalRead else if v = ''external_write'' then ExternalWrite
     else if v = ''irreversible'' then Irreversible else Pure)"

definition replay_policy :: "string \<Rightarrow> ReplayPolicy" where
  "replay_policy v =
    (if v = ''safe'' then Safe else if v = ''idempotent'' then Idempotent
     else if v = ''at_most_once'' then AtMostOnce else if v = ''manual'' then Manual
     else if v = ''forbidden'' then Forbidden else Safe)"

definition value_of :: "jsonlib \<Rightarrow> json \<Rightarrow> json res" where
  "value_of L v = parse_json L (jl_write L Compact_ascii v)"

definition edge_of_item :: "json \<Rightarrow> json" where
  "edge_of_item v = (if is_string v then JObj [(''to'', v)] else v)"

definition edge_values :: "json \<Rightarrow> string \<Rightarrow> json list res" where
  "edge_values node field =
    bindR (is_member node field) (\<lambda>present. if \<not> present then Inr [] else
    bindR (j_at node field) (\<lambda>v. Inr (case v of
        JStr s \<Rightarrow> [edge_of_item v]
      | JObj m \<Rightarrow> [v]
      | JArr xs \<Rightarrow> map edge_of_item xs
      | _ \<Rightarrow> [])))"

definition get_string :: "jsonlib \<Rightarrow> json \<Rightarrow> string \<Rightarrow> string \<Rightarrow> string res" where
  "get_string L j k d = bindR (j_get j k (JStr d)) (as_string L)"

definition get_bool :: "json \<Rightarrow> string \<Rightarrow> bool \<Rightarrow> bool res" where
  "get_bool j k d = bindR (j_get j k (JBool d)) as_bool"

definition get_u64 :: "json \<Rightarrow> string \<Rightarrow> int \<Rightarrow> u64 res" where
  "get_u64 j k d = bindR (j_get j k (JInt d)) as_uint64"

definition get_u32 :: "json \<Rightarrow> string \<Rightarrow> int \<Rightarrow> u32 res" where
  "get_u32 j k d = bindR (j_get j k (JInt d)) as_uint"

definition get_value :: "jsonlib \<Rightarrow> json \<Rightarrow> string \<Rightarrow> json res" where
  "get_value L j k = bindR (j_get j k (JObj [])) (value_of L)"

definition account :: "nat \<Rightarrow> nat \<Rightarrow> nat \<Rightarrow> nat res" where
  "account limit amount accounted =
    (if limit < accounted \<or> limit - accounted < amount then
       Inl (Thrown (''WORKFLOW_IR_BYTES_LIMIT: observed='' @
         (if 2 ^ 64 - 1 - accounted < amount then ''overflow'' else to_string (accounted + amount)) @
         '' limit='' @ to_string limit))
     else Inr (accounted + amount))"

definition json_bytes :: "jsonlib \<Rightarrow> json \<Rightarrow> nat" where
  "json_bytes L j = length (write_json L j False)"

definition edge_bytes :: "jsonlib \<Rightarrow> EdgeIR \<Rightarrow> nat" where
  "edge_bytes L e = 128 + length (ed_target e) + length (ed_condition e) + json_bytes L (ed_set e) +
     json_bytes L (ed_loop e)"

definition compile_edge :: "jsonlib \<Rightarrow> nat \<Rightarrow> json \<Rightarrow> EdgeIR list \<times> nat \<Rightarrow> (EdgeIR list \<times> nat) res" where
  "compile_edge L limit e st =
    bindR (get_string L e ''to'' []) (\<lambda>target.
    bindR (get_string L e ''when'' []) (\<lambda>condition.
    bindR (get_bool e ''otherwise'' False) (\<lambda>otherwise.
    bindR (get_value L e ''set'') (\<lambda>set_values.
    bindR (get_value L e ''loop'') (\<lambda>loop.
    bindR (get_u32 e ''max_hits'' 0) (\<lambda>max_hits.
    let edge = \<lparr>ed_target = target, ed_condition = condition, ed_otherwise = otherwise,
                ed_set = set_values, ed_loop = loop, ed_max_hits = max_hits\<rparr>
    in bindR (account limit (edge_bytes L edge) (snd st)) (\<lambda>acc. Inr (fst st @ [edge], acc))))))))"

definition add_edges :: "jsonlib \<Rightarrow> nat \<Rightarrow> json \<Rightarrow> string \<Rightarrow> nat \<Rightarrow> (EdgeIR list \<times> nat) res" where
  "add_edges L limit source field acc =
    bindR (edge_values source field) (\<lambda>es. foldR (compile_edge L limit) es ([], acc))"

definition compile_branches :: "jsonlib \<Rightarrow> json \<Rightarrow> string list res" where
  "compile_branches L source = bindR (j_at source ''branches'') (\<lambda>b.
     if is_array b then mapR (as_string L) (j_items b) else Inr [])"

definition head_bytes :: "jsonlib \<Rightarrow> NodeIR \<Rightarrow> nat" where
  "head_bytes L n = 256 + length (nd_id n) + length (nd_name n) + length (nd_executor n) +
     length (nd_idempotency_key n) + length (nd_retry_backoff n) +
     json_bytes L (nd_input n) + json_bytes L (nd_config n)"

definition tail_bytes :: "jsonlib \<Rightarrow> NodeIR \<Rightarrow> nat" where
  "tail_bytes L n = length (nd_join n) + json_bytes L (nd_policy n)"

text \<open>The fields of a node read before its edges.\<close>

definition compile_head :: "jsonlib \<Rightarrow> string \<Rightarrow> json \<Rightarrow> NodeIR res" where
  "compile_head L ident source =
    bindR (get_string L source ''name'' ident) (\<lambda>name.
    bindR (bindR (j_at source ''type'') (as_string L)) (\<lambda>type_text.
    bindR (node_type type_text) (\<lambda>type.
    bindR (get_bool source ''enabled'' True) (\<lambda>enabled.
    bindR (get_string L source ''executor'' []) (\<lambda>executor.
    bindR (get_value L source ''input'') (\<lambda>input.
    bindR (get_value L source ''config'') (\<lambda>config.
    bindR (get_u64 source ''timeout_ms'' 0) (\<lambda>timeout.
    bindR (j_at source ''retry'') (\<lambda>retry.
    bindR (get_u32 retry ''max_attempts'' 1) (\<lambda>attempts.
    bindR (get_u64 retry ''delay_ms'' 0) (\<lambda>delay.
    bindR (get_u64 retry ''jitter_ms'' 0) (\<lambda>jitter.
    bindR (get_string L retry ''backoff'' ''fixed'') (\<lambda>backoff.
    bindR (j_get source ''effects'' (JObj [])) (\<lambda>effects.
    bindR (get_string L effects ''kind'' ''pure'') (\<lambda>kind.
    bindR (get_string L effects ''replay'' ''safe'') (\<lambda>replay.
    bindR (get_string L effects ''idempotency_key'' []) (\<lambda>key.
    bindR (get_bool effects ''executor_guarantees_idempotency'' False) (\<lambda>guarantees.
    Inr \<lparr>nd_id = ident, nd_name = name, nd_executor = executor, nd_idempotency_key = key,
         nd_join = [], nd_type = type, nd_enabled = enabled, nd_guarantees = guarantees,
         nd_input = input, nd_config = config, nd_policy = JObj [], nd_effect = effect_kind kind,
         nd_replay = replay_policy replay, nd_timeout_ms = timeout, nd_retry_delay_ms = delay,
         nd_retry_jitter_ms = jitter, nd_max_attempts = attempts, nd_retry_backoff = backoff,
         nd_next = [], nd_error = [], nd_branches = []\<rparr>))))))))))))))))))"

definition compile_node :: "jsonlib \<Rightarrow> nat \<Rightarrow> string \<Rightarrow> json \<Rightarrow> nat \<Rightarrow> (NodeIR \<times> nat) res" where
  "compile_node L limit ident source acc0 =
    bindR (compile_head L ident source) (\<lambda>n.
    bindR (account limit (head_bytes L n) acc0) (\<lambda>acc1.
    bindR (add_edges L limit source ''next'' acc1) (\<lambda>(next, acc2).
    bindR (add_edges L limit source ''on_error'' acc2) (\<lambda>(on_error, acc3).
    bindR (compile_branches L source) (\<lambda>branches.
    bindR (get_string L source ''join'' []) (\<lambda>join.
    bindR (get_value L source ''policy'') (\<lambda>policy.
    let n' = n\<lparr>nd_next := next, nd_error := on_error, nd_branches := branches, nd_join := join,
                nd_policy := policy\<rparr>
    in bindR (account limit (tail_bytes L n') acc3) (\<lambda>acc4.
       bindR (foldR (\<lambda>b. account limit (length b + 16)) branches acc4) (\<lambda>acc5. Inr (n', acc5))))))))))"

text \<open>The node loop: a node is appended and the index records its position.\<close>

definition compile_step ::
  "jsonlib \<Rightarrow> nat \<Rightarrow> json \<Rightarrow> string \<Rightarrow> NodeIR list \<times> (string, nat) smap \<times> nat \<Rightarrow>
    (NodeIR list \<times> (string, nat) smap \<times> nat) res" where
  "compile_step L limit nodes ident st = (case st of (done, index, acc) \<Rightarrow>
    bindR (j_at nodes ident) (\<lambda>source.
    bindR (compile_node L limit ident source acc) (\<lambda>(n, acc').
    Inr (done @ [n], sm_put ident (length done) index, acc'))))"

definition compile_root :: "jsonlib \<Rightarrow> json \<Rightarrow> nat \<Rightarrow> WorkflowIR res" where
  "compile_root L root_value limit =
    bindR (remove_member root_value ''x_revision'') (\<lambda>semantic.
    bindR (get_string L root_value ''id'' []) (\<lambda>ident.
    bindR (bindR (j_at root_value ''entry'') (as_string L)) (\<lambda>entry.
    bindR (account limit (length ident + length entry + 64) 128) (\<lambda>acc.
    bindR (j_at root_value ''limits'') (\<lambda>limits.
    bindR (get_u64 limits ''max_steps'' 1000) (\<lambda>max_steps.
    bindR (get_u64 limits ''timeout_ms'' 0) (\<lambda>timeout.
    bindR (get_u32 limits ''max_parallel'' 1) (\<lambda>max_parallel.
    bindR (j_at root_value ''nodes'') (\<lambda>nodes.
    bindR (member_names nodes) (\<lambda>names.
    bindR (foldR (compile_step L limit nodes) names ([], [], acc)) (\<lambda>(compiled, index, _).
    Inr \<lparr>wf_id = ident, wf_entry = entry, wf_digest = sha256_digest (jl_write L Compact_ascii semantic),
         wf_max_steps = max_steps, wf_timeout_ms = timeout, wf_max_parallel = max_parallel,
         wf_nodes = compiled, wf_index = index\<rparr>)))))))))))"

definition ir_compile :: "jsonlib \<Rightarrow> string \<Rightarrow> nat \<Rightarrow> WorkflowIR res" where
  "ir_compile L normalized limit =
    bindR (case jl_parse L None normalized of Inl e \<Rightarrow> Inl (Thrown e) | Inr j \<Rightarrow> Inr j)
      (\<lambda>root_value. compile_root L root_value limit)"

definition compile_workflow_ir :: "jsonlib \<Rightarrow> string \<Rightarrow> nat \<Rightarrow> WorkflowIR res" where
  "compile_workflow_ir L normalized limit =
    (if limit = 0 then Inl (Invalid_arg ''IR byte budget must be positive'')
     else ir_compile L normalized limit)"

definition find_node :: "WorkflowIR \<Rightarrow> string \<Rightarrow> NodeIR option" where
  "find_node w ident = map_option ((!) (wf_nodes w)) (sm_get (wf_index w) ident)"

section \<open>The byte budget\<close>

definition node_bytes :: "jsonlib \<Rightarrow> NodeIR \<Rightarrow> nat" where
  "node_bytes L n = head_bytes L n + (\<Sum>e\<leftarrow>nd_next n. edge_bytes L e) + (\<Sum>e\<leftarrow>nd_error n. edge_bytes L e) +
     tail_bytes L n + (\<Sum>b\<leftarrow>nd_branches n. length b + 16)"

definition ir_bytes :: "jsonlib \<Rightarrow> WorkflowIR \<Rightarrow> nat" where
  "ir_bytes L w = 192 + length (wf_id w) + length (wf_entry w) + (\<Sum>n\<leftarrow>wf_nodes w. node_bytes L n)"

lemma account_Inr: "account limit amount acc = Inr acc' \<longleftrightarrow> acc' = acc + amount \<and> acc + amount \<le> limit"
  by (auto simp: account_def)

lemma add_edges_bytes:
  assumes "add_edges L limit source field acc = Inr (es, acc')" and "acc \<le> limit"
  shows "acc' = acc + (\<Sum>e\<leftarrow>es. edge_bytes L e) \<and> acc' \<le> limit"
proof -
  obtain vs where "foldR (compile_edge L limit) vs ([], acc) = Inr (es, acc')"
    using assms(1) by (auto simp: add_edges_def bindR_Inr)
  then have "(\<lambda>(es, a). a = acc + (\<Sum>e\<leftarrow>es. edge_bytes L e) \<and> a \<le> limit) (es, acc')"
    by (rule foldR_invariant)
      (use assms(2) in \<open>auto simp: compile_edge_def bindR_Inr account_Inr Let_def\<close>)
  then show ?thesis by simp
qed

lemma branches_bytes:
  assumes "foldR (\<lambda>b. account limit (length b + 16)) bs acc = Inr acc'" and "acc \<le> limit"
  shows "acc' = acc + (\<Sum>b\<leftarrow>bs. length b + 16) \<and> acc' \<le> limit"
  using assms
proof (induction bs arbitrary: acc)
  case (Cons b bs)
  then have "acc + (length b + 16) \<le> limit"
    and "foldR (\<lambda>b. account limit (length b + 16)) bs (acc + (length b + 16)) = Inr acc'"
    by (auto simp: bindR_Inr account_Inr)
  then show ?case using Cons.IH [of "acc + (length b + 16)"] by simp
qed simp

lemma compile_node_parts:
  assumes "compile_node L limit ident source acc = Inr (n, acc')"
  obtains h acc1 nx acc2 er acc3 bs j p acc4 where "compile_head L ident source = Inr h"
    and "account limit (head_bytes L h) acc = Inr acc1"
    and "add_edges L limit source ''next'' acc1 = Inr (nx, acc2)"
    and "add_edges L limit source ''on_error'' acc2 = Inr (er, acc3)"
    and "compile_branches L source = Inr bs" and "get_string L source ''join'' [] = Inr j"
    and "n = h\<lparr>nd_next := nx, nd_error := er, nd_branches := bs, nd_join := j, nd_policy := p\<rparr>"
    and "account limit (tail_bytes L n) acc3 = Inr acc4"
    and "foldR (\<lambda>b. account limit (length b + 16)) bs acc4 = Inr acc'"
  using assms by (auto simp: compile_node_def bindR_Inr Let_def)

lemma compile_node_views:
  assumes "compile_node L limit ident source acc = Inr (n, acc')"
  shows "\<exists>h a1 a2 a3. compile_head L ident source = Inr h \<and> nd_type n = nd_type h \<and> nd_id n = nd_id h \<and>
    add_edges L limit source ''next'' a1 = Inr (nd_next n, a2) \<and>
    add_edges L limit source ''on_error'' a2 = Inr (nd_error n, a3) \<and>
    compile_branches L source = Inr (nd_branches n) \<and> get_string L source ''join'' [] = Inr (nd_join n)"
proof -
  obtain h acc1 nx acc2 er acc3 bs j p acc4 where *: "compile_head L ident source = Inr h"
    "account limit (head_bytes L h) acc = Inr acc1"
    "add_edges L limit source ''next'' acc1 = Inr (nx, acc2)"
    "add_edges L limit source ''on_error'' acc2 = Inr (er, acc3)"
    "compile_branches L source = Inr bs" "get_string L source ''join'' [] = Inr j"
    "n = h\<lparr>nd_next := nx, nd_error := er, nd_branches := bs, nd_join := j, nd_policy := p\<rparr>"
    "account limit (tail_bytes L n) acc3 = Inr acc4"
    "foldR (\<lambda>b. account limit (length b + 16)) bs acc4 = Inr acc'"
    by (rule compile_node_parts [OF assms])
  show ?thesis
    by (rule exI [of _ h], rule exI [of _ acc1], rule exI [of _ acc2], rule exI [of _ acc3]) (simp add: *)
qed

lemma compile_node_bytes:
  assumes "compile_node L limit ident source acc = Inr (n, acc')"
  shows "acc' = acc + node_bytes L n \<and> acc' \<le> limit"
proof -
  obtain h acc1 nx acc2 er acc3 bs j p acc4 where h: "compile_head L ident source = Inr h"
    and a1: "account limit (head_bytes L h) acc = Inr acc1"
    and a2: "add_edges L limit source ''next'' acc1 = Inr (nx, acc2)"
    and a3: "add_edges L limit source ''on_error'' acc2 = Inr (er, acc3)"
    and b: "compile_branches L source = Inr bs" "get_string L source ''join'' [] = Inr j"
    and n: "n = h\<lparr>nd_next := nx, nd_error := er, nd_branches := bs, nd_join := j, nd_policy := p\<rparr>"
    and a4: "account limit (tail_bytes L n) acc3 = Inr acc4"
    and a5: "foldR (\<lambda>b. account limit (length b + 16)) bs acc4 = Inr acc'"
    by (rule compile_node_parts [OF assms])
  have "head_bytes L n = head_bytes L h" by (simp add: n head_bytes_def)
  moreover have "acc1 = acc + head_bytes L h \<and> acc1 \<le> limit" using a1 by (auto simp: account_Inr)
  moreover from this have "acc2 = acc1 + (\<Sum>e\<leftarrow>nx. edge_bytes L e) \<and> acc2 \<le> limit"
    using add_edges_bytes [OF a2] by blast
  moreover from this have "acc3 = acc2 + (\<Sum>e\<leftarrow>er. edge_bytes L e) \<and> acc3 \<le> limit"
    using add_edges_bytes [OF a3] by blast
  moreover have "acc4 = acc3 + tail_bytes L n \<and> acc4 \<le> limit" using a4 by (auto simp: account_Inr)
  moreover from this have "acc' = acc4 + (\<Sum>b\<leftarrow>bs. length b + 16) \<and> acc' \<le> limit"
    using branches_bytes [OF a5] by blast
  ultimately show ?thesis by (simp add: node_bytes_def n)
qed

section \<open>The node table\<close>

lemma compile_head_id: "compile_head L ident source = Inr n \<Longrightarrow> nd_id n = ident"
  by (auto simp: compile_head_def bindR_Inr)

lemma compile_head_type:
  assumes "compile_head L ident source = Inr h"
  shows "\<exists>v t. j_at source ''type'' = Inr v \<and> as_string L v = Inr t \<and> node_type t = Inr (nd_type h)"
  using assms unfolding compile_head_def bindR_Inr
  by (elim exE conjE) (simp only: sum.inject, hypsubst, simp)

lemma compile_node_id: "compile_node L limit ident source acc = Inr (n, acc') \<Longrightarrow> nd_id n = ident"
  by (auto simp: compile_node_def bindR_Inr Let_def dest: compile_head_id)

definition node_of :: "jsonlib \<Rightarrow> nat \<Rightarrow> json \<Rightarrow> NodeIR \<Rightarrow> bool" where
  "node_of L limit nodes n = (\<exists>source acc acc'. j_at nodes (nd_id n) = Inr source \<and>
     compile_node L limit (nd_id n) source acc = Inr (n, acc'))"

definition table_ok :: "string list \<Rightarrow> NodeIR list \<Rightarrow> (string, nat) smap \<Rightarrow> bool" where
  "table_ok names ns index = (map nd_id ns = names \<and>
     (\<forall>k i. sm_get index k = Some i \<longleftrightarrow> i < length names \<and> names ! i = k))"

lemma table_ok_snoc:
  assumes "table_ok names ns index" and "nd_id n = k" and "k \<notin> set names"
  shows "table_ok (names @ [k]) (ns @ [n]) (sm_put k (length ns) index)"
proof -
  have len: "length ns = length names" using assms(1) by (metis table_ok_def length_map)
  have inv: "sm_get index k' = Some i \<longleftrightarrow> i < length names \<and> names ! i = k'" for k' i
    using assms(1) by (simp add: table_ok_def)
  have "sm_get (sm_put k (length ns) index) k' = Some i \<longleftrightarrow>
      i < length (names @ [k]) \<and> (names @ [k]) ! i = k'" for k' i
    using inv [of k' i] len assms(3) nth_mem [of i names] by (auto simp: nth_append less_Suc_eq)
  then show ?thesis using assms by (simp add: table_ok_def)
qed

lemma compile_fold:
  assumes "foldR (compile_step L limit nodes) names ([], [], acc) = Inr (ns, index, acc')"
    and "distinct names" and "acc \<le> limit"
  shows "table_ok names ns index \<and> (\<forall>n \<in> set ns. node_of L limit nodes n) \<and>
    acc' = acc + (\<Sum>n\<leftarrow>ns. node_bytes L n) \<and> acc' \<le> limit"
  using assms
proof (induction names arbitrary: ns index acc' rule: rev_induct)
  case Nil
  then show ?case by (simp add: table_ok_def)
next
  case (snoc k names)
  obtain st0 where st0: "foldR (compile_step L limit nodes) names ([], [], acc) = Inr st0"
      "compile_step L limit nodes k st0 = Inr (ns, index, acc')"
    using snoc.prems(1) by (auto simp: foldR_append bindR_Inr)
  obtain ns0 index0 acc0 where st0_eq: "st0 = (ns0, index0, acc0)" by (cases st0)
  note f = st0(1) [unfolded st0_eq]
  obtain source n where src: "j_at nodes k = Inr source" "compile_node L limit k source acc0 = Inr (n, acc')"
    and eq: "ns = ns0 @ [n]" "index = sm_put k (length ns0) index0"
    using st0(2) st0_eq by (auto simp: bindR_Inr compile_step_def)
  have ih: "table_ok names ns0 index0 \<and> (\<forall>n \<in> set ns0. node_of L limit nodes n) \<and>
      acc0 = acc + (\<Sum>n\<leftarrow>ns0. node_bytes L n) \<and> acc0 \<le> limit"
    using snoc.IH [OF f] snoc.prems(2,3) by simp
  have idn: "nd_id n = k" by (rule compile_node_id [OF src(2)])
  have "node_of L limit nodes n" using src idn by (auto simp: node_of_def)
  then show ?case
    using ih eq table_ok_snoc [of names ns0 index0 n k] idn snoc.prems(2) compile_node_bytes [OF src(2)]
    by simp
qed

lemma compile_root_facts:
  assumes "compile_root L r limit = Inr w" and "j_at r ''nodes'' = Inr nodes"
    and "member_names nodes = Inr names" and "distinct names"
  shows "table_ok names (wf_nodes w) (wf_index w) \<and> (\<forall>n \<in> set (wf_nodes w). node_of L limit nodes n) \<and>
    ir_bytes L w \<le> limit \<and> bindR (j_at r ''entry'') (as_string L) = Inr (wf_entry w)"
proof -
  obtain acc acc' where acc: "account limit (length (wf_id w) + length (wf_entry w) + 64) 128 = Inr acc"
    and entry: "bindR (j_at r ''entry'') (as_string L) = Inr (wf_entry w)"
    and f: "foldR (compile_step L limit nodes) names ([], [], acc) = Inr (wf_nodes w, wf_index w, acc')"
    using assms(1-3) by (auto simp: compile_root_def bindR_Inr)
  show ?thesis
    using compile_fold [OF f assms(4)] acc entry by (auto simp: account_Inr ir_bytes_def)
qed

lemma compile_edge_target:
  "compile_edge L limit v st = Inr st' \<Longrightarrow>
    \<exists>e. fst st' = fst st @ [e] \<and> get_string L v ''to'' [] = Inr (ed_target e)"
  by (auto simp: compile_edge_def bindR_Inr Let_def)

lemma add_edges_targets:
  assumes "add_edges L limit source field acc = Inr (es, acc')"
  shows "\<exists>vs. edge_values source field = Inr vs \<and>
    list_all2 (\<lambda>v e. get_string L v ''to'' [] = Inr (ed_target e)) vs es"
proof -
  obtain vs where vs: "edge_values source field = Inr vs"
    and f: "foldR (compile_edge L limit) vs ([], acc) = Inr (es, acc')"
    using assms by (auto simp: add_edges_def bindR_Inr)
  have "foldR (compile_edge L limit) vs st = Inr (es, acc') \<Longrightarrow> \<exists>new. es = fst st @ new \<and>
      list_all2 (\<lambda>v e. get_string L v ''to'' [] = Inr (ed_target e)) vs new" for st
  proof (induction vs arbitrary: st)
    case (Cons v vs)
    obtain st2 where st2: "compile_edge L limit v st = Inr st2" "foldR (compile_edge L limit) vs st2 = Inr (es, acc')"
      using Cons.prems by (auto simp: bindR_Inr)
    obtain e where e: "fst st2 = fst st @ [e]" "get_string L v ''to'' [] = Inr (ed_target e)"
      using compile_edge_target [OF st2(1)] by blast
    obtain new where "es = (fst st @ [e]) @ new" "list_all2 (\<lambda>v e. get_string L v ''to'' [] = Inr (ed_target e)) vs new"
      using Cons.IH [OF st2(2)] e(1) by auto
    then show ?case using e(2) by (intro exI [of _ "e # new"]) simp
  qed simp
  from this [OF f] vs show ?thesis by auto
qed

lemma find_node_iff:
  assumes "table_ok names (wf_nodes w) (wf_index w)" and "distinct names"
  shows "find_node w k = Some n \<longleftrightarrow> n \<in> set (wf_nodes w) \<and> nd_id n = k"
proof
  assume "find_node w k = Some n"
  then obtain i where "sm_get (wf_index w) k = Some i" "n = wf_nodes w ! i" by (auto simp: find_node_def)
  then show "n \<in> set (wf_nodes w) \<and> nd_id n = k"
    using assms(1) by (metis table_ok_def length_map nth_map nth_mem)
next
  assume n: "n \<in> set (wf_nodes w) \<and> nd_id n = k"
  then obtain i where i: "i < length (wf_nodes w)" "n = wf_nodes w ! i" by (metis in_set_conv_nth)
  then have "i < length names" "names ! i = k" using n assms(1) by (auto simp: table_ok_def)
  then show "find_node w k = Some n" using i assms(1) by (auto simp: find_node_def table_ok_def)
qed

lemma find_node_None:
  assumes "table_ok names (wf_nodes w) (wf_index w)"
  shows "find_node w k = None \<longleftrightarrow> k \<notin> set names"
proof -
  have inv: "sm_get (wf_index w) k = Some i \<longleftrightarrow> i < length names \<and> names ! i = k" for i
    using assms by (simp add: table_ok_def)
  have "sm_get (wf_index w) k = None \<longleftrightarrow> (\<forall>i. sm_get (wf_index w) k \<noteq> Some i)" by simp
  also have "\<dots> \<longleftrightarrow> k \<notin> set names" unfolding in_set_conv_nth inv by simp
  finally show ?thesis by (simp add: find_node_def)
qed

end
