(* ===== verification/Workflow_Validate.thy ===== *)
theory Workflow_Validate
  imports Workflow_IR "HOL-Library.Transitive_Closure_Table"
begin

text \<open>
  Loading a workflow (\<open>dage.cpp\<close>, \<open>Engine::validate\<close> and \<open>Engine::load\<close> with their helpers). Validation
  collects diagnostics and may be cut short by an exception of the JSON library, which it reports as
  one more diagnostic, so its steps are computations that return the diagnostics added so far together
  with a value or a fault (\<open>chk\<close>). The search for unreachable nodes and the search for undeclared
  cycles are the code's own traversals; the lemmas relate them to reachability in the edge relation.
\<close>

section \<open>Diagnostics and computations that report\<close>

datatype severity = Error | Warning | Info

record diagnostic =
  dg_severity :: severity
  dg_code :: string
  dg_path :: string
  dg_message :: string
  dg_suggestion :: string

definition add_diag :: "severity \<Rightarrow> string \<Rightarrow> string \<Rightarrow> string \<Rightarrow> diagnostic" where
  "add_diag s code path message =
    \<lparr>dg_severity = s, dg_code = code, dg_path = path, dg_message = message, dg_suggestion = []\<rparr>"

type_synonym 'a chk = "diagnostic list \<times> (fault + 'a)"

definition retW :: "'a \<Rightarrow> 'a chk" where
  "retW x = ([], Inr x)"

definition liftW :: "'a res \<Rightarrow> 'a chk" where
  "liftW r = ([], r)"

definition bindW :: "'a chk \<Rightarrow> ('a \<Rightarrow> 'b chk) \<Rightarrow> 'b chk" where
  "bindW m f = (case snd m of
     Inl e \<Rightarrow> (fst m, Inl e)
   | Inr x \<Rightarrow> (fst m @ fst (f x), snd (f x)))"

definition errW :: "string \<Rightarrow> string \<Rightarrow> string \<Rightarrow> unit chk" where
  "errW code path message = ([add_diag Error code path message], Inr ())"

definition whenW :: "bool \<Rightarrow> unit chk \<Rightarrow> unit chk" where
  "whenW b m = (if b then m else retW ())"

definition thenW :: "unit chk \<Rightarrow> 'b chk \<Rightarrow> 'b chk" where
  "thenW m k = bindW m (\<lambda>_. k)"

fun mapW :: "('a \<Rightarrow> 'b chk) \<Rightarrow> 'a list \<Rightarrow> 'b list chk" where
  "mapW f [] = retW []"
| "mapW f (x # xs) = bindW (f x) (\<lambda>y. bindW (mapW f xs) (\<lambda>ys. retW (y # ys)))"

lemma bindW_cong [fundef_cong]:
  "m = m' \<Longrightarrow> (\<And>x. snd m' = Inr x \<Longrightarrow> f x = f' x) \<Longrightarrow> bindW m f = bindW m' f'"
  by (auto simp: bindW_def split: sum.splits)

lemma thenW_cong [fundef_cong]: "m = m' \<Longrightarrow> k = k' \<Longrightarrow> thenW m k = thenW m' k'"
  by simp

lemma whenW_cong [fundef_cong]: "b = b' \<Longrightarrow> (b' \<Longrightarrow> m = m') \<Longrightarrow> whenW b m = whenW b' m'"
  by (simp add: whenW_def)

lemma mapW_cong [fundef_cong]:
  "xs = ys \<Longrightarrow> (\<And>x. x \<in> set ys \<Longrightarrow> f x = g x) \<Longrightarrow> mapW f xs = mapW g ys"
  by (induction xs arbitrary: ys) auto

subsection \<open>Runs without an error\<close>

definition clean :: "diagnostic list \<Rightarrow> bool" where
  "clean d = (\<forall>x \<in> set d. dg_severity x \<noteq> Error)"

definition passes :: "'a chk \<Rightarrow> 'a \<Rightarrow> bool" where
  "passes m x = (clean (fst m) \<and> snd m = Inr x)"

named_theorems passes_simps

lemma passes_ret [passes_simps]: "passes (retW x) y \<longleftrightarrow> y = x"
  by (auto simp: passes_def retW_def clean_def)

lemma passes_lift [passes_simps]: "passes (liftW r) y \<longleftrightarrow> r = Inr y"
  by (auto simp: passes_def liftW_def clean_def)

lemma passes_bind [passes_simps]: "passes (bindW m f) y \<longleftrightarrow> (\<exists>x. passes m x \<and> passes (f x) y)"
  by (auto simp: passes_def bindW_def clean_def split: sum.splits)

lemma passes_then [passes_simps]: "passes (thenW m k) y \<longleftrightarrow> passes m () \<and> passes k y"
  by (auto simp: thenW_def passes_bind)

lemma passes_err [passes_simps]: "passes (errW c p m) y \<longleftrightarrow> False"
  by (simp add: passes_def errW_def clean_def add_diag_def)

lemma passes_when [passes_simps]: "passes (whenW b m) y \<longleftrightarrow> (b \<longrightarrow> passes m y)"
  by (auto simp: whenW_def passes_ret)

lemma passes_map [passes_simps]: "passes (mapW f xs) ys \<longleftrightarrow> list_all2 (\<lambda>x y. passes (f x) y) xs ys"
  by (induction xs arbitrary: ys) (auto simp: passes_simps list_all2_Cons1)

section \<open>Reading the text\<close>

record limits =
  lim_workflow_bytes :: nat
  lim_json_depth :: nat
  lim_nodes :: nat
  lim_edges :: nat
  lim_expression_bytes :: nat
  lim_literal_bytes :: nat
  lim_ir_bytes :: nat

definition default_limits :: limits where
  "default_limits = \<lparr>lim_workflow_bytes = 16 * 1024 * 1024, lim_json_depth = 64, lim_nodes = 10000,
     lim_edges = 50000, lim_expression_bytes = 256 * 1024, lim_literal_bytes = 8 * 1024 * 1024,
     lim_ir_bytes = 32 * 1024 * 1024\<rparr>"

record depth_state =
  ds_depth :: nat
  ds_maximum :: nat
  ds_quoted :: bool
  ds_escaped :: bool

definition depth_step :: "char \<Rightarrow> depth_state \<Rightarrow> depth_state" where
  "depth_step c s =
    (if ds_quoted s then
       (if ds_escaped s then s\<lparr>ds_escaped := False\<rparr>
        else if c = CHR 0x5C then s\<lparr>ds_escaped := True\<rparr>
        else if c = CHR 0x22 then s\<lparr>ds_quoted := False\<rparr> else s)
     else if c = CHR 0x22 then s\<lparr>ds_quoted := True\<rparr>
     else if c = CHR ''{'' \<or> c = CHR ''['' then
       s\<lparr>ds_depth := ds_depth s + 1, ds_maximum := max (ds_maximum s) (ds_depth s + 1)\<rparr>
     else if (c = CHR ''}'' \<or> c = CHR '']'') \<and> ds_depth s \<noteq> 0 then s\<lparr>ds_depth := ds_depth s - 1\<rparr>
     else s)"

definition json_nesting_depth :: "string \<Rightarrow> nat" where
  "json_nesting_depth text = ds_maximum (fold depth_step text
     \<lparr>ds_depth = 0, ds_maximum = 0, ds_quoted = False, ds_escaped = False\<rparr>)"

definition observed :: "nat \<Rightarrow> nat \<Rightarrow> string" where
  "observed n limit = ''observed='' @ to_string n @ '' limit='' @ to_string limit"

definition parse_workflow_json :: "jsonlib \<Rightarrow> limits \<Rightarrow> string \<Rightarrow> json res" where
  "parse_workflow_json L lm text =
    (if lim_workflow_bytes lm < length text then
       Inl (Thrown (''WORKFLOW_BYTES_LIMIT: '' @ observed (length text) (lim_workflow_bytes lm)))
     else let depth = json_nesting_depth text in
     if lim_json_depth lm < depth then
       Inl (Thrown (''WORKFLOW_DEPTH_LIMIT: '' @ observed depth (lim_json_depth lm)))
     else case jl_parse L (Some (lim_json_depth lm + 1)) text of
            Inl e \<Rightarrow> Inl (Thrown e) | Inr j \<Rightarrow> Inr j)"

fun measure_workflow_strings :: "json \<Rightarrow> nat \<times> nat" where
  "measure_workflow_strings (JStr t) = (length t, if contains_str t ''${'' then length t else 0)"
| "measure_workflow_strings (JArr xs) =
    (sum_list (map (\<lambda>x. fst (measure_workflow_strings x)) xs),
     sum_list (map (\<lambda>x. snd (measure_workflow_strings x)) xs))"
| "measure_workflow_strings (JObj m) =
    (sum_list (map (\<lambda>(k, v). length k + fst (measure_workflow_strings v)) m),
     sum_list (map (\<lambda>(k, v). snd (measure_workflow_strings v)) m))"
| "measure_workflow_strings _ = (0, 0)"

definition lower_letter :: "char \<Rightarrow> bool" where
  "lower_letter c = (CHR ''a'' \<le> c \<and> c \<le> CHR ''z'')"

definition valid_id :: "string \<Rightarrow> bool" where
  "valid_id s = (case s of
     [] \<Rightarrow> False
   | c # r \<Rightarrow> lower_letter c \<and> list_all (\<lambda>c. lower_letter c \<or> is_digit c \<or> c = CHR ''_'') r)"

definition known_type :: "string \<Rightarrow> bool" where
  "known_type t = (t \<in> set (map fst node_type_table))"

definition needs_executor_name :: "string \<Rightarrow> bool" where
  "needs_executor_name t =
    (t \<in> {''llm'', ''tool'', ''transform'', ''join'', ''human'', ''custom''})"

definition needs_executor :: "NodeType \<Rightarrow> bool" where
  "needs_executor t = (t \<in> {Llm, Tool, Transform, Join, Human, Custom})"

definition node_type_name :: "NodeType \<Rightarrow> string" where
  "node_type_name t = (case t of
     Llm \<Rightarrow> ''llm'' | Tool \<Rightarrow> ''tool'' | Transform \<Rightarrow> ''transform'' | Condition \<Rightarrow> ''condition''
   | Parallel \<Rightarrow> ''parallel'' | Join \<Rightarrow> ''join'' | Subflow \<Rightarrow> ''subflow'' | Human \<Rightarrow> ''human''
   | Start \<Rightarrow> ''start'' | End \<Rightarrow> ''end'' | Noop \<Rightarrow> ''noop'' | Custom \<Rightarrow> ''custom'')"

text \<open>\<open>edges_of\<close> of \<open>dage.cpp\<close> has the same text as \<open>edge_values\<close> of \<open>ir.cpp\<close>.\<close>

definition edges_of :: "json \<Rightarrow> string \<Rightarrow> json list res" where
  "edges_of node field = edge_values node field"

section \<open>Checks on one node\<close>

definition str_at :: "jsonlib \<Rightarrow> json \<Rightarrow> string \<Rightarrow> string \<Rightarrow> string chk" where
  "str_at L j k d = liftW (get_string L j k d)"

definition int_at :: "int \<Rightarrow> int \<Rightarrow> json \<Rightarrow> string \<Rightarrow> int \<Rightarrow> int chk" where
  "int_at lo hi j k d = liftW (bindR (j_get j k (JInt d)) (as_integer lo hi))"

definition int32_at :: "json \<Rightarrow> string \<Rightarrow> int \<Rightarrow> int chk" where
  "int32_at = int_at (- (2 ^ 31)) (2 ^ 31 - 1)"

definition int64_at :: "json \<Rightarrow> string \<Rightarrow> int \<Rightarrow> int chk" where
  "int64_at = int_at (- (2 ^ 63)) (2 ^ 63 - 1)"

definition effect_kinds :: "string list" where
  "effect_kinds = [''pure'', ''local_state'', ''external_read'', ''external_write'', ''irreversible'']"

definition replay_policies :: "string list" where
  "replay_policies = [''safe'', ''idempotent'', ''at_most_once'', ''manual'', ''forbidden'']"

definition effect_rules :: "jsonlib \<Rightarrow> string \<Rightarrow> json \<Rightarrow> json \<Rightarrow> string \<Rightarrow> string \<Rightarrow> unit chk" where
  "effect_rules L path n effects kind replay =
      thenW (whenW (kind \<notin> set effect_kinds)
        (errW ''INVALID_EFFECT_KIND'' (path @ ''/effects/kind'') ''Unknown effect kind.''))
     (thenW (whenW (replay \<notin> set replay_policies)
        (errW ''INVALID_REPLAY_POLICY'' (path @ ''/effects/replay'') ''Unknown replay policy.''))
     (thenW (whenW (kind = ''pure'' \<and> replay \<noteq> ''safe'')
        (errW ''INVALID_EFFECT_REPLAY'' (path @ ''/effects'') ''pure nodes must use safe replay.''))
     (thenW (whenW (kind = ''external_write'' \<and> replay = ''safe'')
        (errW ''INVALID_EFFECT_REPLAY'' (path @ ''/effects'') ''external_write cannot use safe replay.''))
     (thenW (whenW (kind = ''irreversible'' \<and> replay \<noteq> ''manual'' \<and> replay \<noteq> ''forbidden'')
        (errW ''INVALID_EFFECT_REPLAY'' (path @ ''/effects'')
          ''irreversible nodes require manual or forbidden replay.''))
     (thenW (whenW (replay = ''idempotent'')
        (bindW (str_at L effects ''idempotency_key'' []) (\<lambda>key. whenW (key = [])
          (bindW (liftW (get_bool effects ''executor_guarantees_idempotency'' False)) (\<lambda>guaranteed.
            whenW (\<not> guaranteed) (errW ''MISSING_IDEMPOTENCY_GUARANTEE'' (path @ ''/effects'')
              ''idempotent replay requires idempotency_key or executor guarantee.''))))))
     (bindW (liftW (bindR (j_at n ''retry'') (\<lambda>r. get_u32 r ''max_attempts'' 1))) (\<lambda>attempts.
        whenW (1 < attempts \<and> (replay = ''at_most_once'' \<or> replay = ''manual'' \<or> replay = ''forbidden''))
          (errW ''UNSAFE_RETRY_POLICY'' (path @ ''/retry'')
            ''retry is not allowed by the node replay policy.''))))))))"

definition validate_effects :: "jsonlib \<Rightarrow> string \<Rightarrow> json \<Rightarrow> unit chk" where
  "validate_effects L path n =
    bindW (liftW (j_at n ''effects'')) (\<lambda>effects.
    bindW (str_at L effects ''kind'' []) (\<lambda>kind.
    bindW (str_at L effects ''replay'' []) (\<lambda>replay.
    if \<not> is_object effects then errW ''INVALID_EFFECTS'' (path @ ''/effects'') ''effects must be an object.''
    else effect_rules L path n effects kind replay)))"

definition validate_retry :: "jsonlib \<Rightarrow> string \<Rightarrow> json \<Rightarrow> unit chk" where
  "validate_retry L path n =
    bindW (liftW (j_at n ''retry'')) (\<lambda>r.
    bindW (if \<not> is_object r then retW 0 else int32_at r ''max_attempts'' 1) (\<lambda>attempts.
    thenW (whenW (\<not> is_object r \<or> attempts < 1)
      (errW ''INVALID_RETRY'' (path @ ''/retry'') ''max_attempts must be >= 1.''))
   (bindW (str_at L r ''backoff'' ''fixed'') (\<lambda>backoff.
    thenW (whenW (backoff \<noteq> ''fixed'' \<and> backoff \<noteq> ''exponential'')
      (errW ''INVALID_BACKOFF'' (path @ ''/retry/backoff'') ''backoff must be fixed or exponential.''))
   (bindW (int64_at r ''jitter_ms'' 0) (\<lambda>jitter.
    whenW (jitter < 0)
      (errW ''INVALID_JITTER'' (path @ ''/retry/jitter_ms'') ''jitter_ms must be non-negative.'')))))))"

text \<open>One candidate edge; the value is its target when it names a node, and whether it is \<open>otherwise\<close>.\<close>

definition validate_edge_fields :: "jsonlib \<Rightarrow> string \<Rightarrow> nat \<Rightarrow> nat \<Rightarrow> json \<Rightarrow> bool chk" where
  "validate_edge_fields L ep count j e =
    bindW (liftW (get_bool e ''otherwise'' False)) (\<lambda>otherwise.
    bindW (liftW (is_member e ''when'')) (\<lambda>has_when.
    thenW (whenW otherwise
      (thenW (whenW (j + 1 \<noteq> count) (errW ''OTHERWISE_NOT_LAST'' ep ''otherwise must be last.''))
        (whenW has_when (errW ''OTHERWISE_WITH_WHEN'' ep ''otherwise cannot have when.''))))
   (thenW (whenW (\<not> has_when \<and> \<not> otherwise \<and> j + 1 < count)
      (errW ''SHADOWED_BRANCH'' ep ''Unconditional edge shadows following candidates.''))
   (bindW (str_at L e ''mode'' ''normal'') (\<lambda>mode.
    thenW (whenW (mode = ''jump_back'') (bindW (int32_at e ''max_hits'' 0) (\<lambda>hits.
      whenW (hits < 1) (errW ''UNBOUNDED_JUMP_BACK'' ep ''jump_back requires max_hits.''))))
   (bindW (liftW (is_member e ''loop'')) (\<lambda>has_loop.
    thenW (whenW has_loop
      (bindW (liftW (j_at e ''loop'')) (\<lambda>loop. bindW (int32_at loop ''max_iterations'' 0) (\<lambda>iterations.
        whenW (iterations < 1)
          (errW ''INVALID_LOOP'' (ep @ ''/loop'') ''loop requires positive max_iterations.'')))))
   (retW otherwise))))))))"

definition validate_edge ::
  "jsonlib \<Rightarrow> json \<Rightarrow> string \<Rightarrow> nat \<Rightarrow> nat \<times> json \<Rightarrow> (string list \<times> bool) chk" where
  "validate_edge L nodes field_path count je = (case je of (j, e) \<Rightarrow>
    let ep = field_path @ ''/'' @ to_string j in
    bindW (if is_object e then liftW (j_at e ''to'') else retW JNull) (\<lambda>target.
    case target of
      JStr to \<Rightarrow>
        bindW (liftW (is_member nodes to)) (\<lambda>known.
        thenW (whenW (\<not> known)
          (errW ''UNKNOWN_NODE_REFERENCE'' (ep @ ''/to'') ''Referenced node does not exist.''))
       (bindW (validate_edge_fields L ep count j e) (\<lambda>otherwise.
        retW (if known then [to] else [], otherwise))))
    | _ \<Rightarrow> thenW (errW ''INVALID_EDGE'' ep ''Edge must contain string 'to'.'') (retW ([], False))))"

definition validate_edges :: "jsonlib \<Rightarrow> json \<Rightarrow> string \<Rightarrow> json \<Rightarrow> string \<Rightarrow> (string list \<times> nat) chk" where
  "validate_edges L nodes path n field = (let field_path = path @ ''/'' @ field in
    bindW (liftW (edges_of n field)) (\<lambda>es.
    bindW (mapW (validate_edge L nodes field_path (length es)) (enumerate 0 es)) (\<lambda>rs.
    thenW (whenW (1 < length (filter snd rs))
      (errW ''MULTIPLE_OTHERWISE'' field_path ''At most one otherwise is allowed.''))
   (retW (concat (map fst rs), length es)))))"

definition validate_reference :: "json \<Rightarrow> string \<Rightarrow> string \<Rightarrow> string \<Rightarrow> string list chk" where
  "validate_reference nodes path message to =
    bindW (liftW (is_member nodes to)) (\<lambda>known.
    thenW (whenW (\<not> known) (errW ''UNKNOWN_NODE_REFERENCE'' path message))
   (retW (if known then [to] else [])))"

definition validate_parallel :: "jsonlib \<Rightarrow> json \<Rightarrow> string \<Rightarrow> json \<Rightarrow> (string list \<times> nat) chk" where
  "validate_parallel L nodes path n =
    bindW (liftW (j_at n ''branches'')) (\<lambda>branches.
    bindW (liftW (j_at n ''join'')) (\<lambda>join.
    thenW (whenW (\<not> is_array branches \<or> j_empty branches \<or> \<not> is_string join)
      (errW ''INVALID_PARALLEL'' path ''parallel requires branches and join.''))
   (bindW (if is_object branches \<and> \<not> j_empty branches then liftW (Inl (Json_error Not_array))
           else mapW (\<lambda>b.
             bindW (liftW (as_string L b))
               (validate_reference nodes (path @ ''/branches'') ''Parallel branch does not exist.''))
             (j_items branches)) (\<lambda>targets.
    bindW (case join of
        JStr j \<Rightarrow> validate_reference nodes (path @ ''/join'') ''Join does not exist.'' j
      | _ \<Rightarrow> retW []) (\<lambda>joined.
    retW (concat targets @ joined, j_size branches + (if is_string join then 1 else 0)))))))"

definition validate_kind :: "jsonlib \<Rightarrow> string \<Rightarrow> json \<Rightarrow> string \<Rightarrow> unit chk" where
  "validate_kind L path n type =
    thenW (whenW (\<not> known_type type)
      (errW ''UNKNOWN_NODE_TYPE'' (path @ ''/type'') ''Unknown node type.''))
   (thenW (whenW (needs_executor_name type) (bindW (str_at L n ''executor'' []) (\<lambda>executor.
      whenW (executor = [])
        (errW ''MISSING_EXECUTOR'' (path @ ''/executor'') ''This node type requires executor.''))))
   (bindW (liftW (is_member n ''effects'')) (\<lambda>has_effects.
    thenW (whenW ((type = ''tool'' \<or> type = ''custom'') \<and> \<not> has_effects)
      (errW ''MISSING_EFFECTS'' (path @ ''/effects'') ''tool and custom nodes must declare effects.''))
   (whenW has_effects (validate_effects L path n)))))"

definition validate_settings :: "jsonlib \<Rightarrow> string \<Rightarrow> json \<Rightarrow> string \<Rightarrow> unit chk" where
  "validate_settings L path n type =
    thenW (whenW (type = ''subflow'')
      (bindW (liftW (j_at n ''config'')) (\<lambda>config. bindW (str_at L config ''workflow'' []) (\<lambda>w.
        whenW (w = []) (errW ''MISSING_SUBFLOW'' (path @ ''/config/workflow'')
          ''subflow requires config.workflow.'')))))
   (bindW (liftW (is_member n ''timeout_ms'')) (\<lambda>has_timeout.
    thenW (whenW has_timeout (bindW (int64_at n ''timeout_ms'' 0) (\<lambda>timeout.
      whenW (timeout \<le> 0) (errW ''INVALID_TIMEOUT'' (path @ ''/timeout_ms'') ''timeout_ms must be positive.''))))
   (bindW (liftW (is_member n ''retry'')) (\<lambda>has_retry.
    thenW (whenW has_retry (validate_retry L path n))
   (bindW (liftW (is_member n ''next'')) (\<lambda>has_next.
    bindW (liftW (is_member n ''on_error'')) (\<lambda>has_error.
    whenW (type = ''end'' \<and> (has_next \<or> has_error))
      (errW ''END_HAS_SUCCESSOR'' path ''end cannot have next or on_error.''))))))))"

definition validate_node_fields :: "jsonlib \<Rightarrow> string \<Rightarrow> json \<Rightarrow> string chk" where
  "validate_node_fields L path n =
    bindW (str_at L n ''type'' []) (\<lambda>type.
    thenW (validate_kind L path n type) (thenW (validate_settings L path n type) (retW type)))"

definition validate_node :: "jsonlib \<Rightarrow> json \<Rightarrow> string \<Rightarrow> (string \<times> string list \<times> nat) chk" where
  "validate_node L nodes ident = (let path = ''/nodes/'' @ ident in
    bindW (liftW (j_at nodes ident)) (\<lambda>n.
    thenW (whenW (\<not> valid_id ident)
      (errW ''INVALID_NODE_ID'' path ''Node ID must match [a-z][a-z0-9_]*.''))
   (if \<not> is_object n then
      thenW (errW ''INVALID_NODE'' path ''Node must be an object.'') (retW (ident, [], 0))
    else
      bindW (validate_node_fields L path n) (\<lambda>type.
      bindW (validate_edges L nodes path n ''next'') (\<lambda>(next, c1).
      bindW (validate_edges L nodes path n ''on_error'') (\<lambda>(on_error, c2).
      bindW (if type = ''parallel'' then validate_parallel L nodes path n else retW ([], 0)) (\<lambda>(par, c3).
      retW (ident, next @ on_error @ par, c1 + c2 + c3))))))))"

section \<open>Traversals\<close>

type_synonym graph = "(string \<times> string list) list"

definition succs :: "graph \<Rightarrow> string \<Rightarrow> string list" where
  "succs g x = (case map_of g x of None \<Rightarrow> [] | Some ts \<Rightarrow> ts)"

definition all_targets :: "graph \<Rightarrow> string set" where
  "all_targets g = (\<Union>(_, ts) \<in> set g. set ts)"

lemma succs_targets: "set (succs g x) \<subseteq> all_targets g"
proof (cases "map_of g x")
  case (Some ts)
  then have "(x, ts) \<in> set g" by (rule map_of_SomeD)
  then show ?thesis using Some by (auto simp: succs_def all_targets_def)
qed (simp add: succs_def)

text \<open>The work list of the reachability loop; the head of the list is the back of the vector.\<close>

function reach_loop :: "graph \<Rightarrow> string set \<Rightarrow> string list \<Rightarrow> string set" where
  "reach_loop g reached [] = reached"
| "reach_loop g reached (x # stack) =
    (if x \<in> reached then reach_loop g reached stack
     else reach_loop g (insert x reached) (rev (succs g x) @ stack))"
  by pat_completeness auto
termination
proof (relation "inv_image (less_than <*lex*> less_than)
    (\<lambda>(g, reached, stack). (card ((set stack \<union> all_targets g) - reached), length stack))")
  fix g :: graph and reached :: "string set" and x :: string and stack :: "string list"
  assume "x \<in> reached"
  then have "(set (x # stack) \<union> all_targets g) - reached = (set stack \<union> all_targets g) - reached" by auto
  then show "((g, reached, stack), (g, reached, x # stack)) \<in> inv_image (less_than <*lex*> less_than)
      (\<lambda>(g, reached, stack). (card ((set stack \<union> all_targets g) - reached), length stack))"
    by simp
next
  fix g :: graph and reached :: "string set" and x :: string and stack :: "string list"
  assume x: "x \<notin> reached"
  have "(set (rev (succs g x) @ stack) \<union> all_targets g) - insert x reached
      \<subset> (set (x # stack) \<union> all_targets g) - reached"
    using succs_targets [of g x] x by auto
  moreover have "finite ((set (x # stack) \<union> all_targets g) - reached)"
    by (auto simp: all_targets_def)
  ultimately have "card ((set (rev (succs g x) @ stack) \<union> all_targets g) - insert x reached)
      < card ((set (x # stack) \<union> all_targets g) - reached)"
    by (metis psubset_card_mono)
  then show "((g, insert x reached, rev (succs g x) @ stack), (g, reached, x # stack)) \<in>
      inv_image (less_than <*lex*> less_than)
      (\<lambda>(g, reached, stack). (card ((set stack \<union> all_targets g) - reached), length stack))"
    by (simp only: in_inv_image split_conv in_lex_prod less_than_iff simp_thms)
qed (simp add: wf_inv_image wf_lex_prod)

definition cycle_fields :: "string list" where
  "cycle_fields = [''next'', ''on_error'']"

definition node_edges :: "json \<Rightarrow> string \<Rightarrow> (string \<times> json) list res" where
  "node_edges nodes ident = bindR (j_at nodes ident) (\<lambda>n.
     bindR (mapR (\<lambda>f. bindR (edges_of n f) (\<lambda>es. Inr (map (Pair f) es))) cycle_fields) (\<lambda>ess. Inr (concat ess)))"

text \<open>
  The test on a candidate edge during the cycle search: whether it is reported, evaluated in the
  order of the source, where the hit bound is only converted when it is needed.
\<close>

definition undeclared :: "string set \<Rightarrow> json \<Rightarrow> string \<Rightarrow> bool res" where
  "undeclared active e to =
    (if to \<notin> active then Inr False
     else bindR (is_member e ''loop'') (\<lambda>has_loop. if has_loop then Inr False
     else bindR (bindR (j_get e ''max_hits'' (JInt 0)) (as_integer (- (2 ^ 31)) (2 ^ 31 - 1)))
       (\<lambda>hits. Inr (hits < 1))))"

fun member_set :: "json \<Rightarrow> string set" where
  "member_set (JObj m) = {k. sm_has m k}"
| "member_set _ = {}"

lemma finite_member_set [simp]: "finite (member_set j)"
proof (cases j)
  case (JObj m)
  have "k \<in> set (sm_keys m)" if "k \<in> member_set j" for k
    using that JObj sm_get_Some_key [of m k] by (cases "sm_get m k") simp_all
  then have "member_set j \<subseteq> set (sm_keys m)" by (rule subsetI)
  then show ?thesis by (rule finite_subset) simp
qed simp_all

lemma is_member_set: "is_member j k = Inr b \<Longrightarrow> b = (k \<in> member_set j)"
  by (cases j) (auto simp: is_member_def)

lemma node_edges_member: "node_edges nodes ident = Inr es \<Longrightarrow> es \<noteq> [] \<Longrightarrow> ident \<in> member_set nodes"
proof (rule ccontr)
  assume e: "node_edges nodes ident = Inr es" "es \<noteq> []" and "ident \<notin> member_set nodes"
  then have "j_at nodes ident = Inr JNull"
    by (cases nodes) (auto simp: node_edges_def j_at_def j_get_def bindR_Inr)
  then show False
    using e by (auto simp: node_edges_def cycle_fields_def edges_of_def edge_values_def is_member_def)
qed

function dfs :: "jsonlib \<Rightarrow> json \<Rightarrow> string set \<Rightarrow> string \<Rightarrow> unit chk" where
  "dfs L nodes outer ident =
    (let active = insert ident outer in
     bindW (liftW (node_edges nodes ident)) (\<lambda>es.
     bindW (mapW (\<lambda>(f, e).
       bindW (str_at L e ''to'' []) (\<lambda>to.
       bindW (liftW (undeclared active e to)) (\<lambda>bad.
       if bad then
         errW ''UNDECLARED_CYCLE'' (''/nodes/'' @ ident @ ''/'' @ f) ''Cycle edge requires loop or max_hits.''
       else bindW (liftW (is_member nodes to)) (\<lambda>known.
         if known \<and> to \<notin> active then dfs L nodes active to else retW ())))) es) (\<lambda>_. retW ())))"
  by pat_completeness auto
termination
proof (relation "inv_image (less_than <*lex*> less_than)
    (\<lambda>(L, nodes, outer, ident). (card (member_set nodes - outer), if ident \<in> outer then 1 else (0 :: nat)))",
    goal_cases)
  case (2 L nodes outer ident active es fe f e to bad known)
  have mem: "ident \<in> member_set nodes"
    using node_edges_member [of nodes ident es] 2(2,3) by (cases es) (simp_all add: liftW_def)
  have to: "to \<notin> insert ident outer" using 2 by simp
  show ?case
  proof (cases "ident \<in> outer")
    case True
    then show ?thesis using to 2(1) by (simp add: insert_absorb)
  next
    case False
    have "finite (member_set nodes - outer)" by simp
    moreover have "member_set nodes - insert ident outer \<subset> member_set nodes - outer"
      using mem False by blast
    ultimately have "card (member_set nodes - insert ident outer) < card (member_set nodes - outer)"
      by (metis psubset_card_mono)
    then show ?thesis
      unfolding 2(1) by (simp only: in_inv_image split_conv in_lex_prod less_than_iff simp_thms)
  qed
qed (simp add: wf_inv_image wf_lex_prod)

declare dfs.simps [simp del]

section \<open>Validation and loading\<close>

definition top_fields :: "string list" where
  "top_fields = [''format'', ''format_version'', ''id'', ''name'', ''description'', ''entry'', ''input'',
     ''output'', ''limits'', ''defaults'', ''nodes'']"

definition validate_entry :: "json \<Rightarrow> string \<Rightarrow> unit chk" where
  "validate_entry nodes entry =
    bindW (if entry = [] then retW False else liftW (is_member nodes entry)) (\<lambda>known.
    if \<not> known then errW ''MISSING_ENTRY'' ''/entry'' ''entry must reference an existing node.''
    else bindW (liftW (bindR (j_at nodes entry) (\<lambda>n. get_bool n ''enabled'' True))) (\<lambda>enabled.
      whenW (\<not> enabled) (errW ''DISABLED_ENTRY'' ''/entry'' ''entry cannot be disabled.'')))"

definition validate_graph :: "jsonlib \<Rightarrow> limits \<Rightarrow> json \<Rightarrow> string list \<Rightarrow> string \<Rightarrow> unit chk" where
  "validate_graph L lm nodes names entry =
    bindW (mapW (validate_node L nodes) names) (\<lambda>rs.
    let edge_count = sum_list (map (\<lambda>(_, _, c). c) rs);
        g = map (\<lambda>(k, ts, _). (k, ts)) rs
    in thenW (whenW (lim_edges lm < edge_count)
        (errW ''WORKFLOW_EDGES_LIMIT'' ''/nodes'' (observed edge_count (lim_edges lm))))
   (bindW (liftW (is_member nodes entry)) (\<lambda>known.
    let reached = reach_loop g {} (if known then [entry] else [])
    in thenW (map (\<lambda>k. add_diag Warning ''UNREACHABLE_NODE'' (''/nodes/'' @ k) ''Node is unreachable.'')
          (filter (\<lambda>k. k \<notin> reached) names), Inr ())
       (whenW known (dfs L nodes {} entry)))))"

definition validate_nodes :: "jsonlib \<Rightarrow> limits \<Rightarrow> json \<Rightarrow> json \<Rightarrow> unit chk" where
  "validate_nodes L lm r nodes =
    bindW (liftW (member_names nodes)) (\<lambda>names.
    thenW (whenW (lim_nodes lm < length names)
      (errW ''WORKFLOW_NODES_LIMIT'' ''/nodes'' (observed (length names) (lim_nodes lm))))
   (thenW (whenW (lim_literal_bytes lm < fst (measure_workflow_strings r))
      (errW ''WORKFLOW_LITERAL_BYTES_LIMIT'' ''/''
        (observed (fst (measure_workflow_strings r)) (lim_literal_bytes lm))))
   (thenW (whenW (lim_expression_bytes lm < snd (measure_workflow_strings r))
      (errW ''WORKFLOW_EXPRESSION_BYTES_LIMIT'' ''/''
        (observed (snd (measure_workflow_strings r)) (lim_expression_bytes lm))))
   (bindW (str_at L r ''entry'' []) (\<lambda>entry.
    thenW (validate_entry nodes entry)
      (validate_graph L lm nodes names entry))))))"

definition validate_root :: "jsonlib \<Rightarrow> limits \<Rightarrow> json \<Rightarrow> unit chk" where
  "validate_root L lm r =
    (if \<not> is_object r then errW ''INVALID_ROOT'' ''/'' ''Root must be an object.''
     else
      bindW (liftW (member_names r)) (\<lambda>topnames.
      bindW (mapW (\<lambda>k. whenW (k \<notin> set top_fields \<and> substr k 0 2 \<noteq> ''x_'')
        (errW ''UNKNOWN_FIELD'' (''/'' @ k) ''Unknown field.'')) topnames) (\<lambda>_.
      bindW (str_at L r ''format'' []) (\<lambda>format.
      thenW (whenW (format \<noteq> ''dage-workflow'')
        (errW ''INVALID_WORKFLOW_FORMAT'' ''/format'' ''format must be dage-workflow.''))
     (bindW (str_at L r ''format_version'' []) (\<lambda>version.
      thenW (whenW (version \<noteq> ''0.2.0'')
        (errW ''UNSUPPORTED_VERSION'' ''/format_version'' ''Only 0.2.0 is supported.''))
     (bindW (liftW (j_at r ''nodes'')) (\<lambda>nodes.
      if \<not> is_object nodes \<or> j_empty nodes then
        errW ''MISSING_NODES'' ''/nodes'' ''nodes must be a non-empty object.''
      else validate_nodes L lm r nodes))))))))"

definition parse_diag :: "string \<Rightarrow> diagnostic" where
  "parse_diag m = add_diag Error
     (if prefix ''WORKFLOW_'' m then takeWhile (\<lambda>c. c \<noteq> CHR '':'') m else ''INVALID_JSON'') ''/'' m"

definition validate :: "jsonlib \<Rightarrow> limits \<Rightarrow> string \<Rightarrow> diagnostic list" where
  "validate L lm text =
    (case parse_workflow_json L lm text of
       Inl e \<Rightarrow> [parse_diag (fault_what L e)]
     | Inr r \<Rightarrow>
        (case validate_root L lm r of
           (d, Inr _) \<Rightarrow> d
         | (d, Inl e) \<Rightarrow> d @ [add_diag Error ''INVALID_FIELD_TYPE'' ''/'' (fault_what L e)]))"

definition put_default :: "string \<Rightarrow> json \<Rightarrow> json \<Rightarrow> json res" where
  "put_default k v n = bindR (is_member n k) (\<lambda>present. if present then Inr n else j_put n k v)"

definition effects_value :: "string \<Rightarrow> json" where
  "effects_value kind = JObj [(''kind'', JStr kind), (''replay'', JStr ''safe'')]"

definition inherit_default :: "json \<Rightarrow> string \<Rightarrow> json \<Rightarrow> json res" where
  "inherit_default defaults k n =
    bindR (is_member n k) (\<lambda>present. if present then Inr n else
    bindR (is_member defaults k) (\<lambda>given. if \<not> given then Inr n else
    bindR (j_at defaults k) (j_put n k)))"

definition normalize_node :: "jsonlib \<Rightarrow> json \<Rightarrow> string \<times> json \<Rightarrow> (string \<times> json) res" where
  "normalize_node L defaults kn = (case kn of (k, n0) \<Rightarrow>
    bindR (put_default ''name'' (JStr k) n0) (\<lambda>n1.
    bindR (put_default ''enabled'' (JBool True) n1) (\<lambda>n2.
    bindR (get_string L n2 ''type'' []) (\<lambda>type.
    bindR (if type = ''llm'' then put_default ''effects'' (effects_value ''external_read'') n2 else Inr n2) (\<lambda>n3.
    bindR (if type \<in> {''transform'', ''condition'', ''noop''}
           then put_default ''effects'' (effects_value ''pure'') n3 else Inr n3) (\<lambda>n4.
    bindR (inherit_default defaults ''timeout_ms'' n4) (\<lambda>n5.
    bindR (inherit_default defaults ''retry'' n5) (\<lambda>n6. Inr (k, n6)))))))))"

record workflow =
  wk_root :: json
  wk_compiled :: WorkflowIR
  wk_bundle_digest :: string

definition workflow_impl :: "jsonlib \<Rightarrow> json \<Rightarrow> nat \<Rightarrow> workflow res" where
  "workflow_impl L r limit = bindR (compile_workflow_ir L (write_json L r False) limit) (\<lambda>ir.
     Inr \<lparr>wk_root = r, wk_compiled = ir, wk_bundle_digest = []\<rparr>)"

fun lacks :: "json \<Rightarrow> string \<Rightarrow> bool" where
  "lacks (JObj m) k = (sm_get m k = None)"
| "lacks _ k = True"

text \<open>
  Looking a default up with \<open>root["defaults"]\<close> inserts a null member into the document when it has
  none, so the normalized document has one as soon as some node lacks a timeout or a retry policy.
\<close>

definition touch_defaults :: "(string, json) smap \<Rightarrow> json \<Rightarrow> json res" where
  "touch_defaults m r =
    (if \<exists>kn \<in> set m. lacks (snd kn) ''timeout_ms'' \<or> lacks (snd kn) ''retry''
     then put_default ''defaults'' JNull r else Inr r)"

definition normalize_root :: "jsonlib \<Rightarrow> json \<Rightarrow> json res" where
  "normalize_root L r =
    bindR (j_at r ''nodes'') (\<lambda>nodes.
    bindR (members nodes) (\<lambda>m.
    bindR (j_at r ''defaults'') (\<lambda>defaults.
    bindR (mapR (normalize_node L defaults) m) (\<lambda>m'.
    bindR (touch_defaults m r) (\<lambda>r'. j_put r' ''nodes'' (JObj m'))))))"

definition load :: "jsonlib \<Rightarrow> limits \<Rightarrow> string \<Rightarrow> workflow res" where
  "load L lm text =
    (case filter (\<lambda>x. dg_severity x = Error) (validate L lm text) of
       x # _ \<Rightarrow> Inl (Thrown (dg_code x @ '': '' @ dg_message x))
     | [] \<Rightarrow>
        bindR (parse_workflow_json L lm text) (\<lambda>r.
        bindR (normalize_root L r) (\<lambda>r'. workflow_impl L r' (lim_ir_bytes lm))))"

section \<open>The reachability loop\<close>

definition graph_rel :: "graph \<Rightarrow> (string \<times> string) set" where
  "graph_rel g = {(x, y). y \<in> set (succs g x)}"

lemma reach_loop_spec:
  assumes "\<forall>x \<in> reached. \<forall>y \<in> set (succs g x). y \<in> reached \<or> y \<in> set stack"
  shows "reached \<union> set stack \<subseteq> reach_loop g reached stack \<and>
    (\<forall>x \<in> reach_loop g reached stack. \<forall>y \<in> set (succs g x). y \<in> reach_loop g reached stack) \<and>
    (\<forall>y \<in> reach_loop g reached stack. y \<in> reached \<or> (\<exists>s \<in> set stack. (s, y) \<in> (graph_rel g)\<^sup>*))"
  using assms
proof (induction g reached stack rule: reach_loop.induct)
  case (1 g reached)
  then show ?case by auto
next
  case (2 g reached x stack)
  show ?case
  proof (cases "x \<in> reached")
    case True
    have "\<forall>x \<in> reached. \<forall>y \<in> set (succs g x). y \<in> reached \<or> y \<in> set stack" using 2(3) True by auto
    then show ?thesis using 2(1) [OF True] True by auto
  next
    case False
    let ?s = "rev (succs g x) @ stack"
    have "\<forall>z \<in> insert x reached. \<forall>y \<in> set (succs g z). y \<in> insert x reached \<or> y \<in> set ?s"
      using 2(3) by auto
    note ih = 2(2) [OF False this]
    have "(x, y) \<in> (graph_rel g)\<^sup>*" if "s \<in> set (succs g x)" "(s, y) \<in> (graph_rel g)\<^sup>*" for s y
      using that by (auto simp: graph_rel_def intro: converse_rtrancl_into_rtrancl)
    then show ?thesis using ih False by (auto 4 3)
  qed
qed

declare reach_loop.simps [simp del]

lemma reach_loop_reachable: "reach_loop g {} [a] = (graph_rel g)\<^sup>* `` {a}"
proof -
  note spec = reach_loop_spec [of "{}" g "[a]", simplified]
  have "(a, y) \<in> (graph_rel g)\<^sup>* \<Longrightarrow> y \<in> reach_loop g {} [a]" for y
  proof (induction rule: rtrancl_induct)
    case base
    then show ?case using spec by blast
  next
    case (step y z)
    then show ?case using spec by (auto simp: graph_rel_def)
  qed
  then show ?thesis using spec by blast
qed

section \<open>The cycle search\<close>

text \<open>The flow edges of a document, with the JSON object of the candidate edge.\<close>

definition flow_edge :: "jsonlib \<Rightarrow> json \<Rightarrow> string \<Rightarrow> json \<Rightarrow> string \<Rightarrow> bool" where
  "flow_edge L nodes u e v = (\<exists>es f. node_edges nodes u = Inr es \<and> (f, e) \<in> set es \<and>
     get_string L e ''to'' [] = Inr v \<and> v \<in> member_set nodes)"

definition declared :: "json \<Rightarrow> bool" where
  "declared e = (is_member e ''loop'' = Inr True \<or>
     (\<exists>h. bindR (j_get e ''max_hits'' (JInt 0)) (as_integer (- (2 ^ 31)) (2 ^ 31 - 1)) = Inr h \<and> 1 \<le> h))"

definition flow :: "jsonlib \<Rightarrow> json \<Rightarrow> (string \<times> string) set" where
  "flow L nodes = {(u, v). \<exists>e. flow_edge L nodes u e v}"

definition undeclared_flow :: "jsonlib \<Rightarrow> json \<Rightarrow> (string \<times> string) set" where
  "undeclared_flow L nodes = {(u, v). \<exists>e. flow_edge L nodes u e v \<and> \<not> declared e}"

lemma list_all2_memD: "list_all2 P xs ys \<Longrightarrow> x \<in> set xs \<Longrightarrow> \<exists>y. P x y"
  by (induction rule: list_all2_induct) auto

lemma dfs_edge:
  assumes "passes (dfs L nodes outer u) ()" and "flow_edge L nodes u e v"
  shows "(v \<in> insert u outer \<longrightarrow> declared e) \<and>
    (v \<notin> insert u outer \<longrightarrow> passes (dfs L nodes (insert u outer) v) ())"
proof -
  obtain es f where es: "node_edges nodes u = Inr es" "(f, e) \<in> set es"
    and to: "get_string L e ''to'' [] = Inr v" and v: "v \<in> member_set nodes"
    using assms(2) by (auto simp: flow_edge_def)
  have member: "is_member nodes v = Inr True" using v by (cases nodes) (auto simp: is_member_def)
  obtain rs where "list_all2 (\<lambda>x y. passes ((\<lambda>(f, e).
       bindW (str_at L e ''to'' []) (\<lambda>to.
       bindW (liftW (undeclared (insert u outer) e to)) (\<lambda>bad.
       if bad then
         errW ''UNDECLARED_CYCLE'' (''/nodes/'' @ u @ ''/'' @ f) ''Cycle edge requires loop or max_hits.''
       else bindW (liftW (is_member nodes to)) (\<lambda>known.
         if known \<and> to \<notin> insert u outer then dfs L nodes (insert u outer) to else retW ())))) x) y) es rs"
    using assms(1) es(1) by (subst (asm) dfs.simps) (auto simp: passes_simps Let_def)
  from list_all2_memD [OF this es(2)] obtain y where "undeclared (insert u outer) e v = Inr False"
      "passes (if v \<notin> insert u outer then dfs L nodes (insert u outer) v else retW ()) y"
    using to member by (auto simp: passes_simps str_at_def split: if_splits)
  then show ?thesis
    by (auto simp: undeclared_def declared_def bindR_Inr not_less split: if_splits)
qed

lemma dfs_no_return:
  assumes "(u, x) \<in> (undeclared_flow L nodes)\<^sup>+" and "passes (dfs L nodes outer u) ()"
  shows "x \<notin> insert u outer"
  using assms
proof (induction arbitrary: outer rule: converse_trancl_induct)
  case (base u)
  then show ?case using dfs_edge by (auto simp: undeclared_flow_def)
next
  case (step u v)
  then obtain e where e: "flow_edge L nodes u e v" "\<not> declared e" by (auto simp: undeclared_flow_def)
  then have "passes (dfs L nodes (insert u outer) v) ()" using dfs_edge [OF step.prems e(1)] by blast
  then show ?case using step.IH by blast
qed

lemma dfs_visits:
  assumes "rtrancl_path (\<lambda>u v. (u, v) \<in> flow L nodes) u xs x" and "distinct (u # xs)"
    and "set xs \<inter> outer = {}" and "passes (dfs L nodes outer u) ()"
  shows "\<exists>outer'. passes (dfs L nodes outer' x) ()"
  using assms
proof (induction arbitrary: outer rule: rtrancl_path.induct)
  case (base x)
  then show ?case by blast
next
  case (step u v ys x)
  obtain e where "flow_edge L nodes u e v" using step.hyps(1) by (auto simp: flow_def)
  moreover have "v \<notin> insert u outer" using step.prems by auto
  ultimately have "passes (dfs L nodes (insert u outer) v) ()" using dfs_edge [OF step.prems(3)] by blast
  moreover have "set ys \<inter> insert u outer = {}" "distinct (v # ys)" using step.prems by auto
  ultimately show ?case using step.IH by blast
qed

lemma dfs_sound:
  assumes "passes (dfs L nodes {} entry) ()" and "(entry, u) \<in> (flow L nodes)\<^sup>*"
  shows "(u, u) \<notin> (undeclared_flow L nodes)\<^sup>+"
proof -
  have "(\<lambda>u v. (u, v) \<in> flow L nodes)\<^sup>*\<^sup>* entry u"
    using assms(2) by (simp add: rtranclp_rtrancl_eq)
  then obtain xs where "rtrancl_path (\<lambda>u v. (u, v) \<in> flow L nodes) entry xs u"
    by (auto simp: rtranclp_eq_rtrancl_path)
  then obtain xs' where "rtrancl_path (\<lambda>u v. (u, v) \<in> flow L nodes) entry xs' u" "distinct (entry # xs')"
    by (rule rtrancl_path_distinct)
  from dfs_visits [OF this] obtain outer where "passes (dfs L nodes outer u) ()" using assms(1) by auto
  then show ?thesis using dfs_no_return [of u u] by blast
qed

section \<open>What a document that passes promises\<close>

definition policy_ok :: "string \<Rightarrow> string \<Rightarrow> u32 \<Rightarrow> bool" where
  "policy_ok kind replay attempts =
    (kind \<in> set effect_kinds \<and> replay \<in> set replay_policies \<and>
     (kind = ''pure'' \<longrightarrow> replay = ''safe'') \<and>
     (kind = ''external_write'' \<longrightarrow> replay \<noteq> ''safe'') \<and>
     (kind = ''irreversible'' \<longrightarrow> replay = ''manual'' \<or> replay = ''forbidden'') \<and>
     (1 < attempts \<longrightarrow> replay = ''safe'' \<or> replay = ''idempotent''))"

definition effects_ok :: "jsonlib \<Rightarrow> json \<Rightarrow> bool" where
  "effects_ok L n = (\<exists>effects kind replay retry attempts.
     j_at n ''effects'' = Inr effects \<and> is_object effects \<and>
     get_string L effects ''kind'' [] = Inr kind \<and> get_string L effects ''replay'' [] = Inr replay \<and>
     j_at n ''retry'' = Inr retry \<and> get_u32 retry ''max_attempts'' 1 = Inr attempts \<and>
     policy_ok kind replay attempts)"

definition edge_ok :: "json \<Rightarrow> json \<Rightarrow> bool" where
  "edge_ok nodes e = (is_object e \<and> (\<exists>to. j_at e ''to'' = Inr (JStr to) \<and> to \<in> member_set nodes))"

definition parallel_ok :: "jsonlib \<Rightarrow> json \<Rightarrow> json \<Rightarrow> bool" where
  "parallel_ok L nodes n = (\<exists>bs join.
     j_at n ''branches'' = Inr (JArr bs) \<and> bs \<noteq> [] \<and> j_at n ''join'' = Inr (JStr join) \<and>
     join \<in> member_set nodes \<and> (\<forall>b \<in> set bs. \<exists>to. as_string L b = Inr to \<and> to \<in> member_set nodes))"

definition node_ok :: "jsonlib \<Rightarrow> json \<Rightarrow> string \<Rightarrow> bool" where
  "node_ok L nodes k = (valid_id k \<and> (\<exists>n type. j_at nodes k = Inr n \<and> is_object n \<and>
     get_string L n ''type'' [] = Inr type \<and> known_type type \<and>
     (needs_executor_name type \<longrightarrow> (\<exists>x. get_string L n ''executor'' [] = Inr x \<and> x \<noteq> [])) \<and>
     (type = ''tool'' \<or> type = ''custom'' \<longrightarrow> is_member n ''effects'' = Inr True) \<and>
     (is_member n ''effects'' = Inr True \<longrightarrow> effects_ok L n) \<and>
     (\<forall>f \<in> set cycle_fields. \<exists>es. edges_of n f = Inr es \<and> (\<forall>e \<in> set es. edge_ok nodes e)) \<and>
     (type = ''parallel'' \<longrightarrow> parallel_ok L nodes n)))"

lemma is_member_True: "is_member j k = Inr True \<longleftrightarrow> k \<in> member_set j"
  by (cases j) (auto simp: is_member_def)

lemmas passes_plain = passes_bind passes_then passes_when passes_err passes_lift

lemma passes_effect_rules:
  assumes "passes (effect_rules L path n effects kind replay) ()"
  shows "\<exists>retry attempts. j_at n ''retry'' = Inr retry \<and> get_u32 retry ''max_attempts'' 1 = Inr attempts \<and>
    policy_ok kind replay attempts"
proof -
  note r = assms [unfolded effect_rules_def passes_plain simp_thms]
  have ex: "\<exists>x. bindR (j_at n ''retry'') (\<lambda>r. get_u32 r ''max_attempts'' 1) = Inr x \<and>
      \<not> (1 < x \<and> (replay = ''at_most_once'' \<or> replay = ''manual'' \<or> replay = ''forbidden''))"
    using r by (elim conjE)
  have kinds: "kind \<in> set effect_kinds \<and> replay \<in> set replay_policies"
    using r by (elim conjE) (rule conjI; assumption)
  have rules: "\<not> (kind = ''pure'' \<and> replay \<noteq> ''safe'') \<and> \<not> (kind = ''external_write'' \<and> replay = ''safe'') \<and>
      \<not> (kind = ''irreversible'' \<and> replay \<noteq> ''manual'' \<and> replay \<noteq> ''forbidden'')"
    using r by (elim conjE) (intro conjI; assumption)
  have "policy_ok kind replay x"
    if "\<not> (1 < x \<and> (replay = ''at_most_once'' \<or> replay = ''manual'' \<or> replay = ''forbidden''))" for x
    using that kinds rules unfolding replay_policies_def policy_ok_def by auto
  with ex show ?thesis unfolding bindR_Inr by metis
qed

lemma passes_effects:
  assumes "passes (validate_effects L path n) ()"
  shows "effects_ok L n"
proof -
  obtain effects kind replay where e: "j_at n ''effects'' = Inr effects"
      "get_string L effects ''kind'' [] = Inr kind" "get_string L effects ''replay'' [] = Inr replay"
      and rest: "passes (if \<not> is_object effects
          then errW ''INVALID_EFFECTS'' (path @ ''/effects'') ''effects must be an object.''
          else effect_rules L path n effects kind replay) ()"
    using assms unfolding validate_effects_def str_at_def passes_bind passes_lift by blast
  have "is_object effects" using rest by (cases "is_object effects") (simp_all add: passes_err)
  then have "passes (effect_rules L path n effects kind replay) ()" using rest by simp
  from passes_effect_rules [OF this] show ?thesis
    using e \<open>is_object effects\<close> unfolding effects_ok_def by blast
qed

lemma passes_edge:
  assumes "passes (validate_edge L nodes path count (j, e)) (ts, otherwise)"
  shows "edge_ok nodes e"
proof -
  obtain target where t: "passes (if is_object e then liftW (j_at e ''to'') else retW JNull) target"
    and c: "passes (case target of
      JStr to \<Rightarrow>
        bindW (liftW (is_member nodes to)) (\<lambda>known.
        thenW (whenW (\<not> known)
          (errW ''UNKNOWN_NODE_REFERENCE'' ((path @ ''/'' @ to_string j) @ ''/to'') ''Referenced node does not exist.''))
       (bindW (validate_edge_fields L (path @ ''/'' @ to_string j) count j e) (\<lambda>otherwise.
        retW (if known then [to] else [], otherwise))))
    | _ \<Rightarrow> thenW (errW ''INVALID_EDGE'' (path @ ''/'' @ to_string j) ''Edge must contain string 'to'.'')
        (retW ([], False))) (ts, otherwise)"
    using assms unfolding validate_edge_def prod.case Let_def passes_bind by blast
  obtain to where to: "target = JStr to" "is_member nodes to = Inr True"
    using c by (cases target) (auto simp: passes_simps)
  then show ?thesis
    using t by (auto simp: edge_ok_def passes_simps is_member_True split: if_splits)
qed

lemma passes_edges:
  assumes "passes (validate_edges L nodes path n field) r"
  shows "\<exists>es. edges_of n field = Inr es \<and> (\<forall>e \<in> set es. edge_ok nodes e)"
proof -
  obtain es rs where es: "edges_of n field = Inr es"
    and all: "list_all2 (\<lambda>x y. passes (validate_edge L nodes (path @ ''/'' @ field) (length es) x) y)
        (enumerate 0 es) rs"
    using assms by (auto simp: validate_edges_def Let_def passes_simps)
  have "edge_ok nodes e" if e: "e \<in> set es" for e
  proof -
    obtain i where "i < length es" "es ! i = e" using e by (auto simp: in_set_conv_nth)
    then have "(i, e) \<in> set (enumerate 0 es)" by (simp add: in_set_enumerate_eq)
    from list_all2_memD [OF all this] show ?thesis using passes_edge by fastforce
  qed
  then show ?thesis using es by blast
qed

lemma passes_reference [passes_simps]:
  "passes (validate_reference nodes path message to) ts \<longleftrightarrow> to \<in> member_set nodes \<and> ts = [to]"
  by (auto simp: validate_reference_def passes_ret passes_bind passes_then passes_when passes_err passes_lift
      is_member_True [symmetric])

lemma passes_parallel:
  assumes "passes (validate_parallel L nodes path n) r"
  shows "parallel_ok L nodes n"
proof -
  obtain branches join rs js where b: "j_at n ''branches'' = Inr branches" "is_array branches"
      "\<not> j_empty branches" and j: "j_at n ''join'' = Inr join" "is_string join"
    and all: "passes (if is_object branches \<and> \<not> j_empty branches then liftW (Inl (Json_error Not_array))
           else mapW (\<lambda>b. bindW (liftW (as_string L b))
               (validate_reference nodes (path @ ''/branches'') ''Parallel branch does not exist.''))
             (j_items branches)) rs"
    and joined: "passes (case join of
        JStr j \<Rightarrow> validate_reference nodes (path @ ''/join'') ''Join does not exist.'' j
      | _ \<Rightarrow> retW []) js"
    using assms unfolding validate_parallel_def passes_bind passes_then passes_lift passes_when passes_err
    by blast
  obtain bs where bs: "branches = JArr bs" "bs \<noteq> []" using b(2,3) by (cases branches) auto
  obtain k where k: "join = JStr k" using j(2) by (cases join) auto
  have "k \<in> member_set nodes" using joined k by (simp add: passes_simps)
  moreover have "\<exists>to. as_string L x = Inr to \<and> to \<in> member_set nodes" if "x \<in> set bs" for x
  proof -
    have "list_all2 (\<lambda>x y. \<exists>to. as_string L x = Inr to \<and> to \<in> member_set nodes \<and> y = [to]) bs rs"
      using all bs(1) by (simp add: passes_simps)
    from list_all2_memD [OF this that] show ?thesis by blast
  qed
  ultimately show ?thesis using b(1) j(1) bs k by (auto simp: parallel_ok_def)
qed

lemma passes_kind:
  assumes "passes (validate_kind L path n type) ()"
  shows "known_type type \<and>
     (needs_executor_name type \<longrightarrow> (\<exists>x. get_string L n ''executor'' [] = Inr x \<and> x \<noteq> [])) \<and>
     (type = ''tool'' \<or> type = ''custom'' \<longrightarrow> is_member n ''effects'' = Inr True) \<and>
     (is_member n ''effects'' = Inr True \<longrightarrow> effects_ok L n)"
proof -
  note r = assms [unfolded validate_kind_def passes_plain simp_thms str_at_def]
  obtain b where b: "is_member n ''effects'' = Inr b" "\<not> ((type = ''tool'' \<or> type = ''custom'') \<and> \<not> b)"
      "b \<longrightarrow> passes (validate_effects L path n) ()"
    using r by (elim conjE exE) (rule that; assumption)
  have "known_type type" "needs_executor_name type \<longrightarrow> (\<exists>x. get_string L n ''executor'' [] = Inr x \<and> x \<noteq> [])"
    using r by simp_all
  then show ?thesis using b by (cases b) (simp_all add: passes_effects)
qed

lemma passes_node_fields:
  assumes "passes (validate_node_fields L path n) type"
  shows "get_string L n ''type'' [] = Inr type \<and> passes (validate_kind L path n type) () \<and>
    passes (validate_settings L path n type) ()"
  using assms unfolding validate_node_fields_def passes_plain passes_ret str_at_def by blast

lemma passes_case_prod: "passes (bindW m (\<lambda>(x, y). f x y)) z \<longleftrightarrow> (\<exists>x y. passes m (x, y) \<and> passes (f x y) z)"
  by (auto simp: passes_bind)

lemma passes_validate_node:
  assumes "passes (validate_node L nodes k) r"
  shows "\<exists>n type r1 r2 r3. valid_id k \<and> j_at nodes k = Inr n \<and> is_object n \<and>
    passes (validate_node_fields L (''/nodes/'' @ k) n) type \<and>
    passes (validate_edges L nodes (''/nodes/'' @ k) n ''next'') r1 \<and>
    passes (validate_edges L nodes (''/nodes/'' @ k) n ''on_error'') r2 \<and>
    passes (if type = ''parallel'' then validate_parallel L nodes (''/nodes/'' @ k) n else retW ([], 0)) r3"
proof -
  obtain n where n: "j_at nodes k = Inr n" "valid_id k"
    and rest: "passes (if \<not> is_object n then
        thenW (errW ''INVALID_NODE'' (''/nodes/'' @ k) ''Node must be an object.'') (retW (k, [], 0))
      else
        bindW (validate_node_fields L (''/nodes/'' @ k) n) (\<lambda>type.
        bindW (validate_edges L nodes (''/nodes/'' @ k) n ''next'') (\<lambda>(next, c1).
        bindW (validate_edges L nodes (''/nodes/'' @ k) n ''on_error'') (\<lambda>(on_error, c2).
        bindW (if type = ''parallel'' then validate_parallel L nodes (''/nodes/'' @ k) n else retW ([], 0))
          (\<lambda>(par, c3). retW (k, next @ on_error @ par, c1 + c2 + c3)))))) r"
    using assms unfolding validate_node_def Let_def passes_bind passes_then passes_lift passes_when passes_err
    by blast
  have obj: "is_object n" using rest by (cases "is_object n") (simp_all add: passes_then passes_err)
  obtain type where t: "passes (validate_node_fields L (''/nodes/'' @ k) n) type"
    and u: "passes (bindW (validate_edges L nodes (''/nodes/'' @ k) n ''next'') (\<lambda>(next, c1).
        bindW (validate_edges L nodes (''/nodes/'' @ k) n ''on_error'') (\<lambda>(on_error, c2).
        bindW (if type = ''parallel'' then validate_parallel L nodes (''/nodes/'' @ k) n else retW ([], 0))
          (\<lambda>(par, c3). retW (k, next @ on_error @ par, c1 + c2 + c3))))) r"
    using rest obj by (simp only: simp_thms if_False) (subst (asm) passes_bind, blast)
  show ?thesis using n obj t u [unfolded passes_case_prod] by blast
qed

lemma passes_node:
  assumes "passes (validate_node L nodes k) r"
  shows "node_ok L nodes k"
proof -
  obtain n type r1 r2 r3 where n: "valid_id k" "j_at nodes k = Inr n" "is_object n"
    and f: "passes (validate_node_fields L (''/nodes/'' @ k) n) type"
    and e: "passes (validate_edges L nodes (''/nodes/'' @ k) n ''next'') r1"
      "passes (validate_edges L nodes (''/nodes/'' @ k) n ''on_error'') r2"
    and p: "passes (if type = ''parallel'' then validate_parallel L nodes (''/nodes/'' @ k) n else retW ([], 0)) r3"
    using passes_validate_node [OF assms] by blast
  have par: "parallel_ok L nodes n" if t: "type = ''parallel''"
    using p unfolding if_P [OF t] by (rule passes_parallel)
  have refs: "\<forall>f \<in> set cycle_fields. \<exists>es. edges_of n f = Inr es \<and> (\<forall>e \<in> set es. edge_ok nodes e)"
    using passes_edges [OF e(1)] passes_edges [OF e(2)] by (simp add: cycle_fields_def)
  note g = passes_node_fields [OF f]
  show ?thesis
    unfolding node_ok_def
    by (intro conjI exI [of _ n] exI [of _ type] n g [THEN conjunct1] refs)
      (use par passes_kind [OF g [THEN conjunct2, THEN conjunct1]] in simp_all)
qed

lemma passes_graph:
  assumes "passes (validate_graph L lm nodes names entry) ()"
  shows "(\<forall>k \<in> set names. node_ok L nodes k) \<and>
    (entry \<in> member_set nodes \<longrightarrow> passes (dfs L nodes {} entry) ())"
proof -
  obtain rs known where all: "passes (mapW (validate_node L nodes) names) rs"
    and known: "is_member nodes entry = Inr known" and dfs: "known \<longrightarrow> passes (dfs L nodes {} entry) ()"
    using assms unfolding validate_graph_def Let_def passes_plain by blast
  have "node_ok L nodes k" if "k \<in> set names" for k
    using list_all2_memD [OF all [unfolded passes_map] that] passes_node by blast
  moreover have "known = (entry \<in> member_set nodes)" by (rule is_member_set [OF known])
  ultimately show ?thesis using dfs by blast
qed

lemma passes_entry:
  assumes "passes (validate_entry nodes entry) ()"
  shows "entry \<noteq> [] \<and> entry \<in> member_set nodes"
proof -
  obtain known where k: "passes (if entry = [] then retW False else liftW (is_member nodes entry)) known"
    and r: "passes (if \<not> known then errW ''MISSING_ENTRY'' ''/entry'' ''entry must reference an existing node.''
      else bindW (liftW (bindR (j_at nodes entry) (\<lambda>n. get_bool n ''enabled'' True))) (\<lambda>enabled.
        whenW (\<not> enabled) (errW ''DISABLED_ENTRY'' ''/entry'' ''entry cannot be disabled.''))) ()"
    using assms unfolding validate_entry_def passes_bind by blast
  have known using r by (cases known) (simp_all add: passes_err)
  then show ?thesis using k by (cases "entry = []") (simp_all add: passes_ret passes_lift is_member_True)
qed

lemma member_names_set:
  assumes "member_names j = Inr names"
  shows "set names = member_set j"
proof (cases j)
  case (JObj m)
  then have "set names = set (sm_keys m)" using assms by (auto simp: member_names_def)
  also have "\<dots> = {k. sm_has m k}" using sm_get_None_iff [of m] by auto
  finally show ?thesis using JObj by simp
qed (use assms in \<open>auto simp: member_names_def\<close>)

definition document_ok :: "jsonlib \<Rightarrow> json \<Rightarrow> json \<Rightarrow> string \<Rightarrow> bool" where
  "document_ok L r nodes entry = (is_object r \<and> j_at r ''nodes'' = Inr nodes \<and> is_object nodes \<and>
     get_string L r ''entry'' [] = Inr entry \<and> entry \<in> member_set nodes \<and>
     (\<forall>k \<in> member_set nodes. node_ok L nodes k) \<and> passes (dfs L nodes {} entry) ())"

lemma passes_root:
  assumes "passes (validate_root L lm r) ()"
  shows "\<exists>nodes entry. document_ok L r nodes entry"
proof -
  have obj: "is_object r"
    using assms unfolding validate_root_def by (cases "is_object r") (simp_all add: passes_err)
  note r = assms [unfolded validate_root_def, unfolded eqTrueI [OF obj] not_True_eq_False if_False passes_plain]
  obtain nodes where nodes: "j_at r ''nodes'' = Inr nodes"
    and rest: "passes (if \<not> is_object nodes \<or> j_empty nodes then
        errW ''MISSING_NODES'' ''/nodes'' ''nodes must be a non-empty object.''
      else validate_nodes L lm r nodes) ()"
    using r by blast
  have nobj: "is_object nodes" and v: "passes (validate_nodes L lm r nodes) ()"
    using rest by (auto simp: passes_err split: if_splits)
  obtain names entry where names: "member_names nodes = Inr names"
    and entry: "get_string L r ''entry'' [] = Inr entry" "passes (validate_entry nodes entry) ()"
    and g: "passes (validate_graph L lm nodes names entry) ()"
    using v unfolding validate_nodes_def passes_plain str_at_def by blast
  then show ?thesis
    using passes_entry [OF entry(2)] passes_graph [OF g] member_names_set [OF names] obj nodes nobj
    unfolding document_ok_def by blast
qed

lemma validate_clean:
  assumes "clean (validate L lm text)"
  shows "\<exists>r. parse_workflow_json L lm text = Inr r \<and> passes (validate_root L lm r) ()"
proof -
  obtain r where r: "parse_workflow_json L lm text = Inr r"
    using assms by (cases "parse_workflow_json L lm text")
      (simp_all add: validate_def clean_def parse_diag_def add_diag_def)
  moreover have "passes (validate_root L lm r) ()"
  proof -
    obtain d res where vr: "validate_root L lm r = (d, res)" by fastforce
    show ?thesis
      using assms r vr by (cases res) (auto simp: validate_def passes_def clean_def add_diag_def)
  qed
  ultimately show ?thesis by blast
qed

section \<open>References of a loaded workflow\<close>

lemma j_get_put_other:
  "j_put j k v = Inr j' \<Longrightarrow> k' \<noteq> k \<Longrightarrow> j_get j' k' d = j_get j k' d"
  using j_get_put by force

definition same_at :: "string \<Rightarrow> json \<Rightarrow> json \<Rightarrow> bool" where
  "same_at k j j' = (is_object j' \<and> (\<forall>d. j_get j' k d = j_get j k d) \<and> is_member j' k = is_member j k)"

lemma same_at_trans: "same_at k a b \<Longrightarrow> same_at k b c \<Longrightarrow> same_at k a c"
  by (simp add: same_at_def)

lemma same_at_put: "j_put j k v = Inr j' \<Longrightarrow> k' \<noteq> k \<Longrightarrow> same_at k' j j'"
  by (auto simp: same_at_def j_get_put_other j_put_def is_member_def bindR_Inr)

lemma same_at_put_default:
  "put_default k v n = Inr n' \<Longrightarrow> is_object n \<Longrightarrow> k' \<noteq> k \<Longrightarrow> same_at k' n n'"
  by (auto simp: put_default_def bindR_Inr same_at_put split: if_splits) (simp_all add: same_at_def)

lemma same_at_inherit:
  "inherit_default dflt k n = Inr n' \<Longrightarrow> is_object n \<Longrightarrow> k' \<noteq> k \<Longrightarrow> same_at k' n n'"
  by (auto simp: inherit_default_def bindR_Inr same_at_put split: if_splits) (simp_all add: same_at_def)

lemma same_at_object: "same_at k j j' \<Longrightarrow> is_object j'"
  by (simp add: same_at_def)

definition normalized_fields :: "string set" where
  "normalized_fields = {''name'', ''enabled'', ''effects'', ''timeout_ms'', ''retry''}"

lemma normalize_node_key: "normalize_node L dflt (k, n) = Inr kn' \<Longrightarrow> \<exists>n'. kn' = (k, n')"
  unfolding normalize_node_def bindR_Inr prod.case by (elim exE conjE) (simp only: sum.inject, blast)

lemma normalize_node_same:
  assumes "normalize_node L dflt (k, n) = Inr kn'" and "is_object n" and "f \<notin> normalized_fields"
  shows "\<exists>n'. kn' = (k, n') \<and> same_at f n n'"
proof -
  obtain n1 n2 type n3 n4 n5 n6 where s: "put_default ''name'' (JStr k) n = Inr n1"
      "put_default ''enabled'' (JBool True) n1 = Inr n2"
      "(if type = ''llm'' then put_default ''effects'' (effects_value ''external_read'') n2 else Inr n2) = Inr n3"
      "(if type \<in> {''transform'', ''condition'', ''noop''}
         then put_default ''effects'' (effects_value ''pure'') n3 else Inr n3) = Inr n4"
      "inherit_default dflt ''timeout_ms'' n4 = Inr n5" "inherit_default dflt ''retry'' n5 = Inr n6"
      "kn' = (k, n6)"
    using assms(1) unfolding normalize_node_def bindR_Inr prod.case by blast
  have f: "f \<noteq> ''name''" "f \<noteq> ''enabled''" "f \<noteq> ''effects''" "f \<noteq> ''timeout_ms''" "f \<noteq> ''retry''"
    using assms(3) by (simp_all add: normalized_fields_def)
  have 1: "same_at f n n1" by (rule same_at_put_default [OF s(1) assms(2) f(1)])
  have 2: "same_at f n1 n2" by (rule same_at_put_default [OF s(2) same_at_object [OF 1] f(2)])
  have refl: "same_at f m m" if "is_object m" for m using that by (simp add: same_at_def)
  have 3: "same_at f n2 n3"
  proof (cases "type = ''llm''")
    case True
    then show ?thesis using s(3) same_at_put_default [OF _ same_at_object [OF 2] f(3)] by simp
  next
    case False
    then show ?thesis using s(3) refl [OF same_at_object [OF 2]] by simp
  qed
  have 4: "same_at f n3 n4"
  proof (cases "type \<in> {''transform'', ''condition'', ''noop''}")
    case True
    then have "put_default ''effects'' (effects_value ''pure'') n3 = Inr n4" using s(4) by (simp only: if_True)
    then show ?thesis by (rule same_at_put_default [OF _ same_at_object [OF 3] f(3)])
  next
    case False
    then have "n4 = n3" using s(4) by (simp only: if_False sum.inject)
    then show ?thesis using refl [OF same_at_object [OF 3]] by simp
  qed
  have 5: "same_at f n4 n5" by (rule same_at_inherit [OF s(5) same_at_object [OF 4] f(4)])
  have 6: "same_at f n5 n6" by (rule same_at_inherit [OF s(6) same_at_object [OF 5] f(5)])
  show ?thesis using s(7) 1 2 3 4 5 6 same_at_trans by blast
qed

lemma normalize_node_cases:
  assumes "normalize_node L dflt kn = Inr kn'" and "f \<notin> normalized_fields"
  shows "(case kn of (k, n) \<Rightarrow> \<lambda>kn'. \<exists>n'. kn' = (k, n') \<and> (is_object n \<longrightarrow> same_at f n n')) kn'"
proof -
  obtain k n where kn: "kn = (k, n)" by (cases kn)
  show ?thesis
  proof (cases "is_object n")
    case True
    then show ?thesis using normalize_node_same [of L dflt k n kn' f] assms kn by simp
  next
    case False
    then show ?thesis using normalize_node_key [of L dflt k n kn'] assms kn by simp
  qed
qed

lemma get_string_at: "get_string L j k [] = bindR (j_at j k) (as_string L)"
  by (cases "members j") (auto simp: get_string_def j_at_def j_get_def split: option.splits)

lemma list_all2_sm_get:
  assumes "list_all2 (\<lambda>(k, n) kn'. \<exists>n'. kn' = (k, n') \<and> P n n') m m'"
  shows "(sm_get m k = None \<longrightarrow> sm_get m' k = None) \<and>
    (\<forall>n. sm_get m k = Some n \<longrightarrow> (\<exists>n'. sm_get m' k = Some n' \<and> P n n')) \<and> sm_keys m' = sm_keys m"
  using assms by (induction rule: list_all2_induct) (auto split: if_splits)

text \<open>The node table of the normalized document.\<close>

lemma normalize_root_nodes:
  assumes "normalize_root L r = Inr r'" and "document_ok L r nodes entry"
  shows "\<exists>m m'. nodes = JObj m \<and> j_at r' ''nodes'' = Inr (JObj m') \<and> sm_keys m' = sm_keys m \<and>
    get_string L r' ''entry'' [] = Inr entry \<and>
    (\<forall>k f n. f \<notin> normalized_fields \<longrightarrow> sm_get m k = Some n \<longrightarrow>
      (\<exists>n'. sm_get m' k = Some n' \<and> same_at f n n'))"
proof -
  have doc: "j_at r ''nodes'' = Inr nodes" "is_object r" "is_object nodes"
      "get_string L r ''entry'' [] = Inr entry" "\<forall>k \<in> member_set nodes. node_ok L nodes k"
    using assms(2) by (simp_all add: document_ok_def)
  obtain m where m: "nodes = JObj m" using doc(3) by (cases nodes) auto
  obtain dflt m' r1 where n: "mapR (normalize_node L dflt) m = Inr m'" "touch_defaults m r = Inr r1"
      "j_put r1 ''nodes'' (JObj m') = Inr r'"
    using assms(1) doc(1) m by (auto simp: normalize_root_def bindR_Inr)
  have obj: "is_object v" if "(k, v) \<in> set m" "sm_get m k = Some v" for k v
    using doc(5) m that by (auto simp: node_ok_def j_at_def j_get_def)
  have r1: "get_string L r1 ''entry'' [] = Inr entry"
    using n(2) doc(2,4) same_at_put_default [of "''defaults''" JNull r r1 "''entry''"]
    by (auto simp: touch_defaults_def get_string_def same_at_def split: if_splits)
  have all: "list_all2 (\<lambda>kn kn'. normalize_node L dflt kn = Inr kn') m m'" using n(1) by (simp add: mapR_Inr)
  have keys: "list_all2 (\<lambda>(k, n) kn'. \<exists>n'. kn' = (k, n') \<and> True) m m'"
    using all by (rule list_all2_mono) (use normalize_node_key in auto)
  have get: "\<exists>n'. sm_get m' k = Some n' \<and> same_at f n n'"
    if f: "f \<notin> normalized_fields" and k: "sm_get m k = Some n" for k f n
  proof -
    have "list_all2 (\<lambda>(k, n) kn'. \<exists>n'. kn' = (k, n') \<and> (is_object n \<longrightarrow> same_at f n n')) m m'"
      using all by (rule list_all2_mono) (rule normalize_node_cases [OF _ f])
    from list_all2_sm_get [OF this, of k] k show ?thesis using obj sm_get_in_set [OF k] by blast
  qed
  have "j_at r' ''nodes'' = Inr (JObj m')" using n(3) by (simp add: j_at_def j_get_put)
  moreover have "get_string L r' ''entry'' [] = Inr entry"
    using r1 j_get_put [OF n(3), of "''entry''"] by (simp add: get_string_def)
  moreover have "sm_keys m' = sm_keys m" using list_all2_sm_get [OF keys] by blast
  ultimately show ?thesis using m get by blast
qed

lemma same_at_edges: "same_at f n n' \<Longrightarrow> edge_values n' f = edge_values n f"
  by (simp add: same_at_def edge_values_def j_at_def cong: if_cong)

lemma sm_has_keys: "sm_has m k \<longleftrightarrow> k \<in> set (sm_keys m)"
  using sm_get_None_iff [of m k] by auto

definition references_ok :: "WorkflowIR \<Rightarrow> NodeIR \<Rightarrow> bool" where
  "references_ok w n =
    ((\<forall>e \<in> set (nd_next n) \<union> set (nd_error n). find_node w (ed_target e) \<noteq> None) \<and>
     (nd_type n = Parallel \<longrightarrow> find_node w (nd_join n) \<noteq> None \<and>
       (\<forall>b \<in> set (nd_branches n). find_node w b \<noteq> None)))"

lemma compiled_targets:
  assumes "add_edges L limit source f acc = Inr (es, acc')" and "same_at f n source"
    and "\<exists>vs. edges_of n f = Inr vs \<and> (\<forall>v \<in> set vs. edge_ok nodes v)" and "e \<in> set es"
  shows "ed_target e \<in> member_set nodes"
proof -
  obtain vs where vs: "edge_values source f = Inr vs"
      "list_all2 (\<lambda>v e. get_string L v ''to'' [] = Inr (ed_target e)) vs es"
    using add_edges_targets [OF assms(1)] by blast
  then have ok: "\<forall>v \<in> set vs. edge_ok nodes v"
    using assms(3) same_at_edges [OF assms(2)] by (auto simp: edges_of_def)
  obtain i where i: "i < length es" "e = es ! i" using assms(4) by (auto simp: in_set_conv_nth)
  then have v: "vs ! i \<in> set vs" "get_string L (vs ! i) ''to'' [] = Inr (ed_target e)"
    using vs(2) by (auto simp: list_all2_conv_all_nth)
  then show ?thesis using ok by (auto simp: edge_ok_def get_string_at)
qed

lemma compiled_parallel:
  assumes "compile_node L limit k source acc = Inr (c, acc')" and "nd_type c = Parallel"
  shows "get_string L source ''type'' [] = Inr ''parallel'' \<and>
    (\<exists>bs. compile_branches L source = Inr bs \<and> nd_branches c = bs) \<and>
    get_string L source ''join'' [] = Inr (nd_join c)"
proof -
  obtain h where h: "compile_head L k source = Inr h" "nd_type c = nd_type h"
      "compile_branches L source = Inr (nd_branches c)" "get_string L source ''join'' [] = Inr (nd_join c)"
    using compile_node_views [OF assms(1)] by blast
  obtain t where t: "bindR (j_at source ''type'') (as_string L) = Inr t" "node_type t = Inr (nd_type h)"
    using compile_head_type [OF h(1)] by auto
  have "t = ''parallel''"
    using t(2) h(2) assms(2) by (auto simp: node_type_def node_type_table_def split: if_splits)
  then show ?thesis using t(1) h by (simp add: get_string_at)
qed

lemma load_inversion:
  assumes "load L lm text = Inr wk"
  shows "\<exists>r nodes entry. parse_workflow_json L lm text = Inr r \<and> document_ok L r nodes entry \<and>
    normalize_root L r = Inr (wk_root wk) \<and>
    compile_workflow_ir L (write_json L (wk_root wk) False) (lim_ir_bytes lm) = Inr (wk_compiled wk)"
proof -
  have "filter (\<lambda>x. dg_severity x = Error) (validate L lm text) = []"
    using assms by (auto simp: load_def split: list.splits)
  moreover from this have "clean (validate L lm text)" by (auto simp: clean_def filter_empty_conv)
  then obtain r where r: "parse_workflow_json L lm text = Inr r" "passes (validate_root L lm r) ()"
    using validate_clean by blast
  ultimately show ?thesis
    using assms passes_root [OF r(2)] r(1) by (auto simp: load_def workflow_impl_def bindR_Inr)
qed

lemma load_references:
  assumes "load L lm text = Inr wk"
    and "jl_parse L None (jl_write L Compact (wk_root wk)) = Inr (wk_root wk)"
    and "\<And>r. parse_workflow_json L lm text = Inr r \<Longrightarrow> json_ok r"
  shows "find_node (wk_compiled wk) (wf_entry (wk_compiled wk)) \<noteq> None \<and>
    (\<forall>n \<in> set (wf_nodes (wk_compiled wk)). references_ok (wk_compiled wk) n)"
proof -
  let ?w = "wk_compiled wk"
  obtain r nodes entry where r: "parse_workflow_json L lm text = Inr r" and doc: "document_ok L r nodes entry"
    and norm: "normalize_root L r = Inr (wk_root wk)"
    and comp: "compile_workflow_ir L (write_json L (wk_root wk) False) (lim_ir_bytes lm) = Inr ?w"
    using load_inversion [OF assms(1)] by blast
  have root: "compile_root L (wk_root wk) (lim_ir_bytes lm) = Inr ?w"
    using comp assms(2) by (auto simp: compile_workflow_ir_def ir_compile_def write_json_def split: if_splits)
  obtain m m' where m: "nodes = JObj m" "j_at (wk_root wk) ''nodes'' = Inr (JObj m')" "sm_keys m' = sm_keys m"
      "get_string L (wk_root wk) ''entry'' [] = Inr entry"
    and same: "\<And>k f n. f \<notin> normalized_fields \<Longrightarrow> sm_get m k = Some n \<Longrightarrow>
      \<exists>n'. sm_get m' k = Some n' \<and> same_at f n n'"
    using normalize_root_nodes [OF norm doc] by blast
  have "json_ok nodes" using json_ok_at [OF assms(3) [OF r]] doc by (auto simp: document_ok_def)
  then have "distinct (sm_keys m')" using m(1,3) sm_ok_distinct by auto
  then have facts: "table_ok (sm_keys m') (wf_nodes ?w) (wf_index ?w)"
      "\<forall>n \<in> set (wf_nodes ?w). node_of L (lim_ir_bytes lm) (JObj m') n"
      "bindR (j_at (wk_root wk) ''entry'') (as_string L) = Inr (wf_entry ?w)"
    using compile_root_facts [OF root m(2)] by (auto simp: member_names_def)
  have found: "find_node ?w k \<noteq> None" if "k \<in> member_set nodes" for k
    using find_node_None [OF facts(1), of k] that m(1,3) sm_has_keys [of m k] by simp
  have entry: "wf_entry ?w = entry" using facts(3) m(4) by (simp add: get_string_at)
  have "references_ok ?w c" if c: "c \<in> set (wf_nodes ?w)" for c
  proof -
    obtain source acc acc' where src: "j_at (JObj m') (nd_id c) = Inr source"
        "compile_node L (lim_ir_bytes lm) (nd_id c) source acc = Inr (c, acc')"
      using facts(2) c by (auto simp: node_of_def)
    have "map nd_id (wf_nodes ?w) = sm_keys m" using facts(1) m(3) by (simp add: table_ok_def)
    then have "nd_id c \<in> set (sm_keys m)" using c by (metis imageI list.set_map)
    then obtain n where n: "sm_get m (nd_id c) = Some n" using sm_has_keys [of m "nd_id c"] by fastforce
    have ok: "node_ok L nodes (nd_id c)" using doc n m(1) by (auto simp: document_ok_def)
    have nf: "''next'' \<notin> normalized_fields" "''on_error'' \<notin> normalized_fields" "''type'' \<notin> normalized_fields"
        "''branches'' \<notin> normalized_fields" "''join'' \<notin> normalized_fields"
      by (simp_all add: normalized_fields_def)
    have at: "same_at f n source" if "f \<notin> normalized_fields" for f
      using same [OF that n] src(1) by (auto simp: j_at_def j_get_def)
    have jn: "j_at nodes (nd_id c) = Inr n" using n m(1) by (simp add: j_at_def j_get_def)
    note nd = ok [unfolded node_ok_def jn]
    obtain a1 a2 a3 where e: "add_edges L (lim_ir_bytes lm) source ''next'' a1 = Inr (nd_next c, a2)"
        "add_edges L (lim_ir_bytes lm) source ''on_error'' a2 = Inr (nd_error c, a3)"
      using compile_node_views [OF src(2)] by blast
    have refs: "\<exists>vs. edges_of n f = Inr vs \<and> (\<forall>v \<in> set vs. edge_ok nodes v)" if "f \<in> set cycle_fields" for f
      using nd that by auto
    have targets: "ed_target e \<in> member_set nodes" if "e \<in> set (nd_next c) \<union> set (nd_error c)" for e
      using that compiled_targets [OF e(1) at [OF nf(1)] refs, of e] compiled_targets [OF e(2) at [OF nf(2)] refs, of e]
      by (auto simp: cycle_fields_def)
    have par: "nd_join c \<in> member_set nodes \<and> (\<forall>b \<in> set (nd_branches c). b \<in> member_set nodes)"
      if p: "nd_type c = Parallel"
    proof -
      note cp = compiled_parallel [OF src(2) p]
      have "get_string L n ''type'' [] = Inr ''parallel''"
        using cp at [OF nf(3)] by (simp add: same_at_def get_string_def)
      then have "parallel_ok L nodes n" using nd by auto
      then obtain bs join where b: "j_at n ''branches'' = Inr (JArr bs)" "j_at n ''join'' = Inr (JStr join)"
          "join \<in> member_set nodes" "\<forall>b \<in> set bs. \<exists>to. as_string L b = Inr to \<and> to \<in> member_set nodes"
        by (auto simp: parallel_ok_def)
      have s: "j_at source ''branches'' = Inr (JArr bs)" "j_at source ''join'' = Inr (JStr join)"
        using b(1,2) at [OF nf(4)] at [OF nf(5)] by (simp_all add: same_at_def j_at_def)
      have "mapR (as_string L) bs = Inr (nd_branches c)"
        using cp s(1) by (auto simp: compile_branches_def)
      then have "list_all2 (\<lambda>b to. as_string L b = Inr to) bs (nd_branches c)" by (simp add: mapR_Inr)
      then have "\<forall>to \<in> set (nd_branches c). to \<in> member_set nodes"
        using b(4) by (induction rule: list_all2_induct) auto
      moreover have "nd_join c = join" using cp s(2) by (simp add: get_string_at)
      ultimately show ?thesis using b(3) by simp
    qed
    show ?thesis using targets par found by (auto simp: references_ok_def)
  qed
  then show ?thesis using found entry doc by (auto simp: document_ok_def)
qed

end
