(* ===== verification/Workflow_Load.thy ===== *)
theory Workflow_Load
  imports Workflow_Validate
begin

text \<open>
  The properties of loading a workflow: what a document that passes validation promises, that every
  reference of the compiled workflow resolves, that the compiled form stays in its byte budget, and
  two gaps of the validation. The sample documents at the start are the concrete inputs on which the
  hypotheses of the properties hold.
\<close>

section \<open>Sample documents\<close>

text \<open>
  A library for examples that reads one document under the name \<open>doc\<close> and one normalized document.
  The sample workflow has a payment tool that must run at most once and a retry policy in its
  defaults.
\<close>

definition table_lib :: "json \<Rightarrow> json \<Rightarrow> jsonlib" where
  "table_lib d n = bare_lib\<lparr>jl_parse := (\<lambda>_ t. if t = ''doc'' then Inr d else if t = ''normalized'' then Inr n
      else if t = ''{}'' then Inr (JObj []) else Inl ''syntax error''),
    jl_write := (\<lambda>_ j. if j = JObj [] then ''{}'' else ''normalized'')\<rparr>"

definition retry_value :: json where
  "retry_value = JObj [(''max_attempts'', JInt 3)]"

definition effects_sample :: json where
  "effects_sample = JObj [(''kind'', JStr ''external_write''), (''replay'', JStr ''at_most_once'')]"

definition document :: "json \<Rightarrow> (string, json) smap \<Rightarrow> json" where
  "document defaults nodes = JObj [(''defaults'', defaults), (''entry'', JStr ''a''), (''format'', JStr ''dage-workflow''),
     (''format_version'', JStr ''0.2.0''), (''nodes'', JObj nodes)]"

definition sample_nodes :: "(string, json) smap" where
  "sample_nodes = [(''a'', JObj [(''effects'', effects_sample), (''executor'', JStr ''pay''), (''next'', JStr ''b''),
       (''type'', JStr ''tool'')]),
     (''b'', JObj [(''type'', JStr ''end'')])]"

definition sample_normalized :: "(string, json) smap" where
  "sample_normalized = [(''a'', JObj [(''effects'', effects_sample), (''enabled'', JBool True),
       (''executor'', JStr ''pay''), (''name'', JStr ''a''), (''next'', JStr ''b''), (''retry'', retry_value),
       (''type'', JStr ''tool'')]),
     (''b'', JObj [(''enabled'', JBool True), (''name'', JStr ''b''), (''retry'', retry_value),
       (''type'', JStr ''end'')])]"

definition sample_doc :: json where
  "sample_doc = document (JObj [(''retry'', retry_value)]) sample_nodes"

definition sample_root :: json where
  "sample_root = document (JObj [(''retry'', retry_value)]) sample_normalized"

definition sample_lib :: jsonlib where
  "sample_lib = table_lib sample_doc sample_root"

definition sample_node :: "string \<Rightarrow> NodeIR" where
  "sample_node k = \<lparr>nd_id = k, nd_name = k, nd_executor = [], nd_idempotency_key = [], nd_join = [],
     nd_type = End, nd_enabled = True, nd_guarantees = False, nd_input = JObj [], nd_config = JObj [],
     nd_policy = JObj [], nd_effect = Pure, nd_replay = Safe, nd_timeout_ms = 0, nd_retry_delay_ms = 0,
     nd_retry_jitter_ms = 0, nd_max_attempts = 3, nd_retry_backoff = ''fixed'', nd_next = [], nd_error = [],
     nd_branches = []\<rparr>"

definition sample_ir :: WorkflowIR where
  "sample_ir = \<lparr>wf_id = [], wf_entry = ''a'', wf_digest = sha256_digest ''normalized'', wf_max_steps = 1000,
     wf_timeout_ms = 0, wf_max_parallel = 1,
     wf_nodes = [(sample_node ''a'')\<lparr>nd_executor := ''pay'', nd_type := Tool, nd_effect := ExternalWrite,
         nd_replay := AtMostOnce, nd_next := [\<lparr>ed_target = ''b'', ed_condition = [], ed_otherwise = False,
           ed_set = JObj [], ed_loop = JObj [], ed_max_hits = 0\<rparr>]\<rparr>,
       sample_node ''b''],
     wf_index = [(''a'', 0), (''b'', 1)]\<rparr>"

definition sample_workflow :: workflow where
  "sample_workflow = \<lparr>wk_root = sample_root, wk_compiled = sample_ir, wk_bundle_digest = []\<rparr>"

lemmas getters = j_at_def j_get_def is_member_def member_names_def get_string_def get_bool_def get_u32_def
  get_u64_def get_value_def str_at_def int_at_def int32_at_def int64_at_def liftW_def retW_def bindW_def
  thenW_def whenW_def

lemmas node_rules = validate_node_def validate_node_fields_def validate_kind_def validate_settings_def
  known_type_def node_type_table_def needs_executor_name_def valid_id_def lower_letter_def less_eq_char_def
  validate_edges_def edges_of_def edge_values_def edge_of_item_def validate_edge_def validate_edge_fields_def
  validate_effects_def effect_rules_def effect_kinds_def replay_policies_def validate_parallel_def
  validate_reference_def as_uint_def in_range_def Let_def

lemma parse_table: "parse_workflow_json (table_lib d n) default_limits ''doc'' = Inr d"
  by (simp add: parse_workflow_json_def default_limits_def json_nesting_depth_def depth_step_def table_lib_def)

lemma sample_node_a: "validate_node sample_lib (JObj sample_nodes) ''a'' = ([], Inr (''a'', [''b''], 1))"
  by (simp add: node_rules getters sample_nodes_def effects_sample_def)

lemma sample_node_b: "validate_node sample_lib (JObj sample_nodes) ''b'' = ([], Inr (''b'', [], 0))"
  by (simp add: node_rules getters sample_nodes_def)

lemma sample_dfs: "dfs sample_lib (JObj sample_nodes) {} ''a'' = ([], Inr ())"
  by (simp add: dfs.simps getters sample_nodes_def node_edges_def cycle_fields_def edges_of_def edge_values_def
      edge_of_item_def undeclared_def)

lemma sample_graph:
  "validate_graph sample_lib default_limits (JObj sample_nodes) [''a'', ''b''] ''a'' = ([], Inr ())"
proof -
  have r: "reach_loop [(''a'', [''b'']), (''b'', [])] {} [''a''] = {''a'', ''b''}"
    by (simp add: reach_loop.simps succs_def insert_commute)
  have m: "is_member (JObj sample_nodes) ''a'' = Inr True" by (simp add: is_member_def sample_nodes_def)
  show ?thesis
    by (simp add: validate_graph_def sample_node_a sample_node_b sample_dfs r m default_limits_def
        bindW_def thenW_def whenW_def retW_def liftW_def)
qed

lemma sample_validate: "validate sample_lib default_limits ''doc'' = []"
proof -
  have names: "member_names (JObj sample_nodes) = Inr [''a'', ''b'']"
    by (simp add: member_names_def sample_nodes_def)
  have entry: "get_string sample_lib sample_doc ''entry'' [] = Inr ''a''"
    by (simp add: get_string_def j_get_def sample_doc_def document_def)
  have e: "validate_entry (JObj sample_nodes) ''a'' = ([], Inr ())"
    by (simp add: validate_entry_def getters sample_nodes_def)
  have bytes: "fst (measure_workflow_strings sample_doc) \<le> lim_literal_bytes default_limits"
      "snd (measure_workflow_strings sample_doc) \<le> lim_expression_bytes default_limits"
      "2 \<le> lim_nodes default_limits"
    by (simp_all add: sample_doc_def document_def sample_nodes_def retry_value_def effects_sample_def
        contains_str_def default_limits_def)
  have n: "validate_nodes sample_lib default_limits sample_doc (JObj sample_nodes) = ([], Inr ())"
    using bytes by (simp add: validate_nodes_def names entry e sample_graph str_at_def liftW_def retW_def
        bindW_def thenW_def whenW_def not_less)
  have "validate_root sample_lib default_limits sample_doc = ([], Inr ())"
    using n by (simp add: validate_root_def getters sample_doc_def document_def top_fields_def)
      (simp add: sample_nodes_def)
  then show ?thesis using parse_table [of sample_doc sample_root] by (simp add: validate_def sample_lib_def)
qed

lemma sample_normalize: "normalize_root sample_lib sample_doc = Inr sample_root"
  by (simp add: normalize_root_def getters sample_doc_def sample_root_def document_def sample_nodes_def
      sample_normalized_def normalize_node_def put_default_def inherit_default_def touch_defaults_def j_put_def
      retry_value_def)

lemma sample_compile: "compile_root sample_lib sample_root (lim_ir_bytes default_limits) = Inr sample_ir"
  by (simp add: compile_root_def getters sample_root_def document_def sample_normalized_def remove_member_def
      compile_step_def compile_node_def compile_head_def node_type_def node_type_table_def value_of_def
      parse_json_def sample_lib_def table_lib_def account_def default_limits_def as_uint64_def as_uint_def
      in_range_def add_edges_def edge_values_def edge_of_item_def compile_edge_def compile_branches_def
      head_bytes_def tail_bytes_def edge_bytes_def json_bytes_def write_json_def effects_sample_def
      retry_value_def effect_kind_def replay_policy_def sample_ir_def sample_node_def Let_def)

lemma sample_load: "load sample_lib default_limits ''doc'' = Inr sample_workflow"
proof -
  have "compile_workflow_ir sample_lib (write_json sample_lib sample_root False) (lim_ir_bytes default_limits) =
      compile_root sample_lib sample_root (lim_ir_bytes default_limits)"
    by (simp add: compile_workflow_ir_def ir_compile_def write_json_def sample_lib_def table_lib_def
        default_limits_def sample_root_def document_def)
  then show ?thesis
    using parse_table [of sample_doc sample_root]
    by (simp add: load_def sample_validate sample_normalize workflow_impl_def sample_compile sample_workflow_def
        sample_lib_def [symmetric])
qed

lemma sample_json_ok: "json_ok sample_doc"
  by (simp add: sample_doc_def document_def sample_nodes_def effects_sample_def retry_value_def sm_ok_Cons
      less_char_def)

section \<open>Properties\<close>

text \<open>
  C6. Every reference of a loaded workflow resolves: the entry, the target of every edge, and the join
  and the branches of every parallel node are nodes of the compiled table. The hypotheses on the JSON
  library are that the document it read has ordered keys and that it reads back the normalized
  document it wrote.
\<close>

theorem loaded_references_resolve:
  assumes "load L lm text = Inr wk"
    and "parse_workflow_json L lm text = Inr r" and "json_ok r"
    and "jl_parse L None (jl_write L Compact (wk_root wk)) = Inr (wk_root wk)"
  shows "find_node (wk_compiled wk) (wf_entry (wk_compiled wk)) \<noteq> None \<and>
    (\<forall>n \<in> set (wf_nodes (wk_compiled wk)). references_ok (wk_compiled wk) n)"
  using load_references [OF assms(1,4)] assms(2,3) by simp

theorem loaded_references_resolve_witness:
  "\<exists>n. find_node sample_ir ''a'' = Some n \<and> references_ok sample_ir n \<and> ed_target (hd (nd_next n)) = ''b''"
proof -
  have "\<forall>n \<in> set (wf_nodes sample_ir). references_ok sample_ir n"
    using loaded_references_resolve [OF sample_load, of sample_doc] parse_table [of sample_doc sample_root]
      sample_json_ok
    by (simp add: sample_workflow_def sample_lib_def table_lib_def sample_root_def document_def)
  then show ?thesis by (simp add: find_node_def sample_ir_def)
qed

text \<open>
  C7. Every cycle of a document that passes validation is bounded: no cycle of \<open>next\<close> and \<open>on_error\<close>
  edges that can be reached from the entry consists of edges without a loop and without a hit bound.
\<close>

theorem validated_cycles_bounded:
  assumes "clean (validate L lm text)" and "parse_workflow_json L lm text = Inr r"
    and "j_at r ''nodes'' = Inr nodes" and "get_string L r ''entry'' [] = Inr entry"
    and "(entry, u) \<in> (flow L nodes)\<^sup>*"
  shows "(u, u) \<notin> (undeclared_flow L nodes)\<^sup>+"
proof -
  obtain nodes' entry' where "document_ok L r nodes' entry'"
    using validate_clean [OF assms(1)] assms(2) passes_root by force
  then have "passes (dfs L nodes {} entry) ()" using assms(3,4) by (simp add: document_ok_def)
  then show ?thesis using dfs_sound assms(5) by blast
qed

theorem validated_cycles_bounded_witness:
  "clean (validate sample_lib default_limits ''doc'') \<and>
   (''a'', ''b'') \<in> (flow sample_lib (JObj sample_nodes))\<^sup>* \<and>
   (''b'', ''b'') \<notin> (undeclared_flow sample_lib (JObj sample_nodes))\<^sup>+"
proof -
  have c: "clean (validate sample_lib default_limits ''doc'')" by (simp add: sample_validate clean_def)
  have f: "(''a'', ''b'') \<in> flow sample_lib (JObj sample_nodes)"
    by (simp add: flow_def flow_edge_def node_edges_def cycle_fields_def edges_of_def edge_values_def
        edge_of_item_def getters sample_nodes_def)
  have r: "parse_workflow_json sample_lib default_limits ''doc'' = Inr sample_doc"
      "j_at sample_doc ''nodes'' = Inr (JObj sample_nodes)" "get_string sample_lib sample_doc ''entry'' [] = Inr ''a''"
    using parse_table [of sample_doc sample_root] by (simp_all add: sample_lib_def getters sample_doc_def document_def)
  show ?thesis using c f validated_cycles_bounded [OF c r r_into_rtrancl [OF f]] by blast
qed

text \<open>
  C8. The effect policies of a document that passes validation are consistent: a node that declares
  effects has a known kind and replay policy, a pure one is safe to replay, an external write is not,
  an irreversible one is manual or forbidden, and only a safe or idempotent one has a retry policy of
  its own with more than one attempt.
\<close>

theorem validated_effect_policies:
  assumes "clean (validate L lm text)" and "parse_workflow_json L lm text = Inr r"
    and "j_at r ''nodes'' = Inr nodes" and "j_at nodes k = Inr n" and "is_member n ''effects'' = Inr True"
  shows "effects_ok L n"
proof -
  obtain entry where doc: "document_ok L r nodes entry"
    using validate_clean [OF assms(1)] assms(2,3) passes_root by (force simp: document_ok_def)
  have "k \<in> member_set nodes"
    using assms(4,5) doc by (cases nodes) (auto simp: document_ok_def j_at_def j_get_def is_member_def split: option.splits)
  then show ?thesis using doc assms(4,5) by (auto simp: document_ok_def node_ok_def)
qed

theorem validated_effect_policies_witness:
  "\<exists>n. j_at (JObj sample_nodes) ''a'' = Inr n \<and> effects_ok sample_lib n"
proof -
  have c: "clean (validate sample_lib default_limits ''doc'')" by (simp add: sample_validate clean_def)
  have r: "parse_workflow_json sample_lib default_limits ''doc'' = Inr sample_doc"
      "j_at sample_doc ''nodes'' = Inr (JObj sample_nodes)"
    using parse_table [of sample_doc sample_root] by (simp_all add: sample_lib_def getters sample_doc_def document_def)
  obtain n where n: "j_at (JObj sample_nodes) ''a'' = Inr n" "is_member n ''effects'' = Inr True"
    by (simp add: getters sample_nodes_def)
  show ?thesis using n(1) validated_effect_policies [OF c r n] by blast
qed

text \<open>
  A compiled workflow stays within its byte budget: the accounted size of the workflow, its nodes,
  edges and branches is at most the limit the compiler was given.
\<close>

theorem compiled_within_budget:
  assumes "compile_workflow_ir L text limit = Inr w" and "jl_parse L None text = Inr r" and "json_ok r"
  shows "ir_bytes L w \<le> limit"
proof -
  have root: "compile_root L r limit = Inr w"
    using assms(1,2) by (auto simp: compile_workflow_ir_def ir_compile_def split: if_splits)
  then obtain nodes names where "j_at r ''nodes'' = Inr nodes" "member_names nodes = Inr names"
    by (auto simp: compile_root_def bindR_Inr)
  then show ?thesis
    using compile_root_facts [OF root] distinct_member_names json_ok_at [OF assms(3)] by blast
qed

theorem compiled_within_budget_witness:
  "ir_bytes sample_lib sample_ir \<le> lim_ir_bytes default_limits"
proof (rule compiled_within_budget [of _ "''normalized''" _ _ sample_root])
  show p: "jl_parse sample_lib None ''normalized'' = Inr sample_root" by (simp add: sample_lib_def table_lib_def)
  show "compile_workflow_ir sample_lib ''normalized'' (lim_ir_bytes default_limits) = Inr sample_ir"
    using sample_compile p by (simp add: compile_workflow_ir_def ir_compile_def default_limits_def)
  show "json_ok sample_root"
    by (simp add: sample_root_def document_def sample_normalized_def effects_sample_def retry_value_def sm_ok_Cons
        less_char_def)
qed

text \<open>
  The reachability loop of the validation computes the nodes reachable from the entry, so the
  unreachable-node warnings name exactly the others.
\<close>

theorem reach_loop_is_reachability:
  "reach_loop g {} [entry] = {y. (entry, y) \<in> (graph_rel g)\<^sup>*}"
  using reach_loop_reachable [of g entry] by auto

text \<open>
  A retry policy inherited from the defaults escapes the check: there is a document that passes
  validation and loads, whose at-most-once node is compiled with three attempts, because defaults are
  merged after the policies were checked.
\<close>

theorem inherited_retry_escapes_validation:
  "\<exists>L text wk n. validate L default_limits text = [] \<and> load L default_limits text = Inr wk \<and>
    n \<in> set (wf_nodes (wk_compiled wk)) \<and> nd_replay n = AtMostOnce \<and> nd_effect n = ExternalWrite \<and>
    nd_max_attempts n = 3"
proof -
  have "\<exists>n \<in> set (wf_nodes (wk_compiled sample_workflow)). nd_replay n = AtMostOnce \<and>
      nd_effect n = ExternalWrite \<and> nd_max_attempts n = 3"
    by (simp add: sample_workflow_def sample_ir_def sample_node_def)
  then show ?thesis using sample_validate sample_load by blast
qed

text \<open>A document with a parallel node whose join leads back to it over an unbounded edge.\<close>

definition fan_nodes :: "(string, json) smap" where
  "fan_nodes = [(''a'', JObj [(''branches'', JArr [JStr ''x'']), (''join'', JStr ''j''), (''type'', JStr ''parallel'')]),
     (''j'', JObj [(''executor'', JStr ''merge''), (''next'', JStr ''a''), (''type'', JStr ''join'')]),
     (''x'', JObj [(''type'', JStr ''noop'')])]"

definition fan_doc :: json where
  "fan_doc = document (JObj []) fan_nodes"

definition fan_lib :: jsonlib where
  "fan_lib = table_lib fan_doc fan_doc"

definition parallel_flow :: "jsonlib \<Rightarrow> json \<Rightarrow> (string \<times> string) set" where
  "parallel_flow L nodes = {(u, v). \<exists>n. j_at nodes u = Inr n \<and> get_string L n ''type'' [] = Inr ''parallel'' \<and>
     (j_at n ''join'' = Inr (JStr v) \<or> (\<exists>bs. j_at n ''branches'' = Inr (JArr bs) \<and> JStr v \<in> set bs))}"

lemma fan_node_checks:
  "validate_node fan_lib (JObj fan_nodes) ''a'' = ([], Inr (''a'', [''x'', ''j''], 2))"
  "validate_node fan_lib (JObj fan_nodes) ''j'' = ([], Inr (''j'', [''a''], 1))"
  "validate_node fan_lib (JObj fan_nodes) ''x'' = ([], Inr (''x'', [], 0))"
  by (simp_all add: node_rules getters fan_nodes_def)

lemma fan_dfs: "dfs fan_lib (JObj fan_nodes) {} ''a'' = ([], Inr ())"
  by (simp add: dfs.simps getters fan_nodes_def node_edges_def cycle_fields_def edges_of_def edge_values_def)

lemma fan_validate: "validate fan_lib default_limits ''doc'' = []"
proof -
  have r: "reach_loop [(''a'', [''x'', ''j'']), (''j'', [''a'']), (''x'', [])] {} [''a''] = {''a'', ''j'', ''x''}"
    by (simp add: reach_loop.simps succs_def insert_commute)
  have m: "is_member (JObj fan_nodes) ''a'' = Inr True"
      "member_names (JObj fan_nodes) = Inr [''a'', ''j'', ''x'']"
      "get_string fan_lib fan_doc ''entry'' [] = Inr ''a''" "validate_entry (JObj fan_nodes) ''a'' = ([], Inr ())"
    by (simp_all add: getters fan_nodes_def fan_doc_def document_def validate_entry_def)
  have g: "validate_graph fan_lib default_limits (JObj fan_nodes) [''a'', ''j'', ''x''] ''a'' = ([], Inr ())"
    by (simp add: validate_graph_def fan_node_checks fan_dfs r m(1) default_limits_def bindW_def thenW_def
        whenW_def retW_def liftW_def)
  have "fst (measure_workflow_strings fan_doc) \<le> lim_literal_bytes default_limits"
      "snd (measure_workflow_strings fan_doc) \<le> lim_expression_bytes default_limits"
      "3 \<le> lim_nodes default_limits"
    by (simp_all add: fan_doc_def document_def fan_nodes_def contains_str_def default_limits_def)
  then have n: "validate_nodes fan_lib default_limits fan_doc (JObj fan_nodes) = ([], Inr ())"
    by (simp add: validate_nodes_def m(2-4) g str_at_def liftW_def retW_def bindW_def thenW_def whenW_def not_less)
  have "validate_root fan_lib default_limits fan_doc = ([], Inr ())"
    using n by (simp add: validate_root_def getters fan_doc_def document_def top_fields_def)
      (simp add: fan_nodes_def)
  then show ?thesis using parse_table [of fan_doc fan_doc] by (simp add: validate_def fan_lib_def)
qed

text \<open>
  The cycle search does not follow parallel nodes: there is a document without any diagnostic in
  which the entry lies on a cycle that leads over the join of a parallel node and an edge without a
  loop and without a hit bound.
\<close>

theorem parallel_cycle_unchecked:
  "\<exists>L text r nodes entry. validate L default_limits text = [] \<and>
    parse_workflow_json L default_limits text = Inr r \<and> j_at r ''nodes'' = Inr nodes \<and>
    get_string L r ''entry'' [] = Inr entry \<and>
    (entry, entry) \<in> (parallel_flow L nodes \<union> undeclared_flow L nodes)\<^sup>+"
proof -
  have "(''a'', ''j'') \<in> parallel_flow fan_lib (JObj fan_nodes)"
    by (simp add: parallel_flow_def getters fan_nodes_def)
  moreover have "(''j'', ''a'') \<in> undeclared_flow fan_lib (JObj fan_nodes)"
    by (simp add: undeclared_flow_def flow_edge_def declared_def node_edges_def cycle_fields_def edges_of_def
        edge_values_def edge_of_item_def getters fan_nodes_def in_range_def)
  ultimately have "(''a'', ''a'') \<in> (parallel_flow fan_lib (JObj fan_nodes) \<union> undeclared_flow fan_lib (JObj fan_nodes))\<^sup>+"
    by (meson UnI1 UnI2 r_into_trancl trancl_into_trancl2)
  moreover have "j_at fan_doc ''nodes'' = Inr (JObj fan_nodes)" "get_string fan_lib fan_doc ''entry'' [] = Inr ''a''"
    by (simp_all add: getters fan_doc_def document_def)
  moreover have "parse_workflow_json fan_lib default_limits ''doc'' = Inr fan_doc"
    unfolding fan_lib_def by (rule parse_table)
  ultimately show ?thesis using fan_validate by blast
qed

end
