(* ===== verification/Workflow_Patch.thy ===== *)
theory Workflow_Patch
  imports Workflow_Load
begin

text \<open>
  Patches (\<open>dage.cpp\<close>, \<open>Engine::apply_patch\<close>, \<open>dry_run_patch\<close>, \<open>analyze_patch\<close> and
  \<open>diff_workflows\<close>). A patch edits a copy of the document of a loaded workflow, one change after the
  other, and loads the result; a change that cannot be made is a \<open>PatchValidationError\<close>, which the
  dry run tells apart from the other exceptions. The analysis lists the nodes that differ, the nodes
  that depend on them, and a patch that undoes the edit. Access to a member of a mutable document
  through \<open>operator[]\<close> inserts a null member when there is none, which is written out (\<open>put_default\<close>)
  where it can be observed.
\<close>

section \<open>Faults and documents\<close>

datatype patch_fault = Patch_error string string string | Other fault

definition liftP :: "'a res \<Rightarrow> patch_fault + 'a" where
  "liftP r = (case r of Inl e \<Rightarrow> Inl (Other e) | Inr x \<Rightarrow> Inr x)"

lemma liftP_simps [simp]:
  "liftP (Inr x) = Inr x"
  "liftP (Inl e) = Inl (Other e)"
  "liftP r = Inr x \<longleftrightarrow> r = Inr x"
  by (simp_all add: liftP_def split: sum.split)

fun patch_what :: "jsonlib \<Rightarrow> patch_fault \<Rightarrow> string" where
  "patch_what L (Patch_error code path message) = code @ '': '' @ message"
| "patch_what L (Other e) = fault_what L e"

definition change_path :: "nat \<Rightarrow> string" where
  "change_path i = ''/changes/'' @ to_string i"

definition failP :: "nat \<Rightarrow> string \<Rightarrow> string \<Rightarrow> string \<Rightarrow> patch_fault + 'a" where
  "failP i code sfx message = Inl (Patch_error code (change_path i @ sfx) message)"

definition is_integral :: "rat \<Rightarrow> bool" where
  "is_integral r = (rat_of_int \<lfloor>r\<rfloor> = r)"

fun is_uint :: "json \<Rightarrow> bool" where
  "is_uint (JInt i) = (0 \<le> i \<and> i < 2 ^ 32)"
| "is_uint (JUInt i) = (i < 2 ^ 32)"
| "is_uint (JReal r) = (0 \<le> r \<and> r < 2 ^ 32 \<and> is_integral r)"
| "is_uint _ = False"

fun is_uint64 :: "json \<Rightarrow> bool" where
  "is_uint64 (JInt i) = (0 \<le> i)"
| "is_uint64 (JUInt i) = True"
| "is_uint64 (JReal r) = (0 \<le> r \<and> r < 2 ^ 64 \<and> is_integral r)"
| "is_uint64 _ = False"

definition is_index :: "json \<Rightarrow> bool" where
  "is_index j = (is_uint j \<or> is_uint64 j)"

fun filled :: "json \<Rightarrow> bool" where
  "filled (JStr s) = (s \<noteq> [])"
| "filled _ = False"

definition in_nodes :: "(json \<Rightarrow> json res) \<Rightarrow> json \<Rightarrow> json res" where
  "in_nodes f r = bindR (j_at r ''nodes'') (\<lambda>nodes. bindR (f nodes) (j_put r ''nodes''))"

definition in_node :: "string \<Rightarrow> (json \<Rightarrow> json res) \<Rightarrow> json \<Rightarrow> json res" where
  "in_node ident f = in_nodes (\<lambda>nodes. bindR (j_at nodes ident) (\<lambda>n. bindR (f n) (j_put nodes ident)))"

definition has_node :: "json \<Rightarrow> string \<Rightarrow> bool res" where
  "has_node r ident = bindR (j_at r ''nodes'') (\<lambda>nodes. is_member nodes ident)"

definition revision :: "json \<Rightarrow> u64 res" where
  "revision r = get_u64 r ''x_revision'' 0"

section \<open>Renaming\<close>

definition rename_item :: "jsonlib \<Rightarrow> string \<Rightarrow> string \<Rightarrow> json \<Rightarrow> json res" where
  "rename_item L from to v = (case v of
     JStr s \<Rightarrow> Inr (if s = from then JStr to else v)
   | JObj m \<Rightarrow> bindR (get_string L v ''to'' []) (\<lambda>t. if t = from then j_put v ''to'' (JStr to) else Inr v)
   | _ \<Rightarrow> Inr v)"

definition rename_edge_targets :: "jsonlib \<Rightarrow> string \<Rightarrow> string \<Rightarrow> string \<Rightarrow> json \<Rightarrow> json res" where
  "rename_edge_targets L field from to n =
    bindR (is_member n field) (\<lambda>present. if \<not> present then Inr n else
    bindR (j_at n field) (\<lambda>v. case v of
        JArr xs \<Rightarrow> bindR (mapR (rename_item L from to) xs) (\<lambda>ys. j_put n field (JArr ys))
      | _ \<Rightarrow> bindR (rename_item L from to v) (j_put n field)))"

definition rename_branches :: "jsonlib \<Rightarrow> string \<Rightarrow> string \<Rightarrow> json \<Rightarrow> json res" where
  "rename_branches L from to n =
    bindR (put_default ''branches'' JNull n) (\<lambda>n'.
    bindR (j_at n' ''branches'') (\<lambda>v. case v of
        JArr xs \<Rightarrow> bindR (mapR (\<lambda>x. bindR (as_string L x) (\<lambda>s. Inr (if s = from then JStr to else x))) xs)
          (\<lambda>ys. j_put n' ''branches'' (JArr ys))
      | _ \<Rightarrow> Inr n'))"

definition rename_refs :: "jsonlib \<Rightarrow> string \<Rightarrow> string \<Rightarrow> json \<Rightarrow> json res" where
  "rename_refs L from to n =
    bindR (rename_edge_targets L ''next'' from to n) (\<lambda>n1.
    bindR (rename_edge_targets L ''on_error'' from to n1) (\<lambda>n2.
    bindR (get_string L n2 ''join'' []) (\<lambda>join.
    bindR (if join = from then j_put n2 ''join'' (JStr to) else Inr n2) (rename_branches L from to))))"

definition rename_all :: "jsonlib \<Rightarrow> string \<Rightarrow> string \<Rightarrow> json \<Rightarrow> json res" where
  "rename_all L from to nodes =
    bindR (members nodes) (\<lambda>m.
    bindR (mapR (\<lambda>(k, n). bindR (rename_refs L from to n) (\<lambda>n'. Inr (k, n'))) m) (\<lambda>m'. Inr (JObj m')))"

definition rename_node :: "jsonlib \<Rightarrow> string \<Rightarrow> string \<Rightarrow> json \<Rightarrow> json res" where
  "rename_node L from to r =
    bindR (in_nodes (\<lambda>nodes. bindR (j_at nodes from) (\<lambda>n. bindR (j_put nodes to n) (\<lambda>nodes'.
      remove_member nodes' from))) r) (\<lambda>r1.
    bindR (put_default ''entry'' JNull r1) (\<lambda>r2.
    bindR (bindR (j_at r2 ''entry'') (as_string L)) (\<lambda>entry.
    bindR (if entry = from then j_put r2 ''entry'' (JStr to) else Inr r2) (in_nodes (rename_all L from to)))))"

section \<open>The changes\<close>

definition require_node :: "nat \<Rightarrow> string \<Rightarrow> json \<Rightarrow> patch_fault + unit" where
  "require_node i ident r = bindR (liftP (has_node r ident)) (\<lambda>has.
     if has then Inr () else failP i ''PATCH_NODE_NOT_FOUND'' ''/node_id'' ''Node does not exist.'')"

definition edit_node :: "nat \<Rightarrow> string \<Rightarrow> (json \<Rightarrow> json res) \<Rightarrow> json \<Rightarrow> patch_fault + json" where
  "edit_node i ident f r = bindR (require_node i ident r) (\<lambda>_. liftP (in_node ident f r))"

definition change_entry :: "nat \<Rightarrow> json \<Rightarrow> json \<Rightarrow> patch_fault + json" where
  "change_entry i v r =
    (case v of
       JStr s \<Rightarrow> bindR (liftP (has_node r s)) (\<lambda>has.
         if has then liftP (j_put r ''entry'' v)
         else failP i ''PATCH_ENTRY_NOT_FOUND'' ''/value'' ''set_entry requires an existing node.'')
     | _ \<Rightarrow> failP i ''PATCH_ENTRY_NOT_FOUND'' ''/value'' ''set_entry requires an existing node.'')"

definition add_node :: "nat \<Rightarrow> string \<Rightarrow> json \<Rightarrow> json \<Rightarrow> patch_fault + json" where
  "add_node i ident n r =
    (if \<not> is_object n then failP i ''PATCH_NODE_NOT_OBJECT'' ''/node'' ''node must be an object.''
     else bindR (liftP (has_node r ident)) (\<lambda>has.
       if has then failP i ''PATCH_NODE_ALREADY_EXISTS'' ''/node_id'' ''Node already exists.''
       else liftP (in_nodes (\<lambda>nodes. j_put nodes ident n) r)))"

definition remove_node :: "nat \<Rightarrow> string \<Rightarrow> json \<Rightarrow> patch_fault + json" where
  "remove_node i ident r =
    bindR (require_node i ident r) (\<lambda>_. liftP (in_nodes (\<lambda>nodes. remove_member nodes ident) r))"

definition replace_node :: "nat \<Rightarrow> string \<Rightarrow> json \<Rightarrow> json \<Rightarrow> patch_fault + json" where
  "replace_node i ident n r =
    (if \<not> is_object n then failP i ''PATCH_NODE_NOT_OBJECT'' ''/node'' ''node must be an object.''
     else bindR (require_node i ident r) (\<lambda>_. liftP (in_nodes (\<lambda>nodes. j_put nodes ident n) r)))"

definition change_name :: "jsonlib \<Rightarrow> nat \<Rightarrow> string \<Rightarrow> json \<Rightarrow> json \<Rightarrow> patch_fault + json" where
  "change_name L i ident change r =
    bindR (liftP (bindR (j_at change ''new_node_id'') (as_string L))) (\<lambda>to.
    if to = [] then failP i ''PATCH_NEW_NODE_ID_REQUIRED'' ''/new_node_id'' ''new_node_id is required.''
    else bindR (require_node i ident r) (\<lambda>_.
    bindR (liftP (has_node r to)) (\<lambda>taken.
    if taken then failP i ''PATCH_NODE_ALREADY_EXISTS'' ''/new_node_id'' ''Target node already exists.''
    else liftP (rename_node L ident to r))))"

definition set_field :: "nat \<Rightarrow> string \<Rightarrow> json \<Rightarrow> json \<Rightarrow> json \<Rightarrow> patch_fault + json" where
  "set_field i ident field v r =
    (case field of
       JStr f \<Rightarrow> if f = [] then failP i ''PATCH_FIELD_REQUIRED'' ''/field'' ''field must be a non-empty string.''
         else edit_node i ident (\<lambda>n. j_put n f v) r
     | _ \<Rightarrow> failP i ''PATCH_FIELD_REQUIRED'' ''/field'' ''field must be a non-empty string.'')"

definition remove_field :: "nat \<Rightarrow> string \<Rightarrow> json \<Rightarrow> json \<Rightarrow> patch_fault + json" where
  "remove_field i ident field r =
    (case field of
       JStr f \<Rightarrow> if f = [] then failP i ''PATCH_FIELD_REQUIRED'' ''/field'' ''field must be a non-empty string.''
         else bindR (require_node i ident r) (\<lambda>_.
         bindR (liftP (bindR (j_at r ''nodes'') (\<lambda>nodes. bindR (j_at nodes ident) (\<lambda>n. is_member n f)))) (\<lambda>has.
         if \<not> has then failP i ''PATCH_FIELD_NOT_FOUND'' ''/field'' ''Field does not exist.''
         else liftP (in_node ident (\<lambda>n. remove_member n f) r)))
     | _ \<Rightarrow> failP i ''PATCH_FIELD_REQUIRED'' ''/field'' ''field must be a non-empty string.'')"

fun next_items :: "json \<Rightarrow> json list" where
  "next_items (JArr xs) = xs"
| "next_items JNull = []"
| "next_items v = [v]"

definition insert_next :: "nat \<Rightarrow> string \<Rightarrow> json \<Rightarrow> json \<Rightarrow> patch_fault + json" where
  "insert_next i ident change r =
    bindR (require_node i ident r) (\<lambda>_.
    bindR (liftP (j_get change ''index'' (JUInt 0))) (\<lambda>index.
    if \<not> is_index index then failP i ''PATCH_INDEX_INVALID'' ''/index'' ''index must be an unsigned integer.''
    else bindR (liftP (j_at change ''value'')) (\<lambda>v. liftP (in_node ident (\<lambda>n.
      bindR (j_at n ''next'') (\<lambda>next. let xs = next_items next in
      bindR (bindR (j_get change ''index'' (JUInt (int (length xs)))) as_uint) (\<lambda>p.
      let position = min (unat p) (length xs) in
      j_put n ''next'' (JArr (take position xs @ v # drop position xs))))) r))))"

definition remove_next :: "nat \<Rightarrow> string \<Rightarrow> json \<Rightarrow> json \<Rightarrow> patch_fault + json" where
  "remove_next i ident index r =
    bindR (require_node i ident r) (\<lambda>_.
    if \<not> is_index index then failP i ''PATCH_INDEX_INVALID'' ''/index'' ''index must be an unsigned integer.''
    else bindR (liftP (bindR (j_at r ''nodes'') (\<lambda>nodes. bindR (j_at nodes ident) (\<lambda>n. j_at n ''next'')))) (\<lambda>next.
    bindR (liftP (as_uint index)) (\<lambda>k. case next of
        JArr xs \<Rightarrow> if length xs \<le> unat k
          then failP i ''PATCH_INDEX_OUT_OF_RANGE'' ''/index'' ''index is outside the next array.''
          else liftP (in_node ident (\<lambda>n. j_put n ''next'' (JArr (take (unat k) xs @ drop (Suc (unat k)) xs))) r)
      | _ \<Rightarrow> failP i ''PATCH_INDEX_OUT_OF_RANGE'' ''/index'' ''index is outside the next array.'')))"

definition perform :: "jsonlib \<Rightarrow> nat \<Rightarrow> string \<Rightarrow> string \<Rightarrow> json \<Rightarrow> json \<Rightarrow> patch_fault + json" where
  "perform L i action ident change r =
    bindR (liftP (j_at change ''value'')) (\<lambda>v.
    bindR (liftP (j_at change ''node'')) (\<lambda>n.
    bindR (liftP (j_at change ''field'')) (\<lambda>field.
    bindR (liftP (j_at change ''index'')) (\<lambda>index.
    if action = ''set_entry'' then change_entry i v r
    else if action = ''add_node'' then add_node i ident n r
    else if action = ''remove_node'' then remove_node i ident r
    else if action = ''replace_node'' then replace_node i ident n r
    else if action = ''rename_node'' then change_name L i ident change r
    else if action = ''set_field'' then set_field i ident field v r
    else if action = ''remove_field'' then remove_field i ident field r
    else if action = ''set_next'' then edit_node i ident (\<lambda>n. j_put n ''next'' v) r
    else if action = ''set_on_error'' then edit_node i ident (\<lambda>n. j_put n ''on_error'' v) r
    else if action = ''enable_node'' then edit_node i ident (\<lambda>n. j_put n ''enabled'' (JBool True)) r
    else if action = ''disable_node'' then edit_node i ident (\<lambda>n. j_put n ''enabled'' (JBool False)) r
    else if action = ''insert_next'' then insert_next i ident change r
    else if action = ''remove_next'' then remove_next i ident index r
    else failP i ''PATCH_UNKNOWN_ACTION'' ''/action'' (''Unknown Patch action: '' @ action)))))"

definition patch_change :: "jsonlib \<Rightarrow> nat \<times> json \<Rightarrow> json \<Rightarrow> patch_fault + json" where
  "patch_change L ic r = (case ic of (i, change) \<Rightarrow>
    bindR (liftP (bindR (j_at change ''action'') (as_string L))) (\<lambda>action.
    bindR (liftP (bindR (j_at change ''node_id'') (as_string L))) (\<lambda>ident.
    if \<not> is_object change then failP i ''PATCH_CHANGE_NOT_OBJECT'' [] ''Change must be an object.''
    else if action = [] then failP i ''PATCH_ACTION_REQUIRED'' ''/action'' ''action is required.''
    else if ident = [] \<and> action \<noteq> ''set_entry''
      then failP i ''PATCH_NODE_ID_REQUIRED'' ''/node_id'' ''node_id is required.''
    else perform L i action ident change r)))"

definition apply_changes :: "jsonlib \<Rightarrow> json list \<Rightarrow> json \<Rightarrow> patch_fault + json" where
  "apply_changes L changes = foldR (patch_change L) (enumerate 0 changes)"

section \<open>Applying a patch\<close>

text \<open>
  The precondition of a patch: the digest of the workflow it was made for, and its revision where the
  patch names one.
\<close>

definition check_base :: "workflow \<Rightarrow> json \<Rightarrow> patch_fault + unit" where
  "check_base wk patch =
    bindR (liftP (j_at patch ''base_digest'')) (\<lambda>base.
    if \<not> filled base then Inl (Patch_error ''PATCH_BASE_DIGEST_REQUIRED'' ''/base_digest'' ''base_digest is required.'')
    else if base \<noteq> JStr (wf_digest (wk_compiled wk))
      then Inl (Patch_error ''PATCH_BASE_DIGEST_MISMATCH'' ''/base_digest'' ''Patch targets a different Workflow.'')
    else bindR (liftP (revision (wk_root wk))) (\<lambda>rev.
    bindR (liftP (is_member patch ''base_revision'')) (\<lambda>given. if \<not> given then Inr ()
    else bindR (liftP (j_at patch ''base_revision'')) (\<lambda>b.
    if \<not> is_index b
      then Inl (Patch_error ''PATCH_INVALID_BASE_REVISION'' ''/base_revision'' ''base_revision must be an unsigned integer.'')
    else bindR (liftP (as_uint64 b)) (\<lambda>n.
    if n \<noteq> rev
      then Inl (Patch_error ''PATCH_BASE_REVISION_MISMATCH'' ''/base_revision'' ''Patch targets a different revision.'')
    else Inr ())))))"

definition bump_revision :: "json \<Rightarrow> json res" where
  "bump_revision r = bindR (revision r) (\<lambda>rev. j_put r ''x_revision'' (JUInt (uint (rev + 1))))"

definition patched_root :: "jsonlib \<Rightarrow> workflow \<Rightarrow> json \<Rightarrow> patch_fault + json" where
  "patched_root L wk patch =
    (if \<not> is_object patch then Inl (Patch_error ''PATCH_INVALID_DOCUMENT'' ''/'' ''Patch must be an object.'')
     else bindR (check_base wk patch) (\<lambda>_.
     bindR (liftP (j_at patch ''changes'')) (\<lambda>changes. case changes of
         JArr (c # cs) \<Rightarrow> bindR (apply_changes L (c # cs) (wk_root wk)) (\<lambda>r. liftP (bump_revision r))
       | _ \<Rightarrow> Inl (Patch_error ''PATCH_INVALID_CHANGES'' ''/changes'' ''changes must be a non-empty array.''))))"

definition apply_patch :: "jsonlib \<Rightarrow> limits \<Rightarrow> workflow \<Rightarrow> string \<Rightarrow> patch_fault + workflow" where
  "apply_patch L lm wk text =
    bindR (liftP (parse_json L text)) (\<lambda>patch.
    bindR (patched_root L wk patch) (\<lambda>r. liftP (load L lm (write_json L r False))))"

section \<open>The dry run\<close>

record PatchDryRunResult =
  pd_valid :: bool
  pd_base_digest :: string
  pd_candidate_digest :: string
  pd_candidate_revision :: u64
  pd_diagnostics :: "diagnostic list"

definition patch_actions :: "string list" where
  "patch_actions = [''set_entry'', ''add_node'', ''remove_node'', ''replace_node'', ''rename_node'', ''set_field'',
     ''remove_field'', ''set_next'', ''set_on_error'', ''enable_node'', ''disable_node'', ''insert_next'',
     ''remove_next'']"

definition patch_diag :: "string \<Rightarrow> string \<Rightarrow> string \<Rightarrow> string \<Rightarrow> diagnostic" where
  "patch_diag code path message suggestion =
    \<lparr>dg_severity = Error, dg_code = code, dg_path = path, dg_message = message, dg_suggestion = suggestion\<rparr>"

definition member_of :: "json \<Rightarrow> string \<Rightarrow> json" where
  "member_of j k = (case j_at j k of Inl _ \<Rightarrow> JNull | Inr v \<Rightarrow> v)"

text \<open>
  The schema check of one change. It reads the members of a change only after it has found that the
  change is an object, so none of its accesses throws.
\<close>

definition dry_check :: "nat \<times> json \<Rightarrow> diagnostic list" where
  "dry_check ic = (case ic of (i, change) \<Rightarrow>
    let add = (\<lambda>code sfx message. [patch_diag code (change_path i @ sfx) message ''Fix this Patch change.'']) in
    if \<not> is_object change then add ''PATCH_CHANGE_NOT_OBJECT'' [] ''Change must be an object.''
    else case member_of change ''action'' of
      JStr action \<Rightarrow>
        if action = [] then add ''PATCH_ACTION_REQUIRED'' ''/action'' ''action is required.''
        else if action \<notin> set patch_actions
          then add ''PATCH_UNKNOWN_ACTION'' ''/action'' (''Unknown Patch action: '' @ action)
        else
          (if action \<noteq> ''set_entry'' \<and> \<not> filled (member_of change ''node_id'')
             then add ''PATCH_NODE_ID_REQUIRED'' ''/node_id'' ''node_id is required.'' else []) @
          (if action \<in> {''add_node'', ''replace_node''} \<and> \<not> is_object (member_of change ''node'')
             then add ''PATCH_NODE_NOT_OBJECT'' ''/node'' ''node must be an object.'' else []) @
          (if action \<in> {''set_field'', ''remove_field''} \<and> \<not> filled (member_of change ''field'')
             then add ''PATCH_FIELD_REQUIRED'' ''/field'' ''field must be a non-empty string.'' else []) @
          (if action = ''remove_next'' \<and> \<not> is_index (member_of change ''index'') \<or>
              action = ''insert_next'' \<and> is_member change ''index'' = Inr True \<and> \<not> is_index (member_of change ''index'')
             then add ''PATCH_INDEX_INVALID'' ''/index'' ''index must be an unsigned integer.'' else []) @
          (if action = ''set_entry'' \<and> \<not> is_string (member_of change ''value'')
             then add ''PATCH_ENTRY_NOT_FOUND'' ''/value'' ''set_entry value must be a node id.'' else [])
    | _ \<Rightarrow> add ''PATCH_ACTION_REQUIRED'' ''/action'' ''action is required.'')"

definition dry_checks :: "jsonlib \<Rightarrow> string \<Rightarrow> diagnostic list" where
  "dry_checks L text =
    (case bindR (parse_json L text) (\<lambda>d. j_at d ''changes'') of
       Inr (JArr changes) \<Rightarrow> concat (map dry_check (enumerate 0 changes))
     | _ \<Rightarrow> [])"

definition candidate_diag :: "jsonlib \<Rightarrow> patch_fault \<Rightarrow> diagnostic" where
  "candidate_diag L e = (case e of
     Patch_error code path message \<Rightarrow>
       patch_diag code path message ''Fix this Patch field and retry against the current base digest.''
   | Other f \<Rightarrow> (let message = fault_what L f in
       patch_diag (if CHR '':'' \<in> set message then takeWhile (\<lambda>c. c \<noteq> CHR '':'') message else ''PATCH_CANDIDATE_INVALID'')
         ''/candidate'' message ''Fix the candidate Workflow produced by this Patch.''))"

definition dry_run_patch :: "jsonlib \<Rightarrow> limits \<Rightarrow> workflow \<Rightarrow> string \<Rightarrow> PatchDryRunResult res" where
  "dry_run_patch L lm wk text =
    bindR (revision (wk_root wk)) (\<lambda>rev.
    let result = \<lparr>pd_valid = False, pd_base_digest = wf_digest (wk_compiled wk), pd_candidate_digest = [],
          pd_candidate_revision = rev + 1, pd_diagnostics = []\<rparr>;
        found = dry_checks L text
    in Inr (if found \<noteq> [] then result\<lparr>pd_diagnostics := found\<rparr>
       else case apply_patch L lm wk text of
         Inr candidate \<Rightarrow> result\<lparr>pd_valid := True, pd_candidate_digest := wf_digest (wk_compiled candidate)\<rparr>
       | Inl e \<Rightarrow> result\<lparr>pd_diagnostics := [candidate_diag L e]\<rparr>))"

section \<open>Dependent nodes\<close>

text \<open>
  Sets of node names that grow: \<open>std::set::insert\<close> with its answer whether the name is new, recorded
  in the flag of the loop.
\<close>

definition grow :: "string \<Rightarrow> string set \<times> bool \<Rightarrow> string set \<times> bool" where
  "grow t s = (insert t (fst s), snd s \<or> t \<notin> fst s)"

definition refers :: "string \<Rightarrow> string set \<Rightarrow> bool" where
  "refers text A = (\<exists>c \<in> A. contains_str text (''${nodes.'' @ c @ ''.''))"

definition affect_node :: "NodeIR \<times> string \<Rightarrow> string set \<times> bool \<Rightarrow> string set \<times> bool" where
  "affect_node nt s = (case nt of (n, text) \<Rightarrow>
    let depends = nd_id n \<in> fst s;
        follow = (\<lambda>e s. if nd_id n \<in> fst s then grow (ed_target e) s else s);
        s1 = fold follow (nd_next n) s;
        s2 = fold follow (nd_error n) s1;
        s3 = (if nd_id n \<in> fst s2 then fold grow (nd_branches n) s2 else s2);
        s4 = (if nd_id n \<in> fst s3 \<and> nd_join n \<noteq> [] then grow (nd_join n) s3 else s3)
    in if depends \<or> refers text (fst s4) then grow (nd_id n) s4 else s4)"

definition expand_node :: "NodeIR \<times> string \<Rightarrow> string set \<times> bool \<Rightarrow> string set \<times> bool" where
  "expand_node nt s = (case nt of (n, text) \<Rightarrow>
    let depends = nd_id n \<in> fst s;
        s1 = (if depends then
                let s1 = fold (\<lambda>e. grow (ed_target e)) (nd_next n) s;
                    s2 = fold (\<lambda>e. grow (ed_target e)) (nd_error n) s1;
                    s3 = fold grow (nd_branches n) s2
                in if nd_join n \<noteq> [] then grow (nd_join n) s3 else s3
              else s)
    in if depends \<or> refers text (fst s1) then grow (nd_id n) s1 else s1)"

definition node_targets :: "NodeIR \<Rightarrow> string set" where
  "node_targets n = ed_target ` set (nd_next n) \<union> ed_target ` set (nd_error n) \<union> set (nd_branches n) \<union>
     (if nd_join n = [] then {} else {nd_join n})"

definition node_universe :: "(NodeIR \<times> string) list \<Rightarrow> string set" where
  "node_universe nts = (\<Union>(n, t) \<in> set nts. insert (nd_id n) (node_targets n))"

text \<open>Every step of the two loops adds a set of names at once.\<close>

definition grow_all :: "string set \<Rightarrow> string set \<times> bool \<Rightarrow> string set \<times> bool" where
  "grow_all X s = (fst s \<union> X, snd s \<or> \<not> X \<subseteq> fst s)"

lemma grow_all_simps [simp]:
  "fst (grow_all X s) = fst s \<union> X"
  "snd (grow_all X s) = (snd s \<or> \<not> X \<subseteq> fst s)"
  "grow_all Y (grow_all X s) = grow_all (X \<union> Y) s"
  "grow_all {} s = s"
  by (auto simp: grow_all_def)

lemma grow_is_all: "grow t = grow_all {t}"
  by (auto simp: grow_def grow_all_def fun_eq_iff)

lemma fold_grow: "fold (\<lambda>x. grow_all {f x}) xs s = grow_all (f ` set xs) s"
  by (induction xs arbitrary: s) simp_all

lemma fold_grow_plain: "fold grow xs s = grow_all (set xs) s"
  by (induction xs arbitrary: s) (simp_all add: grow_is_all)

lemma fold_follow:
  "fold (\<lambda>e s. if k \<in> fst s then grow (f e) s else s) xs s = (if k \<in> fst s then grow_all (f ` set xs) s else s)"
  by (induction xs arbitrary: s) (simp_all add: grow_is_all)

lemmas grow_rules = fold_follow fold_grow fold_grow_plain grow_is_all

lemma affect_node_expand: "affect_node = expand_node"
proof (intro ext)
  show "affect_node nt s = expand_node nt s" for nt s
    by (cases nt) (simp add: affect_node_def expand_node_def grow_rules Let_def)
qed

definition impact :: "NodeIR \<Rightarrow> string \<Rightarrow> string set \<Rightarrow> string set" where
  "impact n text A = (let T = (if nd_id n \<in> A then node_targets n else {})
     in T \<union> (if refers text (A \<union> T) then {nd_id n} else {}))"

lemma expand_node_impact: "expand_node (n, text) s = grow_all (impact n text (fst s)) s"
proof (cases "nd_id n \<in> fst s")
  case True
  have *: "grow_all (insert (nd_id n) X) s = grow_all X s"
    "grow_all (insert a (insert (nd_id n) X)) s = grow_all (insert a X) s" for a X
    using True by (auto simp: grow_all_def)
  show ?thesis using True
    by (simp add: expand_node_def impact_def node_targets_def grow_rules Let_def * Un_assoc)
next
  case False
  then show ?thesis by (simp add: expand_node_def impact_def grow_rules Let_def)
qed

lemma impact_universe: "(n, text) \<in> set nts \<Longrightarrow> impact n text A \<subseteq> node_universe nts"
  by (auto simp: impact_def node_universe_def Let_def split: if_splits)

lemma pass_grows:
  assumes "set nts \<subseteq> set all"
  shows "\<exists>X \<subseteq> node_universe all. fold expand_node nts s = grow_all X s"
  using assms
proof (induction nts arbitrary: s)
  case Nil
  have "fold expand_node [] s = grow_all {} s" by simp
  then show ?case by blast
next
  case (Cons nt nts)
  obtain n t where nt: "nt = (n, t)" by fastforce
  have sub: "set nts \<subseteq> set all" using Cons.prems by simp
  obtain X where X: "X \<subseteq> node_universe all"
      "fold expand_node nts (grow_all (impact n t (fst s)) s) = grow_all X (grow_all (impact n t (fst s)) s)"
    using Cons.IH [OF sub] by blast
  have "impact n t (fst s) \<union> X \<subseteq> node_universe all" using X(1) Cons.prems impact_universe [of n t all] nt by auto
  moreover have "fold expand_node (nt # nts) s = grow_all (impact n t (fst s) \<union> X) s"
    using X(2) by (simp add: nt expand_node_impact)
  ultimately show ?case by blast
qed

lemma finite_universe: "finite (node_universe nts)"
  by (auto simp: node_universe_def node_targets_def)

lemma pass_progress:
  assumes "fold expand_node nts (A, False) = (B, True)"
  shows "card (node_universe nts - B) < card (node_universe nts - A)"
proof -
  obtain X where X: "X \<subseteq> node_universe nts" "fold expand_node nts (A, False) = grow_all X (A, False)"
    using pass_grows [of nts nts "(A, False)"] by blast
  then have "B = A \<union> X" "\<not> X \<subseteq> A" using assms by (auto simp: grow_all_def)
  then have "node_universe nts - B \<subset> node_universe nts - A" using X(1) by blast
  then show ?thesis by (rule psubset_card_mono [rotated]) (simp add: finite_universe)
qed

function expand_loop :: "(NodeIR \<times> string) list \<Rightarrow> string set \<Rightarrow> string set" where
  "expand_loop nts A = (case fold expand_node nts (A, False) of (B, changed) \<Rightarrow> if changed then expand_loop nts B else B)"
  by pat_completeness auto
termination by (relation "measure (\<lambda>(nts, A). card (node_universe nts - A))") (use pass_progress in auto)

function affect_loop :: "(NodeIR \<times> string) list \<Rightarrow> string set \<Rightarrow> string set" where
  "affect_loop nts A = (case fold affect_node nts (A, False) of (B, expanded) \<Rightarrow> if expanded then affect_loop nts B else B)"
  by pat_completeness auto
termination
  by (relation "measure (\<lambda>(nts, A). card (node_universe nts - A))")
    (use pass_progress in \<open>auto simp: affect_node_expand\<close>)

declare expand_loop.simps [simp del] affect_loop.simps [simp del]

lemma affect_loop_expand: "affect_loop nts A = expand_loop nts A"
  by (induction nts A rule: expand_loop.induct)
    (subst affect_loop.simps, subst expand_loop.simps, simp add: affect_node_expand split: prod.split)

text \<open>The dependency of nodes on each other: control flow, and references in the text of a node.\<close>

definition dependency :: "(NodeIR \<times> string) list \<Rightarrow> (string \<times> string) set" where
  "dependency nts = {(x, y). \<exists>(n, t) \<in> set nts. x = nd_id n \<and> y \<in> node_targets n \<or>
     y = nd_id n \<and> contains_str t (''${nodes.'' @ x @ ''.'')}"

lemma impact_closed: "(\<forall>(n, t) \<in> set nts. impact n t A \<subseteq> A) \<longleftrightarrow> dependency nts `` A \<subseteq> A"
proof -
  have one: "impact n t A \<subseteq> A \<longleftrightarrow> (nd_id n \<in> A \<longrightarrow> node_targets n \<subseteq> A) \<and>
      ((\<exists>x \<in> A. contains_str t (''${nodes.'' @ x @ ''.'')) \<longrightarrow> nd_id n \<in> A)" for n t
    by (auto simp: impact_def refers_def Let_def Un_absorb2)
  have "dependency nts `` A \<subseteq> A \<longleftrightarrow> (\<forall>(n, t) \<in> set nts. (nd_id n \<in> A \<longrightarrow> node_targets n \<subseteq> A) \<and>
      ((\<exists>x \<in> A. contains_str t (''${nodes.'' @ x @ ''.'')) \<longrightarrow> nd_id n \<in> A))"
    unfolding dependency_def by blast
  then show ?thesis unfolding one by simp
qed

lemma pass_still:
  assumes "fold expand_node nts (A, False) = (B, False)"
  shows "B = A \<and> (\<forall>(n, t) \<in> set nts. impact n t A \<subseteq> A)"
proof -
  have "snd (fold expand_node nts s) = False \<Longrightarrow>
      fold expand_node nts s = s \<and> (\<forall>(n, t) \<in> set nts. impact n t (fst s) \<subseteq> fst s)" for s
  proof (induction nts arbitrary: s)
    case (Cons nt nts)
    obtain n t where nt: "nt = (n, t)" by fastforce
    let ?s = "grow_all (impact n t (fst s)) s"
    have ih: "fold expand_node nts ?s = ?s" "\<forall>(n, t) \<in> set nts. impact n t (fst ?s) \<subseteq> fst ?s"
      using Cons.IH [of ?s] Cons.prems by (simp_all add: nt expand_node_impact)
    have "snd ?s = False" using Cons.prems ih(1) by (simp add: nt expand_node_impact)
    then have "impact n t (fst s) \<subseteq> fst s" "?s = s" by (auto simp: grow_all_def prod_eq_iff)
    then show ?case using ih by (simp add: nt expand_node_impact)
  qed simp
  from this [of "(A, False)"] show ?thesis using assms by simp
qed

lemma pass_minimal:
  assumes "fold expand_node nts (A, b) = (B, c)" and "A \<subseteq> C" and "dependency nts `` C \<subseteq> C"
  shows "A \<subseteq> B \<and> B \<subseteq> C"
proof -
  have closed: "\<forall>(n, t) \<in> set nts. impact n t C \<subseteq> C" using assms(3) by (simp add: impact_closed)
  have mono: "impact n t X \<subseteq> C" if "X \<subseteq> C" "impact n t C \<subseteq> C" for n t X
    using that by (auto simp: impact_def refers_def Let_def split: if_splits)
  have "set ys \<subseteq> set nts \<Longrightarrow> fst s \<subseteq> C \<Longrightarrow> fst s \<subseteq> fst (fold expand_node ys s) \<and> fst (fold expand_node ys s) \<subseteq> C" for ys s
  proof (induction ys arbitrary: s)
    case (Cons nt ys)
    obtain n t where nt: "nt = (n, t)" by fastforce
    have "impact n t C \<subseteq> C" using closed Cons.prems(1) nt by auto
    then have "impact n t (fst s) \<subseteq> C" by (rule mono [OF Cons.prems(2)])
    then show ?case using Cons.IH [of "grow_all (impact n t (fst s)) s"] Cons.prems by (auto simp: nt expand_node_impact)
  qed simp
  from this [of nts "(A, b)"] show ?thesis using assms(1,2) by simp
qed

lemma expand_loop_spec: "expand_loop nts A = (dependency nts)\<^sup>* `` A"
proof (induction nts A rule: expand_loop.induct)
  case (1 nts A)
  obtain B changed where B: "fold expand_node nts (A, False) = (B, changed)" by fastforce
  have least: "A \<subseteq> B \<and> B \<subseteq> (dependency nts)\<^sup>* `` A"
    by (rule pass_minimal [OF B]) (auto intro: rtrancl_into_rtrancl)
  show ?case
  proof (cases changed)
    case True
    have "(dependency nts)\<^sup>* `` B \<subseteq> (dependency nts)\<^sup>* `` A"
      using least by (metis Image_mono O_assoc relcomp_Image rtrancl_idemp_self_comp subset_refl)
    then have "(dependency nts)\<^sup>* `` B = (dependency nts)\<^sup>* `` A" using least by blast
    then show ?thesis using "1.IH" [OF B [symmetric]] True B by (subst expand_loop.simps) simp
  next
    case False
    then have still: "B = A" "dependency nts `` A \<subseteq> A" using pass_still [of nts A B] B by (simp_all add: impact_closed)
    have "y \<in> A" if "(x, y) \<in> (dependency nts)\<^sup>*" "x \<in> A" for x y
      using that by (induction rule: rtrancl_induct) (use still(2) in blast)+
    then show ?thesis using B False still(1) by (subst expand_loop.simps) auto
  qed
qed

end
