(* ===== verification/Patch_Analysis.thy ===== *)
theory Patch_Analysis
  imports Workflow_Patch
begin

text \<open>
  What a patch changes (\<open>dage.cpp\<close>, \<open>Engine::analyze_patch\<close> and \<open>Engine::diff_workflows\<close>): the nodes
  that differ, the nodes that depend on them, whether an effect policy changed, and the patch that
  undoes the edit. The lemmas relate the schema checks of the dry run to the changes, and a sample
  patch gives the properties a concrete input.
\<close>

section \<open>The nodes that differ\<close>

type_synonym nodes = "(string, json) smap"

definition nodes_of :: "json \<Rightarrow> nodes res" where
  "nodes_of r = bindR (j_at r ''nodes'') members"

definition string_set :: "string list \<Rightarrow> string list" where
  "string_set names = sort (remdups names)"

definition same_node :: "nodes \<Rightarrow> nodes \<Rightarrow> string \<Rightarrow> bool" where
  "same_node old new k = (sm_has old k \<and> sm_has new k \<and> sm_get old k = sm_get new k)"

definition changed_nodes :: "nodes \<Rightarrow> nodes \<Rightarrow> string list" where
  "changed_nodes old new = filter (\<lambda>k. \<not> same_node old new k) (string_set (sm_keys old @ sm_keys new))"

definition undo_change :: "nodes \<Rightarrow> string \<Rightarrow> bool \<Rightarrow> json" where
  "undo_change old k new_has = (case sm_get old k of
     None \<Rightarrow> JObj [(''action'', JStr ''remove_node''), (''node_id'', JStr k)]
   | Some n \<Rightarrow> JObj [(''action'', JStr (if new_has then ''replace_node'' else ''add_node'')), (''node'', n), (''node_id'', JStr k)])"

definition undo_entry :: "json \<Rightarrow> json \<Rightarrow> json list" where
  "undo_entry old_entry new_entry =
    (if old_entry \<noteq> new_entry then [JObj [(''action'', JStr ''set_entry''), (''value'', old_entry)]] else [])"

text \<open>Whether the effect policy of a changed node differs, as the analysis decides it.\<close>

definition policy_changed :: "nodes \<Rightarrow> nodes \<Rightarrow> string \<Rightarrow> bool res" where
  "policy_changed old new k = (case (sm_get old k, sm_get new k) of
     (Some a, Some b) \<Rightarrow> bindR (j_get a ''effects'' JNull) (\<lambda>x. bindR (j_get b ''effects'' JNull) (\<lambda>y. Inr (x \<noteq> y)))
   | (Some a, None) \<Rightarrow> is_member a ''effects''
   | (None, Some b) \<Rightarrow> is_member b ''effects''
   | (None, None) \<Rightarrow> Inr False)"

definition inverse_changes :: "json \<Rightarrow> json \<Rightarrow> nodes \<Rightarrow> nodes \<Rightarrow> json list" where
  "inverse_changes old_entry new_entry old new =
    undo_entry old_entry new_entry @ map (\<lambda>k. undo_change old k (sm_has new k)) (changed_nodes old new)"

definition inverse_patch :: "workflow \<Rightarrow> workflow \<Rightarrow> json res" where
  "inverse_patch wk candidate =
    bindR (revision (wk_root candidate)) (\<lambda>rev.
    bindR (j_at (wk_root wk) ''entry'') (\<lambda>old_entry.
    bindR (j_at (wk_root candidate) ''entry'') (\<lambda>new_entry.
    bindR (nodes_of (wk_root wk)) (\<lambda>old.
    bindR (nodes_of (wk_root candidate)) (\<lambda>new.
    Inr (JObj [(''base_digest'', JStr (wf_digest (wk_compiled candidate))), (''base_revision'', JUInt (uint rev)),
      (''changes'', JArr (inverse_changes old_entry new_entry old new))]))))))"

section \<open>The analysis\<close>

record PatchAnalysis =
  pa_valid :: bool
  pa_base_digest :: string
  pa_candidate_digest :: string
  pa_directly_changed_nodes :: "string list"
  pa_affected_nodes :: "string list"
  pa_effect_policy_changed :: bool
  pa_checkpoint_resume_compatible :: bool
  pa_inverse_patch_json :: string
  pa_diagnostics :: "diagnostic list"

definition node_texts :: "jsonlib \<Rightarrow> json \<Rightarrow> WorkflowIR \<Rightarrow> (NodeIR \<times> string) list res" where
  "node_texts L r ir = bindR (j_at r ''nodes'') (\<lambda>nodes.
     mapR (\<lambda>n. bindR (j_at nodes (nd_id n)) (\<lambda>v. Inr (n, write_json L v False))) (wf_nodes ir))"

definition analyze_candidate :: "jsonlib \<Rightarrow> workflow \<Rightarrow> workflow \<Rightarrow> PatchAnalysis \<Rightarrow> PatchAnalysis res" where
  "analyze_candidate L wk candidate an =
    bindR (inverse_patch wk candidate) (\<lambda>inverse.
    bindR (nodes_of (wk_root wk)) (\<lambda>old.
    bindR (nodes_of (wk_root candidate)) (\<lambda>new. let direct = changed_nodes old new in
    bindR (mapR (policy_changed old new) direct) (\<lambda>policies.
    bindR (node_texts L (wk_root candidate) (wk_compiled candidate)) (\<lambda>nts.
    Inr (an\<lparr>pa_valid := True, pa_candidate_digest := wf_digest (wk_compiled candidate),
      pa_directly_changed_nodes := direct,
      pa_affected_nodes := sorted_list_of_set (affect_loop nts (set direct)),
      pa_effect_policy_changed := True \<in> set policies,
      pa_checkpoint_resume_compatible := (wf_digest (wk_compiled wk) = wf_digest (wk_compiled candidate)),
      pa_inverse_patch_json := write_json L inverse True\<rparr>))))))"

definition analyze_patch :: "jsonlib \<Rightarrow> limits \<Rightarrow> workflow \<Rightarrow> string \<Rightarrow> patch_fault + PatchAnalysis" where
  "analyze_patch L lm wk text =
    bindR (liftP (dry_run_patch L lm wk text)) (\<lambda>dry.
    let an = \<lparr>pa_valid = False, pa_base_digest = wf_digest (wk_compiled wk), pa_candidate_digest = [],
          pa_directly_changed_nodes = [], pa_affected_nodes = [], pa_effect_policy_changed = False,
          pa_checkpoint_resume_compatible = False, pa_inverse_patch_json = [], pa_diagnostics = []\<rparr>
    in if \<not> pd_valid dry then Inr (an\<lparr>pa_diagnostics := pd_diagnostics dry\<rparr>)
       else bindR (apply_patch L lm wk text) (\<lambda>candidate. liftP (analyze_candidate L wk candidate an)))"

section \<open>The difference of two workflows\<close>

datatype WorkflowNodeChangeKind = Added | Removed | Modified

record WorkflowNodeDiff =
  wn_node_id :: string
  wn_kind :: WorkflowNodeChangeKind
  wn_changed_fields :: "string list"
  wn_effect_policy_changed :: bool

record WorkflowDiff =
  wd_before_digest :: string
  wd_after_digest :: string
  wd_changed_workflow_fields :: "string list"
  wd_node_changes :: "WorkflowNodeDiff list"
  wd_affected_nodes :: "string list"
  wd_effect_policy_changed :: bool
  wd_checkpoint_resume_compatible :: bool

definition changed_members :: "string list \<Rightarrow> (string, json) smap \<Rightarrow> (string, json) smap \<Rightarrow> string list" where
  "changed_members hidden old new =
    filter (\<lambda>f. (case sm_get old f of None \<Rightarrow> JNull | Some v \<Rightarrow> v) \<noteq> (case sm_get new f of None \<Rightarrow> JNull | Some v \<Rightarrow> v))
      (string_set (filter (\<lambda>f. f \<notin> set hidden) (sm_keys old @ sm_keys new)))"

definition diff_node :: "nodes \<Rightarrow> nodes \<Rightarrow> string \<Rightarrow> WorkflowNodeDiff res" where
  "diff_node old new k =
    bindR (case sm_get old k of None \<Rightarrow> Inr [] | Some n \<Rightarrow> members n) (\<lambda>a.
    bindR (case sm_get new k of None \<Rightarrow> Inr [] | Some n \<Rightarrow> members n) (\<lambda>b.
    Inr \<lparr>wn_node_id = k,
      wn_kind = (if \<not> sm_has old k then Added else if \<not> sm_has new k then Removed else Modified),
      wn_changed_fields = (if sm_has old k \<and> sm_has new k then changed_members [] a b
         else string_set (sm_keys a @ sm_keys b)),
      wn_effect_policy_changed =
        ((case sm_get a ''effects'' of None \<Rightarrow> JNull | Some v \<Rightarrow> v) \<noteq> (case sm_get b ''effects'' of None \<Rightarrow> JNull | Some v \<Rightarrow> v))\<rparr>))"

definition diff_workflows :: "jsonlib \<Rightarrow> workflow \<Rightarrow> workflow \<Rightarrow> WorkflowDiff res" where
  "diff_workflows L before after =
    bindR (members (wk_root before)) (\<lambda>old_root.
    bindR (members (wk_root after)) (\<lambda>new_root.
    bindR (nodes_of (wk_root before)) (\<lambda>old.
    bindR (nodes_of (wk_root after)) (\<lambda>new. let ids = changed_nodes old new in
    bindR (mapR (diff_node old new) ids) (\<lambda>changes.
    bindR (node_texts L (wk_root before) (wk_compiled before)) (\<lambda>nts.
    bindR (node_texts L (wk_root after) (wk_compiled after)) (\<lambda>nts'.
    Inr \<lparr>wd_before_digest = wf_digest (wk_compiled before), wd_after_digest = wf_digest (wk_compiled after),
      wd_changed_workflow_fields = changed_members [''nodes'', ''x_revision''] old_root new_root,
      wd_node_changes = changes,
      wd_affected_nodes = sorted_list_of_set (expand_loop nts' (expand_loop nts (set ids))),
      wd_effect_policy_changed = list_ex wn_effect_policy_changed changes,
      wd_checkpoint_resume_compatible = (wf_digest (wk_compiled before) = wf_digest (wk_compiled after))\<rparr>)))))))"

section \<open>The nodes that differ\<close>

lemma set_string_set [simp]: "set (string_set xs) = set xs" "distinct (string_set xs)"
  by (simp_all add: string_set_def)

lemma set_changed_nodes: "set (changed_nodes old new) = {k. sm_get old k \<noteq> sm_get new k}"
proof (rule set_eqI)
  fix k
  show "k \<in> set (changed_nodes old new) \<longleftrightarrow> k \<in> {k. sm_get old k \<noteq> sm_get new k}"
    by (cases "sm_get old k"; cases "sm_get new k")
      (auto simp: changed_nodes_def same_node_def sm_has_keys [symmetric] simp del: set_map)
qed

lemma finite_affected: "finite A \<Longrightarrow> finite (expand_loop nts A)"
proof -
  assume A: "finite A"
  have "y \<in> A \<union> node_universe nts" if "(x, y) \<in> (dependency nts)\<^sup>*" "x \<in> A" for x y
    using that by (cases rule: rtranclE) (auto simp: dependency_def node_universe_def)
  then have "expand_loop nts A \<subseteq> A \<union> node_universe nts" unfolding expand_loop_spec by blast
  then show ?thesis by (rule finite_subset) (simp add: A finite_universe)
qed

section \<open>The dry run\<close>

lemma j_at_object: "is_object c \<Longrightarrow> j_at c k = Inr (member_of c k)"
  by (cases c) (simp_all add: j_at_def j_get_def member_of_def)

lemma foldR_all: "foldR f xs s = Inr s' \<Longrightarrow> x \<in> set xs \<Longrightarrow> \<exists>t t'. f x t = Inr t'"
  by (induction xs arbitrary: s) (auto simp: bindR_Inr)

lemma filled_iff: "filled j \<longleftrightarrow> (\<exists>s. j = JStr s \<and> s \<noteq> [])"
  by (cases j) auto

text \<open>
  Changes that name their action, and their node unless they set the entry, by strings. Applying a patch
  reads both with \<open>asString\<close>, which gives the text of a number or a boolean too; the dry run asks for
  strings.
\<close>

definition named_by_strings :: "json \<Rightarrow> bool" where
  "named_by_strings c \<longleftrightarrow> is_string (member_of c ''action'') \<and>
     (member_of c ''action'' = JStr ''set_entry'' \<or> is_string (member_of c ''node_id''))"

definition changes_of :: "json \<Rightarrow> json list" where
  "changes_of patch = (case j_at patch ''changes'' of Inr (JArr cs) \<Rightarrow> cs | _ \<Rightarrow> [])"

lemma failP_not_Inr [simp]: "failP i code sfx m \<noteq> Inr x"
  by (simp add: failP_def)

lemma perform_action: "perform L i action ident c r = Inr r' \<Longrightarrow> is_object c \<Longrightarrow> action \<in> set patch_actions"
  by (simp add: perform_def j_at_object patch_actions_def split: if_splits)

lemma perform_node:
  "perform L i action ident c r = Inr r' \<Longrightarrow> is_object c \<Longrightarrow> action \<in> {''add_node'', ''replace_node''} \<Longrightarrow>
    is_object (member_of c ''node'')"
  by (auto simp: perform_def j_at_object add_node_def replace_node_def split: if_splits)

lemma perform_field:
  "perform L i action ident c r = Inr r' \<Longrightarrow> is_object c \<Longrightarrow> action \<in> {''set_field'', ''remove_field''} \<Longrightarrow>
    filled (member_of c ''field'')"
  by (auto simp: perform_def j_at_object set_field_def remove_field_def split: if_splits json.splits)

lemma perform_index:
  "perform L i ''remove_next'' ident c r = Inr r' \<Longrightarrow> is_object c \<Longrightarrow> is_index (member_of c ''index'')"
  "perform L i ''insert_next'' ident c r = Inr r' \<Longrightarrow> is_object c \<Longrightarrow> is_member c ''index'' = Inr True \<Longrightarrow>
    is_index (member_of c ''index'')"
  by (auto simp: perform_def j_at_object remove_next_def insert_next_def bindR_Inr is_member_def j_get_def
      member_of_def j_at_def split: if_splits)

lemma perform_entry:
  "perform L i ''set_entry'' ident c r = Inr r' \<Longrightarrow> is_object c \<Longrightarrow> is_string (member_of c ''value'')"
  by (auto simp: perform_def j_at_object change_entry_def split: json.splits)

lemma applied_passes_check:
  assumes "patch_change L (i, c) r = Inr r'"
  shows "dry_check (i, c) = [] \<longleftrightarrow> named_by_strings c"
proof -
  have obj: "is_object c" using assms by (auto simp: patch_change_def bindR_Inr split: if_splits)
  obtain action ident where a: "as_string L (member_of c ''action'') = Inr action" "action \<noteq> []"
      "as_string L (member_of c ''node_id'') = Inr ident" "ident \<noteq> [] \<or> action = ''set_entry''"
      "perform L i action ident c r = Inr r'"
    using assms obj by (auto simp: patch_change_def j_at_object bindR_Inr split: if_splits)
  show ?thesis
  proof (cases "is_string (member_of c ''action'')")
    case False
    then show ?thesis using obj
      by (cases "member_of c ''action''") (simp_all add: dry_check_def named_by_strings_def Let_def)
  next
    case True
    then have act: "member_of c ''action'' = JStr action" using a(1) by (cases "member_of c ''action''") auto
    have named: "filled (member_of c ''node_id'') \<longleftrightarrow> is_string (member_of c ''node_id'')" if "action \<noteq> ''set_entry''"
      using a(3,4) that by (cases "member_of c ''node_id''") auto
    have known: "\<not> action \<notin> set patch_actions" using perform_action [OF a(5) obj] by blast
    have node: "\<not> (action \<in> {''add_node'', ''replace_node''} \<and> \<not> is_object (member_of c ''node''))"
      using perform_node [OF a(5) obj] by blast
    have field: "\<not> (action \<in> {''set_field'', ''remove_field''} \<and> \<not> filled (member_of c ''field''))"
      using perform_field [OF a(5) obj] by blast
    have index: "\<not> (action = ''remove_next'' \<and> \<not> is_index (member_of c ''index'') \<or>
        action = ''insert_next'' \<and> is_member c ''index'' = Inr True \<and> \<not> is_index (member_of c ''index''))"
      using perform_index a(5) obj by blast
    have entry: "\<not> (action = ''set_entry'' \<and> \<not> is_string (member_of c ''value''))"
      using perform_entry a(5) obj by blast
    have "dry_check (i, c) = [] \<longleftrightarrow> \<not> (action \<noteq> ''set_entry'' \<and> \<not> filled (member_of c ''node_id''))"
      unfolding dry_check_def prod.case Let_def act json.case if_not_P [OF known] if_not_P [OF node]
        if_not_P [OF field] if_not_P [OF index] if_not_P [OF entry] if_not_P [OF a(2)]
      using obj by simp
    then show ?thesis using act named by (auto simp: named_by_strings_def)
  qed
qed

text \<open>
  The two readings part on a node that is named by a number: applying the change does what it does with the
  text of the number, while the dry run reports that the name is missing.
\<close>

lemma perform_ignores_name:
  "perform L i action ident (JObj (sm_put ''node_id'' v m)) r = perform L i action ident (JObj m) r"
  by (simp add: perform_def getters change_name_def insert_next_def)

lemma number_names_node:
  assumes "sm_get m ''action'' = Some (JStr action)" and "sm_get m ''node_id'' = Some (JInt n)"
    and "action \<in> set patch_actions" and "action \<noteq> ''set_entry''"
  shows "patch_change L (i, JObj m) r =
      patch_change L (i, JObj (sm_put ''node_id'' (JStr (jl_number_text L (JInt n))) m)) r"
    and "\<exists>d \<in> set (dry_check (i, JObj m)). dg_code d = ''PATCH_NODE_ID_REQUIRED''"
proof -
  show "patch_change L (i, JObj m) r =
      patch_change L (i, JObj (sm_put ''node_id'' (JStr (jl_number_text L (JInt n))) m)) r"
    using assms(1,2) by (simp add: patch_change_def getters perform_ignores_name)
  have act: "member_of (JObj m) ''action'' = JStr action" and id: "member_of (JObj m) ''node_id'' = JInt n"
    using assms(1,2) by (simp_all add: member_of_def getters)
  have "action \<noteq> []" using assms(3) by (auto simp: patch_actions_def)
  then show "\<exists>d \<in> set (dry_check (i, JObj m)). dg_code d = ''PATCH_NODE_ID_REQUIRED''"
    using assms(3,4) by (simp add: dry_check_def act id patch_diag_def Let_def)
qed

lemma patched_rootD:
  assumes "patched_root L wk patch = Inr r"
  shows "\<exists>c cs r0. check_base wk patch = Inr () \<and> j_at patch ''changes'' = Inr (JArr (c # cs)) \<and>
    apply_changes L (c # cs) (wk_root wk) = Inr r0 \<and> bump_revision r0 = Inr r"
proof -
  obtain changes where ch: "check_base wk patch = Inr ()" "j_at patch ''changes'' = Inr changes"
    and rest: "(case changes of
         JArr (c # cs) \<Rightarrow> bindR (apply_changes L (c # cs) (wk_root wk)) (\<lambda>r. liftP (bump_revision r))
       | _ \<Rightarrow> Inl (Patch_error ''PATCH_INVALID_CHANGES'' ''/changes'' ''changes must be a non-empty array.'')) = Inr r"
    using assms by (auto simp: patched_root_def bindR_Inr split: if_splits)
  show ?thesis
  proof (cases changes)
    case (JArr xs)
    then show ?thesis using rest ch by (cases xs) (auto simp: bindR_Inr)
  qed (use rest in simp_all)
qed

section \<open>Sample patch\<close>

text \<open>
  A workflow of two nodes and the patch that disables the second. The sample library reads the patch
  and the patched document under fixed names.
\<close>

definition step_nodes :: "bool \<Rightarrow> nodes" where
  "step_nodes b = [(''a'', JObj [(''effects'', effects_value ''pure''), (''enabled'', JBool True), (''name'', JStr ''a''),
       (''next'', JStr ''b''), (''type'', JStr ''noop'')]),
     (''b'', JObj [(''enabled'', JBool b), (''name'', JStr ''b''), (''type'', JStr ''end'')])]"

definition step_ir :: "bool \<Rightarrow> WorkflowIR" where
  "step_ir b = \<lparr>wf_id = [], wf_entry = ''a'', wf_digest = sha256_digest ''normalized'', wf_max_steps = 1000,
     wf_timeout_ms = 0, wf_max_parallel = 1,
     wf_nodes = [(sample_node ''a'')\<lparr>nd_type := Noop, nd_max_attempts := 1, nd_next := [\<lparr>ed_target = ''b'', ed_condition = [],
           ed_otherwise = False, ed_set = JObj [], ed_loop = JObj [], ed_max_hits = 0\<rparr>]\<rparr>,
       (sample_node ''b'')\<lparr>nd_max_attempts := 1, nd_enabled := b\<rparr>],
     wf_index = [(''a'', 0), (''b'', 1)]\<rparr>"

definition step_root :: json where
  "step_root = document (JObj []) (step_nodes True)"

definition stopped_root :: json where
  "stopped_root = JObj [(''defaults'', JObj []), (''entry'', JStr ''a''), (''format'', JStr ''dage-workflow''),
     (''format_version'', JStr ''0.2.0''), (''nodes'', JObj (step_nodes False)), (''x_revision'', JInt 1)]"

definition step_workflow :: workflow where
  "step_workflow = \<lparr>wk_root = step_root, wk_compiled = step_ir True, wk_bundle_digest = []\<rparr>"

definition stopped_workflow :: workflow where
  "stopped_workflow = \<lparr>wk_root = stopped_root, wk_compiled = step_ir False, wk_bundle_digest = []\<rparr>"

definition stop_patch :: json where
  "stop_patch = JObj [(''base_digest'', JStr (sha256_digest ''normalized'')),
     (''changes'', JArr [JObj [(''action'', JStr ''disable_node''), (''node_id'', JStr ''b'')]])]"

definition step_lib :: jsonlib where
  "step_lib = (table_lib stopped_root stopped_root)\<lparr>jl_parse := (\<lambda>_ t. if t = ''patch'' then Inr stop_patch
     else jl_parse (table_lib stopped_root stopped_root) None t)\<rparr>"

lemma digest_nonempty [simp]: "sha256_digest t \<noteq> []"
  using length_sha256_digest [of t] by force

lemma step_node_checks:
  "validate_node step_lib (JObj (step_nodes b)) ''a'' = ([], Inr (''a'', [''b''], 1))"
  "validate_node step_lib (JObj (step_nodes b)) ''b'' = ([], Inr (''b'', [], 0))"
  by (simp_all add: node_rules getters step_nodes_def effects_value_def)

lemma step_graph:
  "validate_graph step_lib default_limits (JObj (step_nodes b)) [''a'', ''b''] ''a'' = ([], Inr ())"
proof -
  have r: "reach_loop [(''a'', [''b'']), (''b'', [])] {} [''a''] = {''a'', ''b''}"
    by (simp add: reach_loop.simps succs_def insert_commute)
  have d: "dfs step_lib (JObj (step_nodes b)) {} ''a'' = ([], Inr ())"
    by (simp add: dfs.simps getters step_nodes_def node_edges_def cycle_fields_def edges_of_def edge_values_def
        edge_of_item_def undeclared_def)
  have m: "is_member (JObj (step_nodes b)) ''a'' = Inr True" by (simp add: is_member_def step_nodes_def)
  show ?thesis
    by (simp add: validate_graph_def step_node_checks d r m default_limits_def bindW_def thenW_def whenW_def retW_def liftW_def)
qed

lemma stopped_parse: "parse_workflow_json step_lib default_limits ''normalized'' = Inr stopped_root"
  by (simp add: parse_workflow_json_def default_limits_def json_nesting_depth_def depth_step_def step_lib_def table_lib_def)

lemma stopped_validate: "validate step_lib default_limits ''normalized'' = []"
proof -
  have m: "member_names (JObj (step_nodes False)) = Inr [''a'', ''b'']"
      "get_string step_lib stopped_root ''entry'' [] = Inr ''a''"
      "validate_entry (JObj (step_nodes False)) ''a'' = ([], Inr ())"
    by (simp_all add: validate_entry_def getters step_nodes_def stopped_root_def)
  have "fst (measure_workflow_strings stopped_root) \<le> lim_literal_bytes default_limits"
      "snd (measure_workflow_strings stopped_root) \<le> lim_expression_bytes default_limits"
      "2 \<le> lim_nodes default_limits"
    by (simp_all add: stopped_root_def step_nodes_def effects_value_def contains_str_def default_limits_def)
  then have n: "validate_nodes step_lib default_limits stopped_root (JObj (step_nodes False)) = ([], Inr ())"
    by (simp add: validate_nodes_def m step_graph str_at_def liftW_def retW_def bindW_def thenW_def whenW_def not_less)
  have "validate_root step_lib default_limits stopped_root = ([], Inr ())"
    using n by (simp add: validate_root_def getters stopped_root_def top_fields_def substr_def) (simp add: step_nodes_def)
  then show ?thesis by (simp add: validate_def stopped_parse)
qed

lemma stopped_normalize: "normalize_root step_lib stopped_root = Inr stopped_root"
  by (simp add: normalize_root_def getters stopped_root_def step_nodes_def normalize_node_def put_default_def
      inherit_default_def touch_defaults_def j_put_def effects_value_def)

lemma stopped_compile: "compile_root step_lib stopped_root (lim_ir_bytes default_limits) = Inr (step_ir False)"
  by (simp add: compile_root_def getters stopped_root_def step_nodes_def remove_member_def
      compile_step_def compile_node_def compile_head_def node_type_def node_type_table_def value_of_def
      parse_json_def step_lib_def table_lib_def account_def default_limits_def as_uint64_def as_uint_def
      in_range_def add_edges_def edge_values_def edge_of_item_def compile_edge_def compile_branches_def
      head_bytes_def tail_bytes_def edge_bytes_def json_bytes_def write_json_def effects_value_def
      effect_kind_def replay_policy_def step_ir_def sample_node_def Let_def)

lemma stopped_load: "load step_lib default_limits ''normalized'' = Inr stopped_workflow"
proof -
  have "compile_workflow_ir step_lib (write_json step_lib stopped_root False) (lim_ir_bytes default_limits) =
      compile_root step_lib stopped_root (lim_ir_bytes default_limits)"
    by (simp add: compile_workflow_ir_def ir_compile_def write_json_def step_lib_def table_lib_def default_limits_def
        stopped_root_def)
  then show ?thesis
    by (simp add: load_def stopped_validate stopped_parse stopped_normalize workflow_impl_def stopped_compile
        stopped_workflow_def)
qed

lemma stop_patched: "\<exists>r. patched_root step_lib step_workflow stop_patch = Inr r \<and> r \<noteq> JObj []"
  by (simp add: patched_root_def stop_patch_def step_workflow_def check_base_def getters step_ir_def revision_def
      as_uint64_def in_range_def apply_changes_def enumerate_simps patch_change_def perform_def edit_node_def
      require_node_def has_node_def in_node_def in_nodes_def step_root_def document_def step_nodes_def j_put_def
      bump_revision_def)

lemma stop_applied: "apply_patch step_lib default_limits step_workflow ''patch'' = Inr stopped_workflow"
proof -
  have "parse_json step_lib ''patch'' = Inr stop_patch" by (simp add: parse_json_def step_lib_def)
  moreover obtain r where "patched_root step_lib step_workflow stop_patch = Inr r" "r \<noteq> JObj []" using stop_patched by blast
  moreover from this have "write_json step_lib r False = ''normalized''" by (simp add: write_json_def step_lib_def table_lib_def)
  ultimately show ?thesis by (simp add: apply_patch_def stopped_load)
qed

end
