(* ===== verification/Patch_Laws.thy ===== *)
theory Patch_Laws
  imports Patch_Analysis
begin

text \<open>
  The laws of patching: every change keeps the document a well-formed tree with an object of objects
  under \<open>nodes\<close>, the dry run predicts the application, and the analysis finds exactly the nodes that
  changed and those that depend on them.
\<close>

section \<open>Well-formed documents\<close>

definition object_ok :: "json \<Rightarrow> bool" where
  "object_ok j = (json_ok j \<and> is_object j)"

definition nodes_ok :: "json \<Rightarrow> bool" where
  "nodes_ok j = (object_ok j \<and> (\<forall>kn \<in> set (case j of JObj m \<Rightarrow> m | _ \<Rightarrow> []). is_object (snd kn)))"

definition doc_ok :: "json \<Rightarrow> bool" where
  "doc_ok r = (object_ok r \<and> nodes_ok (member_of r ''nodes''))"

definition keeps :: "(json \<Rightarrow> bool) \<Rightarrow> (json \<Rightarrow> json res) \<Rightarrow> bool" where
  "keeps P f = (\<forall>n n'. P n \<longrightarrow> f n = Inr n' \<longrightarrow> P n')"

lemma keepsI: "(\<And>n n'. P n \<Longrightarrow> f n = Inr n' \<Longrightarrow> P n') \<Longrightarrow> keeps P f"
  by (simp add: keeps_def)

lemma keepsD: "keeps P f \<Longrightarrow> P n \<Longrightarrow> f n = Inr n' \<Longrightarrow> P n'"
  by (auto simp: keeps_def)

lemma object_put:
  assumes "object_ok n" and "json_ok v" and "j_put n k v = Inr n'"
  shows "object_ok n'"
  using assms json_ok_put [of n v k n'] by (auto simp: object_ok_def j_put_def bindR_Inr)

lemma object_at: "object_ok n \<Longrightarrow> j_at n k = Inr v \<Longrightarrow> json_ok v"
  by (auto simp: object_ok_def intro: json_ok_at)

lemma sm_del_set: "x \<in> set (sm_del k m) \<Longrightarrow> x \<in> set m"
  by (induction k m rule: sm_del.induct) (auto split: if_splits)

lemma object_remove: "object_ok n \<Longrightarrow> remove_member n k = Inr n' \<Longrightarrow> object_ok n'"
  by (cases n) (fastforce simp: object_ok_def remove_member_def dest: sm_del_set)+

lemma nodes_ok_put:
  assumes "nodes_ok n" and "object_ok v" and "j_put n k v = Inr n'"
  shows "nodes_ok n'"
proof -
  have "object_ok n'" by (rule object_put [OF _ _ assms(3)]) (use assms(1,2) in \<open>simp_all add: nodes_ok_def object_ok_def\<close>)
  moreover obtain m where "n = JObj m" "n' = JObj (sm_put k v m)"
    using assms by (cases n) (auto simp: nodes_ok_def object_ok_def j_put_def)
  ultimately show ?thesis using assms(1,2) by (auto simp: nodes_ok_def object_ok_def dest!: sm_put_set)
qed

lemma nodes_ok_remove: "nodes_ok n \<Longrightarrow> remove_member n k = Inr n' \<Longrightarrow> nodes_ok n'"
  using object_remove [of n k n'] by (cases n) (auto simp: nodes_ok_def remove_member_def dest!: sm_del_set)

lemma nodes_ok_at:
  assumes "nodes_ok nodes" and "is_member nodes k = Inr True" and "j_at nodes k = Inr n"
  shows "object_ok n"
proof -
  obtain m where m: "nodes = JObj m" using assms(1) by (cases nodes) (auto simp: nodes_ok_def object_ok_def)
  obtain v where "sm_get m k = Some v" using assms(2) m by (auto simp: is_member_def)
  then have "n = v" "(k, v) \<in> set m" using assms(3) m sm_get_in_set by (auto simp: j_at_def j_get_def)
  then show ?thesis using assms(1) m by (auto simp: nodes_ok_def object_ok_def)
qed

lemma doc_ok_at: "doc_ok r \<Longrightarrow> j_at r ''nodes'' = Inr nodes \<Longrightarrow> nodes_ok nodes"
  by (simp add: doc_ok_def member_of_def)

lemma doc_ok_put_nodes: "doc_ok r \<Longrightarrow> nodes_ok nodes \<Longrightarrow> j_put r ''nodes'' nodes = Inr r' \<Longrightarrow> doc_ok r'"
  using object_put [of r nodes "''nodes''" r'] j_get_put [of r "''nodes''" nodes r' "''nodes''" JNull]
  by (auto simp: doc_ok_def nodes_ok_def object_ok_def member_of_def j_at_def)

lemma doc_ok_put_other: "doc_ok r \<Longrightarrow> json_ok v \<Longrightarrow> k \<noteq> ''nodes'' \<Longrightarrow> j_put r k v = Inr r' \<Longrightarrow> doc_ok r'"
  using object_put [of r v k r'] j_get_put [of r k v r' "''nodes''" JNull]
  by (auto simp: doc_ok_def member_of_def j_at_def)

lemma doc_ok_in_nodes: "keeps nodes_ok f \<Longrightarrow> doc_ok r \<Longrightarrow> in_nodes f r = Inr r' \<Longrightarrow> doc_ok r'"
  by (auto simp: in_nodes_def bindR_Inr intro: doc_ok_put_nodes dest: doc_ok_at keepsD)

lemma doc_ok_in_node:
  assumes "keeps object_ok f" and "doc_ok r" and "has_node r k = Inr True" and "in_node k f r = Inr r'"
  shows "doc_ok r'"
proof -
  obtain nodes n n' nodes' where n: "j_at r ''nodes'' = Inr nodes" "j_at nodes k = Inr n" "f n = Inr n'"
      "j_put nodes k n' = Inr nodes'" "j_put r ''nodes'' nodes' = Inr r'"
    using assms(4) by (auto simp: in_node_def in_nodes_def bindR_Inr)
  have nodes: "nodes_ok nodes" by (rule doc_ok_at [OF assms(2) n(1)])
  have "object_ok n" using nodes_ok_at [OF nodes _ n(2)] assms(3) n(1) by (simp add: has_node_def)
  then have "object_ok n'" by (rule keepsD [OF assms(1) _ n(3)])
  then show ?thesis using nodes_ok_put [OF nodes _ n(4)] doc_ok_put_nodes [OF assms(2) _ n(5)] by blast
qed

lemma require_nodeD: "require_node i k r = Inr u \<Longrightarrow> has_node r k = Inr True"
  by (auto simp: require_node_def bindR_Inr split: if_splits)

lemma doc_ok_edit: "keeps object_ok f \<Longrightarrow> doc_ok r \<Longrightarrow> edit_node i k f r = Inr r' \<Longrightarrow> doc_ok r'"
  by (auto simp: edit_node_def bindR_Inr dest!: require_nodeD intro: doc_ok_in_node)

lemma keeps_put: "json_ok v \<Longrightarrow> keeps object_ok (\<lambda>n. j_put n k v)"
  by (auto intro: keepsI object_put)

section \<open>Renaming keeps documents well formed\<close>

lemma json_ok_array: "json_ok (JArr xs) \<longleftrightarrow> list_all json_ok xs"
  by (simp add: list_all_iff)

lemma mapR_ok:
  assumes "mapR f xs = Inr ys" and "list_all P xs" and "\<And>x y. P x \<Longrightarrow> f x = Inr y \<Longrightarrow> P y"
  shows "list_all P ys"
proof -
  have "list_all2 (\<lambda>x y. f x = Inr y) xs ys" using assms(1) by (simp add: mapR_Inr)
  then show ?thesis using assms(2,3) by (induction rule: list_all2_induct) auto
qed

lemma rename_item_ok: "json_ok v \<Longrightarrow> rename_item L from to v = Inr v' \<Longrightarrow> json_ok v'"
  by (auto simp: rename_item_def bindR_Inr split: json.splits if_splits dest: json_ok_put [rotated 2])

lemma rename_edge_targets_ok: "keeps object_ok (rename_edge_targets L f from to)"
proof (rule keepsI)
  fix n n' assume n: "object_ok n" and e: "rename_edge_targets L f from to n = Inr n'"
  show "object_ok n'"
  proof (cases "is_member n f = Inr True")
    case True
    then obtain v where v: "j_at n f = Inr v"
      and rest: "(case v of JArr xs \<Rightarrow> bindR (mapR (rename_item L from to) xs) (\<lambda>ys. j_put n f (JArr ys))
         | _ \<Rightarrow> bindR (rename_item L from to v) (j_put n f)) = Inr n'"
      using e by (auto simp: rename_edge_targets_def bindR_Inr)
    have ok: "json_ok v" by (rule object_at [OF n v])
    have "\<exists>w. json_ok w \<and> j_put n f w = Inr n'"
    proof (cases "is_array v")
      case True
      then obtain xs ys where "v = JArr xs" "mapR (rename_item L from to) xs = Inr ys" "j_put n f (JArr ys) = Inr n'"
        using rest by (cases v) (auto simp: bindR_Inr)
      then show ?thesis using mapR_ok [of "rename_item L from to" xs ys json_ok] ok rename_item_ok
        by (metis json_ok_array)
    next
      case False
      then have "bindR (rename_item L from to v) (j_put n f) = Inr n'" using rest by (cases v) simp_all
      then obtain w where "rename_item L from to v = Inr w" "j_put n f w = Inr n'" by (auto simp: bindR_Inr)
      then show ?thesis using rename_item_ok [OF ok] by blast
    qed
    then show ?thesis using object_put [OF n] by blast
  next
    case False
    then have "n' = n" using e by (auto simp: rename_edge_targets_def bindR_Inr)
    then show ?thesis using n by simp
  qed
qed

lemma put_default_ok: "json_ok v \<Longrightarrow> keeps object_ok (put_default k v)"
  by (auto simp: put_default_def bindR_Inr split: if_splits intro!: keepsI intro: object_put)

lemma rename_branches_ok: "keeps object_ok (rename_branches L from to)"
proof (rule keepsI)
  fix n n' assume n: "object_ok n" and e: "rename_branches L from to n = Inr n'"
  obtain n1 v where n1: "put_default ''branches'' JNull n = Inr n1" "j_at n1 ''branches'' = Inr v"
    and rest: "(case v of
        JArr xs \<Rightarrow> bindR (mapR (\<lambda>x. bindR (as_string L x) (\<lambda>s. Inr (if s = from then JStr to else x))) xs)
          (\<lambda>ys. j_put n1 ''branches'' (JArr ys))
      | _ \<Rightarrow> Inr n1) = Inr n'"
    using e by (auto simp: rename_branches_def bindR_Inr)
  have ok: "object_ok n1" using keepsD [OF put_default_ok n n1(1)] by simp
  show "object_ok n'"
  proof (cases "is_array v")
    case True
    then obtain xs ys where xs: "v = JArr xs"
        "mapR (\<lambda>x. bindR (as_string L x) (\<lambda>s. Inr (if s = from then JStr to else x))) xs = Inr ys"
        "j_put n1 ''branches'' (JArr ys) = Inr n'"
      using rest by (cases v) (auto simp: bindR_Inr)
    have "list_all json_ok ys"
      by (rule mapR_ok [OF xs(2)]) (use object_at [OF ok n1(2)] xs(1) in \<open>auto simp: bindR_Inr list_all_iff split: if_splits\<close>)
    then show ?thesis using object_put [OF ok _ xs(3)] json_ok_array by blast
  qed (use rest ok in \<open>cases v; simp\<close>)
qed

lemma rename_refs_ok: "keeps object_ok (rename_refs L from to)"
proof (rule keepsI)
  fix n n' assume n: "object_ok n" and e: "rename_refs L from to n = Inr n'"
  obtain n1 n2 join n3 where s: "rename_edge_targets L ''next'' from to n = Inr n1"
      "rename_edge_targets L ''on_error'' from to n1 = Inr n2"
      "(if join = from then j_put n2 ''join'' (JStr to) else Inr n2) = Inr n3" "rename_branches L from to n3 = Inr n'"
    using e by (auto simp: rename_refs_def bindR_Inr)
  have "object_ok n2" using keepsD [OF rename_edge_targets_ok] n s(1,2) by blast
  then have "object_ok n3" using s(3) object_put [of n2 "JStr to" "''join''" n3] by (auto split: if_splits)
  then show "object_ok n'" using keepsD [OF rename_branches_ok] s(4) by blast
qed

lemma rename_all_ok: "keeps nodes_ok (rename_all L from to)"
proof (rule keepsI)
  fix n n' assume n: "nodes_ok n" and e: "rename_all L from to n = Inr n'"
  obtain m m' where m: "n = JObj m" "n' = JObj m'"
      "mapR (\<lambda>(k, n). bindR (rename_refs L from to n) (\<lambda>n'. Inr (k, n'))) m = Inr m'"
    using e n by (cases n) (auto simp: rename_all_def bindR_Inr nodes_ok_def object_ok_def)
  have all: "list_all2 (\<lambda>kn kn'. fst kn' = fst kn \<and> (object_ok (snd kn) \<longrightarrow> object_ok (snd kn'))) m m'"
    using m(3) unfolding mapR_Inr
    by (rule list_all2_mono) (auto simp: bindR_Inr keepsD [OF rename_refs_ok])
  then have "sm_keys m' = sm_keys m" by (induction rule: list_all2_induct) simp_all
  moreover have "\<forall>kn \<in> set m. object_ok (snd kn)" using n m(1) by (auto simp: nodes_ok_def object_ok_def)
  with all have "\<forall>kn \<in> set m'. object_ok (snd kn)" by (induction rule: list_all2_induct) auto
  ultimately show "nodes_ok n'" using n m(1,2) by (auto simp: nodes_ok_def object_ok_def sm_ok_def)
qed

lemma doc_ok_rename:
  assumes "doc_ok r" and "has_node r from = Inr True" and "rename_node L from to r = Inr r'"
  shows "doc_ok r'"
proof -
  obtain r1 r2 entry r3 where s: "in_nodes (\<lambda>nodes. bindR (j_at nodes from) (\<lambda>n. bindR (j_put nodes to n) (\<lambda>nodes'.
        remove_member nodes' from))) r = Inr r1"
      "put_default ''entry'' JNull r1 = Inr r2"
      "(if entry = from then j_put r2 ''entry'' (JStr to) else Inr r2) = Inr r3"
      "in_nodes (rename_all L from to) r3 = Inr r'"
    using assms(3) by (auto simp: rename_node_def bindR_Inr)
  obtain nodes n nodes1 nodes2 where m: "j_at r ''nodes'' = Inr nodes" "j_at nodes from = Inr n"
      "j_put nodes to n = Inr nodes1" "remove_member nodes1 from = Inr nodes2" "j_put r ''nodes'' nodes2 = Inr r1"
    using s(1) by (auto simp: in_nodes_def bindR_Inr)
  have nodes: "nodes_ok nodes" by (rule doc_ok_at [OF assms(1) m(1)])
  have "object_ok n" using nodes_ok_at [OF nodes _ m(2)] assms(2) m(1) by (simp add: has_node_def)
  then have "doc_ok r1"
    using nodes_ok_put [OF nodes _ m(3)] nodes_ok_remove [OF _ m(4)] doc_ok_put_nodes [OF assms(1) _ m(5)] by blast
  then have "doc_ok r2" using s(2) doc_ok_put_other [of r1 JNull "''entry''" r2]
    by (auto simp: put_default_def bindR_Inr split: if_splits)
  then have "doc_ok r3" using s(3) doc_ok_put_other [of r2 "JStr to" "''entry''" r3] by (auto split: if_splits)
  then show ?thesis using doc_ok_in_nodes [OF rename_all_ok _ s(4)] by blast
qed

section \<open>Every change keeps documents well formed\<close>

lemma next_items_ok: "json_ok v \<Longrightarrow> x \<in> set (next_items v) \<Longrightarrow> json_ok x"
  by (cases v) auto

lemma change_entry_ok: "doc_ok r \<Longrightarrow> change_entry i v r = Inr r' \<Longrightarrow> doc_ok r'"
  by (cases v) (auto simp: change_entry_def bindR_Inr split: if_splits elim!: doc_ok_put_other [rotated 3])

lemma keeps_put_node: "object_ok n \<Longrightarrow> keeps nodes_ok (\<lambda>nodes. j_put nodes k n)"
  by (auto intro: keepsI nodes_ok_put)

lemma keeps_remove_node: "keeps nodes_ok (\<lambda>nodes. remove_member nodes k)"
  by (auto intro: keepsI nodes_ok_remove)

lemma add_node_ok: "doc_ok r \<Longrightarrow> json_ok n \<Longrightarrow> add_node i k n r = Inr r' \<Longrightarrow> doc_ok r'"
  using doc_ok_in_nodes [OF keeps_put_node]
  by (auto simp: add_node_def bindR_Inr object_ok_def split: if_splits)

lemma remove_node_ok: "doc_ok r \<Longrightarrow> remove_node i k r = Inr r' \<Longrightarrow> doc_ok r'"
  using doc_ok_in_nodes [OF keeps_remove_node] by (auto simp: remove_node_def bindR_Inr)

lemma replace_node_ok: "doc_ok r \<Longrightarrow> json_ok n \<Longrightarrow> replace_node i k n r = Inr r' \<Longrightarrow> doc_ok r'"
  using doc_ok_in_nodes [OF keeps_put_node]
  by (auto simp: replace_node_def bindR_Inr object_ok_def split: if_splits)

lemma change_name_ok: "doc_ok r \<Longrightarrow> change_name L i k c r = Inr r' \<Longrightarrow> doc_ok r'"
  by (auto simp: change_name_def bindR_Inr split: if_splits dest!: require_nodeD intro: doc_ok_rename)

lemma set_field_ok: "doc_ok r \<Longrightarrow> json_ok v \<Longrightarrow> set_field i k field v r = Inr r' \<Longrightarrow> doc_ok r'"
  by (auto simp: set_field_def split: json.splits if_splits intro: doc_ok_edit [OF keeps_put])

lemma remove_field_ok: "doc_ok r \<Longrightarrow> remove_field i k field r = Inr r' \<Longrightarrow> doc_ok r'"
proof -
  assume r: "doc_ok r" and e: "remove_field i k field r = Inr r'"
  obtain f where f: "field = JStr f" "f \<noteq> []"
    using e by (cases field) (auto simp: remove_field_def split: if_splits)
  then have "has_node r k = Inr True" "in_node k (\<lambda>n. remove_member n f) r = Inr r'"
    using e by (auto simp: remove_field_def bindR_Inr split: if_splits dest!: require_nodeD)
  moreover have "keeps object_ok (\<lambda>n. remove_member n f)" by (rule keepsI) (rule object_remove)
  ultimately show "doc_ok r'" using doc_ok_in_node [OF _ r] by blast
qed

lemma insert_next_ok: "doc_ok r \<Longrightarrow> json_ok c \<Longrightarrow> insert_next i k c r = Inr r' \<Longrightarrow> doc_ok r'"
proof -
  assume r: "doc_ok r" and c: "json_ok c" and e: "insert_next i k c r = Inr r'"
  obtain v where v: "has_node r k = Inr True" "j_at c ''value'' = Inr v"
    and step: "in_node k (\<lambda>n. bindR (j_at n ''next'') (\<lambda>next. let xs = next_items next in
      bindR (bindR (j_get c ''index'' (JUInt (int (length xs)))) as_uint) (\<lambda>p.
      let position = min (unat p) (length xs) in
      j_put n ''next'' (JArr (take position xs @ v # drop position xs))))) r = Inr r'"
    using e by (auto simp: insert_next_def bindR_Inr split: if_splits dest!: require_nodeD)
  show "doc_ok r'"
  proof (rule doc_ok_in_node [OF _ r v(1) step], rule keepsI)
    fix n n' assume n: "object_ok n" and "bindR (j_at n ''next'') (\<lambda>next. let xs = next_items next in
      bindR (bindR (j_get c ''index'' (JUInt (int (length xs)))) as_uint) (\<lambda>p.
      let position = min (unat p) (length xs) in
      j_put n ''next'' (JArr (take position xs @ v # drop position xs)))) = Inr n'"
    then obtain nx p where nx: "j_at n ''next'' = Inr nx"
      "j_put n ''next'' (JArr (take p (next_items nx) @ v # drop p (next_items nx))) = Inr n'"
      by (auto simp: bindR_Inr Let_def)
    have "json_ok nx" "json_ok v" using object_at [OF n nx(1)] json_ok_at [OF c v(2)] by simp_all
    then have "json_ok (JArr (take p (next_items nx) @ v # drop p (next_items nx)))"
      using next_items_ok [of nx] by (auto dest: in_set_takeD in_set_dropD)
    then show "object_ok n'" by (rule object_put [OF n _ nx(2)])
  qed
qed

lemma remove_next_ok: "doc_ok r \<Longrightarrow> remove_next i k index r = Inr r' \<Longrightarrow> doc_ok r'"
proof -
  assume r: "doc_ok r" and e: "remove_next i k index r = Inr r'"
  obtain nodes n nx p where n: "has_node r k = Inr True" "j_at r ''nodes'' = Inr nodes" "j_at nodes k = Inr n"
      "j_at n ''next'' = Inr nx" and rest: "(case nx of
        JArr xs \<Rightarrow> if length xs \<le> p
          then failP i ''PATCH_INDEX_OUT_OF_RANGE'' ''/index'' ''index is outside the next array.''
          else liftP (in_node k (\<lambda>n. j_put n ''next'' (JArr (take p xs @ drop (Suc p) xs))) r)
      | _ \<Rightarrow> failP i ''PATCH_INDEX_OUT_OF_RANGE'' ''/index'' ''index is outside the next array.'') = Inr r'"
    using e by (auto simp: remove_next_def bindR_Inr split: if_splits dest!: require_nodeD)
  obtain xs where xs: "nx = JArr xs" "in_node k (\<lambda>n. j_put n ''next'' (JArr (take p xs @ drop (Suc p) xs))) r = Inr r'"
    using rest by (cases nx) (auto split: if_splits)
  have "object_ok n" using nodes_ok_at [OF doc_ok_at [OF r n(2)] _ n(3)] n(1,2) by (simp add: has_node_def)
  then have "json_ok (JArr xs)" using object_at [OF _ n(4)] xs(1) by blast
  then have "json_ok (JArr (take p xs @ drop (Suc p) xs))"
    by (auto dest: in_set_takeD in_set_dropD)
  then show "doc_ok r'" using doc_ok_in_node [OF keeps_put r n(1) xs(2)] by blast
qed

lemma perform_ok:
  assumes "doc_ok r" and "object_ok c" and "perform L i action k c r = Inr r'"
  shows "doc_ok r'"
proof -
  have c: "json_ok c" "is_object c" using assms(2) by (simp_all add: object_ok_def)
  have m: "json_ok (member_of c f)" for f using json_ok_at [OF c(1) j_at_object [OF c(2)]] .
  note ok = change_entry_ok [OF assms(1)] add_node_ok [OF assms(1) m] remove_node_ok [OF assms(1)]
    replace_node_ok [OF assms(1) m] change_name_ok [OF assms(1)] set_field_ok [OF assms(1) m]
    remove_field_ok [OF assms(1)] insert_next_ok [OF assms(1) c(1)] remove_next_ok [OF assms(1)]
    doc_ok_edit [OF keeps_put [OF m] assms(1)] doc_ok_edit [OF keeps_put assms(1)]
  show ?thesis
    using assms(3) c(2) unfolding perform_def by (simp add: j_at_object split: if_splits) (erule ok | erule ok [rotated], simp)+
qed

lemma apply_changes_ok:
  assumes "apply_changes L cs r = Inr r'" and "\<forall>c \<in> set cs. json_ok c" and "doc_ok r"
  shows "doc_ok r'"
proof (rule foldR_invariant [OF assms(1) [unfolded apply_changes_def], of doc_ok])
  fix ic s s' assume ic: "ic \<in> set (enumerate 0 cs)" "doc_ok s" "patch_change L ic s = Inr s'"
  obtain i c where x: "ic = (i, c)" by fastforce
  then have "c \<in> set cs" using ic(1) by (auto simp: in_set_enumerate_eq)
  then have "object_ok c" "\<exists>action k. perform L i action k c s = Inr s'"
    using ic(3) x assms(2) by (auto simp: patch_change_def bindR_Inr object_ok_def split: if_splits)
  then show "doc_ok s'" using perform_ok [OF ic(2)] by blast
qed (rule assms(3))

text \<open>
  C25. Patching is type safe: whatever changes a patch makes, the document it produces is again an
  object with ordered members that holds an object of node objects under \<open>nodes\<close>.
\<close>

theorem patch_keeps_document_shape:
  assumes "patched_root L wk patch = Inr r" and "json_ok patch" and "doc_ok (wk_root wk)"
  shows "doc_ok r"
proof -
  obtain c cs r0 where s: "j_at patch ''changes'' = Inr (JArr (c # cs))"
      "apply_changes L (c # cs) (wk_root wk) = Inr r0" "bump_revision r0 = Inr r"
    using patched_rootD [OF assms(1)] by blast
  have "\<forall>c \<in> set (c # cs). json_ok c" using json_ok_at [OF assms(2) s(1)] by simp
  then have "doc_ok r0" by (rule apply_changes_ok [OF s(2) _ assms(3)])
  moreover obtain v :: u64 where "j_put r0 ''x_revision'' (JUInt (uint v)) = Inr r"
    using s(3) by (auto simp: bump_revision_def bindR_Inr)
  ultimately show ?thesis using doc_ok_put_other [of r0 "JUInt (uint v)" "''x_revision''" r] by simp
qed

theorem patch_keeps_document_shape_witness:
  "\<exists>r. patched_root step_lib step_workflow stop_patch = Inr r \<and> doc_ok r"
proof -
  obtain r where r: "patched_root step_lib step_workflow stop_patch = Inr r" using stop_patched by blast
  have "json_ok stop_patch" by (simp add: stop_patch_def sm_ok_Cons less_char_def)
  moreover have "doc_ok (wk_root step_workflow)"
    by (simp add: doc_ok_def nodes_ok_def object_ok_def member_of_def getters step_workflow_def step_root_def document_def
        step_nodes_def effects_value_def sm_ok_Cons less_char_def)
  ultimately show ?thesis using patch_keeps_document_shape [OF r] r by blast
qed

text \<open>
  C23. The dry run predicts the application of a patch that is a JSON document, to a workflow whose
  revision is a number: it reports the patch as valid exactly when applying it succeeds and every change
  names its action, and its node unless it sets the entry, by a string; and a valid report has the digest
  of the workflow that applying the patch gives. A change that names its node by a number is applied all
  the same and reported as invalid (\<open>number_names_node\<close>).
\<close>

theorem dry_run_predicts_apply:
  assumes "parse_json L text = Inr patch" and "revision (wk_root wk) = Inr v"
  shows "\<exists>d. dry_run_patch L lm wk text = Inr d \<and> pd_candidate_revision d = v + 1 \<and>
    (pd_valid d \<longleftrightarrow> (\<exists>w. apply_patch L lm wk text = Inr w) \<and> (\<forall>c \<in> set (changes_of patch). named_by_strings c)) \<and>
    (\<forall>w. pd_valid d \<and> apply_patch L lm wk text = Inr w \<longrightarrow> pd_candidate_digest d = wf_digest (wk_compiled w))"
proof -
  have "dry_checks L text = [] \<longleftrightarrow> (\<forall>c \<in> set (changes_of patch). named_by_strings c)"
    if w: "apply_patch L lm wk text = Inr w" for w
  proof -
    obtain cs r where cs: "j_at patch ''changes'' = Inr (JArr cs)" "apply_changes L cs (wk_root wk) = Inr r"
      using w assms(1) by (auto simp: apply_patch_def bindR_Inr dest!: patched_rootD)
    have "dry_check x = [] \<longleftrightarrow> named_by_strings (snd x)" if xs: "x \<in> set (enumerate 0 cs)" for x
    proof -
      obtain i c where x: "x = (i, c)" by fastforce
      obtain t t' where "patch_change L (i, c) t = Inr t'"
        using foldR_all [OF cs(2) [unfolded apply_changes_def] xs] x by blast
      then show ?thesis using applied_passes_check x by simp
    qed
    then have "dry_checks L text = [] \<longleftrightarrow> (\<forall>x \<in> set (enumerate 0 cs). named_by_strings (snd x))"
      using assms(1) cs(1) by (simp add: dry_checks_def)
    also have "\<dots> \<longleftrightarrow> (\<forall>c \<in> snd ` set (enumerate 0 cs). named_by_strings c)" by simp
    also have "snd ` set (enumerate 0 cs) = set cs" using map_snd_enumerate [of 0 cs] by (metis set_map)
    finally show ?thesis using cs(1) by (simp add: changes_of_def)
  qed
  then show ?thesis
    using assms(2) by (cases "apply_patch L lm wk text") (auto simp: dry_run_patch_def Let_def)
qed

theorem dry_run_predicts_apply_witness:
  "\<exists>d. dry_run_patch step_lib default_limits step_workflow ''patch'' = Inr d \<and> pd_valid d \<and> pd_candidate_revision d = 1 \<and>
    pd_candidate_digest d = wf_digest (step_ir False)"
proof -
  have p: "parse_json step_lib ''patch'' = Inr stop_patch" by (simp add: parse_json_def step_lib_def)
  have "\<forall>c \<in> set (changes_of stop_patch). named_by_strings c"
    by (simp add: changes_of_def stop_patch_def named_by_strings_def member_of_def getters)
  moreover have "revision (wk_root step_workflow) = Inr 0"
    by (simp add: revision_def getters step_workflow_def step_root_def document_def as_uint64_def in_range_def)
  ultimately show ?thesis
    using dry_run_predicts_apply [OF p, of step_workflow 0 default_limits] stop_applied by (auto simp: stopped_workflow_def)
qed

text \<open>
  C24. The analysis of a patch is exact: the directly changed nodes are those whose definition differs
  between the two documents, and the affected nodes are those that can be reached from them along the
  control flow, the parallel branches and joins and the \<open>${nodes...}\<close> references of the candidate.
\<close>

theorem patch_impact_exact:
  assumes "analyze_patch L lm wk text = Inr an" and "pa_valid an"
  shows "\<exists>candidate old new nts. apply_patch L lm wk text = Inr candidate \<and>
    nodes_of (wk_root wk) = Inr old \<and> nodes_of (wk_root candidate) = Inr new \<and>
    node_texts L (wk_root candidate) (wk_compiled candidate) = Inr nts \<and>
    set (pa_directly_changed_nodes an) = {k. sm_get old k \<noteq> sm_get new k} \<and>
    set (pa_affected_nodes an) = (dependency nts)\<^sup>* `` set (pa_directly_changed_nodes an)"
proof -
  obtain candidate an0 where c: "apply_patch L lm wk text = Inr candidate"
      "analyze_candidate L wk candidate an0 = Inr an"
    using assms by (auto simp: analyze_patch_def bindR_Inr Let_def split: if_splits)
  obtain old new nts where n: "nodes_of (wk_root wk) = Inr old" "nodes_of (wk_root candidate) = Inr new"
      "node_texts L (wk_root candidate) (wk_compiled candidate) = Inr nts"
    and an: "pa_directly_changed_nodes an = changed_nodes old new"
      "pa_affected_nodes an = sorted_list_of_set (affect_loop nts (set (changed_nodes old new)))"
    using c(2) by (auto simp: analyze_candidate_def bindR_Inr Let_def)
  have "finite (affect_loop nts (set (changed_nodes old new)))" by (simp add: affect_loop_expand finite_affected)
  then have "set (pa_affected_nodes an) = (dependency nts)\<^sup>* `` set (pa_directly_changed_nodes an)"
    unfolding an by (simp add: affect_loop_expand expand_loop_spec)
  then show ?thesis using c(1) n an(1) set_changed_nodes [of old new] by auto
qed

theorem patch_impact_exact_witness:
  "\<exists>an. analyze_patch step_lib default_limits step_workflow ''patch'' = Inr an \<and> set (pa_directly_changed_nodes an) = {''b''}"
proof -
  have c: "dry_checks step_lib ''patch'' = []"
    by (simp add: dry_checks_def parse_json_def step_lib_def stop_patch_def getters enumerate_simps dry_check_def
        member_of_def patch_actions_def)
  have rev: "revision (wk_root step_workflow) = Inr 0" "revision (wk_root stopped_workflow) = Inr 1"
    by (simp_all add: revision_def getters step_workflow_def step_root_def document_def as_uint64_def in_range_def
        stopped_workflow_def stopped_root_def)
  have nodes: "nodes_of (wk_root step_workflow) = Inr (step_nodes True)" "nodes_of (wk_root stopped_workflow) = Inr (step_nodes False)"
    by (simp_all add: nodes_of_def getters step_workflow_def step_root_def document_def stopped_workflow_def stopped_root_def)
  have ids: "changed_nodes (step_nodes True) (step_nodes False) = [''b'']"
    by (simp add: changed_nodes_def same_node_def step_nodes_def string_set_def less_char_def)
  have entry: "j_at (wk_root step_workflow) ''entry'' = Inr (JStr ''a'')" "j_at (wk_root stopped_workflow) ''entry'' = Inr (JStr ''a'')"
    by (simp_all add: getters step_workflow_def step_root_def document_def stopped_workflow_def stopped_root_def)
  have policy: "policy_changed (step_nodes True) (step_nodes False) ''b'' = Inr False"
    by (simp add: policy_changed_def step_nodes_def getters)
  obtain nts where "node_texts step_lib (wk_root stopped_workflow) (wk_compiled stopped_workflow) = Inr nts"
    by (simp add: node_texts_def getters stopped_workflow_def stopped_root_def step_ir_def)
  then obtain an where an: "analyze_patch step_lib default_limits step_workflow ''patch'' = Inr an" "pa_valid an"
    by (simp add: analyze_patch_def dry_run_patch_def c rev stop_applied analyze_candidate_def inverse_patch_def nodes ids
        entry policy)
  have "{k. sm_get (step_nodes True) k \<noteq> sm_get (step_nodes False) k} = {''b''}" by (auto simp: step_nodes_def)
  then show ?thesis using patch_impact_exact [OF an] stop_applied nodes an(1) by (auto simp: stopped_workflow_def)
qed

end
