(* ===== verification/Patch_Inverse.thy ===== *)
theory Patch_Inverse
  imports Patch_Laws
begin

text \<open>
  The inverse patch of an analysis: it restores the nodes and the entry of the document, unless the
  entry of the original is not a node of the candidate any more, in which case it is refused.
\<close>

section \<open>The inverse patch\<close>

definition undo_node :: "nodes \<Rightarrow> string \<Rightarrow> nodes \<Rightarrow> nodes" where
  "undo_node old k m = (case sm_get old k of None \<Rightarrow> sm_del k m | Some n \<Rightarrow> sm_put k n m)"

lemma sm_get_undo: "sm_ok m \<Longrightarrow> sm_get (undo_node old k m) k' = (if k' = k then sm_get old k else sm_get m k')"
  by (auto simp: undo_node_def sm_get_del split: option.split)

lemma sm_ok_undo: "sm_ok m \<Longrightarrow> sm_ok (undo_node old k m)"
  by (auto simp: undo_node_def split: option.split)

lemma sm_ok_fold_undo: "sm_ok m \<Longrightarrow> sm_ok (fold (undo_node old) ks m)"
  by (induction ks arbitrary: m) (auto simp: sm_ok_undo)

lemma sm_get_fold_undo:
  "sm_ok m \<Longrightarrow> sm_get (fold (undo_node old) ks m) k = (if k \<in> set ks then sm_get old k else sm_get m k)"
  by (induction ks arbitrary: m) (auto simp: sm_get_undo sm_ok_undo)

lemma undo_all_nodes:
  assumes "sm_ok old" and "sm_ok new"
  shows "fold (undo_node old) (changed_nodes old new) new = old"
  by (rule sm_ext [OF sm_ok_fold_undo [OF assms(2)] assms(1)])
    (simp add: sm_get_fold_undo [OF assms(2)] set_changed_nodes)

text \<open>Documents that agree outside some members.\<close>

definition holds_nodes :: "json \<Rightarrow> nodes \<Rightarrow> bool" where
  "holds_nodes r m = (is_object r \<and> j_at r ''nodes'' = Inr (JObj m))"

definition agree_outside :: "string set \<Rightarrow> json \<Rightarrow> json \<Rightarrow> bool" where
  "agree_outside ks r r' = (\<forall>f d. f \<notin> ks \<longrightarrow> j_get r' f d = j_get r f d)"

lemma agree_refl: "agree_outside ks r r"
  by (simp add: agree_outside_def)

lemma agree_trans: "agree_outside ks r s \<Longrightarrow> agree_outside ks s t \<Longrightarrow> agree_outside ks r t"
  by (simp add: agree_outside_def)

lemma agree_put: "k \<in> ks \<Longrightarrow> j_put r k v = Inr r' \<Longrightarrow> agree_outside ks r r'"
  using j_get_put by (auto simp: agree_outside_def)

lemma put_nodes:
  assumes "holds_nodes r m"
  shows "\<exists>r'. j_put r ''nodes'' (JObj m') = Inr r' \<and> holds_nodes r' m' \<and> agree_outside {''nodes''} r r'"
proof -
  obtain x where "r = JObj x" using assms by (cases r) (auto simp: holds_nodes_def)
  then have put: "j_put r ''nodes'' (JObj m') = Inr (JObj (sm_put ''nodes'' (JObj m') x))" by (simp add: j_put_def)
  then show ?thesis using agree_put [OF _ put] by (simp add: holds_nodes_def j_at_def j_get_def)
qed

lemma undo_change_step:
  assumes "holds_nodes r m" and "sm_get m k = sm_get new k" and "k \<noteq> []" and "sm_get old k \<noteq> sm_get new k"
    and "\<And>n. sm_get old k = Some n \<Longrightarrow> is_object n"
  shows "\<exists>r'. patch_change L (i, undo_change old k (sm_has new k)) r = Inr r' \<and> holds_nodes r' (undo_node old k m) \<and>
    agree_outside {''nodes''} r r'"
proof -
  have has: "has_node r k = Inr (sm_get new k \<noteq> None)"
    using assms(1,2) by (simp add: has_node_def holds_nodes_def is_member_def)
  have at: "j_at r ''nodes'' = Inr (JObj m)" using assms(1) by (simp add: holds_nodes_def)
  have run: "patch_change L (i, undo_change old k (sm_has new k)) r = liftP (j_put r ''nodes'' (JObj (undo_node old k m)))"
  proof (cases "sm_get old k")
    case None
    then have "has_node r k = Inr True" using has assms(4) by (cases "sm_get new k") auto
    then show ?thesis using None assms(3) at
      by (simp add: patch_change_def undo_change_def perform_def j_at_def j_get_def remove_node_def require_node_def
          in_nodes_def remove_member_def undo_node_def)
  next
    case (Some n)
    have obj: "is_object n" by (rule assms(5) [OF Some])
    show ?thesis using Some obj assms(3) at has
      by (cases "sm_get new k") (simp_all add: patch_change_def undo_change_def perform_def j_at_def j_get_def add_node_def
          replace_node_def require_node_def in_nodes_def j_put_def undo_node_def)
  qed
  show ?thesis using put_nodes [OF assms(1), of "undo_node old k m"] unfolding run by force
qed

lemma undo_run:
  assumes "distinct ks" and "holds_nodes r m" and "sm_ok m"
    and "\<forall>k \<in> set ks. k \<noteq> [] \<and> sm_get m k = sm_get new k \<and> sm_get old k \<noteq> sm_get new k"
    and "\<forall>k n. sm_get old k = Some n \<longrightarrow> is_object n"
  shows "\<exists>r'. foldR (patch_change L) (enumerate i (map (\<lambda>k. undo_change old k (sm_has new k)) ks)) r = Inr r' \<and>
    holds_nodes r' (fold (undo_node old) ks m) \<and> agree_outside {''nodes''} r r'"
  using assms
proof (induction ks arbitrary: i r m)
  case Nil
  then show ?case by (simp add: agree_refl)
next
  case (Cons k ks)
  obtain r1 where r1: "patch_change L (i, undo_change old k (sm_has new k)) r = Inr r1"
      "holds_nodes r1 (undo_node old k m)" "agree_outside {''nodes''} r r1"
    using undo_change_step [OF Cons.prems(2), of k new old L i] Cons.prems(4,5) by auto
  have rest: "\<forall>k' \<in> set ks. k' \<noteq> [] \<and> sm_get (undo_node old k m) k' = sm_get new k' \<and> sm_get old k' \<noteq> sm_get new k'"
    using Cons.prems(1,3,4) by (auto simp: sm_get_undo)
  have "distinct ks" using Cons.prems(1) by simp
  from Cons.IH [OF this r1(2) sm_ok_undo [OF Cons.prems(3)] rest Cons.prems(5)]
  obtain r' where "foldR (patch_change L) (enumerate (Suc i) (map (\<lambda>k. undo_change old k (sm_has new k)) ks)) r1 = Inr r'"
      "holds_nodes r' (fold (undo_node old) ks (undo_node old k m))" "agree_outside {''nodes''} r1 r'"
    by blast
  then show ?case using r1 agree_trans [OF r1(3)] by auto
qed

text \<open>
  A document as loading leaves it: a well-formed tree as the reader builds trees, with a named entry
  that is one of its nodes, whose names are not empty, and a digest.
\<close>

definition loaded_doc :: "workflow \<Rightarrow> bool" where
  "loaded_doc wk = (doc_ok (wk_root wk) \<and> canon (wk_root wk) = wk_root wk \<and> wf_digest (wk_compiled wk) \<noteq> [] \<and>
     is_string (member_of (wk_root wk) ''entry'') \<and>
     (case member_of (wk_root wk) ''entry'' of JStr e \<Rightarrow> has_node (wk_root wk) e = Inr True | _ \<Rightarrow> False) \<and>
     has_node (wk_root wk) [] = Inr False)"

lemma loaded_docD:
  assumes "loaded_doc wk"
  obtains m e where "holds_nodes (wk_root wk) m" "nodes_of (wk_root wk) = Inr m" "sm_ok m"
    "\<And>k n. sm_get m k = Some n \<Longrightarrow> is_object n \<and> canon n = n" "sm_get m [] = None"
    "j_at (wk_root wk) ''entry'' = Inr (JStr e)" "sm_get m e \<noteq> None"
proof -
  obtain x where x: "wk_root wk = JObj x" and okx: "object_ok (wk_root wk)"
    using assms by (cases "wk_root wk") (auto simp: loaded_doc_def doc_ok_def object_ok_def)
  have nodes: "nodes_ok (member_of (wk_root wk) ''nodes'')" using assms by (simp add: loaded_doc_def doc_ok_def)
  then obtain m where m: "member_of (wk_root wk) ''nodes'' = JObj m"
    by (cases "member_of (wk_root wk) ''nodes''") (auto simp: nodes_ok_def object_ok_def)
  have at: "j_at (wk_root wk) f = Inr (member_of (wk_root wk) f)" for f using x j_at_object by simp
  have canon: "map (\<lambda>(k, v). (k, canon v)) x = x" using assms x by (simp add: loaded_doc_def canon.simps)
  have fixed: "canon n = n" if "canon (JObj y) = JObj y" "sm_get y k = Some n" for y k n
  proof -
    have "map (\<lambda>(k, v). (k, canon v)) y = y" using that(1) by (simp add: canon.simps)
    then show ?thesis using that(2) sm_get_map [of canon y k] by simp
  qed
  have "sm_get x ''nodes'' = Some (JObj m)"
    using m x by (auto simp: member_of_def j_at_def j_get_def split: option.splits)
  then have cm: "canon (JObj m) = JObj m" using fixed [of x] assms x by (simp add: loaded_doc_def)
  have obj: "is_object n \<and> canon n = n" if "sm_get m k = Some n" for k n
    using that nodes m fixed [OF cm that] sm_get_in_set [OF that] by (force simp: nodes_ok_def)
  obtain e where e: "member_of (wk_root wk) ''entry'' = JStr e"
    using assms by (cases "member_of (wk_root wk) ''entry''") (auto simp: loaded_doc_def)
  show thesis
    by (rule that [of m e])
      (use x nodes m at [of "''nodes''"] at [of "''entry''"] obj e assms in
        \<open>auto simp: holds_nodes_def nodes_of_def nodes_ok_def object_ok_def loaded_doc_def has_node_def is_member_def\<close>)
qed

lemma read_revision: "as_uint64 (canon (JUInt (uint (w :: u64)))) = Inr w" "is_index (canon (JUInt (uint (w :: u64))))"
  using uint_lt2p [of w] by (auto simp: as_uint64_def in_range_def is_index_def)

lemma inverse_patch_read:
  assumes "inverse_patch wk cand = Inr undo" and "nodes_of (wk_root wk) = Inr old" and "nodes_of (wk_root cand) = Inr new"
    and "\<And>k n. sm_get old k = Some n \<Longrightarrow> canon n = n"
    and "j_at (wk_root wk) ''entry'' = Inr (JStr e)" and "j_at (wk_root cand) ''entry'' = Inr e'"
  shows "\<exists>v. revision (wk_root cand) = Inr v \<and>
    canon undo = JObj [(''base_digest'', JStr (wf_digest (wk_compiled cand))), (''base_revision'', canon (JUInt (uint v))),
      (''changes'', JArr (inverse_changes (JStr e) e' old new))]"
proof -
  have "canon (undo_change old k b) = undo_change old k b" for k b
    using assms(4) [of k] by (auto simp: undo_change_def canon.simps split: option.split)
  moreover have "map canon (undo_entry (JStr e) e') = undo_entry (JStr e) e'" by (simp add: undo_entry_def canon.simps)
  ultimately have "map canon (inverse_changes (JStr e) e' old new) = inverse_changes (JStr e) e' old new"
    by (simp add: inverse_changes_def)
  then show ?thesis using assms by (auto simp: inverse_patch_def bindR_Inr canon.simps)
qed

lemma undo_entry_run:
  assumes "holds_nodes r m" and "e' = JStr e \<or> sm_get m e \<noteq> None" and "j_at r ''entry'' = Inr e'"
  shows "\<exists>r'. foldR (patch_change L) (enumerate 0 (undo_entry (JStr e) e')) r = Inr r' \<and> holds_nodes r' m \<and>
    j_at r' ''entry'' = Inr (JStr e) \<and> agree_outside {''entry''} r r'"
proof (cases "e' = JStr e")
  case True
  then show ?thesis using assms by (simp add: undo_entry_def agree_refl)
next
  case False
  obtain x where x: "r = JObj x" using assms(1) by (cases r) (auto simp: holds_nodes_def)
  let ?r = "JObj (sm_put ''entry'' (JStr e) x)"
  have put: "j_put r ''entry'' (JStr e) = Inr ?r" by (simp add: x j_put_def)
  have "has_node r e = Inr True"
    using assms(1,2) False by (auto simp: has_node_def holds_nodes_def is_member_def)
  then have "foldR (patch_change L) (enumerate 0 (undo_entry (JStr e) e')) r = Inr ?r"
    using False put
    by (simp add: undo_entry_def patch_change_def perform_def change_entry_def j_at_def j_get_def enumerate_simps)
  moreover have "holds_nodes ?r m" "j_at ?r ''entry'' = Inr (JStr e)"
    using assms(1) x by (simp_all add: holds_nodes_def j_at_def j_get_def)
  ultimately show ?thesis using agree_put [OF _ put, of "{''entry''}"] by blast
qed

lemma bump_run:
  assumes "is_object r" and "revision r = Inr v"
  shows "\<exists>r'. bump_revision r = Inr r' \<and> revision r' = Inr (v + 1) \<and> agree_outside {''x_revision''} r r'"
proof -
  obtain x where x: "r = JObj x" using assms(1) by (cases r) auto
  let ?r = "JObj (sm_put ''x_revision'' (JUInt (uint (v + 1))) x)"
  have put: "j_put r ''x_revision'' (JUInt (uint (v + 1))) = Inr ?r" by (simp add: x j_put_def)
  have "revision ?r = Inr (v + 1)"
    using uint_lt2p [of "v + 1"] by (simp add: revision_def get_u64_def j_get_def as_uint64_def in_range_def)
  then show ?thesis using put agree_put [OF _ put, of "{''x_revision''}"] assms(2) by (auto simp: bump_revision_def)
qed

lemma agree_revision: "agree_outside ks r r' \<Longrightarrow> ''x_revision'' \<notin> ks \<Longrightarrow> revision r' = revision r"
  by (simp add: agree_outside_def revision_def get_u64_def)

lemma agree_at: "agree_outside ks r r' \<Longrightarrow> k \<notin> ks \<Longrightarrow> j_at r' k = j_at r k"
  by (simp add: agree_outside_def j_at_def)

lemma agree_weaken: "agree_outside ks r r' \<Longrightarrow> ks \<subseteq> ks' \<Longrightarrow> agree_outside ks' r r'"
  by (auto simp: agree_outside_def)

lemma enumerate_append: "enumerate n (xs @ ys) = enumerate n xs @ enumerate (n + length xs) ys"
  by (induction xs arbitrary: n) (simp_all add: enumerate_simps)

lemma undo_document:
  assumes "holds_nodes r new" and "j_at r ''entry'' = Inr e'" and "revision r = Inr v"
    and "e' = JStr e \<or> sm_get new e \<noteq> None"
    and "sm_ok old" and "sm_ok new" and "sm_get old [] = None" and "sm_get new [] = None"
    and "\<And>k n. sm_get old k = Some n \<Longrightarrow> is_object n"
  shows "\<exists>r1 doc. apply_changes L (inverse_changes (JStr e) e' old new) r = Inr r1 \<and> bump_revision r1 = Inr doc \<and>
    j_at doc ''nodes'' = Inr (JObj old) \<and> j_at doc ''entry'' = Inr (JStr e) \<and> revision doc = Inr (v + 1) \<and>
    agree_outside {''nodes'', ''entry'', ''x_revision''} r doc"
proof -
  obtain r0 where r0: "foldR (patch_change L) (enumerate 0 (undo_entry (JStr e) e')) r = Inr r0" "holds_nodes r0 new"
      "j_at r0 ''entry'' = Inr (JStr e)" "agree_outside {''entry''} r r0"
    using undo_entry_run [OF assms(1,4,2)] by blast
  have ks: "\<forall>k \<in> set (changed_nodes old new). k \<noteq> [] \<and> sm_get new k = sm_get new k \<and> sm_get old k \<noteq> sm_get new k"
    using assms(7,8) by (auto simp: set_changed_nodes)
  have "distinct (changed_nodes old new)" by (simp add: changed_nodes_def)
  from undo_run [OF this r0(2) assms(6) ks, of L] assms(9) obtain r1
    where r1: "foldR (patch_change L) (enumerate (length (undo_entry (JStr e) e'))
        (map (\<lambda>k. undo_change old k (sm_has new k)) (changed_nodes old new))) r0 = Inr r1"
      "holds_nodes r1 (fold (undo_node old) (changed_nodes old new) new)" "agree_outside {''nodes''} r0 r1"
    by blast
  have run: "apply_changes L (inverse_changes (JStr e) e' old new) r = Inr r1"
    using r0(1) r1(1) by (simp add: apply_changes_def inverse_changes_def enumerate_append foldR_append)
  have nodes: "holds_nodes r1 old" using r1(2) undo_all_nodes [OF assms(5,6)] by simp
  have "revision r1 = Inr v" using assms(3) agree_revision [OF r0(4)] agree_revision [OF r1(3)] by simp
  then obtain doc where doc: "bump_revision r1 = Inr doc" "revision doc = Inr (v + 1)" "agree_outside {''x_revision''} r1 doc"
    using bump_run nodes by (auto simp: holds_nodes_def)
  have "j_at doc ''nodes'' = Inr (JObj old)" "j_at doc ''entry'' = Inr (JStr e)"
    using nodes r0(3) agree_at [OF doc(3)] agree_at [OF r1(3)] by (simp_all add: holds_nodes_def)
  moreover have "agree_outside {''nodes'', ''entry'', ''x_revision''} r doc"
    using r0(4) r1(3) doc(3) by (meson agree_trans agree_weaken empty_subsetI insert_subset insertCI)
  ultimately show ?thesis using run doc(1,2) by blast
qed

section \<open>Loading gives such documents\<close>

definition read_object :: "json \<Rightarrow> bool" where
  "read_object j = (object_ok j \<and> canon j = j)"

lemma map_sm_put: "map (\<lambda>(k, v). (k, f v)) (sm_put k v m) = sm_put k (f v) (map (\<lambda>(k, v). (k, f v)) m)"
  by (induction k v m rule: sm_put.induct) auto

lemma read_object_put:
  assumes "read_object n" and "json_ok v" and "canon v = v" and "j_put n k v = Inr n'"
  shows "read_object n'"
proof -
  obtain m where m: "n = JObj m" using assms(1) by (cases n) (auto simp: read_object_def object_ok_def)
  then have "canon n' = n'" using assms(1,3,4) by (auto simp: j_put_def read_object_def canon.simps map_sm_put)
  then show ?thesis using assms object_put [of n v k n'] by (auto simp: read_object_def)
qed

lemma canon_at: "canon j = j \<Longrightarrow> j_at j k = Inr v \<Longrightarrow> canon v = v"
proof (cases j)
  case (JObj m)
  assume "canon j = j" "j_at j k = Inr v"
  then show ?thesis using JObj sm_get_map [of canon m k]
    by (auto simp: canon.simps j_at_def j_get_def split: option.splits)
qed (auto simp: j_at_def j_get_def split: if_splits)

lemma put_default_read: "json_ok v \<Longrightarrow> canon v = v \<Longrightarrow> keeps read_object (put_default k v)"
  by (auto simp: put_default_def bindR_Inr split: if_splits intro!: keepsI intro: read_object_put)

lemma inherit_default_read: "json_ok d \<Longrightarrow> canon d = d \<Longrightarrow> keeps read_object (inherit_default d k)"
  by (rule keepsI) (auto simp: inherit_default_def bindR_Inr split: if_splits intro: read_object_put json_ok_at canon_at)

lemma effects_value_read: "json_ok (effects_value kind)" "canon (effects_value kind) = effects_value kind"
  by (simp_all add: effects_value_def canon.simps sm_ok_Cons less_char_def)

lemma normalize_node_read:
  assumes "normalize_node L d (k, n) = Inr kn'" and "read_object n" and "json_ok d" and "canon d = d"
  shows "read_object (snd kn')"
proof -
  obtain n1 n2 type n3 n4 n5 n6 where s: "put_default ''name'' (JStr k) n = Inr n1"
      "put_default ''enabled'' (JBool True) n1 = Inr n2"
      "(if type = ''llm'' then put_default ''effects'' (effects_value ''external_read'') n2 else Inr n2) = Inr n3"
      "(if type \<in> {''transform'', ''condition'', ''noop''}
         then put_default ''effects'' (effects_value ''pure'') n3 else Inr n3) = Inr n4"
      "inherit_default d ''timeout_ms'' n4 = Inr n5" "inherit_default d ''retry'' n5 = Inr n6"
      "kn' = (k, n6)"
    using assms(1) unfolding normalize_node_def bindR_Inr prod.case by blast
  have 2: "read_object n2" using keepsD [OF put_default_read _ s(2)] keepsD [OF put_default_read assms(2) s(1)] by simp
  have step: "read_object m'" if "(if b then put_default ''effects'' (effects_value kind) m else Inr m) = Inr m'"
      "read_object m" for b kind m m'
    using that keepsD [OF put_default_read [OF effects_value_read]] by (cases b) auto
  have "read_object n4" using step [OF s(4)] step [OF s(3) 2] by blast
  then have "read_object n6" using keepsD [OF inherit_default_read [OF assms(3,4)]] s(5,6) by blast
  then show ?thesis using s(7) by simp
qed

lemma normalized_nodes_read:
  assumes "mapR (normalize_node L d) m = Inr m'" and "\<forall>kn \<in> set m. read_object (snd kn)" and "json_ok d" and "canon d = d"
    and "sm_ok m"
  shows "sm_keys m' = sm_keys m \<and> nodes_ok (JObj m') \<and> canon (JObj m') = JObj m'"
proof -
  have "list_all2 (\<lambda>kn kn'. normalize_node L d kn = Inr kn') m m'" using assms(1) by (simp add: mapR_Inr)
  then have all: "sm_keys m' = sm_keys m \<and> (\<forall>kn \<in> set m'. read_object (snd kn))" using assms(2)
  proof (induction rule: list_all2_induct)
    case (Cons kn m kn' m')
    obtain k n where kn: "kn = (k, n)" by fastforce
    have "read_object (snd kn')" using normalize_node_read [OF _ _ assms(3,4)] Cons kn by auto
    moreover have "fst kn' = k" using normalize_node_key [of L d k n kn'] Cons(1) kn by auto
    ultimately show ?case using Cons kn by simp
  qed simp
  moreover have "map (\<lambda>(k, v). (k, canon v)) m' = m'"
    by (rule map_idI) (use all in \<open>auto simp: read_object_def\<close>)
  ultimately show ?thesis using assms(5)
    by (auto simp: nodes_ok_def read_object_def object_ok_def canon.simps sm_ok_def)
qed

lemma touch_defaults_read:
  assumes "touch_defaults m r = Inr r1" and "read_object r"
  shows "read_object r1 \<and> member_of r1 ''entry'' = member_of r ''entry''"
proof (cases "r1 = r")
  case False
  then have put: "put_default ''defaults'' JNull r = Inr r1" using assms(1) by (auto simp: touch_defaults_def split: if_splits)
  have "same_at ''entry'' r r1"
    by (rule same_at_put_default [OF put]) (use assms(2) in \<open>simp_all add: read_object_def object_ok_def\<close>)
  then show ?thesis using keepsD [OF put_default_read _ put] assms(2) by (simp add: same_at_def member_of_def j_at_def)
qed (use assms in simp)

lemma compiled_digest:
  assumes "compile_workflow_ir L text limit = Inr w"
  shows "\<exists>t. wf_digest w = sha256_digest t"
  using assms by (auto simp: compile_workflow_ir_def ir_compile_def compile_root_def bindR_Inr split: if_splits sum.splits)

lemma load_loaded_doc:
  assumes "load L lm text = Inr wk" and "parse_workflow_json L lm text = Inr r" and "json_ok r" and "canon r = r"
    and "is_string (member_of r ''entry'')"
  shows "loaded_doc wk"
proof -
  obtain nodes entry where doc: "document_ok L r nodes entry" and norm: "normalize_root L r = Inr (wk_root wk)"
    and comp: "compile_workflow_ir L (write_json L (wk_root wk) False) (lim_ir_bytes lm) = Inr (wk_compiled wk)"
    using load_inversion [OF assms(1)] assms(2) by auto
  have at: "is_object r" "j_at r ''nodes'' = Inr nodes" "\<forall>k \<in> member_set nodes. node_ok L nodes k" "is_object nodes"
      "get_string L r ''entry'' [] = Inr entry" "entry \<in> member_set nodes"
    using doc by (simp_all add: document_ok_def)
  obtain m where m: "nodes = JObj m" using at(4) by (cases nodes) auto
  obtain d m' r1 where n: "j_at r ''defaults'' = Inr d" "mapR (normalize_node L d) m = Inr m'" "touch_defaults m r = Inr r1"
      "j_put r1 ''nodes'' (JObj m') = Inr (wk_root wk)"
    using norm at(2) m by (auto simp: normalize_root_def bindR_Inr)
  have mk: "sm_ok m" "\<forall>kn \<in> set m. json_ok (snd kn)" "canon (JObj m) = JObj m"
    using json_ok_at [OF assms(3) at(2)] canon_at [OF assms(4) at(2)] m by simp_all
  have "read_object (snd kn)" if kn: "kn \<in> set m" for kn
  proof -
    obtain k v where v: "kn = (k, v)" by fastforce
    then have "sm_get m k = Some v" using kn sm_get_mem [OF mk(1)] by simp
    then have jv: "j_at (JObj m) k = Inr v" "node_ok L nodes k" using at(3) m by (simp_all add: j_at_def j_get_def)
    then show ?thesis
      using canon_at [OF mk(3) jv(1)] mk(2) kn v m by (auto simp: read_object_def object_ok_def node_ok_def)
  qed
  then have nodes': "sm_keys m' = sm_keys m" "nodes_ok (JObj m')" "canon (JObj m') = JObj m'"
    using normalized_nodes_read [OF n(2)] json_ok_at [OF assms(3) n(1)] canon_at [OF assms(4) n(1)] mk(1) by blast+
  have r1: "read_object r1" "member_of r1 ''entry'' = member_of r ''entry''"
    using touch_defaults_read [OF n(3)] assms(3,4) at(1) by (simp_all add: read_object_def object_ok_def)
  have root: "read_object (wk_root wk)" "member_of (wk_root wk) ''nodes'' = JObj m'"
      "member_of (wk_root wk) ''entry'' = member_of r ''entry''"
    using read_object_put [OF r1(1) _ nodes'(3) n(4)] nodes'(2) j_get_put [OF n(4)] r1(2)
    by (auto simp: nodes_ok_def object_ok_def member_of_def j_at_def)
  have e: "member_of r ''entry'' = JStr entry"
    using assms(5) at(1,5) by (cases "member_of r ''entry''") (auto simp: get_string_at j_at_object)
  have has: "has_node (wk_root wk) k = Inr (k \<in> set (sm_keys m))" for k
    using root(1,2) nodes'(1) sm_has_keys [of m' k]
    by (simp add: has_node_def j_at_object is_member_def read_object_def object_ok_def del: set_map)
  have keys: "entry \<in> set (sm_keys m)" "[] \<notin> set (sm_keys m)"
    using at(3,6) m sm_has_keys [of m] by (auto simp: node_ok_def valid_id_def simp del: set_map)
  have "wf_digest (wk_compiled wk) \<noteq> []" using compiled_digest [OF comp] digest_nonempty by metis
  then show ?thesis using root e has keys nodes'(2) by (simp add: loaded_doc_def doc_ok_def read_object_def)
qed

text \<open>
  C26. The inverse patch of an analysis undoes the edit: if the patch changed something and the entry
  of the original is still a node of the candidate, then applying the inverse to the candidate loads a
  document with exactly the nodes and the entry of the original, the next revision, and otherwise the
  members of the candidate. The JSON library is assumed to read the inverse back as it was written, up
  to the tag of non-negative integers.
\<close>

theorem inverse_patch_restores:
  assumes "loaded_doc wk" and "loaded_doc cand" and "inverse_patch wk cand = Inr undo"
    and "parse_json L text = Inr (canon undo)"
    and "j_at (wk_root wk) ''entry'' = Inr (JStr e)" and "has_node (wk_root cand) e = Inr True"
    and "j_at (wk_root wk) ''nodes'' \<noteq> j_at (wk_root cand) ''nodes'' \<or>
      j_at (wk_root wk) ''entry'' \<noteq> j_at (wk_root cand) ''entry''"
  shows "\<exists>doc v. revision (wk_root cand) = Inr v \<and> revision doc = Inr (v + 1) \<and>
    apply_patch L lm cand text = liftP (load L lm (write_json L doc False)) \<and>
    j_at doc ''nodes'' = j_at (wk_root wk) ''nodes'' \<and> j_at doc ''entry'' = j_at (wk_root wk) ''entry'' \<and>
    agree_outside {''nodes'', ''entry'', ''x_revision''} (wk_root cand) doc"
proof -
  obtain old e0 where old: "holds_nodes (wk_root wk) old" "nodes_of (wk_root wk) = Inr old" "sm_ok old"
      "\<And>k n. sm_get old k = Some n \<Longrightarrow> is_object n \<and> canon n = n" "sm_get old [] = None"
    using loaded_docD [OF assms(1)] by metis
  obtain new e1 where new: "holds_nodes (wk_root cand) new" "nodes_of (wk_root cand) = Inr new" "sm_ok new"
      "sm_get new [] = None" "j_at (wk_root cand) ''entry'' = Inr (JStr e1)"
    using loaded_docD [OF assms(2)] by metis
  obtain v where v: "revision (wk_root cand) = Inr v"
    and patch: "canon undo = JObj [(''base_digest'', JStr (wf_digest (wk_compiled cand))),
      (''base_revision'', canon (JUInt (uint v))), (''changes'', JArr (inverse_changes (JStr e) (JStr e1) old new))]"
    using inverse_patch_read [OF assms(3) old(2) new(2) _ assms(5) new(5)] old(4) by blast
  have "sm_get new e \<noteq> None" using assms(6) new(1) by (auto simp: has_node_def holds_nodes_def is_member_def)
  then obtain r1 doc where doc: "apply_changes L (inverse_changes (JStr e) (JStr e1) old new) (wk_root cand) = Inr r1"
      "bump_revision r1 = Inr doc" "j_at doc ''nodes'' = Inr (JObj old)" "j_at doc ''entry'' = Inr (JStr e)"
      "revision doc = Inr (v + 1)" "agree_outside {''nodes'', ''entry'', ''x_revision''} (wk_root cand) doc"
    using undo_document [OF new(1,5) v _ old(3) new(3) old(5) new(4), of e L] old(4) by blast
  have "old \<noteq> new \<or> e \<noteq> e1" using assms(5,7) old(1) new(1,5) by (auto simp: holds_nodes_def)
  then have "inverse_changes (JStr e) (JStr e1) old new \<noteq> []"
    using sm_ext [OF old(3) new(3)] set_changed_nodes [of old new]
    by (auto simp: inverse_changes_def undo_entry_def set_empty [symmetric] simp del: set_empty)
  then obtain c cs where cs: "inverse_changes (JStr e) (JStr e1) old new = c # cs" by (cases "inverse_changes (JStr e) (JStr e1) old new") auto
  have "check_base cand (canon undo) = Inr ()"
    using assms(2) v read_revision [of v] unfolding patch
    by (simp add: check_base_def j_at_def j_get_def is_member_def loaded_doc_def)
  then have "patched_root L cand (canon undo) = Inr doc"
    using doc(1,2) unfolding patch cs by (simp add: patched_root_def j_at_def j_get_def)
  then have "apply_patch L lm cand text = liftP (load L lm (write_json L doc False))"
    using assms(4) by (simp add: apply_patch_def)
  then show ?thesis using v doc(3-6) assms(5) old(1) by (auto simp: holds_nodes_def)
qed

definition step_undo :: json where
  "step_undo = JObj [(''base_digest'', JStr (sha256_digest ''normalized'')), (''base_revision'', JUInt 1),
     (''changes'', JArr [JObj [(''action'', JStr ''replace_node''),
       (''node'', JObj [(''enabled'', JBool True), (''name'', JStr ''b''), (''type'', JStr ''end'')]), (''node_id'', JStr ''b'')]])]"

definition undo_lib :: jsonlib where
  "undo_lib = step_lib\<lparr>jl_parse := (\<lambda>_ _. Inr (canon step_undo))\<rparr>"

lemma step_loaded: "loaded_doc step_workflow" "loaded_doc stopped_workflow"
  by (simp_all add: loaded_doc_def doc_ok_def nodes_ok_def object_ok_def member_of_def getters step_workflow_def step_root_def
      document_def step_nodes_def effects_value_def sm_ok_Cons less_char_def canon.simps stopped_workflow_def
      stopped_root_def step_ir_def has_node_def)

lemma step_inverse: "inverse_patch step_workflow stopped_workflow = Inr step_undo"
proof -
  have "changed_nodes (step_nodes True) (step_nodes False) = [''b'']"
    by (simp add: changed_nodes_def same_node_def step_nodes_def string_set_def less_char_def)
  then have "inverse_changes (JStr ''a'') (JStr ''a'') (step_nodes True) (step_nodes False) =
      [undo_change (step_nodes True) ''b'' True]"
    by (simp add: inverse_changes_def undo_entry_def step_nodes_def)
  then show ?thesis
    by (simp add: inverse_patch_def revision_def getters nodes_of_def step_workflow_def stopped_workflow_def step_root_def
        stopped_root_def document_def as_uint64_def in_range_def step_ir_def step_undo_def undo_change_def)
      (simp add: step_nodes_def)
qed

theorem inverse_patch_restores_witness:
  "\<exists>doc. apply_patch undo_lib default_limits stopped_workflow ''undo'' =
      liftP (load undo_lib default_limits (write_json undo_lib doc False)) \<and>
    j_at doc ''nodes'' = Inr (JObj (step_nodes True)) \<and> revision doc = Inr 2"
proof -
  have at: "j_at (wk_root step_workflow) ''entry'' = Inr (JStr ''a'')" "has_node (wk_root stopped_workflow) ''a'' = Inr True"
      "j_at (wk_root step_workflow) ''nodes'' = Inr (JObj (step_nodes True))"
      "j_at (wk_root stopped_workflow) ''nodes'' = Inr (JObj (step_nodes False))"
      "revision (wk_root stopped_workflow) = Inr 1"
    by (simp_all add: getters step_workflow_def stopped_workflow_def step_root_def stopped_root_def document_def has_node_def
        revision_def as_uint64_def in_range_def) (simp add: step_nodes_def)
  have "parse_json undo_lib ''undo'' = Inr (canon step_undo)" by (simp add: parse_json_def undo_lib_def)
  moreover have "j_at (wk_root step_workflow) ''nodes'' \<noteq> j_at (wk_root stopped_workflow) ''nodes'' \<or>
      j_at (wk_root step_workflow) ''entry'' \<noteq> j_at (wk_root stopped_workflow) ''entry''"
    by (simp add: at) (simp add: step_nodes_def)
  ultimately show ?thesis
    using inverse_patch_restores [OF step_loaded step_inverse _ at(1,2), of undo_lib "''undo''" default_limits] at(3,5) by auto
qed

text \<open>
  The entry of the original is set first, so the inverse of a patch that removed or renamed the entry
  is refused.
\<close>

theorem inverse_patch_refused:
  assumes "loaded_doc wk" and "loaded_doc cand" and "inverse_patch wk cand = Inr undo"
    and "parse_json L text = Inr (canon undo)"
    and "j_at (wk_root wk) ''entry'' = Inr (JStr e)" and "has_node (wk_root cand) e = Inr False"
  shows "apply_patch L lm cand text =
    Inl (Patch_error ''PATCH_ENTRY_NOT_FOUND'' ''/changes/0/value'' ''set_entry requires an existing node.'')"
proof -
  obtain old e0 where old: "holds_nodes (wk_root wk) old" "nodes_of (wk_root wk) = Inr old"
      "\<And>k n. sm_get old k = Some n \<Longrightarrow> is_object n \<and> canon n = n"
    using loaded_docD [OF assms(1)] by metis
  obtain new e1 where new: "holds_nodes (wk_root cand) new" "nodes_of (wk_root cand) = Inr new"
      "j_at (wk_root cand) ''entry'' = Inr (JStr e1)" "sm_get new e1 \<noteq> None"
    using loaded_docD [OF assms(2)] by metis
  obtain v where v: "revision (wk_root cand) = Inr v"
    and patch: "canon undo = JObj [(''base_digest'', JStr (wf_digest (wk_compiled cand))),
      (''base_revision'', canon (JUInt (uint v))), (''changes'', JArr (inverse_changes (JStr e) (JStr e1) old new))]"
    using inverse_patch_read [OF assms(3) old(2) new(2) _ assms(5) new(3)] old(3) by blast
  have "sm_get new e = None" using assms(6) new(1) by (auto simp: has_node_def holds_nodes_def is_member_def)
  then have "e \<noteq> e1" using new(4) by auto
  then obtain cs where cs: "inverse_changes (JStr e) (JStr e1) old new =
      JObj [(''action'', JStr ''set_entry''), (''value'', JStr e)] # cs"
    by (simp add: inverse_changes_def undo_entry_def)
  have "check_base cand (canon undo) = Inr ()"
    using assms(2) v read_revision [of v] unfolding patch
    by (simp add: check_base_def j_at_def j_get_def is_member_def loaded_doc_def)
  moreover have "to_string 0 = ''0''" by (simp add: to_string.simps digit_char_def) code_simp
  ultimately have "patched_root L cand (canon undo) =
      Inl (Patch_error ''PATCH_ENTRY_NOT_FOUND'' ''/changes/0/value'' ''set_entry requires an existing node.'')"
    using assms(6) unfolding patch cs
    by (simp add: patched_root_def j_at_def j_get_def apply_changes_def enumerate_simps patch_change_def perform_def
        change_entry_def failP_def change_path_def)
  then show ?thesis using assms(4) by (simp add: apply_patch_def)
qed

text \<open>
  Renaming a node looks at the \<open>branches\<close> of every node through a mutable reference, so every node
  without branches gets a null member and counts as changed.
\<close>

lemma rename_branches_member: "rename_branches L from to n = Inr n' \<Longrightarrow> is_member n' ''branches'' = Inr True"
proof -
  assume e: "rename_branches L from to n = Inr n'"
  obtain n1 v where n1: "put_default ''branches'' JNull n = Inr n1"
    and v: "(case v of
        JArr xs \<Rightarrow> bindR (mapR (\<lambda>x. bindR (as_string L x) (\<lambda>s. Inr (if s = from then JStr to else x))) xs)
          (\<lambda>ys. j_put n1 ''branches'' (JArr ys))
      | _ \<Rightarrow> Inr n1) = Inr n'"
    using e by (auto simp: rename_branches_def bindR_Inr)
  have rest: "n' = n1 \<or> (\<exists>ys. j_put n1 ''branches'' (JArr ys) = Inr n')" using v by (cases v) (auto simp: bindR_Inr)
  have "is_member n1 ''branches'' = Inr True"
    using n1 by (auto simp: put_default_def bindR_Inr is_member_def j_put_def split: if_splits)
  then show ?thesis using rest by (auto simp: is_member_def j_put_def bindR_Inr)
qed

lemma rename_all_member:
  assumes "rename_all L from to (JObj m) = Inr (JObj m')" and "sm_get m k = Some n"
  shows "\<exists>n'. sm_get m' k = Some n' \<and> is_member n' ''branches'' = Inr True"
proof -
  have "mapR (\<lambda>(k, n). bindR (rename_refs L from to n) (\<lambda>n'. Inr (k, n'))) m = Inr m'"
    using assms(1) by (auto simp: rename_all_def bindR_Inr)
  then have "list_all2 (\<lambda>(k, n) kn'. \<exists>n'. kn' = (k, n') \<and> is_member n' ''branches'' = Inr True) m m'"
    unfolding mapR_Inr
    by (rule list_all2_mono) (auto simp: bindR_Inr rename_refs_def split: if_splits dest: rename_branches_member)
  from list_all2_sm_get [OF this] assms(2) show ?thesis by blast
qed

theorem rename_touches_every_node:
  assumes "rename_node L from to r = Inr r'" and "doc_ok r" and "nodes_of r = Inr m" and "sm_get m k = Some n"
    and "k \<noteq> from" and "k \<noteq> to" and "is_member n ''branches'' = Inr False"
  shows "\<exists>m' n'. nodes_of r' = Inr m' \<and> sm_get m' k = Some n' \<and> is_member n' ''branches'' = Inr True \<and> n' \<noteq> n"
proof -
  obtain r1 r2 entry r3 where s: "in_nodes (\<lambda>nodes. bindR (j_at nodes from) (\<lambda>n. bindR (j_put nodes to n) (\<lambda>nodes'.
        remove_member nodes' from))) r = Inr r1"
      "put_default ''entry'' JNull r1 = Inr r2"
      "(if entry = from then j_put r2 ''entry'' (JStr to) else Inr r2) = Inr r3"
      "in_nodes (rename_all L from to) r3 = Inr r'"
    using assms(1) by (auto simp: rename_node_def bindR_Inr)
  have m: "j_at r ''nodes'' = Inr (JObj m)" "sm_ok m"
    using assms(2,3) by (auto simp: doc_ok_def nodes_ok_def object_ok_def nodes_of_def bindR_Inr member_of_def elim!: members.elims)
  obtain x where x: "j_put r ''nodes'' (JObj (sm_del from (sm_put to x m))) = Inr r1"
    using s(1) m by (auto simp: in_nodes_def bindR_Inr j_put_def remove_member_def)
  let ?m = "sm_del from (sm_put to x m)"
  have get: "sm_get ?m k = Some n" using assms(4-6) m(2) by (simp add: sm_get_del)
  have "j_at r1 ''nodes'' = Inr (JObj ?m)" using j_get_put [OF x] by (simp add: j_at_def)
  then have "j_at r2 ''nodes'' = Inr (JObj ?m)"
    using s(2) j_get_put [of r1 "''entry''" JNull r2] by (auto simp: put_default_def bindR_Inr j_at_def split: if_splits)
  then have "j_at r3 ''nodes'' = Inr (JObj ?m)"
    using s(3) j_get_put [of r2 "''entry''" "JStr to" r3] by (auto simp: j_at_def split: if_splits)
  then obtain m' where m': "rename_all L from to (JObj ?m) = Inr (JObj m')" "j_put r3 ''nodes'' (JObj m') = Inr r'"
    using s(4) by (auto simp: in_nodes_def rename_all_def bindR_Inr)
  then have "nodes_of r' = Inr m'" using j_get_put [OF m'(2)] by (simp add: nodes_of_def j_at_def)
  then show ?thesis using rename_all_member [OF m'(1) get] assms(7) by auto
qed

text \<open>
  A patch reloads the normalized document, in which inherited settings have become settings of the
  nodes. The sample workflow with a retry policy in its defaults loads, but no patch that leaves its
  payment node alone can be applied to it.
\<close>

theorem inherited_retry_blocks_patches:
  assumes "patched_root L sample_workflow patch = Inr r" and "j_at r ''nodes'' = Inr nodes"
    and "j_at nodes ''a'' = j_at (JObj sample_normalized) ''a''"
    and "parse_workflow_json L lm (write_json L r False) = Inr r"
  shows "\<exists>e. load L lm (write_json L r False) = Inl e"
proof (rule ccontr)
  assume "\<nexists>e. load L lm (write_json L r False) = Inl e"
  then obtain wk where "load L lm (write_json L r False) = Inr wk" by (cases "load L lm (write_json L r False)") auto
  then obtain entry where "document_ok L r nodes entry" using load_inversion assms(2,4) by (fastforce simp: document_ok_def)
  moreover obtain n where n: "j_at nodes ''a'' = Inr n" "n = snd (hd sample_normalized)"
    using assms(3) by (simp add: getters sample_normalized_def)
  moreover have "''a'' \<in> member_set nodes" using n calculation(1)
    by (cases nodes) (auto simp: document_ok_def j_at_def j_get_def sample_normalized_def split: option.splits)
  ultimately have "effects_ok L n" by (auto simp: document_ok_def node_ok_def sample_normalized_def is_member_def)
  then show False
    unfolding n(2) by (simp add: effects_ok_def policy_ok_def getters sample_normalized_def effects_sample_def retry_value_def as_uint_def in_range_def)
qed

end
