(* ===== verification/Resource_Path.thy ===== *)
theory Resource_Path
  imports Json_Value
begin

text \<open>
  Resource providers (\<open>resource_provider.cpp\<close>): the check of resource paths, the interface through
  which the loader sees the files of a bundle (\<open>ResourceProvider\<close>, a record of its two operations), and
  the provider that keeps the files in memory. The locale \<open>provider_contract\<close> is what every provider
  promises of its listing: the paths are normalized and distinct.
\<close>

section \<open>Paths\<close>

definition resource_error :: "string \<Rightarrow> string \<Rightarrow> err" where
  "resource_error code message =
    \<lparr>err_category = ''resource'', err_code = code, err_message = message, err_retryable = False\<rparr>"

definition bad_segment :: "string \<Rightarrow> bool" where
  "bad_segment s = (s \<in> {'''', ''.'', ''..''})"

function path_loop :: "string \<Rightarrow> string \<Rightarrow> string result" where
  "path_loop rest normalized =
    (let segment = takeWhile (\<lambda>c. c \<noteq> CHR ''/'') rest in
     if bad_segment segment
     then Inl (resource_error ''INVALID_PATH_SEGMENT'' ''resource path contains an empty, '.' or '..' segment'')
     else let normalized' = (if normalized \<noteq> [] then normalized @ ''/'' else normalized) @ segment in
       case dropWhile (\<lambda>c. c \<noteq> CHR ''/'') rest of
         [] \<Rightarrow> Inr normalized'
       | _ # behind \<Rightarrow> path_loop behind normalized')"
  by pat_completeness auto
termination
proof (relation "measure (\<lambda>(rest, _). length rest)")
  fix rest normalized segment normalized' x behind
  assume "dropWhile (\<lambda>c. c \<noteq> CHR ''/'') rest = x # behind"
  then have "length (x # behind) \<le> length rest" by (metis length_dropWhile_le)
  then show "((behind, normalized'), rest, normalized) \<in> measure (\<lambda>(rest, _). length rest)" by simp
qed simp

declare path_loop.simps [simp del]

definition normalize_resource_path :: "string \<Rightarrow> string result" where
  "normalize_resource_path path =
    (if path = [] then Inl (resource_error ''EMPTY_PATH'' ''resource path is empty'')
     else if hd path = CHR ''/'' \<or> hd path = CHR 0x5C
       then Inl (resource_error ''ABSOLUTE_PATH'' ''resource path must be relative'')
     else if CHR 0x5C \<in> set path
       then Inl (resource_error ''BACKSLASH_PATH'' ''resource path must use '/' separators'')
     else if CHR 0x00 \<in> set path then Inl (resource_error ''NUL_PATH'' ''resource path contains NUL'')
     else path_loop path [])"

section \<open>Providers\<close>

record provider =
  pv_list :: "string list result"
  pv_read :: "string \<Rightarrow> string result"

type_synonym memory_provider = "(string, string) smap"

definition mp_add :: "string \<Rightarrow> string \<Rightarrow> memory_provider \<Rightarrow> memory_provider res" where
  "mp_add path content m = (case normalize_resource_path path of
     Inl e \<Rightarrow> Inl (Invalid_arg (err_message e))
   | Inr normalized \<Rightarrow> Inr (sm_put normalized content m))"

definition memory_resources :: "(string, string) smap \<Rightarrow> memory_provider res" where
  "memory_resources resources = foldR (\<lambda>(path, content). mp_add path content) resources []"

definition mp_list :: "memory_provider \<Rightarrow> string list result" where
  "mp_list m = Inr (sm_keys m)"

definition mp_read :: "memory_provider \<Rightarrow> string \<Rightarrow> string result" where
  "mp_read m path = bindR (normalize_resource_path path) (\<lambda>normalized.
     case sm_get m normalized of
       None \<Rightarrow> Inl (resource_error ''RESOURCE_NOT_FOUND'' (''resource not found: '' @ normalized))
     | Some content \<Rightarrow> Inr content)"

definition as_provider :: "memory_provider \<Rightarrow> provider" where
  "as_provider m = \<lparr>pv_list = mp_list m, pv_read = mp_read m\<rparr>"

section \<open>What the path check accepts\<close>

text \<open>The segments of a path.\<close>

function segments :: "string \<Rightarrow> string list" where
  "segments p = takeWhile (\<lambda>c. c \<noteq> CHR ''/'') p #
     (case dropWhile (\<lambda>c. c \<noteq> CHR ''/'') p of [] \<Rightarrow> [] | _ # behind \<Rightarrow> segments behind)"
  by pat_completeness auto
termination
proof (relation "measure length")
  fix p :: string and x behind
  assume "dropWhile (\<lambda>c. c \<noteq> CHR ''/'') p = x # behind"
  then have "length (x # behind) \<le> length p" by (metis length_dropWhile_le)
  then show "(behind, p) \<in> measure length" by simp
qed simp

declare segments.simps [simp del]

definition safe_path :: "string \<Rightarrow> bool" where
  "safe_path p = (CHR 0x5C \<notin> set p \<and> CHR 0x00 \<notin> set p \<and> (\<forall>s \<in> set (segments p). \<not> bad_segment s))"

lemma path_loop_accepts:
  "path_loop rest n = (if \<forall>s \<in> set (segments rest). \<not> bad_segment s then Inr ((if n \<noteq> [] then n @ ''/'' else n) @ rest)
     else Inl (resource_error ''INVALID_PATH_SEGMENT'' ''resource path contains an empty, '.' or '..' segment''))"
proof (induction rest n rule: path_loop.induct)
  case (1 rest n)
  let ?s = "takeWhile (\<lambda>c. c \<noteq> CHR ''/'') rest" and ?d = "dropWhile (\<lambda>c. c \<noteq> CHR ''/'') rest"
  let ?n = "(if n \<noteq> [] then n @ ''/'' else n) @ ?s"
  have parts: "?s @ ?d = rest" by (rule takeWhile_dropWhile_id)
  have sg: "segments rest = ?s # (case ?d of [] \<Rightarrow> [] | _ # b \<Rightarrow> segments b)" by (rule segments.simps)
  show ?case
  proof (cases "bad_segment ?s")
    case True
    then show ?thesis unfolding sg by (subst path_loop.simps) simp
  next
    case good: False
    then have nonempty: "?s \<noteq> []" by (auto simp: bad_segment_def)
    have lp: "path_loop rest n = (case ?d of [] \<Rightarrow> Inr ?n | _ # b \<Rightarrow> path_loop b ?n)"
      by (subst path_loop.simps) (simp add: good Let_def)
    show ?thesis
    proof (cases ?d)
      case Nil
      then have "?s = rest" using parts by simp
      then show ?thesis using good unfolding lp sg Nil by simp
    next
      case (Cons x b)
      then have x: "x = CHR ''/''" using hd_dropWhile [of "\<lambda>c. c \<noteq> CHR ''/''" rest] by simp
      have rest: "rest = ?s @ ''/'' @ b" using parts Cons x by simp
      have "?n \<noteq> []" using nonempty by simp
      then have "path_loop b ?n = (if \<forall>s \<in> set (segments b). \<not> bad_segment s then Inr (?n @ ''/'' @ b)
          else Inl (resource_error ''INVALID_PATH_SEGMENT'' ''resource path contains an empty, '.' or '..' segment''))"
        using 1 [OF refl good refl Cons] by simp
      then show ?thesis using good arg_cong [OF rest, of "\<lambda>t. (if n \<noteq> [] then n @ ''/'' else n) @ t"]
        unfolding lp sg Cons by simp
    qed
  qed
qed

lemma safe_path_relative: "safe_path p \<Longrightarrow> p \<noteq> [] \<and> hd p \<noteq> CHR ''/'' \<and> hd p \<noteq> CHR 0x5C"
  using segments.simps [of p] by (cases p) (auto simp: safe_path_def bad_segment_def)

lemma normalize_accepts: "normalize_resource_path p = Inr q \<longleftrightarrow> q = p \<and> safe_path p"
  using safe_path_relative [of p]
  by (auto simp: normalize_resource_path_def path_loop_accepts safe_path_def split: if_splits)

section \<open>The contract of providers\<close>

locale provider_contract =
  fixes inv :: "'s \<Rightarrow> bool" and provide :: "'s \<Rightarrow> provider"
  assumes listed_safe: "inv s \<Longrightarrow> pv_list (provide s) = Inr ps \<Longrightarrow> p \<in> set ps \<Longrightarrow> safe_path p"
    and listed_distinct: "inv s \<Longrightarrow> pv_list (provide s) = Inr ps \<Longrightarrow> distinct ps"

definition memory_ok :: "memory_provider \<Rightarrow> bool" where
  "memory_ok m = (sm_ok m \<and> (\<forall>p \<in> set (sm_keys m). safe_path p))"

interpretation memory: provider_contract memory_ok as_provider
  by unfold_locales (auto simp: as_provider_def mp_list_def memory_ok_def sm_ok_distinct)

lemma mp_add_ok: "memory_ok m \<Longrightarrow> mp_add p c m = Inr m' \<Longrightarrow> memory_ok m'"
  by (auto simp: mp_add_def memory_ok_def normalize_accepts simp del: set_map split: sum.splits)

lemma memory_resources_ok: "memory_resources rs = Inr m \<Longrightarrow> memory_ok m"
  unfolding memory_resources_def
  by (erule foldR_invariant [where P = memory_ok]) (auto simp: memory_ok_def [of "[]"] intro: mp_add_ok)

end
