(* ===== verification/Bundle_Load.thy ===== *)
theory Bundle_Load
  imports Resource_Path Workflow_Validate
begin

text \<open>
  Bundles (\<open>bundle.cpp\<close>): the canonical text of a JSON tree, the check and the deep merge of business
  configuration, and loading a bundle from a provider, which computes the payload that is signed and
  the digest. The reader of the JSON library and the text that \<open>std::to_chars\<close> gives a double are the
  fields of the record \<open>codec\<close>.
\<close>

section \<open>Canonical text\<close>

record codec =
  cd_lib :: jsonlib
  cd_double :: "rat \<Rightarrow> string"

definition int_text :: "int \<Rightarrow> string" where
  "int_text i = (if i < 0 then CHR ''-'' # to_string (nat (- i)) else to_string (nat i))"

definition hex_digit :: "nat \<Rightarrow> char" where
  "hex_digit d = ''0123456789abcdef'' ! d"

definition escape_char :: "char \<Rightarrow> string" where
  "escape_char c = (let n = of_char c :: nat in
     if c = CHR 0x22 then [CHR 0x5C, CHR 0x22]
     else if c = CHR 0x5C then [CHR 0x5C, CHR 0x5C]
     else if n = 8 then CHR 0x5C # ''b''
     else if n = 12 then CHR 0x5C # ''f''
     else if n = 10 then CHR 0x5C # ''n''
     else if n = 13 then CHR 0x5C # ''r''
     else if n = 9 then CHR 0x5C # ''t''
     else if n < 32 then CHR 0x5C # ''u00'' @ [hex_digit (n div 16), hex_digit (n mod 16)]
     else [c])"

definition append_string :: "string \<Rightarrow> string" where
  "append_string s = CHR 0x22 # concat (map escape_char s) @ [CHR 0x22]"

fun separated :: "string list \<Rightarrow> string" where
  "separated [] = []"
| "separated [x] = x"
| "separated (x # xs) = x @ '','' @ separated xs"

text \<open>
  The numbers of a \<open>json\<close> tree are finite, so the exception for a number that is not finite has no
  counterpart; the one for a failed conversion cannot occur, since the buffer of 64 characters holds the
  scientific notation of every double with 17 digits.
\<close>

fun canonical_json :: "codec \<Rightarrow> json \<Rightarrow> string" where
  "canonical_json C JNull = ''null''"
| "canonical_json C (JBool b) = (if b then ''true'' else ''false'')"
| "canonical_json C (JInt i) = int_text i"
| "canonical_json C (JUInt i) = int_text i"
| "canonical_json C (JReal r) =
    (if rat_of_int \<lfloor>r\<rfloor> = r \<and> - (2 ^ 63) \<le> r \<and> r < 2 ^ 64 then int_text \<lfloor>r\<rfloor> else cd_double C r)"
| "canonical_json C (JStr s) = append_string s"
| "canonical_json C (JArr xs) = ''['' @ separated (map (canonical_json C) xs) @ '']''"
| "canonical_json C (JObj m) =
    CHR 0x7B # separated (map (\<lambda>(k, v). append_string k @ '':'' @ canonical_json C v) m) @ [CHR 0x7D]"

section \<open>Business configuration\<close>

datatype ConfigArrayMerge = Replace | Append
datatype ConfigNullMerge = Delete | Preserve

record ConfigMergeOptions =
  mo_arrays :: ConfigArrayMerge
  mo_nulls :: ConfigNullMerge
  mo_max_depth :: nat
  mo_max_output_bytes :: nat

definition default_merge_options :: ConfigMergeOptions where
  "default_merge_options = \<lparr>mo_arrays = Replace, mo_nulls = Delete, mo_max_depth = 64,
     mo_max_output_bytes = 16 * 1024 * 1024\<rparr>"

definition config_name :: "jsonlib \<Rightarrow> json \<Rightarrow> unit res" where
  "config_name L j = bindR (get_string L j ''format'' []) (\<lambda>format.
     if format = ''dage-workflow'' then Inl (Thrown ''WORKFLOW_CONFIG_MERGE_FORBIDDEN'') else Inr ())"

fun validate_config_tree :: "jsonlib \<Rightarrow> nat \<Rightarrow> nat \<Rightarrow> json \<Rightarrow> unit res" where
  "validate_config_tree L max_depth depth (JObj m) =
    (if max_depth < depth then Inl (Thrown ''CONFIG_MAX_DEPTH'')
     else bindR (config_name L (JObj m)) (\<lambda>_.
       bindR (mapR (\<lambda>(k, v). validate_config_tree L max_depth (depth + 1) v) m) (\<lambda>_. Inr ())))"
| "validate_config_tree L max_depth depth (JArr xs) =
    (if max_depth < depth then Inl (Thrown ''CONFIG_MAX_DEPTH'')
     else bindR (mapR (validate_config_tree L max_depth (depth + 1)) xs) (\<lambda>_. Inr ()))"
| "validate_config_tree L max_depth depth _ =
    (if max_depth < depth then Inl (Thrown ''CONFIG_MAX_DEPTH'') else Inr ())"

lemma foldR_cong [fundef_cong]:
  "xs = ys \<Longrightarrow> s = t \<Longrightarrow> (\<And>x s. x \<in> set ys \<Longrightarrow> f x s = g x s) \<Longrightarrow> foldR f xs s = foldR g ys t"
proof -
  have "(\<And>x s. x \<in> set ys \<Longrightarrow> f x s = g x s) \<Longrightarrow> foldR f ys t = foldR g ys t"
  proof (induction ys arbitrary: t)
    case (Cons y ys)
    then show ?case by (cases "g y t") simp_all
  qed simp
  then show "xs = ys \<Longrightarrow> s = t \<Longrightarrow> (\<And>x s. x \<in> set ys \<Longrightarrow> f x s = g x s) \<Longrightarrow> foldR f xs s = foldR g ys t" by blast
qed

fun merge_config_json :: "ConfigMergeOptions \<Rightarrow> nat \<Rightarrow> json \<Rightarrow> json \<Rightarrow> json res" where
  "merge_config_json M depth base overlay =
    (if mo_max_depth M < depth then Inl (Thrown ''CONFIG_MAX_DEPTH'')
     else case overlay of
       JObj o_members \<Rightarrow> (case base of
         JObj b_members \<Rightarrow>
           bindR (foldR (\<lambda>(k, v) merged.
             if v = JNull \<and> mo_nulls M = Delete then Inr (sm_del k merged)
             else case sm_get merged k of
               None \<Rightarrow> Inr (sm_put k v merged)
             | Some old \<Rightarrow> bindR (merge_config_json M (depth + 1) old v) (\<lambda>x. Inr (sm_put k x merged)))
             o_members b_members) (\<lambda>merged. Inr (JObj merged))
       | _ \<Rightarrow> Inr overlay)
     | JArr ys \<Rightarrow> (case base of
         JArr xs \<Rightarrow> Inr (if mo_arrays M = Append then JArr (xs @ ys) else overlay)
       | _ \<Rightarrow> Inr overlay)
     | _ \<Rightarrow> Inr overlay)"

declare merge_config_json.simps [simp del]

definition read_json :: "jsonlib \<Rightarrow> string \<Rightarrow> json res" where
  "read_json L text = (case jl_parse L None text of Inl e \<Rightarrow> Inl (Thrown e) | Inr j \<Rightarrow> Inr j)"

definition bundle_error :: "string \<Rightarrow> string \<Rightarrow> err" where
  "bundle_error code message =
    \<lparr>err_category = ''bundle'', err_code = code, err_message = message, err_retryable = False\<rparr>"

definition merge_values :: "codec \<Rightarrow> ConfigMergeOptions \<Rightarrow> json \<Rightarrow> json \<Rightarrow> (err + json) res" where
  "merge_values C M base overlay = (let L = cd_lib C in
     bindR (read_json L (write_json L base False)) (\<lambda>left.
     bindR (read_json L (write_json L overlay False)) (\<lambda>right.
     if \<not> is_object left \<or> \<not> is_object right
     then Inr (Inl (bundle_error ''CONFIG_ROOT_NOT_OBJECT'' ''Business config roots must be objects.''))
     else bindR (validate_config_tree L (mo_max_depth M) 0 left) (\<lambda>_.
     bindR (validate_config_tree L (mo_max_depth M) 0 right) (\<lambda>_.
     bindR (merge_config_json M 0 left right) (\<lambda>merged. let encoded = canonical_json C merged in
     if mo_max_output_bytes M < length encoded
     then Inr (Inl (bundle_error ''CONFIG_MAX_OUTPUT_BYTES'' ''Merged config exceeds max_output_bytes.''))
     else bindR (parse_json L encoded) (\<lambda>v. Inr (Inr v))))))))"

definition deep_merge_config :: "codec \<Rightarrow> ConfigMergeOptions \<Rightarrow> json \<Rightarrow> json \<Rightarrow> json result" where
  "deep_merge_config C M base overlay =
    (if mo_max_depth M = 0 \<or> mo_max_output_bytes M = 0
     then Inl (bundle_error ''INVALID_CONFIG_MERGE_OPTIONS'' ''Merge limits must be positive.'')
     else case merge_values C M base overlay of
       Inl e \<Rightarrow> Inl (bundle_error (fault_what (cd_lib C) e) (fault_what (cd_lib C) e))
     | Inr r \<Rightarrow> r)"

section \<open>Loading a bundle\<close>

record BundleDependency =
  bd_id :: string
  bd_constraint :: string

record BundleSignature =
  bs_algorithm :: string
  bs_key_id :: string
  bs_signature_base64 :: string
  bs_signed_at :: string

record Bundle =
  bu_id :: string
  bu_version :: string
  bu_digest :: string
  bu_manifest :: string
  bu_unsigned_manifest :: string
  bu_signing_payload :: string
  bu_config :: json
  bu_workflows :: "(string, string) smap"
  bu_dependencies :: "BundleDependency list"
  bu_signatures :: "BundleSignature list"

definition thrown :: "'a result \<Rightarrow> 'a res" where
  "thrown r = (case r of Inl e \<Rightarrow> Inl (Thrown (err_code e @ '': '' @ err_message e)) | Inr x \<Rightarrow> Inr x)"

definition check_path :: "string \<Rightarrow> string set \<Rightarrow> string set res" where
  "check_path raw seen =
    bindR (thrown (normalize_resource_path raw)) (\<lambda>path.
    if path \<noteq> raw then Inl (Thrown (''NON_NORMALIZED_PATH: '' @ raw))
    else if raw \<in> seen then Inl (Thrown (''DUPLICATE_RESOURCE: '' @ raw))
    else Inr (insert raw seen))"

definition check_header :: "jsonlib \<Rightarrow> json \<Rightarrow> unit res" where
  "check_header L manifest =
    bindR (get_string L manifest ''format'' []) (\<lambda>format.
    if format \<noteq> ''dage-bundle'' then Inl (Thrown ''INVALID_BUNDLE_FORMAT'')
    else bindR (get_string L manifest ''format_version'' []) (\<lambda>version.
    if version \<noteq> ''0.2.0'' then Inl (Thrown ''UNSUPPORTED_BUNDLE_FORMAT'')
    else bindR (j_at manifest ''id'') (\<lambda>i. bindR (j_at manifest ''version'') (\<lambda>v. bindR (j_at manifest ''workflows'') (\<lambda>w.
    if \<not> is_string i \<or> \<not> is_string v \<or> \<not> is_object w then Inl (Thrown ''INVALID_BUNDLE_MANIFEST'') else Inr ())))))"

definition load_config :: "codec \<Rightarrow> json \<Rightarrow> json res" where
  "load_config C manifest = (let L = cd_lib C in
    bindR (j_get manifest ''config'' (JObj [])) (\<lambda>config.
    if \<not> is_object config then Inl (Thrown ''INVALID_BUNDLE_CONFIG'')
    else bindR (validate_config_tree L 64 0 config) (\<lambda>_.
    if 16 * 1024 * 1024 < length (canonical_json C config) then Inl (Thrown ''CONFIG_MAX_OUTPUT_BYTES'')
    else parse_json L (canonical_json C config))))"

definition load_dependencies :: "jsonlib \<Rightarrow> json \<Rightarrow> BundleDependency list res" where
  "load_dependencies L manifest =
    bindR (j_get manifest ''dependencies'' (JObj [])) (\<lambda>deps.
    if \<not> is_object deps then Inl (Thrown ''INVALID_DEPENDENCIES'')
    else bindR (members deps) (mapR (\<lambda>(k, v). bindR (as_string L v) (\<lambda>constraint.
      if constraint = [] then Inl (Thrown (''INVALID_DEPENDENCY_CONSTRAINT: '' @ k))
      else Inr \<lparr>bd_id = k, bd_constraint = constraint\<rparr>))))"

definition load_signature :: "jsonlib \<Rightarrow> json \<Rightarrow> BundleSignature res" where
  "load_signature L v =
    bindR (get_string L v ''algorithm'' []) (\<lambda>algorithm.
    bindR (get_string L v ''key_id'' []) (\<lambda>key_id.
    bindR (get_string L v ''signature'' []) (\<lambda>signature.
    bindR (get_string L v ''signed_at'' []) (\<lambda>signed_at.
    if algorithm = [] \<or> key_id = [] \<or> signature = [] then Inl (Thrown ''INVALID_SIGNATURE'')
    else Inr \<lparr>bs_algorithm = algorithm, bs_key_id = key_id, bs_signature_base64 = signature, bs_signed_at = signed_at\<rparr>))))"

definition load_signatures :: "jsonlib \<Rightarrow> json \<Rightarrow> BundleSignature list res" where
  "load_signatures L manifest =
    bindR (j_get manifest ''signatures'' (JArr [])) (\<lambda>signatures.
    if \<not> is_array signatures then Inl (Thrown ''INVALID_SIGNATURES'')
    else mapR (load_signature L) (j_items signatures))"

definition read_contents :: "provider \<Rightarrow> string list \<Rightarrow> (string \<times> string) list res" where
  "read_contents P paths = mapR (\<lambda>path. bindR (thrown (pv_read P path)) (\<lambda>content. Inr (path, content)))
     (filter (\<lambda>path. path \<noteq> ''manifest.json'') paths)"

definition payload_lines :: "string \<Rightarrow> (string \<times> string) list \<Rightarrow> string list" where
  "payload_lines bare contents = concat (map (\<lambda>(path, content). [path, sha256_digest content])
     ((''manifest.json'', bare) # contents))"

definition lines_text :: "string list \<Rightarrow> string" where
  "lines_text ls = concat (map (\<lambda>l. l @ [newline]) ls)"

definition signing_payload :: "string \<Rightarrow> (string \<times> string) list \<Rightarrow> string" where
  "signing_payload bare contents = lines_text (payload_lines bare contents)"

definition load_workflow_entry :: "jsonlib \<Rightarrow> (string, string) smap \<Rightarrow> string \<times> json \<Rightarrow> (string \<times> string) res" where
  "load_workflow_entry L contents kv = (case kv of (k, v) \<Rightarrow>
    bindR (as_string L v) (\<lambda>raw_path.
    case normalize_resource_path raw_path of
      Inl _ \<Rightarrow> Inl (Thrown (''INVALID_WORKFLOW_PATH: '' @ raw_path))
    | Inr path \<Rightarrow>
        if path \<noteq> raw_path then Inl (Thrown (''INVALID_WORKFLOW_PATH: '' @ raw_path))
        else case sm_get contents path of
          None \<Rightarrow> Inl (Thrown (''RESOURCE_NOT_FOUND: '' @ path))
        | Some content \<Rightarrow> Inr (k, content)))"

definition put_all :: "('k :: linorder \<times> 'v) list \<Rightarrow> ('k, 'v) smap" where
  "put_all kvs = fold (\<lambda>(k, v). sm_put k v) kvs []"

text \<open>
  The manifest without its signatures. The loop over the dependencies has looked them up in the mutable
  manifest before, which inserts a null member when there are none.
\<close>

definition unsigned_manifest :: "json \<Rightarrow> json res" where
  "unsigned_manifest manifest = bindR (put_default ''dependencies'' JNull manifest) (\<lambda>m. remove_member m ''signatures'')"

definition load_bundle_from_provider :: "codec \<Rightarrow> provider \<Rightarrow> Bundle res" where
  "load_bundle_from_provider C P = (let L = cd_lib C in
    bindR (thrown (pv_list P)) (\<lambda>listed. let paths = sort listed in
    bindR (foldR check_path paths {}) (\<lambda>_.
    bindR (thrown (pv_read P ''manifest.json'')) (\<lambda>manifest_bytes.
    bindR (read_json L manifest_bytes) (\<lambda>manifest.
    bindR (check_header L manifest) (\<lambda>_.
    bindR (bindR (j_at manifest ''id'') (as_string L)) (\<lambda>ident.
    bindR (bindR (j_at manifest ''version'') (as_string L)) (\<lambda>version.
    bindR (load_config C manifest) (\<lambda>config.
    bindR (load_dependencies L manifest) (\<lambda>dependencies.
    bindR (load_signatures L manifest) (\<lambda>signatures.
    bindR (unsigned_manifest manifest) (\<lambda>bare. let unsigned_text = canonical_json C bare in
    bindR (read_contents P paths) (\<lambda>contents.
    bindR (bindR (j_at manifest ''workflows'') members) (\<lambda>ws.
    bindR (mapR (load_workflow_entry L (put_all contents)) ws) (\<lambda>workflows.
    let payload = signing_payload unsigned_text contents in
    Inr \<lparr>bu_id = ident, bu_version = version, bu_digest = sha256_digest payload,
      bu_manifest = canonical_json C manifest, bu_unsigned_manifest = unsigned_text, bu_signing_payload = payload,
      bu_config = config, bu_workflows = put_all workflows, bu_dependencies = dependencies,
      bu_signatures = signatures\<rparr>)))))))))))))))"

definition bundle_workflow_json :: "Bundle \<Rightarrow> string \<Rightarrow> string result" where
  "bundle_workflow_json b workflow_id = (case sm_get (bu_workflows b) workflow_id of
     None \<Rightarrow> Inl (bundle_error ''WORKFLOW_NOT_FOUND'' (''bundle workflow not found: '' @ workflow_id))
   | Some text \<Rightarrow> Inr text)"

end
