(* ===== verification/Bundle_Resolver.thy ===== *)
theory Bundle_Resolver
  imports Bundle_Load
begin

text \<open>
  The bundle resolver (\<open>bundle_resolver.cpp\<close>): version texts and constraints, the keyring, signature
  policies, lockfiles, and the depth-first resolution of the dependencies of a bundle. The repository,
  the key provider and the trust policy are interfaces of the program and records or functions here; the
  signature primitive and the base64 block decoder of the cryptographic library are the fields of the
  record \<open>crypto\<close>. The recursion of the resolution follows bundles that the repository hands out, so it
  takes fuel; \<open>Resolver_Laws\<close> shows how much is enough.
\<close>

section \<open>Versions\<close>

definition skip_ws :: "string \<Rightarrow> string" where
  "skip_ws s = dropWhile is_space s"

definition read_int :: "string \<Rightarrow> (int \<times> string) option" where
  "read_int s = (let s1 = skip_ws s;
       s2 = (case s1 of c # r \<Rightarrow> if c = CHR ''-'' \<or> c = CHR ''+'' then r else s1 | [] \<Rightarrow> s1);
       digits = takeWhile is_digit s2;
       v = (if s1 \<noteq> [] \<and> hd s1 = CHR ''-'' then - int (digits_value digits) else int (digits_value digits))
     in if digits = [] \<or> v < - (2 ^ 31) \<or> 2 ^ 31 \<le> v then None else Some (v, dropWhile is_digit s2))"

definition read_char :: "string \<Rightarrow> (char \<times> string) option" where
  "read_char s = (case skip_ws s of [] \<Rightarrow> None | c # r \<Rightarrow> Some (c, r))"

record Version =
  ve_major :: int
  ve_minor :: int
  ve_patch :: int
  ve_text :: string

definition parse_version :: "string \<Rightarrow> Version option" where
  "parse_version text =
    (case read_int text of None \<Rightarrow> None | Some (major, r1) \<Rightarrow>
    (case read_char r1 of None \<Rightarrow> None | Some (a, r2) \<Rightarrow>
    (case read_int r2 of None \<Rightarrow> None | Some (minor, r3) \<Rightarrow>
    (case read_char r3 of None \<Rightarrow> None | Some (b, r4) \<Rightarrow>
    (case read_int r4 of None \<Rightarrow> None | Some (patch, r5) \<Rightarrow>
      if a \<noteq> CHR ''.'' \<or> b \<noteq> CHR ''.'' \<or> major < 0 \<or> minor < 0 \<or> patch < 0 \<or> skip_ws r5 \<noteq> [] then None
      else Some \<lparr>ve_major = major, ve_minor = minor, ve_patch = patch, ve_text = text\<rparr>)))))"

definition compare_versions :: "Version \<Rightarrow> Version \<Rightarrow> int" where
  "compare_versions a b =
    (if ve_major a \<noteq> ve_major b then if ve_major a < ve_major b then -1 else 1
     else if ve_minor a \<noteq> ve_minor b then if ve_minor a < ve_minor b then -1 else 1
     else if ve_patch a = ve_patch b then 0 else if ve_patch a < ve_patch b then -1 else 1)"

text \<open>The components are unbounded here. In the code they are of type \<open>int\<close>, and the increment of
  \<open>2 ^ 31 - 1\<close> is undefined behaviour.\<close>

definition caret_upper :: "Version \<Rightarrow> Version" where
  "caret_upper base =
    (if 0 < ve_major base then base\<lparr>ve_major := ve_major base + 1, ve_minor := 0, ve_patch := 0\<rparr>
     else if 0 < ve_minor base then base\<lparr>ve_minor := ve_minor base + 1, ve_patch := 0\<rparr>
     else base\<lparr>ve_patch := ve_patch base + 1\<rparr>)"

definition version_operators :: "string list" where
  "version_operators = [''>='', ''<='', ''>'', ''<'', ''='']"

definition holds_operator :: "string \<Rightarrow> int \<Rightarrow> bool" where
  "holds_operator op c =
    (if op = ''>='' then 0 \<le> c else if op = ''<='' then c \<le> 0 else if op = ''>'' then 0 < c
     else if op = ''<'' then c < 0 else c = 0)"

definition satisfies_atom :: "Version \<Rightarrow> string \<Rightarrow> bool" where
  "satisfies_atom version atom =
    (if atom = [] \<or> atom = ''*'' then True
     else if hd atom = CHR ''^'' then
       (case parse_version (tl atom) of None \<Rightarrow> False
        | Some base \<Rightarrow> 0 \<le> compare_versions version base \<and> compare_versions version (caret_upper base) < 0)
     else case find (\<lambda>op. prefix op atom) version_operators of
       Some op \<Rightarrow> (case parse_version (drop (length op) atom) of None \<Rightarrow> False
         | Some target \<Rightarrow> holds_operator op (compare_versions version target))
     | None \<Rightarrow> (case parse_version atom of None \<Rightarrow> False | Some exact \<Rightarrow> compare_versions version exact = 0))"

function words :: "string \<Rightarrow> string list" where
  "words s = (let r = skip_ws s in
     if r = [] then [] else takeWhile (\<lambda>c. \<not> is_space c) r # words (dropWhile (\<lambda>c. \<not> is_space c) r))"
  by pat_completeness auto
termination
proof (relation "measure length")
  fix s r :: string
  assume r: "r = skip_ws s" "r \<noteq> []"
  then have "\<not> is_space (hd r)" unfolding skip_ws_def by (metis hd_dropWhile)
  then have "length (dropWhile (\<lambda>c. \<not> is_space c) r) < length r"
    using r(2) length_dropWhile_le [of "\<lambda>c. \<not> is_space c" "tl r"] by (cases r) auto
  moreover have "length r \<le> length s" using r(1) by (simp add: skip_ws_def length_dropWhile_le)
  ultimately show "(dropWhile (\<lambda>c. \<not> is_space c) r, s) \<in> measure length" by simp
qed simp

declare words.simps [simp del]

definition satisfies :: "string \<Rightarrow> string \<Rightarrow> bool" where
  "satisfies version_text constraint = (case parse_version version_text of
     None \<Rightarrow> False
   | Some version \<Rightarrow> words constraint \<noteq> [] \<and> list_all (satisfies_atom version) (words constraint))"

section \<open>Keys\<close>

definition trust_error :: "string \<Rightarrow> string \<Rightarrow> err" where
  "trust_error code message =
    \<lparr>err_category = ''trust'', err_code = code, err_message = message, err_retryable = False\<rparr>"

definition namespace_match :: "string \<Rightarrow> string \<Rightarrow> bool" where
  "namespace_match bundle_id scope = (bundle_id = scope \<or>
     length scope < length bundle_id \<and> prefix scope bundle_id \<and> bundle_id ! length scope = CHR ''.'')"

definition hex_key :: "string \<Rightarrow> string" where
  "hex_key bytes = concat (map (\<lambda>c. [hex_digit (of_char c div 16), hex_digit (of_char c mod 16)]) bytes)"

definition nibble :: "char \<Rightarrow> nat option" where
  "nibble c = (let n = of_char c :: nat in
     if 48 \<le> n \<and> n \<le> 57 then Some (n - 48) else if 97 \<le> n \<and> n \<le> 102 then Some (n - 87) else None)"

fun hex_pairs :: "string \<Rightarrow> string option" where
  "hex_pairs (h # l # rest) = (case (nibble h, nibble l) of
     (Some a, Some b) \<Rightarrow> map_option (Cons (char_of (16 * a + b))) (hex_pairs rest)
   | _ \<Rightarrow> None)"
| "hex_pairs [] = Some []"
| "hex_pairs [_] = None"

definition parse_key_hex :: "string \<Rightarrow> string option" where
  "parse_key_hex text = (if length text \<noteq> 64 then None else hex_pairs text)"

record KeyRecord =
  kr_key_id :: string
  kr_key :: string
  kr_namespace_scopes :: "string list"
  kr_revoked :: bool

record SignatureContext =
  sc_bundle_id :: string
  sc_bundle_version :: string
  sc_bundle_digest :: string
  sc_key_id :: string
  sc_algorithm :: string
  sc_signed_at :: string

type_synonym Keyring = "(string, KeyRecord) smap"

definition bad_scope :: "string \<Rightarrow> bool" where
  "bad_scope scope = (scope = [] \<or> hd scope = CHR ''.'' \<or> last scope = CHR ''.'')"

definition keyring_add :: "KeyRecord \<Rightarrow> Keyring \<Rightarrow> Keyring res" where
  "keyring_add record keys =
    (if kr_key_id record = [] \<or> length (kr_key record) \<noteq> 32 then Inl (Invalid_arg ''invalid Ed25519 key'')
     else if list_ex bad_scope (kr_namespace_scopes record) then Inl (Invalid_arg ''invalid key namespace scope'')
     else if sm_has keys (kr_key_id record) then Inl (Invalid_arg ''duplicate key id'')
     else Inr (sm_put (kr_key_id record) record keys))"

definition keyring_revoke :: "string \<Rightarrow> Keyring \<Rightarrow> Keyring res" where
  "keyring_revoke ident keys = (case sm_get keys ident of
     None \<Rightarrow> Inl (Invalid_arg ''cannot revoke unknown key'')
   | Some record \<Rightarrow> Inr (sm_put ident (record\<lparr>kr_revoked := True\<rparr>) keys))"

definition key_json :: "KeyRecord \<Rightarrow> json" where
  "key_json record = JObj [(''algorithm'', JStr ''ed25519''), (''key_id'', JStr (kr_key_id record)),
     (''namespaces'', JArr (map JStr (kr_namespace_scopes record))), (''public_key_hex'', JStr (hex_key (kr_key record))),
     (''revoked'', JBool (kr_revoked record))]"

definition keyring_doc :: "Keyring \<Rightarrow> json" where
  "keyring_doc keys = JObj [(''format'', JStr ''dage-keyring''), (''format_version'', JInt 1),
     (''keys'', JArr (map (\<lambda>(k, record). key_json record) keys))]"

definition snapshot_json :: "jsonlib \<Rightarrow> Keyring \<Rightarrow> string result" where
  "snapshot_json L keys = Inr (write_json L (keyring_doc keys) True)"

definition read_scopes :: "json \<Rightarrow> string list result" where
  "read_scopes namespaces = mapR (\<lambda>s. case s of
      JStr t \<Rightarrow> Inr t
    | _ \<Rightarrow> Inl (trust_error ''KEY_RECORD_INVALID'' ''namespace scope must be a string'')) (j_items namespaces)"

definition read_key :: "jsonlib \<Rightarrow> json \<Rightarrow> string set \<times> Keyring \<Rightarrow> (err + string set \<times> Keyring) res" where
  "read_key L v st =
    (if \<not> is_object v then Inr (Inl (trust_error ''KEY_RECORD_INVALID'' ''invalid key record''))
     else bindR (get_string L v ''algorithm'' []) (\<lambda>algorithm. bindR (j_at v ''namespaces'') (\<lambda>namespaces.
     if algorithm \<noteq> ''ed25519'' \<or> \<not> is_array namespaces
     then Inr (Inl (trust_error ''KEY_RECORD_INVALID'' ''invalid key record''))
     else bindR (get_string L v ''key_id'' []) (\<lambda>key_id.
     bindR (if key_id \<in> fst st then Inr [] else get_string L v ''public_key_hex'' []) (\<lambda>hex.
     if key_id \<in> fst st \<or> parse_key_hex hex = None
     then Inr (Inl (trust_error ''KEY_RECORD_INVALID'' ''duplicate or invalid key''))
     else case read_scopes namespaces of
       Inl e \<Rightarrow> Inr (Inl e)
     | Inr scopes \<Rightarrow>
         bindR (get_bool v ''revoked'' False) (\<lambda>revoked.
         bindR (keyring_add \<lparr>kr_key_id = key_id, kr_key = the (parse_key_hex hex), kr_namespace_scopes = scopes,
           kr_revoked = revoked\<rparr> (snd st)) (\<lambda>keys. Inr (Inr (insert key_id (fst st), keys))))))))) "

fun read_keys :: "jsonlib \<Rightarrow> json list \<Rightarrow> string set \<times> Keyring \<Rightarrow> (err + Keyring) res" where
  "read_keys L [] st = Inr (Inr (snd st))"
| "read_keys L (v # vs) st = bindR (read_key L v st) (\<lambda>r. case r of Inl e \<Rightarrow> Inr (Inl e) | Inr st' \<Rightarrow> read_keys L vs st')"

definition from_snapshot :: "jsonlib \<Rightarrow> string \<Rightarrow> (err + Keyring) res" where
  "from_snapshot L text =
    bindR (read_json L text) (\<lambda>r.
    bindR (get_string L r ''format'' []) (\<lambda>format.
    bindR (if format \<noteq> ''dage-keyring'' then Inr 0 else bindR (j_get r ''format_version'' (JInt 0)) (as_integer (- (2 ^ 31)) (2 ^ 31 - 1))) (\<lambda>version.
    bindR (j_at r ''keys'') (\<lambda>keys.
    if format \<noteq> ''dage-keyring'' \<or> version \<noteq> 1 \<or> \<not> is_array keys
    then Inr (Inl (trust_error ''KEYRING_INVALID'' ''invalid keyring header''))
    else read_keys L (j_items keys) ({}, [])))))"

definition from_snapshot_json :: "jsonlib \<Rightarrow> string \<Rightarrow> Keyring result" where
  "from_snapshot_json L text = (case from_snapshot L text of
     Inl e \<Rightarrow> Inl (trust_error ''KEYRING_INVALID'' (fault_what L e))
   | Inr r \<Rightarrow> r)"

definition find_key :: "Keyring \<Rightarrow> string \<Rightarrow> SignatureContext \<Rightarrow> string result" where
  "find_key keys ident ctx = (case sm_get keys ident of
     None \<Rightarrow> Inl (trust_error ''UNKNOWN_KEY'' (''unknown key: '' @ ident))
   | Some record \<Rightarrow>
       if kr_revoked record then Inl (trust_error ''KEY_REVOKED'' (''key is revoked: '' @ ident))
       else if kr_namespace_scopes record \<noteq> [] \<and>
         \<not> list_ex (namespace_match (sc_bundle_id ctx)) (kr_namespace_scopes record)
       then Inl (trust_error ''KEY_SCOPE_DENIED'' (''key is outside Bundle namespace: '' @ ident))
       else Inr (kr_key record))"

definition allow_known_keys :: "SignatureContext \<Rightarrow> bool result" where
  "allow_known_keys ctx = Inr True"

section \<open>Signatures\<close>

text \<open>
  The cryptographic library: \<open>EVP_DecodeBlock\<close> on a text whose length is a multiple of four, and the
  Ed25519 verification of a signature on a message with a raw public key.
\<close>

record crypto =
  cr_decode_block :: "string \<Rightarrow> string option"
  cr_verify :: "string \<Rightarrow> string \<Rightarrow> string \<Rightarrow> bool"

definition decode_base64 :: "crypto \<Rightarrow> string \<Rightarrow> string" where
  "decode_base64 K text =
    (if text = [] \<or> length text mod 4 \<noteq> 0 then []
     else case cr_decode_block K text of
       None \<Rightarrow> []
     | Some out \<Rightarrow> take (length out - (if last text = CHR ''='' then 1 else 0) -
         (if text ! (length text - 2) = CHR ''='' then 1 else 0)) out)"

definition verify_ed25519 :: "crypto \<Rightarrow> string \<Rightarrow> string \<Rightarrow> string \<Rightarrow> bool" where
  "verify_ed25519 K key message signature_base64 = (let signature = decode_base64 K signature_base64 in
     length key = 32 \<and> length signature = 64 \<and> cr_verify K key message signature)"

datatype BundleLoadMode = Development | Frozen | Verified | Offline
datatype SignaturePolicyKind = Disabled | AtLeastOne | Threshold | All

record SignaturePolicy =
  sp_kind :: SignaturePolicyKind
  sp_threshold :: nat

record repository =
  rp_versions :: "string \<Rightarrow> bool \<Rightarrow> string list result"
  rp_get :: "string \<Rightarrow> string \<Rightarrow> bool \<Rightarrow> provider result"
  rp_source :: string

record BundleResolverOptions =
  op_mode :: BundleLoadMode
  op_repository :: "repository option"
  op_keys :: "(string \<Rightarrow> SignatureContext \<Rightarrow> string result) option"
  op_trust :: "(SignatureContext \<Rightarrow> bool result) option"
  op_lock_json :: string
  op_signature_policy :: SignaturePolicy

definition signature_context :: "Bundle \<Rightarrow> BundleSignature \<Rightarrow> SignatureContext" where
  "signature_context b s = \<lparr>sc_bundle_id = bu_id b, sc_bundle_version = bu_version b, sc_bundle_digest = bu_digest b,
     sc_key_id = bs_key_id s, sc_algorithm = bs_algorithm s, sc_signed_at = bs_signed_at s\<rparr>"

text \<open>The public key that one signature proves, if it proves one.\<close>

definition proved_key :: "crypto \<Rightarrow> (string \<Rightarrow> SignatureContext \<Rightarrow> string result) \<Rightarrow> (SignatureContext \<Rightarrow> bool result) \<Rightarrow>
    Bundle \<Rightarrow> BundleSignature \<Rightarrow> string option" where
  "proved_key K keys trust b s =
    (if bs_algorithm s \<noteq> ''ed25519'' then None
     else case keys (bs_key_id s) (signature_context b s) of
       Inl _ \<Rightarrow> None
     | Inr key \<Rightarrow>
         if trust (signature_context b s) = Inr True \<and>
            verify_ed25519 K key (bu_signing_payload b) (bs_signature_base64 s)
         then Some (hex_key key) else None)"

definition count_signature :: "crypto \<Rightarrow> (string \<Rightarrow> SignatureContext \<Rightarrow> string result) \<Rightarrow> (SignatureContext \<Rightarrow> bool result) \<Rightarrow>
    Bundle \<Rightarrow> BundleSignature \<Rightarrow> string set \<times> string set \<Rightarrow> string set \<times> string set" where
  "count_signature K keys trust b s st = (case st of (seen, valid) \<Rightarrow>
     if bs_key_id s = [] \<or> bs_key_id s \<in> seen then (seen, valid)
     else (insert (bs_key_id s) seen,
       case proved_key K keys trust b s of None \<Rightarrow> valid | Some key \<Rightarrow> insert key valid))"

definition required_signatures :: "SignaturePolicy \<Rightarrow> Bundle \<Rightarrow> nat" where
  "required_signatures policy b = (case sp_kind policy of
     Threshold \<Rightarrow> sp_threshold policy | All \<Rightarrow> length (bu_signatures b) | _ \<Rightarrow> 1)"

definition verify_signatures :: "crypto \<Rightarrow> BundleResolverOptions \<Rightarrow> Bundle \<Rightarrow> unit res" where
  "verify_signatures K opts b = (let policy = op_signature_policy opts in
    if sp_kind policy = Disabled then Inr ()
    else case op_keys opts of None \<Rightarrow> Inl (Thrown ''KEY_PROVIDER_REQUIRED'')
    | Some keys \<Rightarrow> (case op_trust opts of None \<Rightarrow> Inl (Thrown ''TRUST_POLICY_REQUIRED'')
    | Some trust \<Rightarrow>
        if sp_kind policy = Threshold \<and> sp_threshold policy = 0 then Inl (Thrown ''SIGNATURE_POLICY_INVALID'')
        else let valid = snd (fold (count_signature K keys trust b) (bu_signatures b) ({}, {}));
                 required = required_signatures policy b in
          if required = 0 \<or> card valid < required
          then Inl (Thrown (''SIGNATURE_THRESHOLD_NOT_MET: '' @ bu_id b)) else Inr ()))"

section \<open>The repository in memory\<close>

record memory_repository =
  mr_source :: string
  mr_bundles :: "(string, (string, provider) smap) smap"

definition resolver_error :: "string \<Rightarrow> string \<Rightarrow> err" where
  "resolver_error code message =
    \<lparr>err_category = ''resolver'', err_code = code, err_message = message, err_retryable = False\<rparr>"

definition mr_add :: "string \<Rightarrow> string \<Rightarrow> provider option \<Rightarrow> memory_repository \<Rightarrow> memory_repository res" where
  "mr_add ident version p r = (case p of
     None \<Rightarrow> Inl (Invalid_arg ''bundle provider must not be null'')
   | Some q \<Rightarrow> Inr (r\<lparr>mr_bundles := sm_put ident
       (sm_put version q (case sm_get (mr_bundles r) ident of None \<Rightarrow> [] | Some m \<Rightarrow> m)) (mr_bundles r)\<rparr>))"

definition mr_available_versions :: "memory_repository \<Rightarrow> string \<Rightarrow> bool \<Rightarrow> string list result" where
  "mr_available_versions r ident offline = (case sm_get (mr_bundles r) ident of
     None \<Rightarrow> Inl (resolver_error ''BUNDLE_NOT_FOUND'' (''bundle not found: '' @ ident))
   | Some m \<Rightarrow> Inr (sm_keys m))"

definition mr_get :: "memory_repository \<Rightarrow> string \<Rightarrow> string \<Rightarrow> bool \<Rightarrow> provider result" where
  "mr_get r ident version offline = (case sm_get (mr_bundles r) ident of
     None \<Rightarrow> Inl (resolver_error ''BUNDLE_NOT_FOUND'' (''bundle not found: '' @ ident))
   | Some m \<Rightarrow> (case sm_get m version of
       None \<Rightarrow> Inl (resolver_error ''VERSION_NOT_FOUND'' (''bundle version not found: '' @ ident @ ''@'' @ version))
     | Some p \<Rightarrow> Inr p))"

definition as_repository :: "memory_repository \<Rightarrow> repository" where
  "as_repository r = \<lparr>rp_versions = mr_available_versions r, rp_get = mr_get r, rp_source = mr_source r\<rparr>"

section \<open>Lockfiles\<close>

record Locked =
  lk_version :: string
  lk_digest :: string
  lk_source :: string

definition parse_lock_entry :: "jsonlib \<Rightarrow> string \<times> json \<Rightarrow> (string \<times> Locked) res" where
  "parse_lock_entry L kv = (case kv of (ident, v) \<Rightarrow>
    bindR (get_string L v ''version'' []) (\<lambda>version.
    bindR (get_string L v ''digest'' []) (\<lambda>digest.
    bindR (get_string L v ''source'' []) (\<lambda>source.
    if version = [] \<or> digest = [] then Inl (Thrown (''INVALID_LOCK_ENTRY: '' @ ident))
    else Inr (ident, \<lparr>lk_version = version, lk_digest = digest, lk_source = source\<rparr>)))))"

definition parse_lock :: "jsonlib \<Rightarrow> string \<Rightarrow> (string, Locked) smap res" where
  "parse_lock L text =
    (if text = [] then Inr []
     else bindR (read_json L text) (\<lambda>r.
       bindR (get_string L r ''format'' []) (\<lambda>format.
       bindR (if format \<noteq> ''dage-lock'' then Inr 0
         else bindR (j_get r ''lock_version'' (JInt 0)) (as_integer (- (2 ^ 31)) (2 ^ 31 - 1))) (\<lambda>version.
       bindR (j_at r ''bundles'') (\<lambda>bundles.
       if format \<noteq> ''dage-lock'' \<or> version \<noteq> 1 \<or> \<not> is_object bundles then Inl (Thrown ''INVALID_LOCKFILE'')
       else bindR (members bundles) (mapR (parse_lock_entry L)))))))"

section \<open>Resolution\<close>

datatype resolve_fault = Failed string | Out_of_fuel

record resolution =
  rs_selected :: "(string, string) smap"
  rs_active :: "string set"
  rs_bundles :: "(string, Bundle) smap"
  rs_order :: "string list"

record resolver =
  rv_codec :: codec
  rv_crypto :: crypto
  rv_options :: BundleResolverOptions
  rv_locks :: "(string, Locked) smap"

definition failed :: "resolver \<Rightarrow> 'a res \<Rightarrow> resolve_fault + 'a" where
  "failed R r = (case r of Inl e \<Rightarrow> Inl (Failed (fault_what (cd_lib (rv_codec R)) e)) | Inr x \<Rightarrow> Inr x)"

definition refuse :: "string \<Rightarrow> string \<Rightarrow> resolve_fault + 'a" where
  "refuse code ident = Inl (Failed (code @ '': '' @ ident))"

definition locked_mode :: "resolver \<Rightarrow> bool" where
  "locked_mode R = (op_mode (rv_options R) \<noteq> Development)"

definition verified_mode :: "resolver \<Rightarrow> bool" where
  "verified_mode R = (op_mode (rv_options R) = Verified \<or> op_mode (rv_options R) = Offline)"

definition offline_mode :: "resolver \<Rightarrow> bool" where
  "offline_mode R = (op_mode (rv_options R) = Offline)"

definition check_lock :: "resolver \<Rightarrow> Bundle \<Rightarrow> string \<Rightarrow> resolve_fault + unit" where
  "check_lock R b source =
    (if \<not> locked_mode R then Inr ()
     else case sm_get (rv_locks R) (bu_id b) of
       None \<Rightarrow> refuse ''LOCK_ENTRY_REQUIRED'' (bu_id b)
     | Some lock \<Rightarrow>
         if lk_version lock \<noteq> bu_version b \<or> lk_digest lock \<noteq> bu_digest b then refuse ''LOCK_MISMATCH'' (bu_id b)
         else if lk_source lock \<noteq> [] \<and> lk_source lock \<noteq> source then refuse ''LOCK_SOURCE_MISMATCH'' (bu_id b)
         else Inr ())"

text \<open>The highest version in a list that satisfies a constraint, the first one among equals.\<close>

definition better :: "string \<Rightarrow> string \<Rightarrow> Version option \<Rightarrow> Version option" where
  "better constraint candidate best = (case parse_version candidate of
     None \<Rightarrow> best
   | Some parsed \<Rightarrow>
       if satisfies candidate constraint \<and> (case best of None \<Rightarrow> True | Some b \<Rightarrow> 0 < compare_versions parsed b)
       then Some parsed else best)"

definition select_version :: "resolver \<Rightarrow> repository \<Rightarrow> BundleDependency \<Rightarrow> resolve_fault + string" where
  "select_version R repo dep =
    (if locked_mode R then
       (case sm_get (rv_locks R) (bd_id dep) of
          None \<Rightarrow> refuse ''LOCK_ENTRY_REQUIRED'' (bd_id dep)
        | Some lock \<Rightarrow>
            if \<not> satisfies (lk_version lock) (bd_constraint dep) then refuse ''LOCK_CONSTRAINT_MISMATCH'' (bd_id dep)
            else Inr (lk_version lock))
     else bindR (failed R (thrown (rp_versions repo (bd_id dep) False))) (\<lambda>versions.
       case fold (better (bd_constraint dep)) versions None of
         None \<Rightarrow> refuse ''NO_COMPATIBLE_VERSION'' (bd_id dep)
       | Some best \<Rightarrow> Inr (ve_text best)))"

definition fetch :: "resolver \<Rightarrow> repository \<Rightarrow> BundleDependency \<Rightarrow> string \<Rightarrow> resolve_fault + Bundle" where
  "fetch R repo dep version =
    bindR (failed R (thrown (rp_get repo (bd_id dep) version (offline_mode R)))) (\<lambda>p.
    bindR (failed R (load_bundle_from_provider (rv_codec R) p)) (\<lambda>b.
    if bu_id b \<noteq> bd_id dep \<or> bu_version b \<noteq> version
    then refuse ''REPOSITORY_IDENTITY_MISMATCH'' (bd_id dep @ ''@'' @ version) else Inr b))"

definition visit_dependency :: "resolver \<Rightarrow> (Bundle \<Rightarrow> string \<Rightarrow> resolution \<Rightarrow> resolve_fault + resolution) \<Rightarrow>
    BundleDependency \<Rightarrow> resolution \<Rightarrow> resolve_fault + resolution" where
  "visit_dependency R go dep st =
    (if bd_id dep \<in> rs_active st then refuse ''DEPENDENCY_CYCLE'' (bd_id dep)
     else case sm_get (rs_selected st) (bd_id dep) of
       Some version \<Rightarrow>
         if \<not> satisfies version (bd_constraint dep) then refuse ''DEPENDENCY_CONFLICT'' (bd_id dep) else Inr st
     | None \<Rightarrow>
         (case op_repository (rv_options R) of
            None \<Rightarrow> Inl (Failed ''BUNDLE_REPOSITORY_REQUIRED'')
          | Some repo \<Rightarrow>
              bindR (select_version R repo dep) (\<lambda>version.
              bindR (fetch R repo dep version) (\<lambda>b. go b (rp_source repo) st))))"

definition enter_bundle :: "Bundle \<Rightarrow> resolution \<Rightarrow> resolution" where
  "enter_bundle b st = st\<lparr>rs_active := insert (bu_id b) (rs_active st),
     rs_selected := sm_put (bu_id b) (bu_version b) (rs_selected st),
     rs_bundles := sm_put (bu_id b) b (rs_bundles st)\<rparr>"

definition leave_bundle :: "Bundle \<Rightarrow> resolution \<Rightarrow> resolution" where
  "leave_bundle b st = st\<lparr>rs_active := rs_active st - {bu_id b}, rs_order := rs_order st @ [bu_id b]\<rparr>"

fun visit :: "nat \<Rightarrow> resolver \<Rightarrow> Bundle \<Rightarrow> string \<Rightarrow> resolution \<Rightarrow> resolve_fault + resolution" where
  "visit 0 R b source st = Inl Out_of_fuel"
| "visit (Suc fuel) R b source st =
    (if bu_id b \<in> rs_active st then refuse ''DEPENDENCY_CYCLE'' (bu_id b)
     else case sm_get (rs_selected st) (bu_id b) of
       Some version \<Rightarrow> if version \<noteq> bu_version b then refuse ''DEPENDENCY_CONFLICT'' (bu_id b) else Inr st
     | None \<Rightarrow>
         bindR (check_lock R b source) (\<lambda>_.
         bindR (if verified_mode R then failed R (verify_signatures (rv_crypto R) (rv_options R) b) else Inr ()) (\<lambda>_.
         bindR (foldR (visit_dependency R (visit fuel R)) (bu_dependencies b) (enter_bundle b st)) (\<lambda>st'.
         Inr (leave_bundle b st')))))"

record ResolvedBundleGraph =
  gr_root_id :: string
  gr_lock :: string
  gr_mode :: BundleLoadMode
  gr_bundles :: "(string, Bundle) smap"
  gr_order :: "string list"

definition lock_signature :: "BundleSignature \<Rightarrow> json" where
  "lock_signature s = JObj [(''algorithm'', JStr (bs_algorithm s)), (''key_id'', JStr (bs_key_id s))]"

definition lock_entry :: "repository option \<Rightarrow> string \<Rightarrow> string \<times> Bundle \<Rightarrow> string \<times> json" where
  "lock_entry repo root_id kb = (case kb of (ident, b) \<Rightarrow> (ident, JObj [(''digest'', JStr (bu_digest b)),
     (''signatures'', JArr (map lock_signature (bu_signatures b))),
     (''source'', JStr (if ident = root_id then ''root''
        else case repo of None \<Rightarrow> [] | Some r \<Rightarrow> rp_source r)),
     (''version'', JStr (bu_version b))]))"

definition lock_doc :: "repository option \<Rightarrow> string \<Rightarrow> (string, Bundle) smap \<Rightarrow> json" where
  "lock_doc repo root_id bundles = JObj [(''bundles'', JObj (map (lock_entry repo root_id) bundles)),
     (''format'', JStr ''dage-lock''), (''lock_version'', JInt 1)]"

definition empty_resolution :: resolution where
  "empty_resolution = \<lparr>rs_selected = [], rs_active = {}, rs_bundles = [], rs_order = []\<rparr>"

definition resolve_from :: "nat \<Rightarrow> resolver \<Rightarrow> provider \<Rightarrow> resolve_fault + ResolvedBundleGraph" where
  "resolve_from fuel R p =
    (if locked_mode R \<and> op_lock_json (rv_options R) = [] then Inl (Failed ''LOCKFILE_REQUIRED'')
     else bindR (failed R (load_bundle_from_provider (rv_codec R) p)) (\<lambda>b.
       bindR (visit fuel R b ''root'' empty_resolution) (\<lambda>st.
       Inr \<lparr>gr_root_id = bu_id b, gr_lock = write_json (cd_lib (rv_codec R)) 
           (lock_doc (op_repository (rv_options R)) (bu_id b) (rs_bundles st)) True,
         gr_mode = op_mode (rv_options R), gr_bundles = rs_bundles st, gr_order = rs_order st\<rparr>)))"

definition resolve_unchecked :: "nat \<Rightarrow> codec \<Rightarrow> crypto \<Rightarrow> BundleResolverOptions \<Rightarrow> provider \<Rightarrow>
    resolve_fault + ResolvedBundleGraph" where
  "resolve_unchecked fuel C K opts p = (case parse_lock (cd_lib C) (op_lock_json opts) of
     Inl e \<Rightarrow> Inl (Failed (fault_what (cd_lib C) e))
   | Inr locks \<Rightarrow> resolve_from fuel \<lparr>rv_codec = C, rv_crypto = K, rv_options = opts, rv_locks = locks\<rparr> p)"

definition resolve_code :: "string \<Rightarrow> string" where
  "resolve_code message = (if CHR '':'' \<in> set message then takeWhile (\<lambda>c. c \<noteq> CHR '':'') message
     else if message \<noteq> [] then message else ''RESOLUTION_FAILED'')"

text \<open>The result of the resolver; \<open>None\<close> when the fuel did not suffice.\<close>

definition resolve :: "nat \<Rightarrow> codec \<Rightarrow> crypto \<Rightarrow> BundleResolverOptions \<Rightarrow> provider \<Rightarrow> ResolvedBundleGraph result option" where
  "resolve fuel C K opts p = (case resolve_unchecked fuel C K opts p of
     Inl Out_of_fuel \<Rightarrow> None
   | Inl (Failed message) \<Rightarrow> Some (Inl (resolver_error (resolve_code message) message))
   | Inr graph \<Rightarrow> Some (Inr graph))"

section \<open>The resolved graph\<close>

definition merged_config :: "codec \<Rightarrow> ConfigMergeOptions \<Rightarrow> ResolvedBundleGraph \<Rightarrow> json result" where
  "merged_config C M g = foldR (\<lambda>ident merged. case sm_get (gr_bundles g) ident of
      None \<Rightarrow> Inr merged
    | Some b \<Rightarrow> deep_merge_config C M merged (bu_config b)) (gr_order g) (JObj [])"

datatype BundleVersionChangeKind = Bundle_added | Bundle_removed | Bundle_changed

record BundleVersionChange =
  bc_bundle_id :: string
  bc_kind :: BundleVersionChangeKind
  bc_from_version :: string
  bc_to_version :: string
  bc_from_digest :: string
  bc_to_digest :: string

record BundleRollbackPlan =
  br_root_bundle_id :: string
  br_from_version :: string
  br_to_version :: string
  br_from_digest :: string
  br_to_digest :: string
  br_target_lock_json :: string
  br_target_load_mode :: BundleLoadMode
  br_target_verified :: bool
  br_changes :: "BundleVersionChange list"

definition rollback_error :: "string \<Rightarrow> string \<Rightarrow> err" where
  "rollback_error code message =
    \<lparr>err_category = ''rollback'', err_code = code, err_message = message, err_retryable = False\<rparr>"

definition version_change :: "(string, Bundle) smap \<Rightarrow> (string, Bundle) smap \<Rightarrow> string \<Rightarrow> BundleVersionChange list" where
  "version_change old new k = (case (sm_get old k, sm_get new k) of
     (Some a, Some b) \<Rightarrow>
       if bu_version a = bu_version b \<and> bu_digest a = bu_digest b then []
       else [\<lparr>bc_bundle_id = k, bc_kind = Bundle_changed, bc_from_version = bu_version a, bc_to_version = bu_version b,
         bc_from_digest = bu_digest a, bc_to_digest = bu_digest b\<rparr>]
   | (Some a, None) \<Rightarrow> [\<lparr>bc_bundle_id = k, bc_kind = Bundle_removed, bc_from_version = bu_version a, bc_to_version = [],
         bc_from_digest = bu_digest a, bc_to_digest = []\<rparr>]
   | (None, Some b) \<Rightarrow> [\<lparr>bc_bundle_id = k, bc_kind = Bundle_added, bc_from_version = [], bc_to_version = bu_version b,
         bc_from_digest = [], bc_to_digest = bu_digest b\<rparr>]
   | (None, None) \<Rightarrow> [])"

definition graph_root :: "ResolvedBundleGraph \<Rightarrow> Bundle option" where
  "graph_root g = sm_get (gr_bundles g) (gr_root_id g)"

text \<open>The roots exist in every resolved graph, where \<open>root()\<close> dereferences them.\<close>

definition plan_rollback_to :: "ResolvedBundleGraph \<Rightarrow> ResolvedBundleGraph \<Rightarrow> BundleRollbackPlan result option" where
  "plan_rollback_to g target = (case (graph_root g, graph_root target) of
     (Some old, Some new) \<Rightarrow> Some
       (if bu_id old \<noteq> bu_id new
        then Inl (rollback_error ''ROLLBACK_ROOT_MISMATCH'' ''rollback target has a different root Bundle id'')
        else case (parse_version (bu_version old), parse_version (bu_version new)) of
          (Some old_version, Some new_version) \<Rightarrow>
            if 0 \<le> compare_versions new_version old_version
            then Inl (rollback_error ''ROLLBACK_TARGET_NOT_OLDER'' ''rollback target root version must be older than the current version'')
            else if gr_lock target = []
            then Inl (rollback_error ''ROLLBACK_TARGET_UNLOCKED'' ''rollback target must contain an exact lockfile'')
            else Inr \<lparr>br_root_bundle_id = bu_id old, br_from_version = bu_version old, br_to_version = bu_version new,
              br_from_digest = bu_digest old, br_to_digest = bu_digest new, br_target_lock_json = gr_lock target,
              br_target_load_mode = gr_mode target,
              br_target_verified = (gr_mode target = Verified \<or> gr_mode target = Offline),
              br_changes = concat (map (version_change (gr_bundles g) (gr_bundles target))
                (sort (remdups (sm_keys (gr_bundles g) @ sm_keys (gr_bundles target)))))\<rparr>
        | _ \<Rightarrow> Inl (rollback_error ''ROLLBACK_VERSION_INVALID'' ''root Bundle versions must be valid SemVer core versions''))
   | _ \<Rightarrow> None)"

end
