(* ===== verification/Bundle_Laws.thy ===== *)
theory Bundle_Laws
  imports Bundle_Load
begin

text \<open>
  The properties of bundles: merging configuration follows the rules of the relation \<open>config_merge\<close> and never lets a workflow in,
  and the signed payload of a bundle determines the paths and the digests of its files, as long as no
  path contains a line break.
\<close>

section \<open>Merging\<close>

fun tree_ok :: "jsonlib \<Rightarrow> nat \<Rightarrow> nat \<Rightarrow> json \<Rightarrow> bool" where
  "tree_ok L max_depth d (JObj m) = (d \<le> max_depth \<and> config_name L (JObj m) = Inr () \<and>
     (\<forall>kv \<in> set m. tree_ok L max_depth (d + 1) (snd kv)))"
| "tree_ok L max_depth d (JArr xs) = (d \<le> max_depth \<and> (\<forall>x \<in> set xs. tree_ok L max_depth (d + 1) x))"
| "tree_ok L max_depth d _ = (d \<le> max_depth)"

lemma mapR_unit: "(\<exists>us. mapR f xs = Inr us) \<longleftrightarrow> (\<forall>x \<in> set xs. f x = Inr (() :: unit))"
  by (induction xs) (auto simp: bindR_Inr)

lemma validate_iff: "validate_config_tree L max_depth d j = Inr () \<longleftrightarrow> tree_ok L max_depth d j"
proof (induction L max_depth d j rule: validate_config_tree.induct)
  case (1 L max_depth d m)
  show ?case
  proof (cases "d \<le> max_depth \<and> config_name L (JObj m) = Inr ()")
    case True
    then have "validate_config_tree L max_depth d (JObj m) = Inr () \<longleftrightarrow>
        (\<forall>kv \<in> set m. (\<lambda>(k, v). validate_config_tree L max_depth (d + 1) v) kv = Inr ())"
      using mapR_unit [of "\<lambda>(k, v). validate_config_tree L max_depth (d + 1) v" m] by (auto simp: bindR_Inr)
    then show ?thesis using True "1.IH" by (fastforce simp: case_prod_unfold)
  qed (auto simp: bindR_Inr)
next
  case (2 L max_depth d xs)
  show ?case
  proof (cases "d \<le> max_depth")
    case True
    then have "validate_config_tree L max_depth d (JArr xs) = Inr () \<longleftrightarrow>
        (\<forall>x \<in> set xs. validate_config_tree L max_depth (d + 1) x = Inr ())"
      using mapR_unit [of "validate_config_tree L max_depth (d + 1)" xs] by (auto simp: bindR_Inr)
    then show ?thesis using True "2.IH" by auto
  qed simp
qed auto

text \<open>One step of the merge of two objects.\<close>

definition merge_member :: "ConfigMergeOptions \<Rightarrow> nat \<Rightarrow> string \<times> json \<Rightarrow> (string, json) smap \<Rightarrow> (string, json) smap res" where
  "merge_member M d kv merged = (case kv of (k, v) \<Rightarrow>
     if v = JNull \<and> mo_nulls M = Delete then Inr (sm_del k merged)
     else case sm_get merged k of
       None \<Rightarrow> Inr (sm_put k v merged)
     | Some old \<Rightarrow> bindR (merge_config_json M (d + 1) old v) (\<lambda>x. Inr (sm_put k x merged)))"

lemma merge_objects:
  "d \<le> mo_max_depth M \<Longrightarrow> merge_config_json M d (JObj b) (JObj p) =
    bindR (foldR (merge_member M d) p b) (\<lambda>merged. Inr (JObj merged))"
  by (subst merge_config_json.simps) (simp add: merge_member_def case_prod_unfold cong: foldR_cong)

lemma merge_overlay:
  "d \<le> mo_max_depth M \<Longrightarrow> \<not> is_object p \<Longrightarrow> \<not> is_array p \<Longrightarrow> merge_config_json M d b p = Inr p"
  by (subst merge_config_json.simps) (cases p; simp)

definition name_ok :: "jsonlib \<Rightarrow> json option \<Rightarrow> bool" where
  "name_ok L v = (case v of None \<Rightarrow> True | Some j \<Rightarrow> \<exists>s. as_string L j = Inr s \<and> s \<noteq> ''dage-workflow'')"

lemma config_name_iff: "config_name L (JObj m) = Inr () \<longleftrightarrow> name_ok L (sm_get m ''format'')"
  by (auto simp: config_name_def get_string_def j_get_def name_ok_def bindR_Inr split: option.splits if_splits)

lemma sm_get_set: "sm_get m k = Some v \<Longrightarrow> (\<forall>kv \<in> set m. P (snd kv)) \<Longrightarrow> P v"
  using sm_get_in_set by force

lemma sm_del_mem: "x \<in> set (sm_del k m) \<Longrightarrow> x \<in> set m"
  by (induction k m rule: sm_del.induct) (auto split: if_splits)

definition good_tree :: "jsonlib \<Rightarrow> nat \<Rightarrow> nat \<Rightarrow> json \<Rightarrow> bool" where
  "good_tree L mx d j = (tree_ok L mx d j \<and> json_ok j)"

definition good_members :: "jsonlib \<Rightarrow> nat \<Rightarrow> nat \<Rightarrow> (string, json) smap \<Rightarrow> bool" where
  "good_members L mx d m = (sm_ok m \<and> name_ok L (sm_get m ''format'') \<and> (\<forall>kv \<in> set m. good_tree L mx (d + 1) (snd kv)))"

lemma good_object: "good_tree L mx d (JObj m) \<longleftrightarrow> d \<le> mx \<and> good_members L mx d m"
  by (auto simp: good_tree_def good_members_def config_name_iff)

lemma good_del: "good_members L mx d m \<Longrightarrow> good_members L mx d (sm_del k m)"
  by (auto simp: good_members_def sm_get_del name_ok_def dest: sm_del_mem)

lemma good_put: "good_members L mx d m \<Longrightarrow> good_tree L mx (d + 1) v \<Longrightarrow> (k = ''format'' \<Longrightarrow> name_ok L (Some v)) \<Longrightarrow>
    good_members L mx d (sm_put k v m)"
  by (auto simp: good_members_def dest!: sm_put_set)

lemma merge_member_good:
  assumes "good_members L (mo_max_depth M) d b" and "good_tree L (mo_max_depth M) (d + 1) v"
    and "k = ''format'' \<Longrightarrow> name_ok L (Some v)"
    and "\<And>old. good_tree L (mo_max_depth M) (d + 1) old \<Longrightarrow>
      \<exists>j. merge_config_json M (d + 1) old v = Inr j \<and> good_tree L (mo_max_depth M) (d + 1) j"
  shows "\<exists>b'. merge_member M d (k, v) b = Inr b' \<and> good_members L (mo_max_depth M) d b'"
proof (cases "v = JNull \<and> mo_nulls M = Delete")
  case True
  then show ?thesis using good_del [OF assms(1)] by (simp add: merge_member_def)
next
  case False
  show ?thesis
  proof (cases "sm_get b k")
    case None
    then show ?thesis using False good_put [OF assms(1-3)] by (auto simp: merge_member_def)
  next
    case (Some old)
    have "good_tree L (mo_max_depth M) (d + 1) old"
      by (rule sm_get_set [OF Some]) (use assms(1) in \<open>simp add: good_members_def\<close>)
    then obtain j where j: "merge_config_json M (d + 1) old v = Inr j" "good_tree L (mo_max_depth M) (d + 1) j"
      using assms(4) by blast
    have "d + 1 \<le> mo_max_depth M" using assms(2) by (cases v) (auto simp: good_tree_def)
    then have "name_ok L (Some j)" if "k = ''format''"
      using merge_overlay [of "d + 1" M v old] j(1) assms(3) [OF that] by (cases v) (auto simp: name_ok_def)
    then show ?thesis using False Some j good_put [OF assms(1) j(2)] by (auto simp: merge_member_def)
  qed
qed

lemma merge_members_good:
  assumes "\<forall>(k, v) \<in> set p. good_tree L (mo_max_depth M) (d + 1) v \<and> (k = ''format'' \<longrightarrow> name_ok L (Some v)) \<and>
      (\<forall>old. good_tree L (mo_max_depth M) (d + 1) old \<longrightarrow>
        (\<exists>j. merge_config_json M (d + 1) old v = Inr j \<and> good_tree L (mo_max_depth M) (d + 1) j))"
    and "good_members L (mo_max_depth M) d b"
  shows "\<exists>r. foldR (merge_member M d) p b = Inr r \<and> good_members L (mo_max_depth M) d r"
  using assms
proof (induction p arbitrary: b)
  case (Cons kv p)
  obtain k v where kv: "kv = (k, v)" by fastforce
  obtain b' where "merge_member M d kv b = Inr b'" "good_members L (mo_max_depth M) d b'"
    using merge_member_good [OF Cons.prems(2), of v k] Cons.prems(1) kv by auto
  moreover from Cons.IH [OF _ this(2)] Cons.prems(1) obtain r where
    "foldR (merge_member M d) p b' = Inr r" "good_members L (mo_max_depth M) d r" by auto
  ultimately show ?case by auto
qed simp

lemma merge_good:
  "good_tree L (mo_max_depth M) d base \<Longrightarrow> good_tree L (mo_max_depth M) d overlay \<Longrightarrow>
    \<exists>j. merge_config_json M d base overlay = Inr j \<and> good_tree L (mo_max_depth M) d j"
proof (induction overlay arbitrary: d base rule: measure_induct_rule [of size])
  case (less overlay)
  have d: "d \<le> mo_max_depth M" using less.prems(2) by (cases overlay) (auto simp: good_tree_def)
  show ?case
  proof (cases "is_object base \<and> is_object overlay")
    case True
    then obtain b p where bp: "base = JObj b" "overlay = JObj p" by (cases base; cases overlay) auto
    have gp: "good_members L (mo_max_depth M) d p" "good_members L (mo_max_depth M) d b"
      using less.prems bp by (simp_all add: good_object)
    have "good_tree L (mo_max_depth M) (d + 1) v \<and> (k = ''format'' \<longrightarrow> name_ok L (Some v)) \<and>
      (\<forall>old. good_tree L (mo_max_depth M) (d + 1) old \<longrightarrow>
        (\<exists>j. merge_config_json M (d + 1) old v = Inr j \<and> good_tree L (mo_max_depth M) (d + 1) j))"
      if kv: "(k, v) \<in> set p" for k v
    proof -
      have "size v < size overlay" using size_list_estimation' [OF kv, of "size v" "size_prod (\<lambda>_. 0) size"] bp(2) by simp
      moreover have "sm_get p k = Some v" using sm_get_mem kv gp(1) by (auto simp: good_members_def)
      moreover have "good_tree L (mo_max_depth M) (d + 1) v" using gp(1) kv by (force simp: good_members_def)
      ultimately show ?thesis using less.IH gp(1) by (auto simp: good_members_def)
    qed
    then obtain r where "foldR (merge_member M d) p b = Inr r" "good_members L (mo_max_depth M) d r"
      using merge_members_good [OF _ gp(2), of p] by blast
    then show ?thesis using d bp by (simp add: merge_objects good_object)
  next
    case False
    have "\<exists>j. merge_config_json M d base overlay = Inr j \<and> (j = overlay \<or> (\<exists>xs ys. base = JArr xs \<and> overlay = JArr ys \<and> j = JArr (xs @ ys)))"
      using False d by (subst merge_config_json.simps) (cases overlay; cases base; simp)
    then show ?thesis using less.prems by (auto simp: good_tree_def)
  qed
qed

text \<open>
  The rules of the merge, stated without the code. Two objects merge key by key: a key the overlay
  does not have keeps its base member; a null member of the overlay deletes the key when nulls delete;
  any other overlay member is taken over as it is when the base has no such key, and is merged with the
  base member otherwise. Two arrays are appended when that is asked for. In every other case the
  overlay replaces the base. In particular an overlay member that the base does not have is not looked
  into: the nulls inside it stay.
\<close>

definition null_deletes :: "ConfigMergeOptions \<Rightarrow> json \<Rightarrow> bool" where
  "null_deletes M v \<longleftrightarrow> v = JNull \<and> mo_nulls M = Delete"

inductive config_merge :: "ConfigMergeOptions \<Rightarrow> json \<Rightarrow> json \<Rightarrow> json \<Rightarrow> bool"
  for M :: ConfigMergeOptions where
  rule_objects: "sm_ok r \<Longrightarrow>
    \<forall>k. sm_get p k = None \<longrightarrow> sm_get r k = sm_get b k \<Longrightarrow>
    \<forall>k v. sm_get p k = Some v \<and> null_deletes M v \<longrightarrow> sm_get r k = None \<Longrightarrow>
    \<forall>k v. sm_get p k = Some v \<and> \<not> null_deletes M v \<and> sm_get b k = None \<longrightarrow>
      sm_get r k = Some v \<Longrightarrow>
    \<forall>k u v. sm_get p k = Some v \<and> \<not> null_deletes M v \<and> sm_get b k = Some u \<longrightarrow>
      (\<exists>x. sm_get r k = Some x \<and> config_merge M u v x) \<Longrightarrow>
    config_merge M (JObj b) (JObj p) (JObj r)"
| rule_append: "mo_arrays M = Append \<Longrightarrow> config_merge M (JArr xs) (JArr ys) (JArr (xs @ ys))"
| rule_replace: "\<not> (is_object u \<and> is_object v) \<Longrightarrow> \<not> (is_array u \<and> is_array v \<and> mo_arrays M = Append) \<Longrightarrow>
    config_merge M u v v"

inductive_cases merge_objectsE: "config_merge M (JObj b) (JObj p) j"

inductive_cases merge_anyE: "config_merge M u v j"

text \<open>The rules determine the result.\<close>

lemma config_merge_determ: "config_merge M u v j \<Longrightarrow> config_merge M u v j' \<Longrightarrow> j = j'"
proof (induction arbitrary: j' rule: config_merge.induct)
  case (rule_objects r p b)
  note left = rule_objects.hyps and IH = rule_objects.IH
  from rule_objects.prems show ?case
  proof (rule merge_objectsE)
    fix r'
    assume j': "j' = JObj r'" and ok: "sm_ok r'"
      and right: "\<forall>k. sm_get p k = None \<longrightarrow> sm_get r' k = sm_get b k"
        "\<forall>k. (\<exists>v. sm_get p k = Some v \<and> null_deletes M v) \<longrightarrow> sm_get r' k = None"
        "\<forall>k v. sm_get p k = Some v \<and> \<not> null_deletes M v \<and> sm_get b k = None \<longrightarrow> sm_get r' k = Some v"
        "\<forall>k u v. sm_get p k = Some v \<and> \<not> null_deletes M v \<and> sm_get b k = Some u \<longrightarrow>
          (\<exists>x. sm_get r' k = Some x \<and> config_merge M u v x)"
    have "sm_get r k = sm_get r' k" for k
    proof -
      consider "sm_get p k = None" | v where "sm_get p k = Some v" "null_deletes M v"
        | v where "sm_get p k = Some v" "\<not> null_deletes M v" "sm_get b k = None"
        | v u where "sm_get p k = Some v" "\<not> null_deletes M v" "sm_get b k = Some u" by fastforce
      then show ?thesis
      proof cases
        case 1
        then show ?thesis using left(2) right(1) by metis
      next
        case 2
        then show ?thesis using left(3) right(2) by metis
      next
        case 3
        then show ?thesis using left(4) right(3) by metis
      next
        case 4
        then show ?thesis using IH right(4) by metis
      qed
    qed
    then show ?thesis using sm_ext [OF left(1) ok] j' by simp
  qed simp
next
  case (rule_append xs ys)
  from rule_append.prems show ?case by (rule merge_anyE) (use rule_append.hyps in simp_all)
next
  case (rule_replace u v)
  from rule_replace.prems show ?case by (rule merge_anyE) (use rule_replace.hyps in simp_all)
qed

lemma merged_member:
  assumes "config_merge M (JObj b) (JObj p) (JObj r)"
  shows "sm_get p k = Some v \<Longrightarrow> null_deletes M v \<Longrightarrow> sm_get r k = None"
    and "sm_get p k = Some v \<Longrightarrow> \<not> null_deletes M v \<Longrightarrow> sm_get b k = Some u \<Longrightarrow>
      \<exists>x. sm_get r k = Some x \<and> config_merge M u v x"
proof -
  show "sm_get p k = Some v \<Longrightarrow> null_deletes M v \<Longrightarrow> sm_get r k = None"
    by (rule merge_objectsE [OF assms]) simp_all
  show "sm_get p k = Some v \<Longrightarrow> \<not> null_deletes M v \<Longrightarrow> sm_get b k = Some u \<Longrightarrow>
      \<exists>x. sm_get r k = Some x \<and> config_merge M u v x"
    by (rule merge_objectsE [OF assms]) simp_all
qed

text \<open>What a step of the merge leaves under a key.\<close>

definition merge_slot :: "ConfigMergeOptions \<Rightarrow> nat \<Rightarrow> json option \<Rightarrow> json option \<Rightarrow> json option" where
  "merge_slot M d old new = (case new of
     None \<Rightarrow> old
   | Some v \<Rightarrow> if v = JNull \<and> mo_nulls M = Delete then None
       else case old of None \<Rightarrow> Some v
         | Some u \<Rightarrow> (case merge_config_json M (d + 1) u v of Inl _ \<Rightarrow> None | Inr x \<Rightarrow> Some x))"

lemma merge_member_get:
  assumes "merge_member M d (k, v) b = Inr b'" and "sm_ok b"
  shows "sm_get b' k' = (if k' = k then merge_slot M d (sm_get b k) (Some v) else sm_get b k') \<and> sm_ok b'"
  using assms by (auto simp: merge_member_def merge_slot_def sm_get_del bindR_Inr split: if_splits option.splits)

lemma merge_members_get:
  assumes "foldR (merge_member M d) p b = Inr r" and "sm_ok b" and "distinct (map fst p)"
  shows "sm_get r k = merge_slot M d (sm_get b k) (map_of p k)"
  using assms
proof (induction p arbitrary: b)
  case Nil
  then show ?case by (simp add: merge_slot_def)
next
  case (Cons kv p)
  obtain k1 v where kv: "kv = (k1, v)" by fastforce
  obtain b' where b': "merge_member M d (k1, v) b = Inr b'" "foldR (merge_member M d) p b' = Inr r"
    using Cons.prems(1) kv by (auto simp: bindR_Inr)
  note step = merge_member_get [OF b'(1) Cons.prems(2)]
  have "sm_get r k = merge_slot M d (sm_get b' k) (map_of p k)" using Cons.IH [OF b'(2)] step Cons.prems(3) by simp
  moreover have "map_of p k1 = None" using Cons.prems(3) kv by (simp add: map_of_eq_None_iff)
  ultimately show ?case using step kv by (auto simp: merge_slot_def split: if_splits)
qed

lemma merge_members_ok: "foldR (merge_member M d) p b = Inr r \<Longrightarrow> sm_ok b \<Longrightarrow> sm_ok r"
proof (induction p arbitrary: b)
  case (Cons kv p)
  obtain k v where kv: "kv = (k, v)" by fastforce
  obtain b' where b': "merge_member M d (k, v) b = Inr b'" "foldR (merge_member M d) p b' = Inr r"
    using Cons.prems(1) kv by (auto simp: bindR_Inr)
  show ?case using Cons.IH [OF b'(2)] merge_member_get [OF b'(1) Cons.prems(2)] by blast
qed simp

lemma merge_follows_rules:
  "good_tree L (mo_max_depth M) d base \<Longrightarrow> good_tree L (mo_max_depth M) d overlay \<Longrightarrow>
    merge_config_json M d base overlay = Inr j \<Longrightarrow> config_merge M base overlay j"
proof (induction overlay arbitrary: d base j rule: measure_induct_rule [of size])
  case (less overlay)
  have d: "d \<le> mo_max_depth M" using less.prems(2) by (cases overlay) (auto simp: good_tree_def)
  show ?case
  proof (cases "is_object base \<and> is_object overlay")
    case True
    then obtain b p where bp: "base = JObj b" "overlay = JObj p" by (cases base; cases overlay) auto
    have gp: "good_members L (mo_max_depth M) d p" "good_members L (mo_max_depth M) d b"
      using less.prems bp by (simp_all add: good_object)
    have ok: "sm_ok b" "sm_ok p" using gp by (simp_all add: good_members_def)
    obtain r where r: "foldR (merge_member M d) p b = Inr r" and j: "j = JObj r"
      using less.prems(3) d bp by (auto simp: merge_objects bindR_Inr)
    have get: "sm_get r k = merge_slot M d (sm_get b k) (sm_get p k)" for k
      using merge_members_get [OF r ok(1) sm_ok_distinct [OF ok(2)]] by (simp add: sm_get_map_of)
    have both: "\<exists>x. sm_get r k = Some x \<and> config_merge M u v x"
      if "sm_get p k = Some v" and "\<not> null_deletes M v" and "sm_get b k = Some u" for k u v
    proof -
      have "size v < size overlay"
        using size_list_estimation' [OF sm_get_in_set [OF that(1)], of "size v" "size_prod (\<lambda>_. 0) size"] bp(2) by simp
      moreover have good: "good_tree L (mo_max_depth M) (d + 1) u" "good_tree L (mo_max_depth M) (d + 1) v"
        by (rule sm_get_set [OF that(3)], use gp in \<open>simp add: good_members_def\<close>,
            rule sm_get_set [OF that(1)], use gp in \<open>simp add: good_members_def\<close>)
      moreover obtain x where x: "merge_config_json M (d + 1) u v = Inr x" using merge_good [OF good] by blast
      ultimately have "config_merge M u v x" using less.IH by blast
      then show ?thesis using get [of k] that x by (auto simp: merge_slot_def null_deletes_def)
    qed
    show ?thesis unfolding bp j
    proof (rule rule_objects)
      show "sm_ok r" by (rule merge_members_ok [OF r ok(1)])
      show "\<forall>k u v. sm_get p k = Some v \<and> \<not> null_deletes M v \<and> sm_get b k = Some u \<longrightarrow>
          (\<exists>x. sm_get r k = Some x \<and> config_merge M u v x)"
        using both by blast
    qed (simp_all add: get merge_slot_def null_deletes_def)
  next
    case False
    show ?thesis
    proof (cases "is_array base \<and> is_array overlay \<and> mo_arrays M = Append")
      case True
      then obtain xs ys where xy: "base = JArr xs" "overlay = JArr ys" by (cases base; cases overlay) auto
      have "j = JArr (xs @ ys)"
        using less.prems(3) d True unfolding xy by (subst (asm) merge_config_json.simps) simp
      then show ?thesis using rule_append True unfolding xy by simp
    next
      case no_append: False
      then have "j = overlay" using False less.prems(3) d
        by (subst (asm) merge_config_json.simps) (cases overlay; cases base; simp)
      then show ?thesis using rule_replace [OF False no_append] by simp
    qed
  qed
qed

text \<open>
  C27. Merging two valid configurations succeeds, gives the result that the merge rules
  \<open>config_merge\<close> determine at every level of the two objects, and that result is a valid configuration
  again: no merge can produce an embedded workflow or exceed the depth bound. The rules are those of
  \<open>docs/config_merge.md\<close> except that a null deletes a member of the base only: an overlay object the
  base has no counterpart of is taken over with the nulls it holds (\<open>nested_nulls_stay\<close>).
\<close>

theorem config_merge_sound:
  assumes "validate_config_tree L (mo_max_depth M) 0 (JObj b) = Inr ()" and "json_ok (JObj b)"
    and "validate_config_tree L (mo_max_depth M) 0 (JObj p) = Inr ()" and "json_ok (JObj p)"
  shows "\<exists>r. merge_config_json M 0 (JObj b) (JObj p) = Inr (JObj r) \<and>
    validate_config_tree L (mo_max_depth M) 0 (JObj r) = Inr () \<and>
    (\<forall>j. config_merge M (JObj b) (JObj p) j \<longleftrightarrow> j = JObj r)"
proof -
  have good: "good_tree L (mo_max_depth M) 0 (JObj b)" "good_tree L (mo_max_depth M) 0 (JObj p)"
    using assms unfolding validate_iff good_tree_def by blast+
  obtain j where j: "merge_config_json M 0 (JObj b) (JObj p) = Inr j" "good_tree L (mo_max_depth M) 0 j"
    using merge_good [OF good] by blast
  then obtain r where r: "j = JObj r" by (auto simp: merge_objects bindR_Inr)
  have rules: "config_merge M (JObj b) (JObj p) (JObj r)"
    using merge_follows_rules [OF good j(1)] unfolding r .
  then have "\<forall>j. config_merge M (JObj b) (JObj p) j \<longleftrightarrow> j = JObj r"
    using config_merge_determ [OF rules] by blast
  then show ?thesis using j unfolding validate_iff good_tree_def r by blast
qed

definition sample_base :: "(string, json) smap" where
  "sample_base = [(''limits'', JObj [(''a'', JInt 1), (''b'', JInt 2)]), (''mode'', JStr ''fast''), (''tags'', JArr [JInt 1])]"

definition sample_overlay :: "(string, json) smap" where
  "sample_overlay = [(''limits'', JObj [(''b'', JInt 3)]), (''mode'', JNull), (''tags'', JArr [JInt 2])]"

theorem config_merge_sound_witness:
  "\<exists>r. merge_config_json default_merge_options 0 (JObj sample_base) (JObj sample_overlay) = Inr (JObj r) \<and>
    validate_config_tree bare_lib 64 0 (JObj r) = Inr () \<and> sm_get r ''mode'' = None \<and>
    sm_get r ''tags'' = Some (JArr [JInt 2])"
proof -
  have "validate_config_tree bare_lib (mo_max_depth default_merge_options) 0 (JObj sample_base) = Inr ()"
      "validate_config_tree bare_lib (mo_max_depth default_merge_options) 0 (JObj sample_overlay) = Inr ()"
      "json_ok (JObj sample_base)" "json_ok (JObj sample_overlay)"
    by (simp_all add: sample_base_def sample_overlay_def default_merge_options_def config_name_def get_string_def j_get_def
        sm_ok_Cons less_char_def)
  from config_merge_sound [OF this(1,3,2,4)] obtain r where
    r: "merge_config_json default_merge_options 0 (JObj sample_base) (JObj sample_overlay) = Inr (JObj r)"
      "validate_config_tree bare_lib (mo_max_depth default_merge_options) 0 (JObj r) = Inr ()"
      "config_merge default_merge_options (JObj sample_base) (JObj sample_overlay) (JObj r)" by blast
  obtain x where x: "sm_get r ''tags'' = Some x" "config_merge default_merge_options (JArr [JInt 1]) (JArr [JInt 2]) x"
    using merged_member(2) [OF r(3), of "''tags''" "JArr [JInt 2]" "JArr [JInt 1]"]
    by (auto simp: sample_base_def sample_overlay_def null_deletes_def)
  moreover have "sm_get r ''mode'' = None"
    by (rule merged_member(1) [OF r(3)]) (simp_all add: sample_overlay_def default_merge_options_def null_deletes_def)
  moreover have "x = JArr [JInt 2]"
    using x(2) by (rule merge_anyE) (simp_all add: default_merge_options_def)
  ultimately show ?thesis using r(1,2) by (simp add: default_merge_options_def)
qed

text \<open>
  Nulls delete members of the base only: in an overlay object without a counterpart they stay, so the
  result can hold the null members that the overlay meant as deletions.
\<close>

lemma nested_nulls_stay:
  "merge_config_json default_merge_options 0 (JObj []) (JObj [(''a'', JObj [(''b'', JNull)])]) =
    Inr (JObj [(''a'', JObj [(''b'', JNull)])])"
  by (simp add: merge_config_json.simps default_merge_options_def)

section \<open>The signed payload\<close>

lemma split_newline:
  "newline \<notin> set x \<Longrightarrow> newline \<notin> set y \<Longrightarrow> x @ newline # s = y @ newline # t \<Longrightarrow> x = y \<and> s = t"
proof (induction x arbitrary: y)
  case Nil
  then show ?case by (cases y) auto
next
  case (Cons c x)
  then show ?case by (cases y) auto
qed

lemma lines_text_inj:
  assumes "lines_text xs = lines_text ys" and "\<forall>x \<in> set xs. newline \<notin> set x" and "\<forall>y \<in> set ys. newline \<notin> set y"
  shows "xs = ys"
  using assms
proof (induction xs arbitrary: ys)
  case Nil
  then show ?case by (cases ys) (auto simp: lines_text_def)
next
  case (Cons x xs)
  then obtain y ys' where ys: "ys = y # ys'" by (cases ys) (auto simp: lines_text_def)
  have "x @ newline # lines_text xs = y @ newline # lines_text ys'"
    using Cons.prems(1) ys by (simp add: lines_text_def)
  moreover have "newline \<notin> set x" "newline \<notin> set y" using Cons.prems(2,3) ys by simp_all
  ultimately have "x = y" "lines_text xs = lines_text ys'"
    using split_newline by blast+
  then show ?case using Cons.IH Cons.prems(2,3) ys by simp
qed

lemma pairs_inj:
  "concat (map (\<lambda>x. [fst x, f (snd x)]) xs) = concat (map (\<lambda>x. [fst x, f (snd x)]) ys) \<Longrightarrow>
    map (\<lambda>x. (fst x, f (snd x))) xs = map (\<lambda>x. (fst x, f (snd x))) ys"
proof (induction xs arbitrary: ys)
  case Nil
  then show ?case by (cases ys) simp_all
next
  case (Cons x xs)
  obtain y ys' where ys: "ys = y # ys'" using Cons.prems by (cases ys) auto
  have "concat (map (\<lambda>x. [fst x, f (snd x)]) xs) = concat (map (\<lambda>x. [fst x, f (snd x)]) ys')"
    using Cons.prems ys by simp
  from Cons.IH [OF this] show ?case using Cons.prems unfolding ys by simp
qed

definition manifest_of :: "(string \<times> string) list \<Rightarrow> (string \<times> string) list" where
  "manifest_of cs = map (\<lambda>x. (fst x, sha256_digest (snd x))) cs"

lemma payload_lines_inj:
  assumes "payload_lines u cs = payload_lines u' cs'"
  shows "sha256_digest u = sha256_digest u' \<and> manifest_of cs = manifest_of cs'"
  using pairs_inj [of sha256_digest "(''manifest.json'', u) # cs" "(''manifest.json'', u') # cs'"] assms
  unfolding payload_lines_def manifest_of_def case_prod_unfold by simp

lemma signing_payload_inj:
  assumes "signing_payload u cs = signing_payload u' cs'"
    and "\<forall>(p, c) \<in> set cs \<union> set cs'. newline \<notin> set p"
  shows "sha256_digest u = sha256_digest u' \<and> manifest_of cs = manifest_of cs'"
proof -
  have "newline \<notin> set ''manifest.json''" by (simp add: newline_def)
  then have "\<forall>x \<in> set (payload_lines u cs). newline \<notin> set x" "\<forall>x \<in> set (payload_lines u' cs'). newline \<notin> set x"
    using assms(2) by (auto simp: payload_lines_def)
  then show ?thesis using payload_lines_inj lines_text_inj assms(1) unfolding signing_payload_def by blast
qed

lemma load_bundleD:
  assumes "load_bundle_from_provider C P = Inr b"
  obtains ps contents where "pv_list P = Inr ps" "read_contents P (sort ps) = Inr contents"
    "bu_signing_payload b = signing_payload (bu_unsigned_manifest b) contents"
    "bu_digest b = sha256_digest (bu_signing_payload b)"
proof -
  have "\<exists>ps contents. thrown (pv_list P) = Inr ps \<and> read_contents P (sort ps) = Inr contents \<and>
      bu_signing_payload b = signing_payload (bu_unsigned_manifest b) contents \<and>
      bu_digest b = sha256_digest (bu_signing_payload b)"
    using assms unfolding load_bundle_from_provider_def Let_def bindR_Inr
    by (elim exE conjE) (intro exI conjI, assumption, assumption, (simp only: sum.inject, elim subst, simp)+)
  then show thesis using that by (auto simp: thrown_def split: sum.splits)
qed

definition files_of :: "string list \<Rightarrow> string list" where
  "files_of ps = filter (\<lambda>p. p \<noteq> ''manifest.json'') (sort ps)"

lemma read_contents_files:
  assumes "read_contents P (sort ps) = Inr contents"
  shows "map fst contents = files_of ps \<and> (\<forall>(p, c) \<in> set contents. pv_read P p = Inr c)"
proof -
  have "list_all2 (\<lambda>p x. fst x = p \<and> pv_read P p = Inr (snd x)) (files_of ps) contents"
    using assms unfolding read_contents_def mapR_Inr files_of_def [symmetric]
    by (rule list_all2_mono) (auto simp: bindR_Inr thrown_def split: sum.splits)
  then show ?thesis by (induction rule: list_all2_induct) auto
qed

lemma manifest_of_digests:
  assumes "manifest_of cs = manifest_of cs'" and "p \<in> fst ` set cs"
  shows "\<exists>c c'. (p, c) \<in> set cs \<and> (p, c') \<in> set cs' \<and> sha256_digest c = sha256_digest c'"
proof -
  obtain c where c: "(p, c) \<in> set cs" using assms(2) by auto
  then have "(p, sha256_digest c) \<in> set (manifest_of cs)" by (force simp: manifest_of_def)
  then have "(p, sha256_digest c) \<in> set (manifest_of cs')" using assms(1) by simp
  then show ?thesis using c by (force simp: manifest_of_def)
qed

text \<open>
  C28. The signed payload covers the files of a bundle: two bundles with the same payload have manifests
  with the same digest, the same file names, and under each name contents with the same digest, as long
  as no file name contains a line break.
\<close>

theorem payload_covers_files:
  assumes "load_bundle_from_provider C P = Inr b" and "load_bundle_from_provider C' P' = Inr b'"
    and "bu_signing_payload b = bu_signing_payload b'"
    and "pv_list P = Inr ps" and "pv_list P' = Inr ps'" and "\<forall>p \<in> set ps \<union> set ps'. newline \<notin> set p"
  shows "sha256_digest (bu_unsigned_manifest b) = sha256_digest (bu_unsigned_manifest b') \<and>
    files_of ps = files_of ps' \<and>
    (\<forall>p \<in> set (files_of ps). \<exists>c c'. pv_read P p = Inr c \<and> pv_read P' p = Inr c' \<and> sha256_digest c = sha256_digest c')"
proof -
  obtain cs where cs: "read_contents P (sort ps) = Inr cs"
      "bu_signing_payload b = signing_payload (bu_unsigned_manifest b) cs"
    using load_bundleD [OF assms(1)] assms(4) by (metis sum.inject(2))
  obtain cs' where cs': "read_contents P' (sort ps') = Inr cs'"
      "bu_signing_payload b' = signing_payload (bu_unsigned_manifest b') cs'"
    using load_bundleD [OF assms(2)] assms(5) by (metis sum.inject(2))
  note f = read_contents_files [OF cs(1)] and f' = read_contents_files [OF cs'(1)]
  have "p \<in> set ps \<union> set ps'" if "(p, c) \<in> set cs \<union> set cs'" for p c
  proof -
    have "p \<in> set (map fst cs) \<union> set (map fst cs')" using that by force
    then show ?thesis using f f' by (auto simp: files_of_def simp del: set_map)
  qed
  then have inj: "sha256_digest (bu_unsigned_manifest b) = sha256_digest (bu_unsigned_manifest b') \<and> manifest_of cs = manifest_of cs'"
    using signing_payload_inj [of "bu_unsigned_manifest b" cs "bu_unsigned_manifest b'" cs'] cs(2) cs'(2) assms(3,6) by fastforce
  have "map fst (manifest_of cs) = map fst cs" "map fst (manifest_of cs') = map fst cs'" by (simp_all add: manifest_of_def)
  then have names: "files_of ps = files_of ps'" using inj f f' by metis
  have "\<exists>c c'. pv_read P p = Inr c \<and> pv_read P' p = Inr c' \<and> sha256_digest c = sha256_digest c'"
    if "p \<in> set (files_of ps)" for p
  proof -
    have "p \<in> fst ` set cs" using that f by (metis list.set_map)
    then obtain c c' where "(p, c) \<in> set cs" "(p, c') \<in> set cs'" "sha256_digest c = sha256_digest c'"
      using manifest_of_digests inj by blast
    then show ?thesis using f f' by blast
  qed
  then show ?thesis using inj names by blast
qed

text \<open>A manifest without files of its own, under which any files load.\<close>

definition bare_manifest :: json where
  "bare_manifest = JObj [(''format'', JStr ''dage-bundle''), (''format_version'', JStr ''0.2.0''), (''id'', JStr ''x''),
     (''version'', JStr ''1.0.0''), (''workflows'', JObj [])]"

definition bare_codec :: codec where
  "bare_codec = \<lparr>cd_lib = bare_lib\<lparr>jl_parse := (\<lambda>_ t. if t = ''m'' then Inr bare_manifest else Inr (JObj []))\<rparr>,
     cd_double = (\<lambda>_. [])\<rparr>"

definition bare_bundle :: "(string \<times> string) list \<Rightarrow> Bundle" where
  "bare_bundle contents = (let u = canonical_json bare_codec (JObj (sm_put ''dependencies'' JNull
       (case bare_manifest of JObj m \<Rightarrow> m | _ \<Rightarrow> []))); payload = signing_payload u contents in
     \<lparr>bu_id = ''x'', bu_version = ''1.0.0'', bu_digest = sha256_digest payload,
      bu_manifest = canonical_json bare_codec bare_manifest, bu_unsigned_manifest = u, bu_signing_payload = payload,
      bu_config = JObj [], bu_workflows = [], bu_dependencies = [], bu_signatures = []\<rparr>)"

lemma bare_bundle_loads:
  assumes "pv_list P = Inr ps" and "foldR check_path (sort ps) {} = Inr seen" and "pv_read P ''manifest.json'' = Inr ''m''"
    and "read_contents P (sort ps) = Inr contents"
  shows "load_bundle_from_provider bare_codec P = Inr (bare_bundle contents)"
proof -
  have r: "read_json (cd_lib bare_codec) ''m'' = Inr bare_manifest" by (simp add: read_json_def bare_codec_def)
  have c: "load_config bare_codec bare_manifest = Inr (JObj [])"
    by (simp add: load_config_def bare_manifest_def j_get_def config_name_def get_string_def parse_json_def bare_codec_def)
  have u: "unsigned_manifest bare_manifest = Inr (JObj (sm_put ''dependencies'' JNull
       (case bare_manifest of JObj m \<Rightarrow> m | _ \<Rightarrow> [])))"
    by (simp add: unsigned_manifest_def bare_manifest_def put_default_def is_member_def j_put_def remove_member_def)
  have h: "check_header (cd_lib bare_codec) bare_manifest = Inr ()" "load_dependencies (cd_lib bare_codec) bare_manifest = Inr []"
      "load_signatures (cd_lib bare_codec) bare_manifest = Inr []" "j_at bare_manifest ''workflows'' = Inr (JObj [])"
      "j_at bare_manifest ''id'' = Inr (JStr ''x'')" "j_at bare_manifest ''version'' = Inr (JStr ''1.0.0'')"
    by (simp_all add: check_header_def load_dependencies_def load_signatures_def bare_manifest_def get_string_def j_get_def j_at_def)
  show ?thesis using assms
    by (simp add: load_bundle_from_provider_def thrown_def r c u h bare_bundle_def Let_def put_all_def)
qed

lemma segments_single: "CHR ''/'' \<notin> set p \<Longrightarrow> segments p = [p]"
proof -
  assume "CHR ''/'' \<notin> set p"
  then have tw: "takeWhile (\<lambda>c. c \<noteq> CHR ''/'') p = p" "dropWhile (\<lambda>c. c \<noteq> CHR ''/'') p = []" by auto
  show ?thesis by (subst segments.simps) (simp only: tw list.case)
qed

lemma safe_name: "CHR ''/'' \<notin> set p \<Longrightarrow> CHR 0x5C \<notin> set p \<Longrightarrow> CHR 0x00 \<notin> set p \<Longrightarrow> 2 < length p \<Longrightarrow> safe_path p"
  by (auto simp: safe_path_def segments_single bad_segment_def)

lemma check_path_safe: "safe_path p \<Longrightarrow> p \<notin> seen \<Longrightarrow> check_path p seen = Inr (insert p seen)"
  using normalize_accepts [of p p] by (simp add: check_path_def thrown_def)

lemma check_paths_accepts:
  "(\<forall>p \<in> set ps. safe_path p \<and> p \<notin> seen) \<Longrightarrow> distinct ps \<Longrightarrow> foldR check_path ps seen = Inr (seen \<union> set ps)"
proof (induction ps arbitrary: seen)
  case (Cons p ps)
  have "foldR check_path ps (insert p seen) = Inr (insert p seen \<union> set ps)" by (rule Cons.IH) (use Cons.prems in auto)
  then show ?case using Cons.prems by (simp add: check_path_safe)
qed simp

context provider_contract
begin

lemma listing_accepted:
  assumes "inv s" and "pv_list (provide s) = Inr ps"
  shows "foldR check_path (sort ps) {} = Inr (set ps)"
  using check_paths_accepts [of "sort ps" "{}"] listed_safe [OF assms] listed_distinct [OF assms] by simp

end

definition note_files :: memory_provider where
  "note_files = [(''a.txt'', ''hello''), (''manifest.json'', ''m'')]"

definition shuffled_provider :: provider where
  "shuffled_provider = (as_provider note_files)\<lparr>pv_list := Inr [''manifest.json'', ''a.txt'']\<rparr>"

lemma note_paths: "safe_path ''a.txt''" "safe_path ''manifest.json''"
  by (rule safe_name; simp)+

lemma note_reads: "mp_read note_files ''a.txt'' = Inr ''hello''" "mp_read note_files ''manifest.json'' = Inr ''m''"
  using note_paths normalize_accepts [of "''a.txt''" "''a.txt''"] normalize_accepts [of "''manifest.json''" "''manifest.json''"]
  by (simp_all add: mp_read_def note_files_def)

lemma note_loads:
  "load_bundle_from_provider bare_codec (as_provider note_files) = Inr (bare_bundle [(''a.txt'', ''hello'')])"
  "load_bundle_from_provider bare_codec shuffled_provider = Inr (bare_bundle [(''a.txt'', ''hello'')])"
proof -
  have s: "sort [''a.txt'', ''manifest.json''] = [''a.txt'', ''manifest.json'']"
      "sort [''manifest.json'', ''a.txt''] = [''a.txt'', ''manifest.json'']"
    by (simp_all add: less_char_def)
  have c: "foldR check_path [''a.txt'', ''manifest.json''] {} = Inr {''a.txt'', ''manifest.json''}"
    using note_paths by (simp add: check_path_safe insert_commute)
  show "load_bundle_from_provider bare_codec (as_provider note_files) = Inr (bare_bundle [(''a.txt'', ''hello'')])"
    by (rule bare_bundle_loads [of _ "[''a.txt'', ''manifest.json'']" "{''a.txt'', ''manifest.json''}"], unfold s c)
      (simp_all add: as_provider_def mp_list_def note_reads read_contents_def thrown_def, simp add: note_files_def)
  show "load_bundle_from_provider bare_codec shuffled_provider = Inr (bare_bundle [(''a.txt'', ''hello'')])"
    by (rule bare_bundle_loads [of _ "[''manifest.json'', ''a.txt'']" "{''a.txt'', ''manifest.json''}"], unfold s c)
      (simp_all add: shuffled_provider_def as_provider_def note_reads read_contents_def thrown_def)
qed

theorem payload_covers_files_witness:
  "files_of [''a.txt'', ''manifest.json''] = files_of [''manifest.json'', ''a.txt''] \<and>
   bu_digest (bare_bundle [(''a.txt'', ''hello'')]) = sha256_digest (bu_signing_payload (bare_bundle [(''a.txt'', ''hello'')]))"
proof -
  have l: "pv_list (as_provider note_files) = Inr [''a.txt'', ''manifest.json'']"
      "pv_list shuffled_provider = Inr [''manifest.json'', ''a.txt'']"
    by (simp_all add: as_provider_def mp_list_def note_files_def shuffled_provider_def)
  have "\<forall>p \<in> set [''a.txt'', ''manifest.json''] \<union> set [''manifest.json'', ''a.txt'']. newline \<notin> set p"
    by (simp add: newline_def)
  then show ?thesis using payload_covers_files [OF note_loads refl l] by (simp add: bare_bundle_def Let_def)
qed

text \<open>
  A file name may contain line breaks, and then the payload is ambiguous: the two files \<open>a\<close> and \<open>b\<close> can
  be replaced by one file whose name spells out the lines in between.
\<close>

definition spliced_name :: "string \<Rightarrow> string" where
  "spliced_name x = ''a'' @ [newline] @ sha256_digest x @ [newline] @ ''b''"

lemma spliced_payload: "signing_payload u [(''a'', x), (''b'', y)] = signing_payload u [(spliced_name x, y)]"
  by (simp add: signing_payload_def payload_lines_def lines_text_def spliced_name_def)

lemma spliced_safe: "safe_path (spliced_name x)"
proof -
  obtain hex where h: "sha256_digest x = ''sha256:'' @ hex" "\<forall>c \<in> set hex. lower_hex c" using sha256_digest_shape by blast
  have "\<not> lower_hex CHR ''/''" "\<not> lower_hex CHR 0x5C" "\<not> lower_hex CHR 0x00"
    by (simp_all add: lower_hex_def less_eq_char_def)
  then have "CHR ''/'' \<notin> set hex" "CHR 0x5C \<notin> set hex" "CHR 0x00 \<notin> set hex" using h(2) by blast+
  then show ?thesis by (intro safe_name) (simp_all add: spliced_name_def h(1) newline_def)
qed

theorem payload_ambiguous_with_line_breaks:
  "\<exists>P P' b b'. load_bundle_from_provider bare_codec P = Inr b \<and> load_bundle_from_provider bare_codec P' = Inr b' \<and>
    pv_list P = Inr [''a'', ''b'', ''manifest.json''] \<and> pv_list P' = Inr [spliced_name x, ''manifest.json''] \<and>
    bu_signing_payload b = bu_signing_payload b' \<and> bu_digest b = bu_digest b'"
proof -
  let ?m = "[(''a'', x), (''b'', y), (''manifest.json'', ''m'')]" and ?m' = "[(spliced_name x, y), (''manifest.json'', ''m'')]"
  have safe: "safe_path ''a''" "safe_path ''b''" "safe_path ''manifest.json''"
    by (simp_all add: safe_path_def segments_single bad_segment_def)
  note acc = safe [THEN normalize_accepts [THEN iffD2, OF conjI [OF refl]]] spliced_safe [THEN normalize_accepts [THEN iffD2, OF conjI [OF refl]]]
  have ne: "spliced_name x \<noteq> ''manifest.json''" by (simp add: spliced_name_def)
  have s: "sort [''a'', ''b'', ''manifest.json''] = [''a'', ''b'', ''manifest.json'']"
      "sort [spliced_name x, ''manifest.json''] = [spliced_name x, ''manifest.json'']"
    by (simp_all add: less_char_def spliced_name_def)
  have "load_bundle_from_provider bare_codec (as_provider ?m) = Inr (bare_bundle [(''a'', x), (''b'', y)])"
    by (rule bare_bundle_loads [of _ "[''a'', ''b'', ''manifest.json'']" "{''a'', ''b'', ''manifest.json''}"], unfold s)
      (simp_all add: as_provider_def mp_list_def safe check_path_safe mp_read_def acc read_contents_def thrown_def insert_commute)
  moreover have "load_bundle_from_provider bare_codec (as_provider ?m') = Inr (bare_bundle [(spliced_name x, y)])"
    by (rule bare_bundle_loads [of _ "[spliced_name x, ''manifest.json'']" "{spliced_name x, ''manifest.json''}"], unfold s)
      (use ne in \<open>simp_all add: as_provider_def mp_list_def insert_commute safe spliced_safe check_path_safe mp_read_def acc read_contents_def
        thrown_def eq_commute [of "''manifest.json''"]\<close>)
  ultimately show ?thesis
    by (intro exI conjI) (assumption | simp add: as_provider_def mp_list_def bare_bundle_def Let_def spliced_payload)+
qed

text \<open>The payload of a manifest without dependencies has a null member for them.\<close>

lemma unsigned_manifest_adds_dependencies:
  assumes "manifest = JObj m" and "sm_get m ''dependencies'' = None" and "sm_get m ''signatures'' = None" and "sm_ok m"
  shows "\<exists>m'. unsigned_manifest manifest = Inr (JObj m') \<and> sm_get m' ''dependencies'' = Some JNull"
  using assms by (simp add: unsigned_manifest_def put_default_def is_member_def j_put_def remove_member_def sm_get_del)

end
