(* ===== verification/Resolver_Sample.thy ===== *)
theory Resolver_Sample
  imports Bundle_Resolver Bundle_Laws
begin

text \<open>
  Two small bundles for concrete runs of the resolver: the bundle \<open>a\<close> needs the bundle \<open>b\<close> from a
  repository in memory. The reader of the library is instantiated by a function that knows the two
  manifests and one lock document, and the writer gives every document the same text.
\<close>

definition member_manifest :: "string \<Rightarrow> string \<Rightarrow> json \<Rightarrow> json list \<Rightarrow> json" where
  "member_manifest ident version deps signatures = JObj [(''dependencies'', deps), (''format'', JStr ''dage-bundle''),
     (''format_version'', JStr ''0.2.0''), (''id'', JStr ident), (''signatures'', JArr signatures),
     (''version'', JStr version), (''workflows'', JObj [])]"

definition bare_member :: "string \<Rightarrow> string \<Rightarrow> json \<Rightarrow> json" where
  "bare_member ident version deps = JObj [(''dependencies'', deps), (''format'', JStr ''dage-bundle''),
     (''format_version'', JStr ''0.2.0''), (''id'', JStr ident), (''version'', JStr version), (''workflows'', JObj [])]"

definition a_needs :: json where
  "a_needs = JObj [(''b'', JStr ''^1.0.0'')]"

definition signed_by :: "string \<Rightarrow> json" where
  "signed_by key_id = JObj [(''algorithm'', JStr ''ed25519''), (''key_id'', JStr key_id), (''signature'', JStr ''c2ln'')]"

definition sample_codec :: "json \<Rightarrow> codec" where
  "sample_codec doc = \<lparr>cd_lib = bare_lib\<lparr>jl_parse := (\<lambda>_ t.
       if t = ''A'' then Inr (member_manifest ''a'' ''1.0.0'' a_needs [signed_by ''k''])
       else if t = ''B'' then Inr (member_manifest ''b'' ''1.2.0'' (JObj []) [signed_by ''k''])
       else if t = ''L'' then Inr doc
       else if t = [] then Inl ''empty'' else Inr (JObj [])), jl_write := (\<lambda>_ _. ''L'')\<rparr>, cd_double = (\<lambda>_. [])\<rparr>"

definition sample_member :: "string \<Rightarrow> string \<Rightarrow> json \<Rightarrow> BundleDependency list \<Rightarrow> Bundle" where
  "sample_member ident version deps needs =
    (let u = canonical_json bare_codec (bare_member ident version deps); payload = signing_payload u [] in
     \<lparr>bu_id = ident, bu_version = version, bu_digest = sha256_digest payload,
      bu_manifest = canonical_json bare_codec (member_manifest ident version deps [signed_by ''k'']), bu_unsigned_manifest = u,
      bu_signing_payload = payload, bu_config = JObj [], bu_workflows = [], bu_dependencies = needs,
      bu_signatures = [\<lparr>bs_algorithm = ''ed25519'', bs_key_id = ''k'', bs_signature_base64 = ''c2ln'', bs_signed_at = []\<rparr>]\<rparr>)"

definition bundle_a :: Bundle where
  "bundle_a = sample_member ''a'' ''1.0.0'' a_needs [\<lparr>bd_id = ''b'', bd_constraint = ''^1.0.0''\<rparr>]"

definition bundle_b :: Bundle where
  "bundle_b = sample_member ''b'' ''1.2.0'' (JObj []) []"

definition manifest_only :: "string \<Rightarrow> provider" where
  "manifest_only t = as_provider [(''manifest.json'', t)]"

definition sample_repository :: memory_repository where
  "sample_repository = \<lparr>mr_source = ''mem'', mr_bundles = [(''b'', [(''1.2.0'', manifest_only ''B'')])]\<rparr>"

lemma canonical_json_double: "cd_double C = cd_double C' \<Longrightarrow> canonical_json C j = canonical_json C' j"
proof (induction C j rule: canonical_json.induct)
  case (7 C xs)
  then show ?case by (simp cong: map_cong)
next
  case (8 C m)
  then have "map (\<lambda>(k, v). append_string k @ '':'' @ canonical_json C v) m =
      map (\<lambda>(k, v). append_string k @ '':'' @ canonical_json C' v) m"
    by (intro map_cong) auto
  then show ?case by (simp only: canonical_json.simps)
qed auto


lemma canonical_sample [simp]: "canonical_json (sample_codec doc) j = canonical_json bare_codec j"
  by (rule canonical_json_double) (simp add: sample_codec_def bare_codec_def)

lemma manifest_only_loads:
  assumes "read_json (cd_lib (sample_codec doc)) t = Inr (member_manifest ident version deps [signed_by ''k''])"
    and "deps = JObj m" and "load_dependencies (cd_lib (sample_codec doc)) (member_manifest ident version deps [signed_by ''k'']) = Inr needs"
  shows "load_bundle_from_provider (sample_codec doc) (manifest_only t) = Inr (sample_member ident version deps needs)"
proof -
  have safe: "safe_path ''manifest.json''" by (rule note_paths)
  have read: "mp_read [(''manifest.json'', t)] ''manifest.json'' = Inr t"
    using normalize_accepts [of "''manifest.json''" "''manifest.json''"] safe by (simp add: mp_read_def)
  let ?M = "member_manifest ident version deps [signed_by ''k'']"
  have c: "load_config (sample_codec doc) ?M = Inr (JObj [])"
    by (simp add: load_config_def member_manifest_def j_get_def config_name_def get_string_def parse_json_def sample_codec_def)
  have u: "unsigned_manifest ?M = Inr (bare_member ident version deps)"
    by (simp add: unsigned_manifest_def member_manifest_def bare_member_def put_default_def is_member_def remove_member_def)
  have h: "check_header (cd_lib (sample_codec doc)) ?M = Inr ()" "j_at ?M ''workflows'' = Inr (JObj [])"
      "j_at ?M ''id'' = Inr (JStr ident)" "j_at ?M ''version'' = Inr (JStr version)"
      "load_signatures (cd_lib (sample_codec doc)) ?M =
        Inr [\<lparr>bs_algorithm = ''ed25519'', bs_key_id = ''k'', bs_signature_base64 = ''c2ln'', bs_signed_at = []\<rparr>]"
    by (simp_all add: check_header_def load_signatures_def load_signature_def signed_by_def member_manifest_def get_string_def j_get_def j_at_def)
  show ?thesis
    by (simp add: load_bundle_from_provider_def thrown_def manifest_only_def as_provider_def mp_list_def safe check_path_safe
        read assms(1,3) c u h read_contents_def sample_member_def Let_def put_all_def)
qed

lemma sample_loads:
  "load_bundle_from_provider (sample_codec doc) (manifest_only ''A'') = Inr bundle_a"
  "load_bundle_from_provider (sample_codec doc) (manifest_only ''B'') = Inr bundle_b"
  unfolding bundle_a_def bundle_b_def
  by (rule manifest_only_loads; simp add: read_json_def sample_codec_def load_dependencies_def member_manifest_def j_get_def a_needs_def)+

lemma sample_satisfies: "satisfies ''1.2.0'' ''^1.0.0''" "parse_version ''1.2.0'' \<noteq> None"
  by code_simp+

definition sample_resolver :: BundleResolverOptions where
  "sample_resolver = \<lparr>op_mode = Development, op_repository = Some (as_repository sample_repository), op_keys = None,
     op_trust = None, op_lock_json = [], op_signature_policy = \<lparr>sp_kind = AtLeastOne, sp_threshold = 1\<rparr>\<rparr>"

definition sample_graph :: "BundleLoadMode \<Rightarrow> ResolvedBundleGraph" where
  "sample_graph mode = \<lparr>gr_root_id = ''a'', gr_lock = ''L'', gr_mode = mode,
     gr_bundles = [(''a'', bundle_a), (''b'', bundle_b)], gr_order = [''b'', ''a'']\<rparr>"

lemma sample_fields [simp]:
  "bu_id bundle_a = ''a''" "bu_version bundle_a = ''1.0.0''" "bu_dependencies bundle_a = [\<lparr>bd_id = ''b'', bd_constraint = ''^1.0.0''\<rparr>]"
  "bu_id bundle_b = ''b''" "bu_version bundle_b = ''1.2.0''" "bu_dependencies bundle_b = []"
  by (simp_all add: bundle_a_def bundle_b_def sample_member_def Let_def)

lemma sample_repository_gets [simp]:
  "rp_get (as_repository sample_repository) ''b'' ''1.2.0'' offline = Inr (manifest_only ''B'')"
  "rp_versions (as_repository sample_repository) ''b'' offline = Inr [''1.2.0'']"
  "rp_source (as_repository sample_repository) = ''mem''"
  by (simp_all add: as_repository_def sample_repository_def mr_get_def mr_available_versions_def)

lemma sample_lock_text [simp]: "write_json (cd_lib (sample_codec doc)) j styled = ''L''"
  by (simp add: write_json_def sample_codec_def)

lemma sample_fetch:
  assumes "rv_codec R = sample_codec doc"
  shows "fetch R (as_repository sample_repository) \<lparr>bd_id = ''b'', bd_constraint = ''^1.0.0''\<rparr> ''1.2.0'' = Inr bundle_b"
  using assms by (simp add: fetch_def thrown_def failed_def sample_loads)

lemma sample_best: "fold (better ''^1.0.0'') [''1.2.0''] None = parse_version ''1.2.0''"
  using sample_satisfies by (auto simp: better_def split: option.split)

lemma parse_sample: "parse_version ''1.2.0'' = Some \<lparr>ve_major = 1, ve_minor = 2, ve_patch = 0, ve_text = ''1.2.0''\<rparr>"
  by code_simp

lemma sample_resolves:
  "resolve 2 (sample_codec doc) K sample_resolver (manifest_only ''A'') = Some (Inr (sample_graph Development))"
proof -
  let ?R = "\<lparr>rv_codec = sample_codec doc, rv_crypto = K, rv_options = sample_resolver, rv_locks = []\<rparr>"
  have m: "\<not> locked_mode ?R" "\<not> verified_mode ?R" "op_repository sample_resolver = Some (as_repository sample_repository)"
      "op_lock_json sample_resolver = []" "op_mode sample_resolver = Development"
    by (simp_all add: locked_mode_def verified_mode_def sample_resolver_def)
  have sel: "select_version ?R (as_repository sample_repository) \<lparr>bd_id = ''b'', bd_constraint = ''^1.0.0''\<rparr> = Inr ''1.2.0''"
    using sample_best parse_sample by (simp add: select_version_def m thrown_def failed_def)
  have v: "visit 2 ?R bundle_a ''root'' empty_resolution = Inr \<lparr>rs_selected = [(''a'', ''1.0.0''), (''b'', ''1.2.0'')],
      rs_active = {}, rs_bundles = [(''a'', bundle_a), (''b'', bundle_b)], rs_order = [''b'', ''a'']\<rparr>"
    by (simp add: eval_nat_numeral visit_dependency_def check_lock_def m sel sample_fetch enter_bundle_def leave_bundle_def
        empty_resolution_def less_char_def)
  show ?thesis
    by (simp add: resolve_def resolve_unchecked_def resolve_from_def parse_lock_def m failed_def sample_loads v sample_graph_def)
qed

end
