(* ===== verification/Resolver_Laws.thy ===== *)
theory Resolver_Laws
  imports Resolver_Sample
begin

text \<open>
  The safety of the bundle resolver: a resolved graph lists every bundle after its dependencies, and all
  constraints, locks and signature policies hold in it. The invariant of the traversal and its lemmas are
  shared with the theories on lockfiles, on termination and on deployment.
\<close>

section \<open>Selecting a version\<close>

lemma parse_version_text: "parse_version t = Some v \<Longrightarrow> ve_text v = t"
  by (auto simp: parse_version_def split: option.splits if_splits)

definition candidate :: "string \<Rightarrow> string list \<Rightarrow> Version \<Rightarrow> bool" where
  "candidate constraint versions v = (ve_text v \<in> set versions \<and> parse_version (ve_text v) = Some v \<and>
     satisfies (ve_text v) constraint)"

definition best_of :: "string \<Rightarrow> string list \<Rightarrow> Version option \<Rightarrow> bool" where
  "best_of constraint versions best = (case best of
     None \<Rightarrow> \<forall>v. \<not> candidate constraint versions v
   | Some b \<Rightarrow> candidate constraint versions b \<and> (\<forall>v. candidate constraint versions v \<longrightarrow> compare_versions v b \<le> 0))"

lemma compare_versions_trans: "compare_versions a b \<le> 0 \<Longrightarrow> compare_versions b c \<le> 0 \<Longrightarrow> compare_versions a c \<le> 0"
  by (auto simp: compare_versions_def split: if_splits)

lemma compare_versions_linear: "compare_versions a a \<le> 0" "0 < compare_versions a b \<Longrightarrow> compare_versions b a \<le> 0"
  by (auto simp: compare_versions_def split: if_splits)

lemma candidate_snoc:
  "candidate c (vs @ [x]) v \<longleftrightarrow> candidate c vs v \<or> parse_version x = Some v \<and> satisfies x c"
  using parse_version_text [of x v] by (auto simp: candidate_def)

lemma best_of_better:
  assumes "best_of c vs best"
  shows "best_of c (vs @ [x]) (better c x best)"
proof (cases "\<exists>v. parse_version x = Some v \<and> satisfies x c")
  case False
  then have "better c x best = best" by (auto simp: better_def split: option.split)
  then show ?thesis using assms False by (auto simp: best_of_def candidate_snoc split: option.splits)
next
  case True
  then obtain v where v: "parse_version x = Some v" "satisfies x c" by blast
  show ?thesis
  proof (cases "\<exists>b. best = Some b \<and> compare_versions v b \<le> 0")
    case True
    then show ?thesis using assms v by (auto simp: better_def best_of_def candidate_snoc)
  next
    case False
    then have "better c x best = Some v" using v by (auto simp: better_def split: option.splits)
    moreover have "compare_versions w v \<le> 0" if "candidate c vs w" for w
      using that False assms compare_versions_linear(2) compare_versions_trans
      by (fastforce simp: best_of_def not_le split: option.splits)
    ultimately show ?thesis using v compare_versions_linear(1) by (auto simp: best_of_def candidate_snoc)
  qed
qed

lemma best_of_fold: "best_of c versions (fold (better c) versions None)"
proof (induction versions rule: rev_induct)
  case Nil
  show ?case by (simp add: best_of_def candidate_def)
next
  case (snoc x vs)
  then show ?case by (simp add: best_of_better)
qed

lemma select_version_satisfies:
  assumes "select_version R repo dep = Inr version"
  shows "satisfies version (bd_constraint dep)"
  using assms best_of_fold [of "bd_constraint dep"]
  by (force simp: select_version_def bindR_Inr refuse_def best_of_def candidate_def split: if_splits option.splits)

section \<open>The invariant of the resolution\<close>

definition provided :: "resolver \<Rightarrow> Bundle \<Rightarrow> Bundle \<Rightarrow> bool" where
  "provided R top_bundle b = (b = top_bundle \<or> (\<exists>repo q. op_repository (rv_options R) = Some repo \<and>
     rp_get repo (bu_id b) (bu_version b) (offline_mode R) = Inr q \<and> load_bundle_from_provider (rv_codec R) q = Inr b \<and>
     parse_version (bu_version b) \<noteq> None))"

definition admitted :: "resolver \<Rightarrow> Bundle \<Rightarrow> bool" where
  "admitted R b = ((locked_mode R \<longrightarrow> (\<exists>lock. sm_get (rv_locks R) (bu_id b) = Some lock \<and>
       lk_version lock = bu_version b \<and> lk_digest lock = bu_digest b)) \<and>
     (verified_mode R \<longrightarrow> verify_signatures (rv_crypto R) (rv_options R) b = Inr ()))"

definition settled :: "(string, Bundle) smap \<Rightarrow> string set \<Rightarrow> BundleDependency \<Rightarrow> bool" where
  "settled bundles before dep = (bd_id dep \<in> before \<and>
     (\<exists>c. sm_get bundles (bd_id dep) = Some c \<and> satisfies (bu_version c) (bd_constraint dep)))"

definition dependencies_first :: "(string, Bundle) smap \<Rightarrow> string list \<Rightarrow> bool" where
  "dependencies_first bundles order = (\<forall>i < length order. \<exists>b. sm_get bundles (order ! i) = Some b \<and>
     (\<forall>dep \<in> set (bu_dependencies b). settled bundles (set (take i order)) dep))"

definition resolving :: "resolver \<Rightarrow> Bundle \<Rightarrow> resolution \<Rightarrow> bool" where
  "resolving R top_bundle st =
    ((\<forall>k. sm_get (rs_selected st) k = map_option bu_version (sm_get (rs_bundles st) k)) \<and>
     (\<forall>k b. sm_get (rs_bundles st) k = Some b \<longrightarrow> bu_id b = k \<and> admitted R b \<and> provided R top_bundle b) \<and>
     sm_ok (rs_bundles st) \<and> distinct (rs_order st) \<and> set (rs_order st) \<inter> rs_active st = {} \<and>
     set (rs_order st) \<union> rs_active st = set (sm_keys (rs_bundles st)) \<and>
     dependencies_first (rs_bundles st) (rs_order st))"

definition grows :: "resolution \<Rightarrow> resolution \<Rightarrow> bool" where
  "grows st st' = (rs_active st' = rs_active st \<and> (\<exists>xs. rs_order st' = rs_order st @ xs) \<and>
     (\<forall>k b. sm_get (rs_bundles st) k = Some b \<longrightarrow> sm_get (rs_bundles st') k = Some b))"

lemma grows_refl [simp]: "grows st st"
  by (simp add: grows_def)

lemma grows_trans: "grows a b \<Longrightarrow> grows b c \<Longrightarrow> grows a c"
  unfolding grows_def by (metis append_assoc)

lemma settled_mono:
  "settled m A dep \<Longrightarrow> A \<subseteq> B \<Longrightarrow> (\<And>k b. sm_get m k = Some b \<Longrightarrow> sm_get m' k = Some b) \<Longrightarrow> settled m' B dep"
  unfolding settled_def by blast

lemma settled_grows:
  "settled (rs_bundles st) (set (rs_order st)) dep \<Longrightarrow> grows st st' \<Longrightarrow> settled (rs_bundles st') (set (rs_order st')) dep"
  unfolding grows_def by (erule settled_mono) auto

lemma dependencies_first_mono:
  assumes "dependencies_first m order" and "\<And>k b. sm_get m k = Some b \<Longrightarrow> sm_get m' k = Some b"
  shows "dependencies_first m' order"
  using assms unfolding dependencies_first_def by (meson settled_mono order_refl)

lemma dependencies_first_snoc:
  assumes "dependencies_first m order" and "sm_get m x = Some b"
    and "\<forall>dep \<in> set (bu_dependencies b). settled m (set order) dep"
  shows "dependencies_first m (order @ [x])"
  using assms unfolding dependencies_first_def by (auto simp: nth_append less_Suc_eq)

lemma resolving_selected:
  assumes "resolving R r st" and "sm_get (rs_selected st) k = Some version" and "k \<notin> rs_active st"
  shows "k \<in> set (rs_order st) \<and> (\<exists>c. sm_get (rs_bundles st) k = Some c \<and> bu_version c = version)"
proof -
  have "sm_get (rs_selected st) k = map_option bu_version (sm_get (rs_bundles st) k)"
      "set (rs_order st) \<union> rs_active st = set (sm_keys (rs_bundles st))"
    using assms(1) by (simp_all add: resolving_def)
  then obtain c where "sm_get (rs_bundles st) k = Some c" "bu_version c = version"
    using assms(2) by (cases "sm_get (rs_bundles st) k") auto
  moreover from this(1) have "k \<in> set (sm_keys (rs_bundles st))" by (rule sm_get_Some_key)
  ultimately show ?thesis using assms(3) \<open>_ \<union> _ = _\<close> by blast
qed

lemma resolving_enter:
  assumes "resolving R r st" and "sm_get (rs_selected st) (bu_id b) = None" and "admitted R b" and "provided R r b"
  shows "resolving R r (enter_bundle b st)"
proof -
  have new: "sm_get (rs_bundles st) (bu_id b) = None" using assms(1,2) by (simp add: resolving_def)
  then have fresh: "bu_id b \<notin> set (rs_order st)" using assms(1) by (auto simp: resolving_def sm_get_None_iff)
  have "dependencies_first (sm_put (bu_id b) b (rs_bundles st)) (rs_order st)"
    by (rule dependencies_first_mono [of "rs_bundles st"]) (use assms(1) new in \<open>auto simp: resolving_def\<close>)
  then show ?thesis using assms fresh sm_keys_put [of "bu_id b" b "rs_bundles st"]
    by (auto simp: resolving_def enter_bundle_def)
qed

lemma resolving_leave:
  assumes "resolving R r st" and "bu_id b \<in> rs_active st" and "sm_get (rs_bundles st) (bu_id b) = Some b"
    and "\<forall>dep \<in> set (bu_dependencies b). settled (rs_bundles st) (set (rs_order st)) dep"
  shows "resolving R r (leave_bundle b st)"
proof -
  have "dependencies_first (rs_bundles st) (rs_order st @ [bu_id b])"
    by (rule dependencies_first_snoc [OF _ assms(3,4)]) (use assms(1) in \<open>simp add: resolving_def\<close>)
  moreover have "set (rs_order st) \<inter> rs_active st = {}" "set (rs_order st) \<union> rs_active st = set (sm_keys (rs_bundles st))"
    using assms(1) by (simp_all add: resolving_def)
  then have "bu_id b \<notin> set (rs_order st)" "set (rs_order st @ [bu_id b]) \<inter> (rs_active st - {bu_id b}) = {}"
      "set (rs_order st @ [bu_id b]) \<union> (rs_active st - {bu_id b}) = set (sm_keys (rs_bundles st))"
    using assms(2) by auto
  ultimately show ?thesis using assms(1) unfolding resolving_def leave_bundle_def by simp
qed

section \<open>What a visit does\<close>

definition visits :: "resolver \<Rightarrow> Bundle \<Rightarrow> (Bundle \<Rightarrow> string \<Rightarrow> resolution \<Rightarrow> resolve_fault + resolution) \<Rightarrow> bool" where
  "visits R r go = (\<forall>b source st st'. resolving R r st \<longrightarrow> provided R r b \<longrightarrow> go b source st = Inr st' \<longrightarrow>
     resolving R r st' \<and> grows st st' \<and> bu_id b \<in> set (rs_order st') \<and>
     (\<exists>c. sm_get (rs_bundles st') (bu_id b) = Some c \<and> bu_version c = bu_version b))"

lemma failed_Inr [simp]: "failed R x = Inr y \<longleftrightarrow> x = Inr y"
  by (simp add: failed_def split: sum.splits)

lemma thrown_Inr [simp]: "thrown x = Inr y \<longleftrightarrow> x = Inr y"
  by (simp add: thrown_def split: sum.splits)

lemma refuse_Inr [simp]: "refuse c i \<noteq> Inr y"
  by (simp add: refuse_def)

lemma fetchD:
  assumes "fetch R repo dep version = Inr b"
  shows "bu_id b = bd_id dep \<and> bu_version b = version \<and> (\<exists>q. rp_get repo (bd_id dep) version (offline_mode R) = Inr q \<and>
    load_bundle_from_provider (rv_codec R) q = Inr b)"
  using assms by (auto simp: fetch_def bindR_Inr split: if_splits)

lemma visit_dependency_keeps:
  assumes "visits R r go" and "resolving R r st" and "visit_dependency R go dep st = Inr st'"
  shows "resolving R r st' \<and> grows st st' \<and> settled (rs_bundles st') (set (rs_order st')) dep"
proof (cases "sm_get (rs_selected st) (bd_id dep)")
  case (Some version)
  then have "st' = st" "satisfies version (bd_constraint dep)" "bd_id dep \<notin> rs_active st"
    using assms(3) by (auto simp: visit_dependency_def split: if_splits)
  then show ?thesis using resolving_selected [OF assms(2) Some] assms(2) by (auto simp: settled_def)
next
  case None
  then obtain repo version b where s: "op_repository (rv_options R) = Some repo" "select_version R repo dep = Inr version"
      "fetch R repo dep version = Inr b" "go b (rp_source repo) st = Inr st'"
    using assms(3) by (auto simp: visit_dependency_def bindR_Inr split: if_splits option.splits)
  have b: "provided R r b" "bu_id b = bd_id dep" "bu_version b = version"
    using fetchD [OF s(3)] s(1) select_version_satisfies [OF s(2)]
    by (auto simp: provided_def satisfies_def split: option.splits)
  have "resolving R r st' \<and> grows st st' \<and> bu_id b \<in> set (rs_order st') \<and>
      (\<exists>c. sm_get (rs_bundles st') (bu_id b) = Some c \<and> bu_version c = bu_version b)"
    using assms(1,2) b(1) s(4) unfolding visits_def by blast
  then show ?thesis using select_version_satisfies [OF s(2)] b(2,3) unfolding settled_def by metis
qed

lemma visit_dependencies_keep:
  assumes "foldR (visit_dependency R go) deps st = Inr st'" and "visits R r go" and "resolving R r st"
  shows "resolving R r st' \<and> grows st st' \<and> (\<forall>dep \<in> set deps. settled (rs_bundles st') (set (rs_order st')) dep)"
  using assms(1,3)
proof (induction deps arbitrary: st)
  case (Cons dep deps)
  then obtain st1 where s: "visit_dependency R go dep st = Inr st1" "foldR (visit_dependency R go) deps st1 = Inr st'"
    by (auto simp: bindR_Inr)
  note first = visit_dependency_keeps [OF assms(2) Cons.prems(2) s(1)]
  with Cons.IH [OF s(2)] show ?case by (auto intro: grows_trans settled_grows)
qed simp

lemma check_lock_admits:
  assumes "check_lock R b source = Inr ()"
    and "(if verified_mode R then failed R (verify_signatures (rv_crypto R) (rv_options R) b) else Inr ()) = Inr ()"
  shows "admitted R b"
  using assms by (auto simp: admitted_def check_lock_def split: if_splits option.splits)

lemma visit_visits: "visits R r (visit fuel R)"
proof (induction fuel)
  case (Suc fuel)
  show ?case unfolding visits_def
  proof (intro allI impI)
    fix b source st st'
    assume st: "resolving R r st" and b: "provided R r b" and v: "visit (Suc fuel) R b source st = Inr st'"
    show "resolving R r st' \<and> grows st st' \<and> bu_id b \<in> set (rs_order st') \<and>
      (\<exists>c. sm_get (rs_bundles st') (bu_id b) = Some c \<and> bu_version c = bu_version b)"
    proof (cases "sm_get (rs_selected st) (bu_id b)")
      case (Some version)
      then have "st' = st" "version = bu_version b" "bu_id b \<notin> rs_active st" using v by (auto split: if_splits)
      then show ?thesis using resolving_selected [OF st Some] st by simp
    next
      case None
      then obtain st1 where s: "check_lock R b source = Inr ()"
          "(if verified_mode R then failed R (verify_signatures (rv_crypto R) (rv_options R) b) else Inr ()) = Inr ()"
          "foldR (visit_dependency R (visit fuel R)) (bu_dependencies b) (enter_bundle b st) = Inr st1"
          "st' = leave_bundle b st1" "bu_id b \<notin> rs_active st"
        using v by (auto simp: bindR_Inr split: if_splits)
      note inner = visit_dependencies_keep [OF s(3) Suc.IH resolving_enter [OF st None check_lock_admits [OF s(1,2)] b]]
      then have in1: "sm_get (rs_bundles st1) (bu_id b) = Some b" "bu_id b \<in> rs_active st1"
        by (auto simp: grows_def enter_bundle_def)
      have "sm_get (rs_bundles st) (bu_id b) = None" using None st by (simp add: resolving_def)
      then have "sm_get (rs_bundles st1) k = Some x" if "sm_get (rs_bundles st) k = Some x" for k x
        using inner that by (cases "k = bu_id b") (auto simp: grows_def enter_bundle_def)
      then have "grows st st'" using inner s(4,5) by (auto simp: grows_def enter_bundle_def leave_bundle_def)
      then show ?thesis using resolving_leave [OF _ in1(2,1), of R r] inner in1 s(4) by (auto simp: leave_bundle_def)
    qed
  qed
qed (simp add: visits_def)


text \<open>A visited bundle that is new stays in the graph itself.\<close>

lemma visit_new:
  assumes "visit fuel R b source st = Inr st'" and "sm_get (rs_selected st) (bu_id b) = None"
    and "resolving R r st" and "provided R r b"
  shows "sm_get (rs_bundles st') (bu_id b) = Some b"
proof (cases fuel)
  case (Suc n)
  then obtain st1 where s: "check_lock R b source = Inr ()"
      "(if verified_mode R then failed R (verify_signatures (rv_crypto R) (rv_options R) b) else Inr ()) = Inr ()"
      "foldR (visit_dependency R (visit n R)) (bu_dependencies b) (enter_bundle b st) = Inr st1" "st' = leave_bundle b st1"
    using assms(1,2) by (auto simp: bindR_Inr split: if_splits)
  show ?thesis using visit_dependencies_keep [OF s(3) visit_visits resolving_enter [OF assms(3,2) check_lock_admits [OF s(1,2)] assms(4)]]
      s(4) by (auto simp: grows_def enter_bundle_def leave_bundle_def)
qed (use assms in simp)

lemma resolving_empty: "resolving R r empty_resolution"
  by (simp add: resolving_def empty_resolution_def dependencies_first_def)

lemma resolveD:
  assumes "resolve fuel C K opts p = Some (Inr g)"
  shows "\<exists>locks b st. parse_lock (cd_lib C) (op_lock_json opts) = Inr locks \<and> load_bundle_from_provider C p = Inr b \<and>
    visit fuel \<lparr>rv_codec = C, rv_crypto = K, rv_options = opts, rv_locks = locks\<rparr> b ''root'' empty_resolution = Inr st \<and>
    g = \<lparr>gr_root_id = bu_id b,
       gr_lock = write_json (cd_lib C) (lock_doc (op_repository opts) (bu_id b) (rs_bundles st)) True,
       gr_mode = op_mode opts, gr_bundles = rs_bundles st, gr_order = rs_order st\<rparr> \<and>
    (op_mode opts = Development \<or> op_lock_json opts \<noteq> [])"
proof -
  obtain locks where l: "parse_lock (cd_lib C) (op_lock_json opts) = Inr locks"
      "resolve_from fuel \<lparr>rv_codec = C, rv_crypto = K, rv_options = opts, rv_locks = locks\<rparr> p = Inr g"
    using assms by (auto simp: resolve_def resolve_unchecked_def split: sum.splits resolve_fault.splits)
  from l(2) have "op_mode opts = Development \<or> op_lock_json opts \<noteq> []"
    by (auto simp: resolve_from_def locked_mode_def split: if_splits)
  with l show ?thesis by (auto simp: resolve_from_def bindR_Inr split: if_splits)
qed

text \<open>
  C29. Safety of resolution. When the resolver returns a graph, the root bundle is the one loaded from the
  given provider, every other bundle was handed out by the repository under its own id and version, the
  order names each bundle of the graph once, each after all its dependencies, every dependency constraint
  holds for the version in the graph, in every mode but development each bundle has the version and the
  digest of its lock entry, and in the verified and the offline mode each bundle passed the signature policy.
\<close>

theorem resolved_graph_sound:
  assumes "resolve fuel C K opts p = Some (Inr g)"
  shows "\<exists>b locks. load_bundle_from_provider C p = Inr b \<and> parse_lock (cd_lib C) (op_lock_json opts) = Inr locks \<and>
    gr_root_id g = bu_id b \<and> graph_root g = Some b \<and>
    distinct (gr_order g) \<and> set (gr_order g) = set (sm_keys (gr_bundles g)) \<and> dependencies_first (gr_bundles g) (gr_order g) \<and>
    (\<forall>k c. sm_get (gr_bundles g) k = Some c \<longrightarrow> bu_id c = k \<and>
      (c = b \<or> (\<exists>repo q. op_repository opts = Some repo \<and> rp_get repo k (bu_version c) (op_mode opts = Offline) = Inr q \<and>
        load_bundle_from_provider C q = Inr c)) \<and>
      (op_mode opts \<noteq> Development \<longrightarrow> (\<exists>lock. sm_get locks k = Some lock \<and>
        lk_version lock = bu_version c \<and> lk_digest lock = bu_digest c)) \<and>
      (op_mode opts = Verified \<or> op_mode opts = Offline \<longrightarrow> verify_signatures K opts c = Inr ()))"
proof -
  from resolveD [OF assms] obtain locks b st where g: "parse_lock (cd_lib C) (op_lock_json opts) = Inr locks"
    "load_bundle_from_provider C p = Inr b"
    "visit fuel \<lparr>rv_codec = C, rv_crypto = K, rv_options = opts, rv_locks = locks\<rparr> b ''root'' empty_resolution = Inr st"
    "g = \<lparr>gr_root_id = bu_id b,
       gr_lock = write_json (cd_lib C) (lock_doc (op_repository opts) (bu_id b) (rs_bundles st)) True,
       gr_mode = op_mode opts, gr_bundles = rs_bundles st, gr_order = rs_order st\<rparr>"
    by (elim exE conjE)
  let ?R = "\<lparr>rv_codec = C, rv_crypto = K, rv_options = opts, rv_locks = locks\<rparr>"
  have pb: "provided ?R b b" by (simp add: provided_def)
  have "resolving ?R b st \<and> grows empty_resolution st"
    using visit_visits [of ?R b fuel] resolving_empty [of ?R b] g(3) pb unfolding visits_def by blast
  then have st: "resolving ?R b st" "rs_active st = {}" by (simp_all add: grows_def empty_resolution_def)
  have top: "sm_get (rs_bundles st) (bu_id b) = Some b"
    using visit_new [OF g(3) _ resolving_empty pb] by (simp add: empty_resolution_def)
  have "bu_id c = k \<and> admitted ?R c \<and> provided ?R b c" if "sm_get (rs_bundles st) k = Some c" for k c
    using st(1) that by (simp add: resolving_def)
  then have each: "\<forall>k c. sm_get (rs_bundles st) k = Some c \<longrightarrow> bu_id c = k \<and>
      (c = b \<or> (\<exists>repo q. op_repository opts = Some repo \<and> rp_get repo k (bu_version c) (op_mode opts = Offline) = Inr q \<and>
        load_bundle_from_provider C q = Inr c)) \<and>
      (op_mode opts \<noteq> Development \<longrightarrow> (\<exists>lock. sm_get locks k = Some lock \<and>
        lk_version lock = bu_version c \<and> lk_digest lock = bu_digest c)) \<and>
      (op_mode opts = Verified \<or> op_mode opts = Offline \<longrightarrow> verify_signatures K opts c = Inr ())"
    unfolding admitted_def provided_def locked_mode_def verified_mode_def offline_mode_def by fastforce
  have order: "distinct (rs_order st)" "set (rs_order st) = set (sm_keys (rs_bundles st))"
      "dependencies_first (rs_bundles st) (rs_order st)"
    using st by (simp_all add: resolving_def)
  show ?thesis unfolding g(4) graph_root_def ResolvedBundleGraph.simps
    by (intro exI [of _ b] exI [of _ locks] conjI refl g(1) g(2) top order each)
qed

theorem resolved_graph_sound_witness:
  "graph_root (sample_graph Development) = Some bundle_a \<and>
   set (gr_order (sample_graph Development)) = set (sm_keys (gr_bundles (sample_graph Development))) \<and>
   dependencies_first (gr_bundles (sample_graph Development)) (gr_order (sample_graph Development))"
proof -
  note r = resolved_graph_sound [OF sample_resolves [of JNull "\<lparr>cr_decode_block = Some, cr_verify = \<lambda>_ _ _. True\<rparr>"]]
  from r obtain b where "load_bundle_from_provider (sample_codec JNull) (manifest_only ''A'') = Inr b"
    "graph_root (sample_graph Development) = Some b" by blast
  then have "graph_root (sample_graph Development) = Some bundle_a" using sample_loads(1) [of JNull] by simp
  with r show ?thesis by blast
qed

end
