(* ===== verification/Resolver_Fuel.thy ===== *)
theory Resolver_Fuel
  imports Resolver_Laws
begin

text \<open>
  Resolution ends. A visit nests only into bundles whose ids are not active yet, so on a repository with
  finitely many bundle ids the depth of the recursion is bounded; more fuel than that never changes the
  result.
\<close>

section \<open>More fuel\<close>

definition extends :: "(resolve_fault + 'a) \<Rightarrow> (resolve_fault + 'a) \<Rightarrow> bool" where
  "extends x y = (x = Inl Out_of_fuel \<or> x = y)"

lemma extends_bind: "extends x y \<Longrightarrow> (\<And>v. extends (f v) (g v)) \<Longrightarrow> extends (bindR x f) (bindR y g)"
proof (cases x)
  case (Inr v)
  assume "extends x y" "\<And>v. extends (f v) (g v)"
  moreover from this(1) Inr have "y = Inr v" by (auto simp: extends_def)
  ultimately show ?thesis using Inr by simp
qed (auto simp: extends_def)

lemma extends_refl [simp]: "extends x x"
  by (simp add: extends_def)

lemma extends_foldR: "(\<And>x s. extends (f x s) (g x s)) \<Longrightarrow> extends (foldR f xs s) (foldR g xs s)"
  by (induction xs arbitrary: s) (simp_all add: extends_bind)

lemma extends_visit_dependency:
  "(\<And>b source st. extends (go b source st) (go' b source st)) \<Longrightarrow>
    extends (visit_dependency R go dep st) (visit_dependency R go' dep st)"
  by (auto simp: visit_dependency_def split: option.split intro!: extends_bind)

lemma visit_more_fuel: "extends (visit fuel R b source st) (visit (fuel + k) R b source st)"
proof (induction fuel arbitrary: b source st)
  case (Suc fuel)
  have "extends (foldR (visit_dependency R (visit fuel R)) deps s) (foldR (visit_dependency R (visit (fuel + k) R)) deps s)" for deps s
    by (intro extends_foldR extends_visit_dependency Suc.IH)
  then show ?case by (auto split: option.split intro!: extends_bind)
qed (simp add: extends_def)

section \<open>Enough fuel\<close>

lemma visit_dependency_active:
  assumes "\<And>b source st st'. go b source st = Inr st' \<Longrightarrow> rs_active st' = rs_active st"
    and "visit_dependency R go dep st = Inr st'"
  shows "rs_active st' = rs_active st"
  using assms(2) by (auto simp: visit_dependency_def bindR_Inr split: if_splits option.splits dest: assms(1))

lemma visit_dependencies_active:
  assumes "\<And>b source st st'. go b source st = Inr st' \<Longrightarrow> rs_active st' = rs_active st"
    and "foldR (visit_dependency R go) deps st = Inr st'"
  shows "rs_active st' = rs_active st"
proof (rule foldR_invariant [OF assms(2), of "\<lambda>s. rs_active s = rs_active st"])
  fix dep s s'
  assume "rs_active s = rs_active st" "visit_dependency R go dep s = Inr s'"
  then show "rs_active s' = rs_active st" using visit_dependency_active [of go R dep s s'] assms(1) by blast
qed simp

lemma visit_active: "visit fuel R b source st = Inr st' \<Longrightarrow> rs_active st' = rs_active st"
proof (induction fuel arbitrary: b source st st')
  case (Suc fuel)
  show ?case
  proof (cases "sm_get (rs_selected st) (bu_id b)")
    case None
    then obtain st1 where s: "foldR (visit_dependency R (visit fuel R)) (bu_dependencies b) (enter_bundle b st) = Inr st1"
        "st' = leave_bundle b st1" "bu_id b \<notin> rs_active st"
      using Suc.prems by (auto simp: bindR_Inr split: if_splits)
    have "rs_active st1 = rs_active (enter_bundle b st)" by (rule visit_dependencies_active [OF Suc.IH s(1)])
    then show ?thesis using s(2,3) by (simp add: enter_bundle_def leave_bundle_def)
  qed (use Suc.prems in \<open>auto split: if_splits\<close>)
qed simp

lemma refuse_fuel [simp]: "refuse c i \<noteq> Inl Out_of_fuel"
  by (simp add: refuse_def)

lemma failed_fuel [simp]: "failed R x \<noteq> Inl Out_of_fuel"
  by (simp add: failed_def split: sum.split)

lemma step_fuel [simp]:
  "select_version R repo dep \<noteq> Inl Out_of_fuel" "fetch R repo dep version \<noteq> Inl Out_of_fuel"
  "check_lock R b source \<noteq> Inl Out_of_fuel"
  by (auto simp: select_version_def fetch_def check_lock_def bindR_Inl split: option.split)

text \<open>What a repository must promise: it hands out bundles under finitely many ids.\<close>

locale repository_contract =
  fixes repo :: repository and ids :: "string set"
  assumes finite_ids: "finite ids"
    and handed_out: "rp_get repo ident version offline = Inr q \<Longrightarrow> ident \<in> ids"
begin

lemma visit_dependency_fuel:
  assumes "op_repository (rv_options R) = Some repo"
    and "\<And>b source. bu_id b \<in> ids \<Longrightarrow> go b source st \<noteq> Inl Out_of_fuel"
  shows "visit_dependency R go dep st \<noteq> Inl Out_of_fuel"
proof
  assume "visit_dependency R go dep st = Inl Out_of_fuel"
  then obtain version b where "fetch R repo dep version = Inr b" "go b (rp_source repo) st = Inl Out_of_fuel"
    using assms(1) by (auto simp: visit_dependency_def bindR_Inl split: if_splits option.splits)
  moreover from this(1) have "bu_id b \<in> ids" using fetchD handed_out by metis
  ultimately show False using assms(2) by blast
qed

lemma visit_dependencies_fuel:
  assumes "op_repository (rv_options R) = Some repo"
    and "\<And>b source st. bu_id b \<in> ids \<Longrightarrow> rs_active st = A \<Longrightarrow> go b source st \<noteq> Inl Out_of_fuel"
    and "\<And>b source st st'. go b source st = Inr st' \<Longrightarrow> rs_active st' = rs_active st" and "rs_active st = A"
  shows "foldR (visit_dependency R go) deps st \<noteq> Inl Out_of_fuel"
  using assms(4)
proof (induction deps arbitrary: st)
  case (Cons dep deps)
  have "visit_dependency R go dep st \<noteq> Inl Out_of_fuel"
    by (rule visit_dependency_fuel [OF assms(1)]) (use assms(2) Cons.prems in blast)
  moreover have "foldR (visit_dependency R go) deps s \<noteq> Inl Out_of_fuel" if "visit_dependency R go dep st = Inr s" for s
    by (rule Cons.IH) (use visit_dependency_active [OF assms(3) that] Cons.prems in simp)
  ultimately show ?case by (auto simp: bindR_Inl)
qed simp

lemma visit_enough_fuel:
  assumes "op_repository (rv_options R) = Some repo" and "card (insert top_id ids - rs_active st) < fuel"
    and "bu_id b \<in> insert top_id ids"
  shows "visit fuel R b source st \<noteq> Inl Out_of_fuel"
  using assms(2,3)
proof (induction fuel arbitrary: b source st)
  case (Suc fuel)
  let ?U = "insert top_id ids"
  have "foldR (visit_dependency R (visit fuel R)) (bu_dependencies b) (enter_bundle b st) \<noteq> Inl Out_of_fuel"
    if new: "bu_id b \<notin> rs_active st"
  proof (rule visit_dependencies_fuel [OF assms(1)])
    fix c :: Bundle and source' :: string and s :: resolution
    assume c: "bu_id c \<in> ids" "rs_active s = insert (bu_id b) (rs_active st)"
    have e: "?U - rs_active s = (?U - rs_active st) - {bu_id b}" using c(2) by auto
    have "card (?U - rs_active s) < card (?U - rs_active st)"
      unfolding e by (rule card_Diff1_less) (use new Suc.prems(2) finite_ids in blast)+
    then have "card (?U - rs_active s) < fuel" using Suc.prems(1) by linarith
    then show "visit fuel R c source' s \<noteq> Inl Out_of_fuel" by (rule Suc.IH) (use c(1) in blast)
  qed (auto simp: enter_bundle_def dest: visit_active)
  then show ?case by (auto simp: bindR_Inl split: option.split)
qed simp

lemma resolve_enough_fuel:
  assumes "op_repository opts = Some repo" and "card ids + 2 \<le> fuel"
  shows "resolve fuel C K opts p \<noteq> None"
proof -
  have "visit fuel R b ''root'' empty_resolution \<noteq> Inl Out_of_fuel" if "rv_options R = opts" for R b
  proof (rule visit_enough_fuel [of R "bu_id b"])
    have "card (insert (bu_id b) ids - rs_active empty_resolution) \<le> card ids + 1"
      using finite_ids card_insert_le_m1 by (simp add: empty_resolution_def card_insert_if)
    then show "card (insert (bu_id b) ids - rs_active empty_resolution) < fuel" using assms(2) by simp
  qed (use assms(1) that in simp_all)
  then show ?thesis
    by (auto simp: resolve_def resolve_unchecked_def resolve_from_def bindR_Inl split: sum.splits resolve_fault.splits if_splits)
qed

end

lemma resolve_more_fuel:
  assumes "resolve fuel C K opts p = Some x"
  shows "resolve (fuel + k) C K opts p = Some x"
proof -
  have "extends (resolve_from fuel R p) (resolve_from (fuel + k) R p)" for R
    by (auto simp: resolve_from_def intro!: extends_bind visit_more_fuel)
  then have "extends (resolve_unchecked fuel C K opts p) (resolve_unchecked (fuel + k) C K opts p)"
    by (simp add: resolve_unchecked_def split: sum.split)
  then show ?thesis using assms by (auto simp: resolve_def extends_def)
qed

interpretation memory_bundles: repository_contract "as_repository r" "set (sm_keys (mr_bundles r))" for r
proof
  show "ident \<in> set (sm_keys (mr_bundles r))" if "rp_get (as_repository r) ident version offline = Inr q" for ident version offline q
    using that sm_get_Some_key by (fastforce simp: as_repository_def mr_get_def split: option.splits)
qed simp

text \<open>
  C32. Termination of resolution. On a repository in memory, recursion no deeper than the number of bundle
  ids of the repository plus two always suffices: the resolver returns a graph or an error, and allowing
  more depth does not change what it returns. In particular a repository whose bundles depend on each other
  in a circle cannot make it recurse forever.
\<close>

theorem resolver_terminates:
  assumes "op_repository opts = Some (as_repository r)" and "length (mr_bundles r) + 2 \<le> fuel"
  shows "\<exists>x. resolve fuel C K opts p = Some x \<and> resolve (length (mr_bundles r) + 2) C K opts p = Some x"
proof -
  have "card (set (sm_keys (mr_bundles r))) \<le> length (mr_bundles r)" using card_length [of "sm_keys (mr_bundles r)"] by simp
  then have "resolve (length (mr_bundles r) + 2) C K opts p \<noteq> None"
    by (intro memory_bundles.resolve_enough_fuel [OF assms(1)]) simp
  then obtain x where "resolve (length (mr_bundles r) + 2) C K opts p = Some x" by blast
  moreover have "resolve (length (mr_bundles r) + 2 + (fuel - (length (mr_bundles r) + 2))) C K opts p = Some x"
    by (rule resolve_more_fuel) fact
  then have "resolve fuel C K opts p = Some x" using assms(2) by (simp only: le_add_diff_inverse)
  ultimately show ?thesis by blast
qed

theorem resolver_terminates_witness:
  "\<exists>x. resolve 9 (sample_codec JNull) \<lparr>cr_decode_block = Some, cr_verify = \<lambda>_ _ _. True\<rparr> sample_resolver
     (manifest_only ''A'') = Some x"
proof -
  have "op_repository sample_resolver = Some (as_repository sample_repository)" "length (mr_bundles sample_repository) + 2 \<le> 9"
    by (simp_all add: sample_resolver_def sample_repository_def)
  from resolver_terminates [OF this, of "sample_codec JNull"] show ?thesis by blast
qed

end
