(* ===== verification/Zip_Provider.thy ===== *)
theory Zip_Provider
  imports Resource_Path "HOL-Library.Word"
begin

text \<open>
  The ZIP provider of the bundle tools (\<open>tool_resource_providers.cpp\<close>): reading the end record and the
  central directory of an archive within limits, and reading one entry with its checks. Archives are byte
  strings. Inflating a raw deflate stream and the CRC-32 are the two functions of the compression library
  that the code calls; they are the fields of the record \<open>zlib\<close>. Positions are natural numbers: they are
  sums of a 32-bit offset and lengths within the archive, which a 64-bit size holds.
\<close>

unbundle bit_operations_syntax

section \<open>Bytes\<close>

definition byte_at :: "string \<Rightarrow> nat \<Rightarrow> nat" where
  "byte_at b p = of_char (b ! p)"

definition read_u16 :: "string \<Rightarrow> nat \<Rightarrow> 16 word res" where
  "read_u16 b p = (if length b < p + 2 then Inl (Thrown ''ZIP_TRUNCATED'')
     else Inr (of_nat (byte_at b p) OR push_bit 8 (of_nat (byte_at b (p + 1)))))"

definition read_u32 :: "string \<Rightarrow> nat \<Rightarrow> 32 word res" where
  "read_u32 b p = (if length b < p + 4 then Inl (Thrown ''ZIP_TRUNCATED'')
     else Inr (of_nat (byte_at b p) OR push_bit 8 (of_nat (byte_at b (p + 1))) OR
       push_bit 16 (of_nat (byte_at b (p + 2))) OR push_bit 24 (of_nat (byte_at b (p + 3)))))"

section \<open>UTF-8\<close>

text \<open>The number of bytes of the sequence that a byte opens.\<close>

definition utf8_count :: "nat \<Rightarrow> nat option" where
  "utf8_count c =
    (if c < 0x80 then Some 1
     else if c AND 0xe0 = 0xc0 then if c < 0xc2 then None else Some 2
     else if c AND 0xf0 = 0xe0 then Some 3
     else if c AND 0xf8 = 0xf0 then if 0xf4 < c then None else Some 4
     else None)"

definition second_ok :: "nat \<Rightarrow> nat \<Rightarrow> nat \<Rightarrow> bool" where
  "second_ok count c b =
    (if count = 3 then \<not> (c = 0xe0 \<and> b < 0xa0 \<or> c = 0xed \<and> 0xa0 \<le> b)
     else if count = 4 then \<not> (c = 0xf0 \<and> b < 0x90 \<or> c = 0xf4 \<and> 0x90 \<le> b)
     else True)"

function valid_utf8 :: "string \<Rightarrow> bool" where
  "valid_utf8 s = (case s of
     [] \<Rightarrow> True
   | ch # rest \<Rightarrow> (let c = of_char ch in case utf8_count c of
       None \<Rightarrow> False
     | Some count \<Rightarrow> count \<le> length s \<and> (\<forall>d \<in> set (take (count - 1) rest). of_char d AND (0xc0 :: nat) = 0x80) \<and>
         second_ok count c (of_char (rest ! 0)) \<and> valid_utf8 (drop count s)))"
  by pat_completeness auto
termination
proof (relation "measure length")
  fix s :: string and ch rest c and count :: nat
  assume "s = ch # rest" "c = of_char ch" "utf8_count c = Some count"
  then show "(drop count s, s) \<in> measure length" by (auto simp: utf8_count_def split: if_splits)
qed simp

declare valid_utf8.simps [simp del]

section \<open>Limits and entries\<close>

record ResourceLimits =
  li_max_resources :: nat
  li_max_resource_bytes :: nat
  li_max_total_bytes :: nat
  li_max_path_bytes :: nat
  li_max_depth :: nat

record ZipLimits = ResourceLimits +
  li_max_archive_bytes :: nat
  li_max_compression_ratio :: nat

definition validate_limits :: "'a ResourceLimits_scheme \<Rightarrow> unit res" where
  "validate_limits l =
    (if li_max_resources l = 0 \<or> li_max_resource_bytes l = 0 \<or> li_max_total_bytes l = 0 \<or> li_max_path_bytes l = 0 \<or>
       li_max_depth l = 0 then Inl (Invalid_arg ''resource limits must be positive'') else Inr ())"

definition path_depth :: "string \<Rightarrow> nat" where
  "path_depth path = 1 + count_list path (CHR ''/'')"

record Entry =
  en_flags :: "16 word"
  en_method :: "16 word"
  en_crc :: "32 word"
  en_compressed :: "32 word"
  en_size :: "32 word"
  en_offset :: "32 word"

record zip =
  zi_archive :: string
  zi_limits :: ZipLimits
  zi_entries :: "(string, Entry) smap"

section \<open>The central directory\<close>

text \<open>The search for the end record, backwards from position \<open>lower + n\<close> to \<open>lower\<close>.\<close>

fun find_eocd :: "string \<Rightarrow> nat \<Rightarrow> nat \<Rightarrow> nat res" where
  "find_eocd b lower n = bindR (read_u32 b (lower + n)) (\<lambda>signature.
     if signature = 0x06054b50 then Inr (lower + n)
     else case n of 0 \<Rightarrow> Inl (Thrown ''ZIP_EOCD_NOT_FOUND'') | Suc m \<Rightarrow> find_eocd b lower m)"

declare find_eocd.simps [simp del]

text \<open>The fields of one record of the central directory, its name and the position behind it.\<close>

record central =
  ce_made :: "16 word"
  ce_entry :: Entry
  ce_external :: "32 word"
  ce_name :: string
  ce_next :: nat

definition read_central :: "string \<Rightarrow> nat \<Rightarrow> central res" where
  "read_central b p =
    bindR (read_u32 b p) (\<lambda>signature.
    if signature \<noteq> 0x02014b50 then Inl (Thrown ''ZIP_CENTRAL_ENTRY_INVALID'')
    else bindR (read_u16 b (p + 4)) (\<lambda>made. bindR (read_u16 b (p + 8)) (\<lambda>flags. bindR (read_u16 b (p + 10)) (\<lambda>method.
    bindR (read_u32 b (p + 16)) (\<lambda>crc. bindR (read_u32 b (p + 20)) (\<lambda>compressed. bindR (read_u32 b (p + 24)) (\<lambda>size.
    bindR (read_u16 b (p + 28)) (\<lambda>name_len. bindR (read_u16 b (p + 30)) (\<lambda>extra_len. bindR (read_u16 b (p + 32)) (\<lambda>comment_len.
    bindR (read_u32 b (p + 38)) (\<lambda>external. bindR (read_u32 b (p + 42)) (\<lambda>offset.
    let next_pos = p + 46 + unat name_len + unat extra_len + unat comment_len in
    if length b < next_pos then Inl (Thrown ''ZIP_TRUNCATED'')
    else Inr \<lparr>ce_made = made, ce_entry = \<lparr>en_flags = flags, en_method = method, en_crc = crc, en_compressed = compressed,
        en_size = size, en_offset = offset\<rparr>, ce_external = external, ce_name = take (unat name_len) (drop (p + 46) b),
      ce_next = next_pos\<rparr>))))))))))))"

definition skipped_name :: "string \<Rightarrow> bool" where
  "skipped_name name = (name = [] \<or> last name = CHR ''/'')"

text \<open>The compressed size and the ratio have 32 bits each, so their 64-bit product in the code is exact.\<close>

definition check_entry :: "ZipLimits \<Rightarrow> central \<Rightarrow> (string, Entry) smap \<Rightarrow> nat \<Rightarrow> unit res" where
  "check_entry l c entries total_size = (let e = ce_entry c; name = ce_name c; size = unat (en_size e) in
    if en_flags e AND NOT 0x0808 \<noteq> 0 then Inl (Thrown ''ZIP_FLAGS_UNSUPPORTED'')
    else if \<not> valid_utf8 name then Inl (Thrown ''ZIP_FILENAME_ENCODING_INVALID'')
    else if drop_bit 8 (ce_made c) = 3 \<and> drop_bit 16 (ce_external c) AND 0xF000 = 0xA000 then Inl (Thrown ''ZIP_SYMLINK_REJECTED'')
    else case normalize_resource_path name of
      Inl _ \<Rightarrow> Inl (Thrown ''ZIP_INVALID_PATH'')
    | Inr _ \<Rightarrow>
        if li_max_path_bytes l < length name \<or> li_max_depth l < path_depth name then Inl (Thrown ''ZIP_PATH_LIMIT'')
        else if en_flags e AND 1 \<noteq> 0 then Inl (Thrown ''ZIP_ENCRYPTED_UNSUPPORTED'')
        else if en_method e \<noteq> 0 \<and> en_method e \<noteq> 8 then Inl (Thrown ''ZIP_COMPRESSION_UNSUPPORTED'')
        else if en_method e = 8 \<and> size \<noteq> 0 \<and> en_compressed e = 0 then Inl (Thrown ''ZIP_COMPRESSED_SIZE_INVALID'')
        else if li_max_resource_bytes l < size \<or> li_max_total_bytes l < size \<or> li_max_total_bytes l - size < total_size
        then Inl (Thrown ''ZIP_SIZE_LIMIT'')
        else if size \<noteq> 0 \<and> en_compressed e \<noteq> 0 \<and> unat (en_compressed e) * li_max_compression_ratio l < size
        then Inl (Thrown ''ZIP_COMPRESSION_RATIO_LIMIT'')
        else if sm_has entries name then Inl (Thrown ''ZIP_DUPLICATE_ENTRY'') else Inr ())"

fun central_loop :: "nat \<Rightarrow> string \<Rightarrow> ZipLimits \<Rightarrow> nat \<Rightarrow> nat \<Rightarrow> (string, Entry) smap \<Rightarrow> (nat \<times> (string, Entry) smap) res" where
  "central_loop 0 b l p total_size entries = Inr (p, entries)"
| "central_loop (Suc n) b l p total_size entries =
    bindR (read_central b p) (\<lambda>c.
    if skipped_name (ce_name c) then central_loop n b l (ce_next c) total_size entries
    else bindR (check_entry l c entries total_size) (\<lambda>_.
      central_loop n b l (ce_next c) (total_size + unat (en_size (ce_entry c))) (sm_put (ce_name c) (ce_entry c) entries)))"

definition parse_zip :: "string \<Rightarrow> ZipLimits \<Rightarrow> zip res" where
  "parse_zip b l =
    bindR (validate_limits l) (\<lambda>_.
    if li_max_archive_bytes l = 0 \<or> li_max_compression_ratio l = 0 then Inl (Invalid_arg ''ZIP limits must be positive'')
    else if li_max_archive_bytes l < length b then Inl (Thrown ''ZIP_ARCHIVE_LIMIT'')
    else if length b < 22 then Inl (Thrown ''ZIP_EOCD_NOT_FOUND'')
    else let lower = (if 65557 < length b then length b - 65557 else 0) in
    bindR (find_eocd b lower (length b - 22 - lower)) (\<lambda>eocd.
    bindR (read_u16 b (eocd + 20)) (\<lambda>comment_len.
    if eocd + 22 + unat comment_len \<noteq> length b then Inl (Thrown ''ZIP_EOCD_INVALID'')
    else bindR (read_u16 b (eocd + 4)) (\<lambda>disk. bindR (read_u16 b (eocd + 6)) (\<lambda>start_disk.
    if disk \<noteq> 0 \<or> start_disk \<noteq> 0 then Inl (Thrown ''ZIP_MULTIDISK_UNSUPPORTED'')
    else bindR (read_u16 b (eocd + 10)) (\<lambda>entry_count. bindR (read_u32 b (eocd + 12)) (\<lambda>central_size.
    bindR (read_u32 b (eocd + 16)) (\<lambda>central_offset.
    if entry_count = 0xffff \<or> central_size = 0xffffffff \<or> central_offset = 0xffffffff then Inl (Thrown ''ZIP64_UNSUPPORTED'')
    else if li_max_resources l < unat entry_count \<or> eocd < unat central_offset + unat central_size
    then Inl (Thrown ''ZIP_CENTRAL_DIRECTORY_INVALID'')
    else bindR (central_loop (unat entry_count) b l (unat central_offset) 0 []) (\<lambda>(p, entries).
    if p \<noteq> unat central_offset + unat central_size then Inl (Thrown ''ZIP_CENTRAL_SIZE_MISMATCH'')
    else Inr \<lparr>zi_archive = b, zi_limits = l, zi_entries = entries\<rparr>)))))))))"

section \<open>Reading an entry\<close>

text \<open>\<open>inflateInit2\<close> may fail; \<open>inflate\<close> gives the output and the number of input bytes used, when the stream ends within the space
  that is offered.\<close>

record zlib =
  zl_ready :: bool
  zl_inflate :: "string \<Rightarrow> nat \<Rightarrow> (string \<times> nat) option"
  zl_crc32 :: "string \<Rightarrow> 32 word"

definition entry_data :: "zlib \<Rightarrow> string \<Rightarrow> nat \<Rightarrow> Entry \<Rightarrow> string res" where
  "entry_data Z b data e =
    (if en_method e = 0 then
       (if en_compressed e \<noteq> en_size e then Inl (Thrown ''ZIP_STORED_SIZE_MISMATCH'')
        else Inr (take (unat (en_size e)) (drop data b)))
     else if \<not> zl_ready Z then Inl (Thrown ''ZIP_INFLATE_INIT_FAILED'')
     else case zl_inflate Z (take (unat (en_compressed e)) (drop data b)) (unat (en_size e)) of
       None \<Rightarrow> Inl (Thrown ''ZIP_INFLATE_FAILED'')
     | Some (output, used) \<Rightarrow>
         if length output \<noteq> unat (en_size e) \<or> used \<noteq> unat (en_compressed e) then Inl (Thrown ''ZIP_INFLATE_FAILED'')
         else Inr output)"

definition read_entry :: "zlib \<Rightarrow> string \<Rightarrow> string \<Rightarrow> Entry \<Rightarrow> string res" where
  "read_entry Z b path e = (let p = unat (en_offset e) in
    bindR (read_u32 b p) (\<lambda>signature.
    if signature \<noteq> 0x04034b50 then Inl (Thrown ''ZIP_LOCAL_HEADER_INVALID'')
    else bindR (read_u16 b (p + 6)) (\<lambda>flags. bindR (read_u16 b (p + 8)) (\<lambda>method.
    bindR (read_u16 b (p + 26)) (\<lambda>name_len. bindR (read_u16 b (p + 28)) (\<lambda>extra_len.
    let data = p + 30 + unat name_len + unat extra_len in
    if flags \<noteq> en_flags e \<or> method \<noteq> en_method e \<or> length b < data + unat (en_compressed e)
    then Inl (Thrown ''ZIP_LOCAL_HEADER_MISMATCH'')
    else if take (unat name_len) (drop (p + 30) b) \<noteq> path then Inl (Thrown ''ZIP_LOCAL_NAME_MISMATCH'')
    else bindR (entry_data Z b data e) (\<lambda>output.
    if zl_crc32 Z output \<noteq> en_crc e then Inl (Thrown ''ZIP_CRC_MISMATCH'') else Inr output)))))))"

definition zip_list :: "zip \<Rightarrow> string list result" where
  "zip_list z = Inr (sm_keys (zi_entries z))"

fun zip_what :: "fault \<Rightarrow> string" where
  "zip_what (Thrown m) = m"
| "zip_what (Invalid_arg m) = m"
| "zip_what (Json_error _) = []"

definition zip_read :: "zlib \<Rightarrow> zip \<Rightarrow> string \<Rightarrow> string result" where
  "zip_read Z z path = bindR (normalize_resource_path path) (\<lambda>_.
     case sm_get (zi_entries z) path of
       None \<Rightarrow> Inl (resource_error ''RESOURCE_NOT_FOUND'' ''ZIP resource not found'')
     | Some e \<Rightarrow> (case read_entry Z (zi_archive z) path e of
         Inl f \<Rightarrow> Inl (resource_error (zip_what f) (zip_what f))
       | Inr output \<Rightarrow> Inr output))"

definition zip_provider :: "zlib \<Rightarrow> zip \<Rightarrow> provider" where
  "zip_provider Z z = \<lparr>pv_list = zip_list z, pv_read = zip_read Z z\<rparr>"

end
