(* ===== verification/Zip_Laws.thy ===== *)
theory Zip_Laws
  imports Zip_Provider
begin

text \<open>
  The check of entry names in the ZIP provider accepts exactly the UTF-8 encodings of Unicode scalar values.
\<close>

section \<open>UTF-8 names\<close>

text \<open>The encoding of one code point, by its four ranges.\<close>

definition utf8_bytes :: "nat \<Rightarrow> nat list" where
  "utf8_bytes cp =
    (if cp < 0x80 then [cp]
     else if cp < 0x800 then [0xc0 + cp div 64, 0x80 + cp mod 64]
     else if cp < 0x10000 then [0xe0 + cp div 4096, 0x80 + cp div 64 mod 64, 0x80 + cp mod 64]
     else [0xf0 + cp div 262144, 0x80 + cp div 4096 mod 64, 0x80 + cp div 64 mod 64, 0x80 + cp mod 64])"

definition utf8_encode :: "nat \<Rightarrow> string" where
  "utf8_encode cp = map char_of (utf8_bytes cp)"

definition scalar_value :: "nat \<Rightarrow> bool" where
  "scalar_value cp = (cp < 0x110000 \<and> \<not> (0xd800 \<le> cp \<and> cp < 0xe000))"

lemma and_bits: "c AND push_bit k (mask n) = 2 ^ k * (c div 2 ^ k mod 2 ^ n)" for c :: nat
proof -
  have "c AND push_bit k (mask n) = push_bit k (take_bit n (drop_bit k c))" by (rule bit_eqI) (auto simp: bit_simps)
  then show ?thesis by (simp add: push_bit_eq_mult take_bit_eq_mod drop_bit_eq_div)
qed

lemma masks:
  assumes "c < (256 :: nat)"
  shows "(c AND 0xe0 = 0xc0) = (0xc0 \<le> c \<and> c < 0xe0)" and "(c AND 0xf0 = 0xe0) = (0xe0 \<le> c \<and> c < 0xf0)"
    and "(c AND 0xf8 = 0xf0) = (0xf0 \<le> c \<and> c < 0xf8)" and "(c AND 0xc0 = 0x80) = (0x80 \<le> c \<and> c < 0xc0)"
proof -
  have "c AND 0xe0 = 32 * (c div 32 mod 8)" "c AND 0xf0 = 16 * (c div 16 mod 16)"
      "c AND 0xf8 = 8 * (c div 8 mod 32)" "c AND 0xc0 = 64 * (c div 64 mod 4)"
    using and_bits [of c 5 3] and_bits [of c 4 4] and_bits [of c 3 5] and_bits [of c 6 2]
    by (simp_all add: mask_eq_exp_minus_1 push_bit_eq_mult)
  then show "(c AND 0xe0 = 0xc0) = (0xc0 \<le> c \<and> c < 0xe0)" "(c AND 0xf0 = 0xe0) = (0xe0 \<le> c \<and> c < 0xf0)"
      "(c AND 0xf8 = 0xf0) = (0xf0 \<le> c \<and> c < 0xf8)" "(c AND 0xc0 = 0x80) = (0x80 \<le> c \<and> c < 0xc0)"
    using assms by auto
qed

lemma utf8_count_ranges:
  assumes "c < 256"
  shows "utf8_count c = (if c < 0x80 then Some 1 else if 0xc2 \<le> c \<and> c < 0xe0 then Some 2
    else if 0xe0 \<le> c \<and> c < 0xf0 then Some 3 else if 0xf0 \<le> c \<and> c \<le> 0xf4 then Some 4 else None)"
  using assms by (auto simp: utf8_count_def masks)


definition tail_byte :: "char \<Rightarrow> bool" where
  "tail_byte d = (0x80 \<le> (of_char d :: nat) \<and> (of_char d :: nat) < 0xc0)"

lemma of_char_less: "of_char d < (256 :: nat)"
  by simp

lemma valid_utf8_Cons:
  "valid_utf8 (ch # rest) = (case utf8_count (of_char ch) of
     None \<Rightarrow> False
   | Some n \<Rightarrow> n \<le> Suc (length rest) \<and> (\<forall>d \<in> set (take (n - 1) rest). tail_byte d) \<and>
       second_ok n (of_char ch) (of_char (rest ! 0)) \<and> valid_utf8 (drop n (ch # rest)))"
  by (subst valid_utf8.simps) (simp add: masks(4) [OF of_char_less] tail_byte_def Let_def cong: option.case_cong)

lemma digits64:
  "z < 64 \<Longrightarrow> (a * 64 + z) div 64 = a" "z < 64 \<Longrightarrow> (a * 64 + z) mod 64 = z" "n div 4096 = n div 64 div 64"
  "n div 262144 = n div 64 div 64 div 64" "n div 64 * 64 + n mod 64 = n" for a z n :: nat
  by (simp_all add: div_mult2_eq [symmetric])

lemma bounds3:
  fixes x y z :: nat
  assumes "y < 64" and "z < 64"
  shows "x < 16 \<Longrightarrow> (x * 64 + y) * 64 + z < 0x10000" and "0x800 \<le> (x * 64 + y) * 64 + z \<longleftrightarrow> \<not> (x = 0 \<and> y < 32)"
    and "0xd800 \<le> (x * 64 + y) * 64 + z \<and> (x * 64 + y) * 64 + z < 0xe000 \<longleftrightarrow> x = 13 \<and> 32 \<le> y"
proof -
  have e: "(x * 64 + y) * 64 + z = 4096 * x + 64 * y + z" by simp
  show "(x * 64 + y) * 64 + z < 0x10000" if "x < 16" using that assms unfolding e by linarith
  show "0x800 \<le> (x * 64 + y) * 64 + z \<longleftrightarrow> \<not> (x = 0 \<and> y < 32)" using assms unfolding e by linarith
  show "0xd800 \<le> (x * 64 + y) * 64 + z \<and> (x * 64 + y) * 64 + z < 0xe000 \<longleftrightarrow> x = 13 \<and> 32 \<le> y"
  proof -
    consider "x \<le> 12" | "x = 13" | "14 \<le> x" by linarith
    then show ?thesis using assms unfolding e by cases auto
  qed
qed

lemma bounds4:
  fixes w x y z :: nat
  assumes "x < 64" and "y < 64" and "z < 64"
  shows "0x10000 \<le> ((w * 64 + x) * 64 + y) * 64 + z \<longleftrightarrow> \<not> (w = 0 \<and> x < 16)"
    and "((w * 64 + x) * 64 + y) * 64 + z < 0x110000 \<longleftrightarrow> w < 4 \<or> w = 4 \<and> x < 16"
proof -
  have e: "((w * 64 + x) * 64 + y) * 64 + z = 262144 * w + 4096 * x + 64 * y + z" by simp
  show "0x10000 \<le> ((w * 64 + x) * 64 + y) * 64 + z \<longleftrightarrow> \<not> (w = 0 \<and> x < 16)"
    "((w * 64 + x) * 64 + y) * 64 + z < 0x110000 \<longleftrightarrow> w < 4 \<or> w = 4 \<and> x < 16"
    using assms unfolding e by linarith+
qed

lemma utf8_bytes_parts:
  "2 \<le> x \<Longrightarrow> x < 32 \<Longrightarrow> y < 64 \<Longrightarrow> utf8_bytes (x * 64 + y) = [0xc0 + x, 0x80 + y]"
  "x < 16 \<Longrightarrow> y < 64 \<Longrightarrow> z < 64 \<Longrightarrow> 0x800 \<le> (x * 64 + y) * 64 + z \<Longrightarrow>
    utf8_bytes ((x * 64 + y) * 64 + z) = [0xe0 + x, 0x80 + y, 0x80 + z]"
  "w < 5 \<Longrightarrow> x < 64 \<Longrightarrow> y < 64 \<Longrightarrow> z < 64 \<Longrightarrow> 0x10000 \<le> ((w * 64 + x) * 64 + y) * 64 + z \<Longrightarrow>
    utf8_bytes (((w * 64 + x) * 64 + y) * 64 + z) = [0xf0 + w, 0x80 + x, 0x80 + y, 0x80 + z]"
proof -
  show "utf8_bytes (x * 64 + y) = [0xc0 + x, 0x80 + y]" if "2 \<le> x" "x < 32" "y < 64" for x y
    using that by (simp add: utf8_bytes_def)
  show "utf8_bytes ((x * 64 + y) * 64 + z) = [0xe0 + x, 0x80 + y, 0x80 + z]"
    if "x < 16" "y < 64" "z < 64" "0x800 \<le> (x * 64 + y) * 64 + z" for x y z
  proof -
    let ?cp = "(x * 64 + y) * 64 + z"
    have "?cp div 4096 = x" "?cp div 64 mod 64 = y" "?cp mod 64 = z" using that by (simp_all only: digits64)
    moreover have "\<not> ?cp < 0x80" "\<not> ?cp < 0x800" "?cp < 0x10000" using that(4) bounds3(1) [OF that(2,3,1)] by linarith+
    ultimately show ?thesis unfolding utf8_bytes_def by (simp only: if_False if_True)
  qed
  show "utf8_bytes (((w * 64 + x) * 64 + y) * 64 + z) = [0xf0 + w, 0x80 + x, 0x80 + y, 0x80 + z]"
    if "w < 5" "x < 64" "y < 64" "z < 64" "0x10000 \<le> ((w * 64 + x) * 64 + y) * 64 + z" for w x y z
  proof -
    let ?cp = "((w * 64 + x) * 64 + y) * 64 + z"
    have "?cp div 262144 = w" "?cp div 4096 mod 64 = x" "?cp div 64 mod 64 = y" "?cp mod 64 = z"
      using that by (simp_all only: digits64)
    moreover have "\<not> ?cp < 0x80" "\<not> ?cp < 0x800" "\<not> ?cp < 0x10000" using that(5) by linarith+
    ultimately show ?thesis unfolding utf8_bytes_def by (simp only: if_False)
  qed
qed


lemma tail_byteE: "tail_byte d \<Longrightarrow> \<exists>y < 64. of_char d = 0x80 + (y :: nat)"
  unfolding tail_byte_def by (intro exI [of _ "of_char d - 0x80"]) linarith

lemma utf8_encodeI: "utf8_bytes cp = map of_char s \<Longrightarrow> utf8_encode cp = s"
  by (simp add: utf8_encode_def)

lemma valid_utf8_first:
  assumes "valid_utf8 (ch # rest)"
  shows "\<exists>cp behind. scalar_value cp \<and> ch # rest = utf8_encode cp @ behind \<and> valid_utf8 behind"
proof -
  let ?c = "of_char ch :: nat"
  note v = assms [unfolded valid_utf8_Cons utf8_count_ranges [OF of_char_less]]
  have c: "?c < 256" by simp
  consider (one) "?c < 0x80" | (two) "0xc2 \<le> ?c" "?c < 0xe0" | (three) "0xe0 \<le> ?c" "?c < 0xf0" | (four) "0xf0 \<le> ?c" "?c \<le> 0xf4"
    using v by (auto split: if_splits)
  then show ?thesis
  proof cases
    case one
    then have "utf8_encode ?c = [ch]" by (intro utf8_encodeI) (simp add: utf8_bytes_def)
    then show ?thesis using v one by (intro exI [of _ ?c] exI [of _ rest]) (simp add: scalar_value_def)
  next
    case two
    then obtain d behind where r: "rest = d # behind" "tail_byte d" "valid_utf8 behind" using v by (cases rest) auto
    obtain y where y: "y < 64" "of_char d = 0x80 + (y :: nat)" using tail_byteE [OF r(2)] by blast
    obtain x where x: "?c = 0xc0 + x" "2 \<le> x" "x < 32" using two by (intro that [of "?c - 0xc0"]) auto
    have "utf8_encode (x * 64 + y) = [ch, d]" by (rule utf8_encodeI) (simp add: utf8_bytes_parts x y)
    moreover have "scalar_value (x * 64 + y)" using x y by (simp add: scalar_value_def)
    ultimately show ?thesis using r by (intro exI [of _ "x * 64 + y"] exI [of _ behind]) simp
  next
    case three
    then obtain d e behind where r: "rest = d # e # behind" "tail_byte d" "tail_byte e" "valid_utf8 behind" "second_ok 3 ?c (of_char d)"
      using v by (cases rest; cases "tl rest") (auto simp: eval_nat_numeral)
    obtain y z where y: "y < 64" "of_char d = 0x80 + (y :: nat)" "z < 64" "of_char e = 0x80 + (z :: nat)"
      using tail_byteE [OF r(2)] tail_byteE [OF r(3)] by blast
    obtain x where x: "?c = 0xe0 + x" "x < 16" using three by (intro that [of "?c - 0xe0"]) auto
    let ?cp = "(x * 64 + y) * 64 + z"
    have s: "\<not> (x = 0 \<and> y < 32) \<and> \<not> (x = 13 \<and> 32 \<le> y)" using r(5) x y by (auto simp: second_ok_def)
    then have "0x800 \<le> ?cp" using bounds3(2) [OF y(1,3)] by blast
    then have "utf8_encode ?cp = [ch, d, e]" by (intro utf8_encodeI) (simp only: utf8_bytes_parts x y list.map)
    moreover have "scalar_value ?cp" using bounds3(1) [OF y(1,3) x(2)] bounds3(3) [OF y(1,3), of x] s by (simp add: scalar_value_def)
    ultimately show ?thesis using r by (intro exI [of _ ?cp] exI [of _ behind]) simp
  next
    case four
    then obtain d e f behind where r: "rest = d # e # f # behind" "tail_byte d" "tail_byte e" "tail_byte f" "valid_utf8 behind"
        "second_ok 4 ?c (of_char d)"
      using v by (cases rest; cases "tl rest"; cases "tl (tl rest)") (auto simp: eval_nat_numeral)
    obtain x y z where y: "x < 64" "of_char d = 0x80 + (x :: nat)" "y < 64" "of_char e = 0x80 + (y :: nat)" "z < 64" "of_char f = 0x80 + (z :: nat)"
      using tail_byteE [OF r(2)] tail_byteE [OF r(3)] tail_byteE [OF r(4)] by blast
    obtain w where w: "?c = 0xf0 + w" "w < 5" using four by (intro that [of "?c - 0xf0"]) auto
    let ?cp = "((w * 64 + x) * 64 + y) * 64 + z"
    have s: "\<not> (w = 0 \<and> x < 16) \<and> \<not> (w = 4 \<and> 16 \<le> x)" using r(6) w y by (auto simp: second_ok_def)
    then have big: "0x10000 \<le> ?cp" using bounds4(1) [OF y(1,3,5)] by blast
    then have "utf8_encode ?cp = [ch, d, e, f]" by (intro utf8_encodeI) (simp only: utf8_bytes_parts w y list.map)
    moreover have "?cp < 0x110000" using bounds4(2) [OF y(1,3,5), of w] w(2) s by linarith
    then have "scalar_value ?cp" using big by (simp add: scalar_value_def)
    ultimately show ?thesis using r by (intro exI [of _ ?cp] exI [of _ behind]) simp
  qed
qed

lemma char_byte: "n < 256 \<Longrightarrow> of_char (char_of n :: char) = (n :: nat)"
  by simp

lemma four_Suc: "4 = Suc (Suc (Suc (Suc 0)))"
  by simp

lemma valid_utf8_sequence:
  fixes w x y z :: nat
  assumes "valid_utf8 rest"
  shows "2 \<le> x \<Longrightarrow> x < 32 \<Longrightarrow> y < 64 \<Longrightarrow> valid_utf8 (char_of (0xc0 + x) # char_of (0x80 + y) # rest)"
    and "x < 16 \<Longrightarrow> y < 64 \<Longrightarrow> z < 64 \<Longrightarrow> \<not> (x = 0 \<and> y < 32) \<Longrightarrow> \<not> (x = 13 \<and> 32 \<le> y) \<Longrightarrow>
      valid_utf8 (char_of (0xe0 + x) # char_of (0x80 + y) # char_of (0x80 + z) # rest)"
    and "w < 5 \<Longrightarrow> x < 64 \<Longrightarrow> y < 64 \<Longrightarrow> z < 64 \<Longrightarrow> \<not> (w = 0 \<and> x < 16) \<Longrightarrow> \<not> (w = 4 \<and> 16 \<le> x) \<Longrightarrow>
      valid_utf8 (char_of (0xf0 + w) # char_of (0x80 + x) # char_of (0x80 + y) # char_of (0x80 + z) # rest)"
proof -
  have tail: "of_char (char_of (0x80 + v) :: char) = 0x80 + v" "tail_byte (char_of (0x80 + v))" if "v < 64" for v :: nat
    using char_byte [of "0x80 + v"] that by (simp_all only: tail_byte_def) simp_all
  show "valid_utf8 (char_of (0xc0 + x) # char_of (0x80 + y) # rest)" if a: "2 \<le> x" "x < 32" "y < 64"
  proof -
    have "of_char (char_of (0xc0 + x) :: char) = 0xc0 + x" "utf8_count (0xc0 + x) = Some 2"
      using a by (simp_all only: char_byte utf8_count_ranges) simp_all
    then show ?thesis using assms tail [OF a(3)] by (simp only: valid_utf8_Cons option.case) (simp add: second_ok_def numeral_2_eq_2)
  qed
  show "valid_utf8 (char_of (0xe0 + x) # char_of (0x80 + y) # char_of (0x80 + z) # rest)"
    if a: "x < 16" "y < 64" "z < 64" "\<not> (x = 0 \<and> y < 32)" "\<not> (x = 13 \<and> 32 \<le> y)"
  proof -
    have "of_char (char_of (0xe0 + x) :: char) = 0xe0 + x" "utf8_count (0xe0 + x) = Some 3"
      using a by (simp_all only: char_byte utf8_count_ranges) simp_all
    moreover have "second_ok 3 (0xe0 + x) (0x80 + y)" using a by (auto simp: second_ok_def)
    ultimately show ?thesis using assms tail [OF a(2)] tail [OF a(3)]
      by (simp only: valid_utf8_Cons option.case) (simp add: numeral_3_eq_3)
  qed
  show "valid_utf8 (char_of (0xf0 + w) # char_of (0x80 + x) # char_of (0x80 + y) # char_of (0x80 + z) # rest)"
    if a: "w < 5" "x < 64" "y < 64" "z < 64" "\<not> (w = 0 \<and> x < 16)" "\<not> (w = 4 \<and> 16 \<le> x)"
  proof -
    have "of_char (char_of (0xf0 + w) :: char) = 0xf0 + w" "utf8_count (0xf0 + w) = Some 4"
      using a by (simp_all only: char_byte utf8_count_ranges) simp_all
    moreover have "second_ok 4 (0xf0 + w) (0x80 + x)" using a by (auto simp: second_ok_def)
    ultimately show ?thesis using assms tail [OF a(2)] tail [OF a(3)] tail [OF a(4)]
      by (simp only: valid_utf8_Cons option.case) (simp add: four_Suc)
  qed
qed

lemma valid_utf8_encode:
  assumes "scalar_value cp" and "valid_utf8 rest"
  shows "valid_utf8 (utf8_encode cp @ rest)"
proof -
  consider (one) "cp < 0x80" | (two) "0x80 \<le> cp" "cp < 0x800" | (three) "0x800 \<le> cp" "cp < 0x10000" | (four) "0x10000 \<le> cp"
    by linarith
  then show ?thesis
  proof cases
    case one
    then show ?thesis using assms(2)
      by (simp add: utf8_encode_def utf8_bytes_def valid_utf8_Cons utf8_count_ranges second_ok_def)
  next
    case two
    obtain x y where cp: "cp = x * 64 + y" "y < 64" by (rule that [of "cp div 64" "cp mod 64"]) simp_all
    have "2 \<le> x" "x < 32" using two cp by linarith+
    then show ?thesis using valid_utf8_sequence(1) [OF assms(2)] cp by (simp add: utf8_encode_def utf8_bytes_parts)
  next
    case three
    obtain x y z where cp: "cp = (x * 64 + y) * 64 + z" "y < 64" "z < 64"
      by (rule that [of "cp div 64 div 64" "cp div 64 mod 64" "cp mod 64"]) (simp only: digits64(5), simp_all)
    have "x < 16" using three cp by simp
    moreover have "\<not> (x = 0 \<and> y < 32)" "\<not> (x = 13 \<and> 32 \<le> y)"
      using three assms(1) bounds3(2,3) [OF cp(2,3), of x] unfolding cp(1) scalar_value_def by blast+
    moreover have "utf8_bytes cp = [0xe0 + x, 0x80 + y, 0x80 + z]" unfolding cp(1)
      by (rule utf8_bytes_parts(2)) (use calculation(1) cp three in simp_all)
    ultimately show ?thesis using valid_utf8_sequence(2) [OF assms(2)] cp(2,3) by (simp add: utf8_encode_def)
  next
    case four
    obtain w x y z where cp: "cp = ((w * 64 + x) * 64 + y) * 64 + z" "x < 64" "y < 64" "z < 64"
      by (rule that [of "cp div 64 div 64 div 64" "cp div 64 div 64 mod 64" "cp div 64 mod 64" "cp mod 64"])
        (simp only: digits64(5), simp_all)
    have "cp < 0x110000" using assms(1) by (simp add: scalar_value_def)
    then have b: "\<not> (w = 0 \<and> x < 16)" "w < 4 \<or> w = 4 \<and> x < 16"
      using four bounds4 [OF cp(2-4), of w] unfolding cp(1) by blast+
    moreover have "utf8_bytes cp = [0xf0 + w, 0x80 + x, 0x80 + y, 0x80 + z]" unfolding cp(1)
      by (rule utf8_bytes_parts(3)) (use b cp four in auto)
    ultimately show ?thesis using valid_utf8_sequence(3) [OF assms(2), of w x y z] cp(2-4) by (auto simp: utf8_encode_def)
  qed
qed

text \<open>
  C34. The name check is UTF-8 validation. \<open>valid_utf8\<close> accepts a byte string exactly when it is the
  concatenation of the encodings of a sequence of Unicode scalar values: overlong forms, surrogates, code
  points beyond 0x10FFFF and truncated sequences are all refused, and nothing else is.
\<close>

theorem valid_utf8_exact: "valid_utf8 s \<longleftrightarrow> (\<exists>cps. list_all scalar_value cps \<and> s = concat (map utf8_encode cps))"
proof
  show "valid_utf8 s \<Longrightarrow> \<exists>cps. list_all scalar_value cps \<and> s = concat (map utf8_encode cps)"
  proof (induction s rule: measure_induct_rule [of length])
    case (less s)
    show ?case
    proof (cases s)
      case Nil
      then show ?thesis by (intro exI [of _ "[]"]) simp
    next
      case (Cons ch rest)
      then obtain cp behind where s: "scalar_value cp" "s = utf8_encode cp @ behind" "valid_utf8 behind"
        using valid_utf8_first less.prems by blast
      have "utf8_encode cp \<noteq> []" by (simp add: utf8_encode_def utf8_bytes_def)
      then have "length behind < length s" using s(2) by simp
      from less.IH [OF this s(3)] obtain cps where "list_all scalar_value cps" "behind = concat (map utf8_encode cps)" by blast
      then show ?thesis using s by (intro exI [of _ "cp # cps"]) simp
    qed
  qed
next
  assume "\<exists>cps. list_all scalar_value cps \<and> s = concat (map utf8_encode cps)"
  then obtain cps where cps: "list_all scalar_value cps" "s = concat (map utf8_encode cps)" by blast
  have "valid_utf8 (concat (map utf8_encode cps))" using cps(1)
    by (induction cps) (simp_all add: valid_utf8_encode valid_utf8.simps [of "[]"])
  then show "valid_utf8 s" using cps(2) by simp
qed

end
