(* ===== verification/Zip_Limits.thy ===== *)
theory Zip_Limits
  imports Zip_Laws
begin

text \<open>
  What an accepted archive guarantees: its names are distinct, safe and within the limits, and the bytes
  that reading its entries can produce stay within the limits for one resource and for all of them.
\<close>

section \<open>The entries\<close>

definition entry_ok :: "ZipLimits \<Rightarrow> string \<Rightarrow> Entry \<Rightarrow> bool" where
  "entry_ok l name e = (safe_path name \<and> valid_utf8 name \<and> length name \<le> li_max_path_bytes l \<and>
     path_depth name \<le> li_max_depth l \<and> unat (en_size e) \<le> li_max_resource_bytes l \<and>
     (en_compressed e \<noteq> 0 \<longrightarrow> unat (en_size e) \<le> unat (en_compressed e) * li_max_compression_ratio l) \<and>
     (en_compressed e = 0 \<longrightarrow> en_method e = 0 \<or> en_size e = 0))"

definition total_size :: "(string, Entry) smap \<Rightarrow> nat" where
  "total_size entries = sum_list (map (\<lambda>(k, e). unat (en_size e)) entries)"

definition entries_ok :: "ZipLimits \<Rightarrow> (string, Entry) smap \<Rightarrow> bool" where
  "entries_ok l entries = (sm_ok entries \<and> (\<forall>(name, e) \<in> set entries. entry_ok l name e) \<and>
     total_size entries \<le> li_max_total_bytes l)"

lemma entries_okD: "entries_ok l entries \<Longrightarrow> (name, e) \<in> set entries \<Longrightarrow> entry_ok l name e"
  by (auto simp: entries_ok_def)

lemma sum_list_put:
  "sm_get m k = None \<Longrightarrow> sum_list (map f (sm_put k v m)) = sum_list (map f m) + (f (k, v) :: nat)"
  by (induction k v m rule: sm_put.induct) (auto split: if_splits)

lemma length_put: "sm_get m k = None \<Longrightarrow> length (sm_put k v m) = Suc (length m)"
  by (induction k v m rule: sm_put.induct) (auto split: if_splits)

lemma check_entryD:
  assumes "check_entry l c entries sz = Inr ()"
  shows "entry_ok l (ce_name c) (ce_entry c) \<and> sz + unat (en_size (ce_entry c)) \<le> li_max_total_bytes l \<and>
    sm_get entries (ce_name c) = None"
proof (cases "normalize_resource_path (ce_name c)")
  case (Inl e)
  then show ?thesis using assms by (simp add: check_entry_def Let_def split: if_split_asm)
next
  case (Inr q)
  then have "safe_path (ce_name c)" using normalize_accepts by simp
  then show ?thesis using assms Inr
    by (simp add: check_entry_def entry_ok_def Let_def not_less le_diff_conv2 unat_eq_0 split: if_split_asm) auto
qed

lemma central_loop_ok:
  assumes "central_loop n b l p (total_size entries) entries = Inr (p', entries')" and "entries_ok l entries"
  shows "entries_ok l entries' \<and> length entries' \<le> length entries + n"
  using assms
proof (induction n arbitrary: p entries)
  case (Suc n)
  then obtain c where c: "read_central b p = Inr c" by (auto simp: bindR_Inr)
  show ?case
  proof (cases "skipped_name (ce_name c)")
    case True
    then show ?thesis using Suc.IH [of "ce_next c" entries] Suc.prems c by simp
  next
    case False
    let ?e = "sm_put (ce_name c) (ce_entry c) entries"
    have check: "check_entry l c entries (total_size entries) = Inr ()" using Suc.prems(1) c False by (auto simp: bindR_Inr)
    note d = check_entryD [OF check]
    have total: "total_size ?e = total_size entries + unat (en_size (ce_entry c))"
      using sum_list_put [of entries "ce_name c" "\<lambda>(k, e). unat (en_size e)" "ce_entry c"] d by (simp add: total_size_def)
    then have "entries_ok l ?e" using Suc.prems(2) d by (auto simp: entries_ok_def dest!: sm_put_set)
    moreover have "central_loop n b l (ce_next c) (total_size ?e) ?e = Inr (p', entries')"
      using Suc.prems(1) c False check total by simp
    ultimately show ?thesis using Suc.IH [of "ce_next c" ?e] length_put d by fastforce
  qed
qed simp

lemma parse_zip_ok:
  assumes "parse_zip b l = Inr z"
  shows "zi_archive z = b \<and> zi_limits z = l \<and> entries_ok l (zi_entries z) \<and> length (zi_entries z) \<le> li_max_resources l \<and>
    length b \<le> li_max_archive_bytes l"
proof -
  obtain n p q where loop: "central_loop (unat n) b l p 0 [] = Inr (q, zi_entries z)" "unat (n :: 16 word) \<le> li_max_resources l"
    "zi_archive z = b" "zi_limits z = l" "length b \<le> li_max_archive_bytes l"
    using assms by (auto simp: parse_zip_def Let_def bindR_Inr not_less split: if_splits)
  have "entries_ok l []" by (simp add: entries_ok_def total_size_def)
  moreover have "central_loop (unat n) b l p (total_size []) [] = Inr (q, zi_entries z)" using loop(1) by (simp add: total_size_def)
  ultimately have "entries_ok l (zi_entries z) \<and> length (zi_entries z) \<le> unat n" using central_loop_ok by fastforce
  then show ?thesis using loop(2-) by auto
qed

section \<open>The contents\<close>

lemma entry_data_length:
  assumes "entry_data Z b data e = Inr output" and "data + unat (en_compressed e) \<le> length b"
  shows "length output = unat (en_size e)"
  using assms by (auto simp: entry_data_def split: if_splits option.splits prod.splits)

lemma read_entryD:
  assumes "read_entry Z b path e = Inr output"
  shows "length output = unat (en_size e) \<and> zl_crc32 Z output = en_crc e"
  using assms entry_data_length by (auto simp: read_entry_def Let_def bindR_Inr not_less split: if_splits)

lemma zip_readD:
  assumes "zip_read Z z path = Inr output"
  shows "\<exists>e. sm_get (zi_entries z) path = Some e \<and> length output = unat (en_size e) \<and> zl_crc32 Z output = en_crc e"
  using assms read_entryD by (fastforce simp: zip_read_def bindR_Inr split: option.splits sum.splits)

definition zip_ok :: "zip \<Rightarrow> bool" where
  "zip_ok z = entries_ok (zi_limits z) (zi_entries z)"

interpretation zip_archive: provider_contract zip_ok "zip_provider Z" for Z
proof
  fix s ps p
  assume "zip_ok s" "pv_list (zip_provider Z s) = Inr ps"
  then have ok: "entries_ok (zi_limits s) (zi_entries s)" "ps = sm_keys (zi_entries s)"
    by (simp_all add: zip_ok_def zip_provider_def zip_list_def)
  then show "distinct ps" by (simp add: entries_ok_def sm_ok_distinct)
  show "safe_path p" if "p \<in> set ps"
    using that ok by (auto simp: entry_ok_def dest: entries_okD)
qed

definition bytes_of :: "string result \<Rightarrow> nat" where
  "bytes_of r = (case r of Inl _ \<Rightarrow> 0 | Inr c \<Rightarrow> length c)"

lemma bytes_read:
  assumes "sm_ok (zi_entries z)"
  shows "sum_list (map (\<lambda>p. bytes_of (zip_read Z z p)) (sm_keys (zi_entries z))) \<le> total_size (zi_entries z)"
proof -
  have "bytes_of (zip_read Z z (fst ke)) \<le> unat (en_size (snd ke))" if "ke \<in> set (zi_entries z)" for ke
  proof (cases "zip_read Z z (fst ke)")
    case (Inr c)
    have "sm_get (zi_entries z) (fst ke) = Some (snd ke)" using sm_get_mem [OF assms] that by simp
    then show ?thesis using zip_readD [OF Inr] Inr by (auto simp: bytes_of_def)
  qed (simp add: bytes_of_def)
  then have "sum_list (map (\<lambda>ke. bytes_of (zip_read Z z (fst ke))) (zi_entries z)) \<le>
      sum_list (map (\<lambda>ke. unat (en_size (snd ke))) (zi_entries z))" by (rule sum_list_mono)
  then show ?thesis by (simp add: total_size_def case_prod_unfold comp_def)
qed

text \<open>
  C35. Bounds of a ZIP archive. When an archive is accepted, it is no larger than allowed; it lists at most the
  allowed number of resources, under different names that are normalized relative paths in valid UTF-8
  within the limits on length and depth; only listed names can be read, and what one
  reads as is within the limit for a resource; and reading all of them cannot produce more bytes than the
  limit for the whole archive.
\<close>

theorem zip_within_limits:
  assumes "parse_zip b l = Inr z" and "zip_list z = Inr names"
  shows "length b \<le> li_max_archive_bytes l \<and> length names \<le> li_max_resources l \<and> distinct names \<and>
    (\<forall>p \<in> set names. safe_path p \<and> valid_utf8 p \<and> length p \<le> li_max_path_bytes l \<and> path_depth p \<le> li_max_depth l) \<and>
    (\<forall>p c. zip_read Z z p = Inr c \<longrightarrow> p \<in> set names \<and> length c \<le> li_max_resource_bytes l) \<and>
    sum_list (map (\<lambda>p. bytes_of (zip_read Z z p)) names) \<le> li_max_total_bytes l"
proof -
  note ok = parse_zip_ok [OF assms(1)]
  then have e: "sm_ok (zi_entries z)" "total_size (zi_entries z) \<le> li_max_total_bytes l" by (simp_all add: entries_ok_def)
  have each: "entry_ok l k x" if "sm_get (zi_entries z) k = Some x" for k x
    using ok sm_get_in_set [OF that] entries_okD by blast
  have names: "names = sm_keys (zi_entries z)" using assms(2) by (simp add: zip_list_def)
  have "safe_path p \<and> valid_utf8 p \<and> length p \<le> li_max_path_bytes l \<and> path_depth p \<le> li_max_depth l" if "p \<in> set names" for p
    using that ok unfolding names by (auto simp: entry_ok_def dest!: entries_okD)
  moreover have "p \<in> set names \<and> length c \<le> li_max_resource_bytes l" if "zip_read Z z p = Inr c" for p c
    using zip_readD [OF that] each sm_get_Some_key unfolding names entry_ok_def by metis
  moreover have "sum_list (map (\<lambda>p. bytes_of (zip_read Z z p)) names) \<le> li_max_total_bytes l"
    using bytes_read [OF e(1)] e(2) unfolding names by (rule le_trans)
  ultimately show ?thesis using ok sm_ok_distinct [OF e(1)] by (auto simp: names)
qed

text \<open>An archive with one stored entry, \<open>a\<close>, of one byte.\<close>

definition tiny_archive :: string where
  "tiny_archive = map char_of (
     [80, 75, 3, 4, 20, 0, 0, 0, 0, 0, 0, 0, 0, 0, 7, 0, 0, 0, 1, 0, 0, 0, 1, 0, 0, 0, 1, 0, 0, 0, 97, 120] @
     [80, 75, 1, 2, 20, 0, 20, 0, 0, 0, 0, 0, 0, 0, 0, 0, 7, 0, 0, 0, 1, 0, 0, 0, 1, 0, 0, 0, 1, 0, 0, 0, 0, 0, 0, 0, 0, 0, 0, 0, 0, 0, 0, 0, 0, 0, 97] @
     [80, 75, 5, 6, 0, 0, 0, 0, 1, 0, 1, 0, 47, 0, 0, 0, 32, 0, 0, 0, 0, 0] :: nat list)"

definition tiny_limits :: ZipLimits where
  "tiny_limits = \<lparr>li_max_resources = 4, li_max_resource_bytes = 100, li_max_total_bytes = 200, li_max_path_bytes = 16,
     li_max_depth = 4, li_max_archive_bytes = 1000, li_max_compression_ratio = 10\<rparr>"

definition tiny_zip :: zip where
  "tiny_zip = \<lparr>zi_archive = tiny_archive, zi_limits = tiny_limits, zi_entries = [(''a'', \<lparr>en_flags = 0, en_method = 0, en_crc = 7,
     en_compressed = 1, en_size = 1, en_offset = 0\<rparr>)]\<rparr>"

lemma char_97: "char_of (97 :: nat) = CHR ''a''"
  by code_simp

lemma tiny_words:
  "length tiny_archive = 101" "read_u32 tiny_archive 79 = Inr 0x06054b50" "read_u16 tiny_archive 99 = Inr 0" "read_u16 tiny_archive 83 = Inr 0"
  "read_u16 tiny_archive 85 = Inr 0" "read_u16 tiny_archive 89 = Inr 1" "read_u32 tiny_archive 91 = Inr 47" "read_u32 tiny_archive 95 = Inr 32"
  "read_u32 tiny_archive 32 = Inr 0x02014b50" "read_u16 tiny_archive 36 = Inr 20" "read_u16 tiny_archive 40 = Inr 0"
  "read_u16 tiny_archive 42 = Inr 0" "read_u32 tiny_archive 48 = Inr 7" "read_u32 tiny_archive 52 = Inr 1" "read_u32 tiny_archive 56 = Inr 1"
  "read_u16 tiny_archive 60 = Inr 1" "read_u16 tiny_archive 62 = Inr 0" "read_u16 tiny_archive 64 = Inr 0" "read_u32 tiny_archive 70 = Inr 0"
  "read_u32 tiny_archive 74 = Inr 0" "take (Suc 0) (drop 78 tiny_archive) = ''a''"
  by (simp_all add: tiny_archive_def read_u16_def read_u32_def byte_at_def char_97)


lemma tiny_name: "safe_path ''a''" "valid_utf8 ''a''"
  using segments.simps [of "''a''"]
  by (simp_all add: safe_path_def bad_segment_def valid_utf8_Cons utf8_count_ranges second_ok_def valid_utf8.simps [of "[]"])

lemma tiny_parses: "parse_zip tiny_archive tiny_limits = Inr tiny_zip"
proof -
  have e: "find_eocd tiny_archive 0 79 = Inr 79" by (subst find_eocd.simps) (simp add: tiny_words)
  have c: "read_central tiny_archive 32 = Inr \<lparr>ce_made = 20, ce_entry = \<lparr>en_flags = 0, en_method = 0, en_crc = 7, en_compressed = 1,
      en_size = 1, en_offset = 0\<rparr>, ce_external = 0, ce_name = ''a'', ce_next = 79\<rparr>"
    by (simp add: read_central_def tiny_words)
  have n: "normalize_resource_path ''a'' = Inr ''a''" using tiny_name normalize_accepts by blast
  have "central_loop (Suc 0) tiny_archive tiny_limits 32 0 [] = Inr (79, zi_entries tiny_zip)"
    by (simp add: c skipped_name_def check_entry_def tiny_name n tiny_limits_def path_depth_def tiny_zip_def)
  then show ?thesis
    by (simp add: parse_zip_def validate_limits_def tiny_limits_def tiny_words e tiny_zip_def)
qed

theorem zip_within_limits_witness:
  "zip_list tiny_zip = Inr [''a''] \<and> length tiny_archive \<le> li_max_archive_bytes tiny_limits \<and>
   bytes_of (zip_read \<lparr>zl_ready = True, zl_inflate = \<lambda>_ _. None, zl_crc32 = \<lambda>_. 7\<rparr> tiny_zip ''a'') \<le> li_max_total_bytes tiny_limits"
proof -
  have l: "zip_list tiny_zip = Inr [''a'']" by (simp add: zip_list_def tiny_zip_def)
  from zip_within_limits [OF tiny_parses l, of "\<lparr>zl_ready = True, zl_inflate = \<lambda>_ _. None, zl_crc32 = \<lambda>_. 7\<rparr>"] l
  show ?thesis by simp
qed

text \<open>The test for encryption is never reached with the flag set: an entry with it has unsupported flags.\<close>

lemma encrypted_entry_reported_as_flags:
  assumes "en_flags (ce_entry c) AND 1 \<noteq> 0"
  shows "check_entry l c entries n = Inl (Thrown ''ZIP_FLAGS_UNSUPPORTED'')"
proof -
  have "odd (en_flags (ce_entry c))" using assms by (simp add: and_one_eq odd_iff_mod_2_eq_one)
  then have "odd (en_flags (ce_entry c) AND NOT 0x0808)" by (simp only: even_and_iff even_not_iff) simp
  then have "en_flags (ce_entry c) AND NOT 0x0808 \<noteq> 0" by auto
  then show ?thesis by (simp add: check_entry_def)
qed

end
