(* ===== verification/Directory_Provider.thy ===== *)
theory Directory_Provider
  imports Zip_Provider State_Store Bundle_Resolver
begin

text \<open>
  The directory provider and the two repositories on the file system (\<open>tool_resource_providers.cpp\<close>). A
  directory is the map from the relative paths of its entries to what the code can observe of them; the
  order in which the recursive iterator visits them is a parameter, since the system does not define it.
  Canonical paths leave the root only through links, which are rejected before, so the tests for an escape
  from the root never fire in this view of the file system and are not modelled. A failing system call in the
  middle of a listing (\<open>DIRECTORY_LIST_FAILED\<close>, \<open>REPOSITORY_LIST_FAILED\<close>) and empty directories are outside it too.
\<close>

section \<open>Directories\<close>

text \<open>A regular file with its size before it is read, the bytes that are read, and its size afterwards; one
  that cannot be opened; a link; anything else that is not a directory.\<close>

datatype fs_node = Regular nat string nat | Unreadable nat | Symlink | Special

type_synonym tree = "(string, fs_node) smap"

fun size_before :: "fs_node \<Rightarrow> nat option" where
  "size_before (Regular n _ _) = Some n"
| "size_before (Unreadable n) = Some n"
| "size_before _ = None"

definition list_entry :: "'a ResourceLimits_scheme \<Rightarrow> tree \<Rightarrow> string \<Rightarrow> string list \<times> nat \<Rightarrow> (string list \<times> nat) result" where
  "list_entry l t p st = (case st of (paths, seen_bytes) \<Rightarrow> (case sm_get t p of
     None \<Rightarrow> Inr st
   | Some node \<Rightarrow>
       if node = Symlink then Inl (resource_error ''SYMLINK_REJECTED'' ''symbolic links and reparse links are not resources'')
       else case size_before node of
         None \<Rightarrow> Inr st
       | Some bytes \<Rightarrow>
           bindR (normalize_resource_path p) (\<lambda>_.
           if li_max_path_bytes l < length p \<or> li_max_depth l < path_depth p
           then Inl (resource_error ''RESOURCE_PATH_LIMIT'' ''resource path limit exceeded'')
           else if li_max_resource_bytes l < bytes \<or> li_max_total_bytes l < bytes \<or> li_max_total_bytes l - bytes < seen_bytes
           then Inl (resource_error ''RESOURCE_SIZE_LIMIT'' ''resource size limit exceeded'')
           else if li_max_resources l < length paths + 1
           then Inl (resource_error ''RESOURCE_COUNT_LIMIT'' ''resource count limit exceeded'')
           else Inr (paths @ [p], seen_bytes + bytes))))"

definition dir_list :: "'a ResourceLimits_scheme \<Rightarrow> (tree \<Rightarrow> string list) \<Rightarrow> tree \<Rightarrow> string list result" where
  "dir_list l walk t = bindR (foldR (list_entry l t) (walk t) ([], 0)) (\<lambda>(paths, _). Inr (sort paths))"

text \<open>The paths of the directories above a path and the path itself, as \<open>contains_symlink\<close> visits them.\<close>

definition steps_to :: "string \<Rightarrow> string list" where
  "steps_to p = map (\<lambda>i. take i p) (filter (\<lambda>i. i = length p \<or> p ! i = CHR ''/'') [1 ..< Suc (length p)])"

definition contains_symlink :: "tree \<Rightarrow> string \<Rightarrow> bool" where
  "contains_symlink t p = list_ex (\<lambda>q. sm_get t q = Some Symlink) (steps_to p)"

definition is_subdir :: "tree \<Rightarrow> string \<Rightarrow> bool" where
  "is_subdir t p = list_ex (prefix (p @ ''/'')) (sm_keys t)"

definition dir_read :: "'a ResourceLimits_scheme \<Rightarrow> (string \<Rightarrow> string) \<Rightarrow> tree \<Rightarrow> string \<Rightarrow> string result" where
  "dir_read l no_entry t p =
    bindR (normalize_resource_path p) (\<lambda>_.
    if li_max_path_bytes l < length p \<or> li_max_depth l < path_depth p
    then Inl (resource_error ''RESOURCE_PATH_LIMIT'' ''resource path limit exceeded'')
    else if contains_symlink t p
    then Inl (resource_error ''SYMLINK_REJECTED'' ''symbolic links and reparse links are not resources'')
    else case sm_get t p of
      None \<Rightarrow> if is_subdir t p then Inl (resource_error ''RESOURCE_NOT_FOUND'' ''resource is outside root or not a regular file'')
        else Inl (resource_error ''RESOURCE_NOT_FOUND'' (no_entry p))
    | Some node \<Rightarrow> (case size_before node of
        None \<Rightarrow> Inl (resource_error ''RESOURCE_NOT_FOUND'' ''resource is outside root or not a regular file'')
      | Some before \<Rightarrow>
          if li_max_resource_bytes l < before then Inl (resource_error ''RESOURCE_SIZE_LIMIT'' ''resource size limit exceeded'')
          else case node of
            Regular _ bytes after \<Rightarrow>
              if length bytes \<noteq> before \<or> after \<noteq> before
              then Inl (resource_error ''RESOURCE_CHANGED'' ''resource changed while it was read'') else Inr bytes
          | _ \<Rightarrow> Inl (resource_error ''RESOURCE_NOT_FOUND'' ''resource cannot be opened'')))"

text \<open>What the file system contributes: the order of iteration, the texts for a missing entry and for a
  directory read as a file.\<close>

record fs_env =
  fe_walk :: "tree \<Rightarrow> string list"
  fe_missing :: "string \<Rightarrow> string"
  fe_not_file :: string

definition dir_provider :: "fs_env \<Rightarrow> 'a ResourceLimits_scheme \<Rightarrow> tree \<Rightarrow> provider" where
  "dir_provider V l t = \<lparr>pv_list = dir_list l (fe_walk V) t, pv_read = dir_read l (fe_missing V) t\<rparr>"

definition new_dir_provider :: "fs_env \<Rightarrow> 'a ResourceLimits_scheme \<Rightarrow> tree option \<Rightarrow> provider res" where
  "new_dir_provider V l d = bindR (validate_limits l) (\<lambda>_. case d of
     None \<Rightarrow> Inl (Invalid_arg ''resource root is not a directory'')
   | Some t \<Rightarrow> Inr (dir_provider V l t))"

section \<open>Repositories\<close>

definition is_alnum :: "char \<Rightarrow> bool" where
  "is_alnum c = (let n = of_char c :: nat in 48 \<le> n \<and> n \<le> 57 \<or> 65 \<le> n \<and> n \<le> 90 \<or> 97 \<le> n \<and> n \<le> 122)"

definition safe_component :: "string \<Rightarrow> bool" where
  "safe_component v = (v \<noteq> [] \<and> v \<noteq> ''.'' \<and> v \<noteq> ''..'' \<and>
     list_all (\<lambda>c. is_alnum c \<or> c = CHR ''.'' \<or> c = CHR ''_'' \<or> c = CHR ''-'') v)"

text \<open>What stands under the name of a bundle and, in it, under the name of a version; a file that cannot be
  opened has no contents.\<close>

datatype version_node = Version_dir tree | Version_file "string option" | Version_link
datatype id_node = Id_dir "(string, version_node) smap" | Id_link | Id_file

record disk_repository =
  dr_root :: string
  dr_ids :: "(string, id_node) smap"

definition bundle_dir :: "disk_repository \<Rightarrow> string \<Rightarrow> (string, version_node) smap result" where
  "bundle_dir r ident =
    (if \<not> safe_component ident then Inl (resource_error ''BUNDLE_ID_INVALID'' ''invalid Bundle id'')
     else case sm_get (dr_ids r) ident of
       Some (Id_dir m) \<Rightarrow> Inr m
     | _ \<Rightarrow> Inl (resource_error ''BUNDLE_NOT_FOUND'' ''Bundle not found''))"

fun version_is_dir :: "version_node \<Rightarrow> bool" where
  "version_is_dir (Version_dir _) = True"
| "version_is_dir _ = False"

fun version_is_file :: "version_node \<Rightarrow> bool" where
  "version_is_file (Version_file _) = True"
| "version_is_file _ = False"

definition dir_versions :: "disk_repository \<Rightarrow> string \<Rightarrow> bool \<Rightarrow> string list result" where
  "dir_versions r ident offline = bindR (bundle_dir r ident) (\<lambda>m.
     Inr (sort (map fst (filter (\<lambda>(name, node). version_is_dir node \<and> safe_component name) m))))"

definition zip_versions :: "disk_repository \<Rightarrow> string \<Rightarrow> bool \<Rightarrow> string list result" where
  "zip_versions r ident offline = bindR (bundle_dir r ident) (\<lambda>m.
     Inr (sort (filter safe_component (map (path_stem \<circ> fst)
       (filter (\<lambda>(name, node). version_is_file node \<and> path_extension name = ''.zip'') m)))))"

definition version_not_found :: "string \<Rightarrow> err" where
  "version_not_found message = resource_error ''VERSION_NOT_FOUND'' message"

definition coordinate :: "(string \<Rightarrow> string) \<Rightarrow> disk_repository \<Rightarrow> string \<Rightarrow> string \<Rightarrow> version_node result" where
  "coordinate no_entry r ident name = (case sm_get (dr_ids r) ident of
     Some Id_link \<Rightarrow> Inl (version_not_found ''repository coordinate contains a symlink'')
   | Some (Id_dir m) \<Rightarrow> (case sm_get m name of
       Some Version_link \<Rightarrow> Inl (version_not_found ''repository coordinate contains a symlink'')
     | Some node \<Rightarrow> Inr node
     | None \<Rightarrow> Inl (version_not_found (no_entry (ident @ ''/'' @ name))))
   | _ \<Rightarrow> Inl (version_not_found (no_entry (ident @ ''/'' @ name))))"

definition bad_coordinate :: "string \<Rightarrow> string \<Rightarrow> bool" where
  "bad_coordinate ident version = (\<not> safe_component ident \<or> \<not> safe_component version)"

definition dir_get :: "fs_env \<Rightarrow> 'a ResourceLimits_scheme \<Rightarrow> disk_repository \<Rightarrow> string \<Rightarrow> string \<Rightarrow> bool \<Rightarrow> provider result" where
  "dir_get V l r ident version offline =
    (if bad_coordinate ident version then Inl (resource_error ''REPOSITORY_COORDINATE_INVALID'' ''invalid Bundle coordinate'')
     else bindR (coordinate (fe_missing V) r ident version) (\<lambda>node.
       case new_dir_provider V l (case node of Version_dir t \<Rightarrow> Some t | _ \<Rightarrow> None) of
         Inl e \<Rightarrow> Inl (version_not_found (zip_what e))
       | Inr p \<Rightarrow> Inr p))"

text \<open>The constructor from a path: what opening a directory as a stream gives depends on the system.\<close>

definition new_zip_provider :: "fs_env \<Rightarrow> zlib \<Rightarrow> ZipLimits \<Rightarrow> version_node \<Rightarrow> provider res" where
  "new_zip_provider V Z l node = bindR (case node of
       Version_file (Some b) \<Rightarrow> Inr b
     | Version_file None \<Rightarrow> Inl (Thrown ''ZIP_NOT_FOUND'')
     | _ \<Rightarrow> Inl (Thrown (fe_not_file V))) (\<lambda>b.
     bindR (parse_zip b l) (\<lambda>z. Inr (zip_provider Z z)))"

definition zip_get :: "fs_env \<Rightarrow> zlib \<Rightarrow> ZipLimits \<Rightarrow> disk_repository \<Rightarrow> string \<Rightarrow> string \<Rightarrow> bool \<Rightarrow> provider result" where
  "zip_get V Z l r ident version offline =
    (if bad_coordinate ident version then Inl (resource_error ''REPOSITORY_COORDINATE_INVALID'' ''invalid Bundle coordinate'')
     else bindR (coordinate (fe_missing V) r ident (version @ ''.zip'')) (\<lambda>node.
       case new_zip_provider V Z l node of
         Inl e \<Rightarrow> Inl (version_not_found (zip_what e))
       | Inr p \<Rightarrow> Inr p))"

definition directory_repository :: "fs_env \<Rightarrow> 'a ResourceLimits_scheme \<Rightarrow> disk_repository \<Rightarrow> repository" where
  "directory_repository V l r = \<lparr>rp_versions = dir_versions r, rp_get = dir_get V l r, rp_source = dr_root r\<rparr>"

definition zip_repository :: "fs_env \<Rightarrow> zlib \<Rightarrow> ZipLimits \<Rightarrow> disk_repository \<Rightarrow> repository" where
  "zip_repository V Z l r = \<lparr>rp_versions = zip_versions r, rp_get = zip_get V Z l r, rp_source = dr_root r\<rparr>"

section \<open>What the directory provider keeps\<close>

definition walks :: "fs_env \<Rightarrow> tree \<Rightarrow> bool" where
  "walks V t = (distinct (fe_walk V t) \<and> set (fe_walk V t) = set (sm_keys t))"

lemma list_entryD:
  assumes "list_entry l t p (paths, n) = Inr (paths', n')"
  shows "(paths', n') = (paths, n) \<or> safe_path p \<and> length p \<le> li_max_path_bytes l \<and> path_depth p \<le> li_max_depth l \<and>
    paths' = paths @ [p] \<and> length paths' \<le> li_max_resources l \<and> n' \<le> li_max_total_bytes l"
proof (cases "sm_get t p")
  case None
  then show ?thesis using assms by (simp add: list_entry_def)
next
  case (Some node)
  show ?thesis
  proof (cases "size_before node")
    case None
    then show ?thesis using assms Some by (simp add: list_entry_def split: if_split_asm)
  next
    case size: (Some k)
    have link: "node \<noteq> Symlink" using size by auto
    obtain q where q: "normalize_resource_path p = Inr q" using assms
      by (cases "normalize_resource_path p") (simp_all add: list_entry_def Some size link)
    then show ?thesis using assms normalize_accepts [of p q]
      by (simp add: list_entry_def Some size link split: if_split_asm) auto
  qed
qed

lemma list_entries_ok:
  assumes "foldR (list_entry l t) ws (paths, n) = Inr (paths', n')" and "distinct (paths @ ws)" and "\<forall>p \<in> set paths. safe_path p"
  shows "distinct paths' \<and> (\<forall>p \<in> set paths'. safe_path p)"
  using assms
proof (induction ws arbitrary: paths n)
  case (Cons w ws)
  then obtain p1 n1 where s: "list_entry l t w (paths, n) = Inr (p1, n1)" "foldR (list_entry l t) ws (p1, n1) = Inr (paths', n')"
    by (auto simp: bindR_Inr)
  have "distinct (p1 @ ws) \<and> (\<forall>p \<in> set p1. safe_path p)" using list_entryD [OF s(1)] Cons.prems(2,3) by auto
  then show ?case using Cons.IH [OF s(2)] by blast
qed simp

interpretation directory: provider_contract "walks V" "dir_provider V l" for V and l :: "'a ResourceLimits_scheme"
proof
  fix t ps p
  assume w: "walks V t" and l: "pv_list (dir_provider V l t) = Inr ps"
  then obtain paths n where f: "foldR (list_entry l t) (fe_walk V t) ([], 0) = Inr (paths, n)" "ps = sort paths"
    by (auto simp: dir_provider_def dir_list_def bindR_Inr)
  have "distinct paths \<and> (\<forall>p \<in> set paths. safe_path p)" using list_entries_ok [OF f(1)] w by (simp add: walks_def)
  then show "distinct ps" "p \<in> set ps \<Longrightarrow> safe_path p" using f(2) by simp_all
qed

end
