(* ===== verification/Bundle_Store.thy ===== *)
theory Bundle_Store
  imports Directory_Provider
begin

text \<open>
  The bundle tools (\<open>bundle_store.cpp\<close>): digests of a lockfile, atomic replacement of lockfiles and keyring
  snapshots, the content-addressed cache with its garbage collection, and the options for production. What
  system calls answer is an argument of the operations; removing a directory is taken to be complete, and the
  Windows branches are not represented.
\<close>

definition tool_error :: "string \<Rightarrow> string \<Rightarrow> err" where
  "tool_error code message =
    \<lparr>err_category = ''bundle_tools'', err_code = code, err_message = message, err_retryable = False\<rparr>"

definition hex_digest :: "string \<Rightarrow> string option" where
  "hex_digest digest =
    (if take 7 digest \<noteq> ''sha256:'' \<or> length digest \<noteq> 71 then None
     else if list_all lower_hex (drop 7 digest) then Some (drop 7 digest) else None)"

section \<open>Lockfiles\<close>

definition lock_entry_digest :: "jsonlib \<Rightarrow> string \<times> json \<Rightarrow> (err + string) res" where
  "lock_entry_digest L kv = (case kv of (ident, v) \<Rightarrow>
    bindR (get_string L v ''digest'' []) (\<lambda>digest.
    bindR (get_string L v ''version'' []) (\<lambda>version.
    if ident = [] \<or> version = [] \<or> hex_digest digest = None
    then Inr (Inl (tool_error ''LOCKFILE_ENTRY_INVALID'' (''invalid lock entry: '' @ ident)))
    else Inr (Inr digest))))"

fun lock_entry_digests :: "jsonlib \<Rightarrow> (string \<times> json) list \<Rightarrow> string set \<Rightarrow> (err + string set) res" where
  "lock_entry_digests L [] digests = Inr (Inr digests)"
| "lock_entry_digests L (kv # kvs) digests = bindR (lock_entry_digest L kv) (\<lambda>r. case r of
     Inl e \<Rightarrow> Inr (Inl e) | Inr d \<Rightarrow> lock_entry_digests L kvs (insert d digests))"

definition lock_digests :: "jsonlib \<Rightarrow> string \<Rightarrow> (err + string set) res" where
  "lock_digests L text =
    bindR (read_json L text) (\<lambda>r.
    bindR (get_string L r ''format'' []) (\<lambda>format.
    bindR (if format \<noteq> ''dage-lock'' then Inr 0
      else bindR (j_get r ''lock_version'' (JInt 0)) (as_integer (- (2 ^ 31)) (2 ^ 31 - 1))) (\<lambda>version.
    if format \<noteq> ''dage-lock'' \<or> version \<noteq> 1
    then Inr (Inl (tool_error ''LOCKFILE_INVALID'' ''invalid dage.lock header''))
    else bindR (j_at r ''bundles'') (\<lambda>bundles.
    if \<not> is_object bundles then Inr (Inl (tool_error ''LOCKFILE_INVALID'' ''invalid dage.lock header''))
    else bindR (members bundles) (\<lambda>kvs. lock_entry_digests L kvs {})))))"

definition lockfile_digests :: "jsonlib \<Rightarrow> string \<Rightarrow> string set result" where
  "lockfile_digests L text = (case lock_digests L text of
     Inl e \<Rightarrow> Inl (tool_error ''LOCKFILE_INVALID'' (fault_what L e))
   | Inr r \<Rightarrow> r)"

section \<open>Atomic writes\<close>

text \<open>Directories of the host by name, each with the contents of its files. A path is its parent, when it has
  one, and its file name.\<close>

type_synonym host_dirs = "(string, (string, string) smap) smap"

record text_path =
  tp_parent :: "string option"
  tp_name :: string

record AtomicLockfileOptions =
  al_durable :: bool
  al_create_parent :: bool
  al_max_bytes :: nat

text \<open>How one write ends. When writing, flushing or closing fails, the file is unlinked; the error of that is
  ignored, and then some first bytes of the data stay under the name.\<close>

datatype write_outcome = Written | Not_created | Not_written "nat option"

text \<open>What the process and the system contribute to one write: the current directory, whether a missing parent
  can be made and the text when it cannot, process id and counter of the temporary name, and the outcomes of
  writing, renaming, flushing the directory and removing the temporary file after a failed replacement, whose
  error the code ignores.\<close>

record write_io =
  wi_current :: string
  wi_mkdir_error :: "string option"
  wi_process :: nat
  wi_counter :: nat
  wi_outcome :: write_outcome
  wi_renamed :: bool
  wi_dir_synced :: bool
  wi_temp_removed :: bool

definition temporary_sibling :: "nat \<Rightarrow> nat \<Rightarrow> string \<Rightarrow> string" where
  "temporary_sibling process counter name = ''.'' @ name @ ''.tmp-'' @ to_string process @ ''-'' @ to_string counter"

definition write_bytes :: "write_outcome \<Rightarrow> string \<Rightarrow> string \<Rightarrow> (string, string) smap \<Rightarrow> (string, string) smap \<times> unit result" where
  "write_bytes outcome name data d =
    (if sm_has d name \<or> outcome = Not_created then (d, Inl (tool_error ''FILE_CREATE_FAILED'' ''cannot create temporary file''))
     else case outcome of
       Not_written stays \<Rightarrow> (case stays of None \<Rightarrow> d | Some n \<Rightarrow> sm_put name (take n data) d,
         Inl (tool_error ''FILE_WRITE_FAILED'' ''cannot durably write temporary file''))
     | _ \<Rightarrow> (sm_put name data d, Inr ()))"

definition replace_file :: "write_io \<Rightarrow> bool \<Rightarrow> string \<Rightarrow> string \<Rightarrow> string \<Rightarrow> (string, string) smap \<Rightarrow> (string, string) smap \<times> unit result" where
  "replace_file io durable temp target data d =
    (if \<not> wi_renamed io then (d, Inl (tool_error ''LOCKFILE_REPLACE_FAILED'' ''atomic lockfile replacement failed''))
     else (sm_put target data (sm_del temp d),
       if durable \<and> \<not> wi_dir_synced io
       then Inl (tool_error ''DIRECTORY_SYNC_FAILED'' ''lockfile replaced but directory sync failed'') else Inr ()))"

definition replace_in :: "write_io \<Rightarrow> bool \<Rightarrow> string \<Rightarrow> string \<Rightarrow> (string, string) smap \<Rightarrow> (string, string) smap \<times> unit result" where
  "replace_in io durable name data d =
    (let temp = temporary_sibling (wi_process io) (wi_counter io) name in
     case write_bytes (wi_outcome io) temp data d of
       (d', Inl e) \<Rightarrow> (d', Inl e)
     | (d', Inr _) \<Rightarrow> (case replace_file io durable temp name data d' of
         (d'', Inl e) \<Rightarrow> (if wi_temp_removed io then sm_del temp d'' else d'', Inl e)
       | (d'', Inr _) \<Rightarrow> (d'', Inr ())))"

definition parent_dir :: "write_io \<Rightarrow> text_path \<Rightarrow> string" where
  "parent_dir io path = (case tp_parent path of Some p \<Rightarrow> p | None \<Rightarrow> wi_current io)"

definition write_text_atomic :: "write_io \<Rightarrow> AtomicLockfileOptions \<Rightarrow> text_path \<Rightarrow> string \<Rightarrow> host_dirs \<Rightarrow> host_dirs \<times> unit result" where
  "write_text_atomic io opts path data w =
    (if tp_parent path = None \<and> tp_name path = [] \<or> al_max_bytes opts = 0 \<or> al_max_bytes opts < length data
     then (w, Inl (tool_error ''ATOMIC_WRITE_SIZE_LIMIT'' ''invalid path or document size''))
     else let parent = parent_dir io path in
       if sm_get w parent = None \<and> al_create_parent opts \<and> wi_mkdir_error io \<noteq> None
       then (w, Inl (tool_error ''ATOMIC_WRITE_FAILED'' (the (wi_mkdir_error io))))
       else let w' = (if sm_get w parent = None \<and> al_create_parent opts then sm_put parent [] w else w) in
         case sm_get w' parent of
           None \<Rightarrow> (w', Inl (tool_error ''ATOMIC_WRITE_PARENT_INVALID'' ''document parent is not a directory''))
         | Some d \<Rightarrow> (case replace_in io (al_durable opts) (tp_name path) data d of
             (d', r) \<Rightarrow> (sm_put parent d' w', r)))"

definition write_lockfile_atomic :: "jsonlib \<Rightarrow> write_io \<Rightarrow> AtomicLockfileOptions \<Rightarrow> text_path \<Rightarrow> string \<Rightarrow> host_dirs \<Rightarrow> host_dirs \<times> unit result" where
  "write_lockfile_atomic L io opts path data w = (case lockfile_digests L data of
     Inl e \<Rightarrow> (w, Inl e)
   | Inr _ \<Rightarrow> write_text_atomic io opts path data w)"

definition write_keyring_atomic :: "jsonlib \<Rightarrow> write_io \<Rightarrow> AtomicLockfileOptions \<Rightarrow> text_path \<Rightarrow> Keyring \<Rightarrow> host_dirs \<Rightarrow> host_dirs \<times> unit result" where
  "write_keyring_atomic L io opts path keys w = (case snapshot_json L keys of
     Inl e \<Rightarrow> (w, Inl e)
   | Inr snapshot \<Rightarrow> (case from_snapshot_json L snapshot of
       Inl e \<Rightarrow> (w, Inl e)
     | Inr _ \<Rightarrow> write_text_atomic io opts path snapshot w))"

section \<open>The cache\<close>

text \<open>What stands in the directory \<open>sha256\<close> of the cache: a directory, a file, or a link with what it leads to.\<close>

datatype cache_node = Cached tree | Cache_file | Cache_link "cache_node option"

record cache =
  ca_entries :: "(string, cache_node) smap"
  ca_limits :: ResourceLimits
  ca_next_temp :: nat

definition new_cache :: "ResourceLimits \<Rightarrow> (string, cache_node) smap \<Rightarrow> nat \<Rightarrow> cache res" where
  "new_cache l entries counter =
    (if li_max_resources l = 0 \<or> li_max_resource_bytes l = 0 \<or> li_max_total_bytes l = 0
     then Inl (Invalid_arg ''BundleCache resource limits must be positive'')
     else Inr \<lparr>ca_entries = entries, ca_limits = l, ca_next_temp = counter\<rparr>)"

fun followed :: "cache_node \<Rightarrow> cache_node option" where
  "followed (Cache_link None) = None"
| "followed (Cache_link (Some n)) = followed n"
| "followed n = Some n"

definition reached :: "(string, cache_node) smap \<Rightarrow> string \<Rightarrow> cache_node option" where
  "reached es name = Option.bind (sm_get es name) followed"

definition entry_provider :: "fs_env \<Rightarrow> ResourceLimits \<Rightarrow> (string, cache_node) smap \<Rightarrow> string \<Rightarrow> provider res" where
  "entry_provider V l es name = (case reached es name of
     None \<Rightarrow> Inl (Thrown (fe_missing V name))
   | Some n \<Rightarrow> new_dir_provider V l (case n of Cached t \<Rightarrow> Some t | _ \<Rightarrow> None))"

definition entry_digest :: "codec \<Rightarrow> fs_env \<Rightarrow> ResourceLimits \<Rightarrow> (string, cache_node) smap \<Rightarrow> string \<Rightarrow> string res" where
  "entry_digest C V l es name = bindR (entry_provider V l es name) (\<lambda>p.
     bindR (load_bundle_from_provider C p) (\<lambda>b. Inr (bu_digest b)))"

text \<open>What the system contributes to an installation: the outcome of each write, the text when a directory cannot
  be made because a file is in the way, an entry that another process publishes before the rename, and the
  outcomes of the rename and of flushing the directory.\<close>

record install_io =
  ii_write :: "string \<Rightarrow> write_outcome"
  ii_in_the_way :: "string \<Rightarrow> string"
  ii_race :: "cache_node option"
  ii_renamed :: bool
  ii_dir_synced :: bool

definition write_resource :: "install_io \<Rightarrow> string \<Rightarrow> string \<Rightarrow> tree \<Rightarrow> tree res" where
  "write_resource io path bytes t =
    (if list_ex (\<lambda>q. q \<noteq> path \<and> sm_has t q) (steps_to path) then Inl (Thrown (ii_in_the_way io path))
     else if sm_has t path \<or> is_subdir t path \<or> ii_write io path = Not_created then Inl (Thrown ''cannot create temporary file'')
     else if ii_write io path \<noteq> Written then Inl (Thrown ''cannot durably write temporary file'')
     else Inr (sm_put path (Regular (length bytes) bytes (length bytes)) t))"

definition copy_resource :: "install_io \<Rightarrow> provider \<Rightarrow> string \<Rightarrow> tree \<Rightarrow> tree res" where
  "copy_resource io P path t =
    (if normalize_resource_path path \<noteq> Inr path then Inl (Thrown ''non-normalized cache resource'')
     else case pv_read P path of
       Inl e \<Rightarrow> Inl (Thrown (err_message e))
     | Inr bytes \<Rightarrow> write_resource io path bytes t)"

definition copy_resources :: "install_io \<Rightarrow> provider \<Rightarrow> tree \<Rightarrow> tree res" where
  "copy_resources io P t = (case pv_list P of
     Inl e \<Rightarrow> Inl (Thrown (err_message e))
   | Inr paths \<Rightarrow> foldR (copy_resource io P) paths t)"

text \<open>A rename onto an existing entry succeeds only when that is an empty directory.\<close>

definition publish_directory :: "install_io \<Rightarrow> tree \<Rightarrow> string \<Rightarrow> (string, cache_node) smap \<Rightarrow> (string, cache_node) smap \<times> unit result" where
  "publish_directory io staged target es =
    (let es' = (case ii_race io of None \<Rightarrow> es | Some n \<Rightarrow> sm_put target n es) in
     if \<not> ii_renamed io \<or> sm_get es' target \<notin> {None, Some (Cached [])}
     then (es', Inl (tool_error ''CACHE_PUBLISH_FAILED'' ''cannot atomically publish cache entry''))
     else (sm_put target (Cached staged) es',
       if ii_dir_synced io then Inr ()
       else Inl (tool_error ''DIRECTORY_SYNC_FAILED'' ''cache entry published but directory sync failed'')))"

definition publish :: "codec \<Rightarrow> fs_env \<Rightarrow> install_io \<Rightarrow> ResourceLimits \<Rightarrow> string \<Rightarrow> tree \<Rightarrow> string \<Rightarrow> (string, cache_node) smap \<Rightarrow>
    (string, cache_node) smap \<times> unit res" where
  "publish C V io l digest staged target es = (case publish_directory io staged target es of
     (es', Inr _) \<Rightarrow> (es', Inr ())
   | (es', Inl e) \<Rightarrow> (es',
       if reached es' target = None then Inl (Thrown (err_message e))
       else bindR (entry_digest C V l es' target) (\<lambda>d.
         if d \<noteq> digest then Inl (Thrown ''concurrent cache entry digest mismatch'') else Inr ())))"

text \<open>The staging directory. It is made when it is missing and used as it is when a directory of that name is
  there; its name has the counter of the process in it, and not the process. Links of that name are not
  represented: they count as a file in the way.\<close>

definition staging_name :: "string \<Rightarrow> nat \<Rightarrow> string" where
  "staging_name hex counter = ''.'' @ hex @ ''.tmp-'' @ to_string counter"

definition staging_tree :: "install_io \<Rightarrow> (string, cache_node) smap \<Rightarrow> string \<Rightarrow> tree res" where
  "staging_tree io es name = (case sm_get es name of
     None \<Rightarrow> Inr []
   | Some (Cached t) \<Rightarrow> Inr t
   | Some _ \<Rightarrow> Inl (Thrown (ii_in_the_way io name)))"

definition stage :: "codec \<Rightarrow> fs_env \<Rightarrow> install_io \<Rightarrow> ResourceLimits \<Rightarrow> string \<Rightarrow> provider \<Rightarrow> tree \<Rightarrow> tree res" where
  "stage C V io l digest P start =
    bindR (copy_resources io P start) (\<lambda>t.
    bindR (new_dir_provider V l (Some t)) (\<lambda>snapshot.
    bindR (load_bundle_from_provider C snapshot) (\<lambda>b.
    if bu_digest b \<noteq> digest then Inl (Thrown ''cache snapshot digest mismatch'') else Inr t)))"

definition install_failed :: "codec \<Rightarrow> fault \<Rightarrow> err" where
  "install_failed C e = tool_error ''CACHE_INSTALL_FAILED'' (fault_what (cd_lib C) e)"

definition install_new :: "codec \<Rightarrow> fs_env \<Rightarrow> install_io \<Rightarrow> cache \<Rightarrow> provider \<Rightarrow> string \<Rightarrow> string \<Rightarrow> cache \<times> string result" where
  "install_new C V io c P digest hex =
    (let staging = staging_name hex (ca_next_temp c); es = ca_entries c;
         c' = c\<lparr>ca_next_temp := ca_next_temp c + 1, ca_entries := sm_del staging es\<rparr> in
     case bindR (staging_tree io es staging) (stage C V io (ca_limits c) digest P) of
       Inl e \<Rightarrow> (c', Inl (install_failed C e))
     | Inr t \<Rightarrow> (case publish C V io (ca_limits c) digest t hex (sm_del staging es) of
         (es', Inl e) \<Rightarrow> (c'\<lparr>ca_entries := es'\<rparr>, Inl (install_failed C e))
       | (es', Inr _) \<Rightarrow> (c'\<lparr>ca_entries := es'\<rparr>, Inr digest)))"

definition install :: "codec \<Rightarrow> fs_env \<Rightarrow> install_io \<Rightarrow> cache \<Rightarrow> provider \<Rightarrow> cache \<times> string result" where
  "install C V io c P = (case load_bundle_from_provider C P of
     Inl e \<Rightarrow> (c, Inl (install_failed C e))
   | Inr source \<Rightarrow> (case hex_digest (bu_digest source) of
       None \<Rightarrow> (c, Inl (tool_error ''DIGEST_INVALID'' ''invalid Bundle digest''))
     | Some hex \<Rightarrow>
         if reached (ca_entries c) hex \<noteq> None then (c, case entry_digest C V (ca_limits c) (ca_entries c) hex of
             Inl e \<Rightarrow> Inl (install_failed C e)
           | Inr d \<Rightarrow> if d \<noteq> bu_digest source then Inl (tool_error ''CACHE_CORRUPT'' ''existing cache entry digest mismatch'')
               else Inr (bu_digest source))
         else install_new C V io c P (bu_digest source) hex))"

definition cache_open :: "codec \<Rightarrow> fs_env \<Rightarrow> cache \<Rightarrow> string \<Rightarrow> provider result" where
  "cache_open C V c digest = (case hex_digest digest of
     None \<Rightarrow> Inl (tool_error ''DIGEST_INVALID'' ''invalid Bundle digest'')
   | Some hex \<Rightarrow> (case entry_provider V (ca_limits c) (ca_entries c) hex of
       Inl e \<Rightarrow> Inl (tool_error ''CACHE_MISS'' (fault_what (cd_lib C) e))
     | Inr p \<Rightarrow> Inr p))"

section \<open>Garbage collection\<close>

record CacheGcOptions =
  gc_dry_run :: bool
  gc_max_removals :: nat

record CacheGcResult =
  gr_candidates :: "string list"
  gr_removed :: "string list"
  gr_reclaimed_bytes :: "64 word"

definition tree_bytes :: "tree \<Rightarrow> (64 word) res" where
  "tree_bytes t =
    (if list_ex (\<lambda>(_, n). n = Symlink) t then Inl (Thrown ''link-like entry in cache'')
     else Inr (sum_list (map (\<lambda>(_, n). case size_before n of None \<Rightarrow> 0 | Some k \<Rightarrow> of_nat k) t)))"

type_synonym gc_state = "(string, cache_node) smap \<times> CacheGcResult"

definition gc_candidate :: "string set \<Rightarrow> (string, cache_node) smap \<Rightarrow> string \<Rightarrow> tree option" where
  "gc_candidate keep es name = (case sm_get es name of
     Some (Cached t) \<Rightarrow> if hex_digest (''sha256:'' @ name) = None \<or> name \<in> keep then None else Some t
   | _ \<Rightarrow> None)"

text \<open>One entry: the state reached, with the error that ends the loop there.\<close>

definition gc_entry :: "codec \<Rightarrow> CacheGcOptions \<Rightarrow> string set \<Rightarrow> string \<Rightarrow> gc_state \<Rightarrow> gc_state \<times> unit result" where
  "gc_entry C opts keep name st = (case st of (es, result) \<Rightarrow> (case gc_candidate keep es name of
     None \<Rightarrow> (st, Inr ())
   | Some t \<Rightarrow>
       let digest = ''sha256:'' @ name; result' = result\<lparr>gr_candidates := gr_candidates result @ [digest]\<rparr> in
       if gc_max_removals opts < length (gr_candidates result')
       then ((es, result'), Inl (tool_error ''GC_LIMIT_EXCEEDED'' ''cache GC candidate limit exceeded''))
       else case tree_bytes t of
         Inl e \<Rightarrow> ((es, result'), Inl (tool_error ''CACHE_GC_FAILED'' (fault_what (cd_lib C) e)))
       | Inr bytes \<Rightarrow>
           if gc_dry_run opts then ((es, result'), Inr ())
           else ((sm_del name es, result'\<lparr>gr_removed := gr_removed result' @ [digest],
             gr_reclaimed_bytes := gr_reclaimed_bytes result' + bytes\<rparr>), Inr ())))"

fun gc_loop :: "codec \<Rightarrow> CacheGcOptions \<Rightarrow> string set \<Rightarrow> string list \<Rightarrow> gc_state \<Rightarrow> gc_state \<times> unit result" where
  "gc_loop C opts keep [] st = (st, Inr ())"
| "gc_loop C opts keep (name # names) st = (case gc_entry C opts keep name st of
     (st', Inl e) \<Rightarrow> (st', Inl e)
   | (st', Inr _) \<Rightarrow> gc_loop C opts keep names st')"

text \<open>\<open>names\<close> is the order in which the iterator visits the directory of the cache.\<close>

definition garbage_collect :: "codec \<Rightarrow> string list \<Rightarrow> string list \<Rightarrow> CacheGcOptions \<Rightarrow> cache \<Rightarrow> cache \<times> CacheGcResult result" where
  "garbage_collect C names retained opts c =
    (if gc_max_removals opts = 0 then (c, Inl (tool_error ''GC_OPTIONS_INVALID'' ''max_removals must be positive''))
     else if list_ex (\<lambda>d. hex_digest d = None) retained
     then (c, Inl (tool_error ''DIGEST_INVALID'' ''invalid retained digest''))
     else case gc_loop C opts (set (map (drop 7) retained)) names
         (ca_entries c, \<lparr>gr_candidates = [], gr_removed = [], gr_reclaimed_bytes = 0\<rparr>) of
       ((es, result), Inl e) \<Rightarrow> (c\<lparr>ca_entries := es\<rparr>, Inl e)
     | ((es, result), Inr _) \<Rightarrow> (c\<lparr>ca_entries := es\<rparr>,
         Inr (result\<lparr>gr_candidates := sort (gr_candidates result), gr_removed := sort (gr_removed result)\<rparr>)))"

section \<open>Production\<close>

definition verified_production_profile :: "jsonlib \<Rightarrow> string \<Rightarrow> repository \<Rightarrow> (string \<Rightarrow> SignatureContext \<Rightarrow> string result) \<Rightarrow>
    (SignatureContext \<Rightarrow> bool result) \<Rightarrow> SignaturePolicy \<Rightarrow> bool \<Rightarrow> BundleResolverOptions result" where
  "verified_production_profile L lock repo keys trust policy offline =
    (if sp_kind policy = Disabled \<or> sp_kind policy = Threshold \<and> sp_threshold policy = 0
     then Inl (tool_error ''SIGNATURE_POLICY_INVALID'' ''production threshold must be positive'')
     else case lockfile_digests L lock of
       Inl e \<Rightarrow> Inl e
     | Inr _ \<Rightarrow> Inr \<lparr>op_mode = (if offline then Offline else Verified), op_repository = Some repo, op_keys = Some keys,
         op_trust = Some trust, op_lock_json = lock, op_signature_policy = policy\<rparr>)"

end
