(* ===== verification/Store_Laws.thy ===== *)
theory Store_Laws
  imports Bundle_Store Bundle_Laws
begin

text \<open>
  Laws of the cache: what an installed digest opens, what garbage collection leaves alone, and that the digests
  of a lockfile include those the resolver reads from it.
\<close>

section \<open>Digests as names\<close>

lemma hex_digestD: "hex_digest d = Some h \<Longrightarrow> d = ''sha256:'' @ h \<and> list_all lower_hex h"
proof -
  assume "hex_digest d = Some h"
  then have "take 7 d = ''sha256:''" "drop 7 d = h" "list_all lower_hex h" by (auto simp: hex_digest_def split: if_splits)
  then show ?thesis using append_take_drop_id [of 7 d] by simp
qed

lemma hex_digest_name: "hex_digest d = Some h \<Longrightarrow> h = drop 7 d"
  by (auto simp: hex_digest_def split: if_splits)

lemma loaded_digest_valid:
  assumes "load_bundle_from_provider C P = Inr b"
  shows "\<exists>h. hex_digest (bu_digest b) = Some h"
proof -
  have d: "bu_digest b = sha256_digest (bu_signing_payload b)" by (rule load_bundleD [OF assms])
  obtain h where "sha256_digest (bu_signing_payload b) = ''sha256:'' @ h" "length h = 64" "\<forall>c \<in> set h. lower_hex c"
    using sha256_digest_shape by blast
  then show ?thesis by (simp add: hex_digest_def d list_all_iff)
qed

lemma staging_not_digest: "hex_digest d = Some h \<Longrightarrow> h \<noteq> staging_name hex n"
  using hex_digestD [of d h] by (auto simp: staging_name_def lower_hex_def less_eq_char_def)

section \<open>The cache\<close>

definition opens :: "codec \<Rightarrow> fs_env \<Rightarrow> ResourceLimits \<Rightarrow> (string, cache_node) smap \<Rightarrow> string \<Rightarrow> string \<Rightarrow> bool" where
  "opens C V l es hex digest = (\<exists>p b. entry_provider V l es hex = Inr p \<and> load_bundle_from_provider C p = Inr b \<and> bu_digest b = digest)"

lemma entry_digest_opens: "entry_digest C V l es hex = Inr d \<longleftrightarrow> opens C V l es hex d"
  by (auto simp: entry_digest_def opens_def bindR_Inr)

lemma entry_provider_cong: "sm_get es' name = sm_get es name \<Longrightarrow> entry_provider V l es' name = entry_provider V l es name"
  by (simp add: entry_provider_def reached_def)

lemma stage_opens:
  assumes "stage C V io l digest P start = Inr t" and "sm_get es hex = Some (Cached t)"
  shows "opens C V l es hex digest"
  using assms by (auto simp: stage_def bindR_Inr opens_def entry_provider_def reached_def split: if_splits)

lemma publish_opens:
  assumes "publish C V io l digest t hex es = (es', Inr ())" and "stage C V io l digest P start = Inr t"
  shows "opens C V l es' hex digest"
proof (cases "publish_directory io t hex es")
  case (Pair es1 r)
  show ?thesis
  proof (cases r)
    case (Inl e)
    then show ?thesis using assms(1) Pair
      by (auto simp: publish_def bindR_Inr entry_digest_opens split: if_splits)
  next
    case (Inr u)
    then have "es' = es1" "sm_get es1 hex = Some (Cached t)"
      using assms(1) Pair by (auto simp: publish_def publish_directory_def Let_def split: if_splits)
    then show ?thesis using stage_opens [OF assms(2)] by simp
  qed
qed

lemma publish_other:
  assumes "publish C V io l digest t hex es = (es', r)"
  shows "(name \<noteq> hex \<longrightarrow> sm_get es' name = sm_get es name) \<and> (sm_ok es \<longrightarrow> sm_ok es')"
  using assms by (auto simp: publish_def publish_directory_def Let_def split: if_splits option.splits prod.splits sum.splits)

lemma cache_open_opens:
  "cache_open C V c d = Inr p \<longleftrightarrow> (\<exists>h. hex_digest d = Some h \<and> entry_provider V (ca_limits c) (ca_entries c) h = Inr p)"
  by (auto simp: cache_open_def split: option.splits sum.splits)

lemma install_new_keeps:
  assumes "sm_ok (ca_entries c)" and "install_new C V io c P digest hex = (c', r)"
  shows "ca_limits c' = ca_limits c \<and> sm_ok (ca_entries c') \<and>
    (\<forall>name. name \<noteq> hex \<and> name \<noteq> staging_name hex (ca_next_temp c) \<longrightarrow> sm_get (ca_entries c') name = sm_get (ca_entries c) name) \<and>
    (\<forall>d. r = Inr d \<longrightarrow> d = digest \<and> opens C V (ca_limits c) (ca_entries c') hex digest)"
proof (cases "bindR (staging_tree io (ca_entries c) (staging_name hex (ca_next_temp c))) (stage C V io (ca_limits c) digest P)")
  case (Inl e)
  then show ?thesis using assms by (auto simp: install_new_def Let_def sm_get_del)
next
  case (Inr t)
  let ?es = "sm_del (staging_name hex (ca_next_temp c)) (ca_entries c)"
  obtain start where st: "stage C V io (ca_limits c) digest P start = Inr t" using Inr by (auto simp: bindR_Inr)
  obtain es' q where p: "publish C V io (ca_limits c) digest t hex ?es = (es', q)" by fastforce
  have c': "ca_entries c' = es'" "ca_limits c' = ca_limits c" "\<And>d. r = Inr d \<Longrightarrow> d = digest \<and> q = Inr ()"
    using assms(2) Inr p by (auto simp: install_new_def Let_def split: sum.splits)
  have "opens C V (ca_limits c) es' hex digest" if "q = Inr ()"
    using publish_opens [OF _ st] p that by simp
  then show ?thesis using c' publish_other [OF p] assms(1) by (auto simp: sm_get_del)
qed

lemma install_keeps:
  assumes "sm_ok (ca_entries c)" and "install C V io c P = (c', r)"
  shows "ca_limits c' = ca_limits c \<and> sm_ok (ca_entries c') \<and>
    (\<forall>d h p. hex_digest d = Some h \<and> entry_provider V (ca_limits c) (ca_entries c) h = Inr p \<longrightarrow>
       entry_provider V (ca_limits c) (ca_entries c') h = Inr p) \<and>
    (\<forall>d. r = Inr d \<longrightarrow> (\<exists>b h. load_bundle_from_provider C P = Inr b \<and> bu_digest b = d \<and> hex_digest d = Some h \<and>
       opens C V (ca_limits c) (ca_entries c') h d))"
proof (cases "load_bundle_from_provider C P")
  case (Inl e)
  then show ?thesis using assms by (auto simp: install_def)
next
  case (Inr b)
  obtain hex where hex: "hex_digest (bu_digest b) = Some hex" using loaded_digest_valid [OF Inr] by blast
  show ?thesis
  proof (cases "reached (ca_entries c) hex")
    case (Some n)
    then have "c' = c" "r = Inr d \<Longrightarrow> d = bu_digest b \<and> entry_digest C V (ca_limits c) (ca_entries c) hex = Inr d" for d
      using assms(2) Inr hex by (auto simp: install_def split: sum.splits if_splits)
    then show ?thesis using assms(1) Inr hex by (auto simp: entry_digest_opens)
  next
    case None
    then have "install_new C V io c P (bu_digest b) hex = (c', r)" using assms(2) Inr hex by (simp add: install_def)
    note new = install_new_keeps [OF assms(1) this]
    have "entry_provider V (ca_limits c) (ca_entries c') h = Inr p"
      if h: "hex_digest d = Some h" "entry_provider V (ca_limits c) (ca_entries c) h = Inr p" for d h p
    proof -
      have "h \<noteq> hex" using None h(2) by (auto simp: entry_provider_def)
      then have "sm_get (ca_entries c') h = sm_get (ca_entries c) h" using new staging_not_digest [OF h(1)] by blast
      then show ?thesis using entry_provider_cong h(2) by metis
    qed
    then show ?thesis using new Inr hex by blast
  qed
qed

section \<open>Garbage collection\<close>

definition gc_inv :: "CacheGcOptions \<Rightarrow> string set \<Rightarrow> (string, cache_node) smap \<Rightarrow> gc_state \<Rightarrow> bool" where
  "gc_inv opts keep es0 st = (case st of (es, res) \<Rightarrow> sm_ok es \<and> (gc_dry_run opts \<longrightarrow> es = es0 \<and> gr_removed res = []) \<and>
     length (gr_candidates res) \<le> gc_max_removals opts \<and>
     (\<not> gc_dry_run opts \<longrightarrow> gr_removed res = gr_candidates res) \<and>
     (\<forall>name. sm_get es name = sm_get es0 name \<and> ''sha256:'' @ name \<notin> set (gr_removed res) \<or>
        sm_get es name = None \<and> gc_candidate keep es0 name \<noteq> None \<and> ''sha256:'' @ name \<in> set (gr_removed res)))"

definition gc_safe :: "CacheGcOptions \<Rightarrow> string set \<Rightarrow> (string, cache_node) smap \<Rightarrow> (string, cache_node) smap \<Rightarrow> bool" where
  "gc_safe opts keep es0 es = (sm_ok es \<and> (gc_dry_run opts \<longrightarrow> es = es0) \<and>
     (\<forall>name. sm_get es name = sm_get es0 name \<or> sm_get es name = None \<and> gc_candidate keep es0 name \<noteq> None))"

lemma gc_inv_name:
  "gc_inv opts keep es0 (es, res) \<Longrightarrow> sm_get es name = sm_get es0 name \<and> ''sha256:'' @ name \<notin> set (gr_removed res) \<or>
     sm_get es name = None \<and> gc_candidate keep es0 name \<noteq> None \<and> ''sha256:'' @ name \<in> set (gr_removed res)"
  unfolding gc_inv_def prod.case by (elim conjE) (erule spec)

lemma gc_inv_safe: "gc_inv opts keep es0 (es, res) \<Longrightarrow> gc_safe opts keep es0 es"
  unfolding gc_inv_def gc_safe_def by auto

lemma gc_candidate_cong: "sm_get es name = sm_get es0 name \<Longrightarrow> gc_candidate keep es name = gc_candidate keep es0 name"
  by (simp add: gc_candidate_def)

lemma gc_candidate_get: "gc_candidate keep es name = Some t \<Longrightarrow> sm_get es name = Some (Cached t)"
  by (auto simp: gc_candidate_def split: option.splits cache_node.splits if_splits)

lemma gc_entry_keeps:
  assumes "gc_inv opts keep es0 (es, res)" and "gc_entry C opts keep name (es, res) = ((es', res'), r)"
  shows "gc_safe opts keep es0 es' \<and> (r = Inr () \<longrightarrow> gc_inv opts keep es0 (es', res') \<and>
    (\<not> gc_dry_run opts \<longrightarrow> gc_candidate keep es' name = None))"
proof (cases "gc_candidate keep es name")
  case None
  then show ?thesis using assms gc_inv_safe [OF assms(1)] by (auto simp: gc_entry_def)
next
  case (Some t)
  have ok: "sm_ok es" using assms(1) by (simp add: gc_inv_def)
  have here: "sm_get es name = Some (Cached t)" by (rule gc_candidate_get [OF Some])
  then have same: "sm_get es name = sm_get es0 name" "''sha256:'' @ name \<notin> set (gr_removed res)"
    using gc_inv_name [OF assms(1), of name] by (elim disjE conjE; simp)+
  have cand: "gc_candidate keep es0 name \<noteq> None" using Some gc_candidate_cong [OF same(1)] by simp
  show ?thesis
  proof (cases "gc_max_removals opts < length (gr_candidates res @ [''sha256:'' @ name]) \<or> (\<exists>e. tree_bytes t = Inl e)")
    case True
    then have "es' = es" "r \<noteq> Inr ()" using assms(2) Some by (auto simp: gc_entry_def Let_def split: if_splits sum.splits)
    then show ?thesis using gc_inv_safe [OF assms(1)] by simp
  next
    case False
    then obtain k where k: "tree_bytes t = Inr k" "length (gr_candidates res @ [''sha256:'' @ name]) \<le> gc_max_removals opts"
      by (cases "tree_bytes t") auto
    show ?thesis
    proof (cases "gc_dry_run opts")
      case True
      then have e: "es' = es" "res' = res\<lparr>gr_candidates := gr_candidates res @ [''sha256:'' @ name]\<rparr>"
        using assms(2) Some k by (auto simp: gc_entry_def Let_def)
      have "gc_inv opts keep es0 (es', res')" using assms(1) True k(2) unfolding gc_inv_def e by (simp, elim conjE, simp)
      then show ?thesis using gc_inv_safe True by blast
    next
      case False
      then have e: "es' = sm_del name es" "gr_candidates res' = gr_candidates res @ [''sha256:'' @ name]"
          "gr_removed res' = gr_removed res @ [''sha256:'' @ name]"
        using assms(2) Some k by (auto simp: gc_entry_def Let_def)
      have "gc_inv opts keep es0 (es', res')"
        using assms(1) False k(2) cand ok unfolding gc_inv_def by (simp add: e sm_get_del) (elim conjE, simp)
      moreover have "gc_candidate keep es' name = None" by (simp add: gc_candidate_def e(1) sm_get_del ok)
      ultimately show ?thesis using gc_inv_safe by blast
    qed
  qed
qed

lemma gc_loop_keeps:
  assumes "gc_inv opts keep es0 (es, res)" and "gc_loop C opts keep names (es, res) = ((es', res'), r)"
  shows "gc_safe opts keep es0 es' \<and> (r = Inr () \<longrightarrow> gc_inv opts keep es0 (es', res') \<and>
    (\<forall>name \<in> set names. \<not> gc_dry_run opts \<longrightarrow> gc_candidate keep es' name = None) \<and>
    (\<forall>name. gc_candidate keep es name = None \<longrightarrow> gc_candidate keep es' name = None))"
  using assms
proof (induction names arbitrary: es res)
  case Nil
  then show ?case using gc_inv_safe [OF Nil.prems(1)] by simp
next
  case (Cons name names)
  obtain es1 res1 q where s: "gc_entry C opts keep name (es, res) = ((es1, res1), q)" by (metis surj_pair)
  note one = gc_entry_keeps [OF Cons.prems(1) s]
  show ?case
  proof (cases q)
    case (Inl e)
    then show ?thesis using Cons.prems(2) s one by auto
  next
    case (Inr u)
    then have rest: "gc_loop C opts keep names (es1, res1) = ((es', res'), r)" using Cons.prems(2) s by simp
    have inv1: "gc_inv opts keep es0 (es1, res1)" "\<not> gc_dry_run opts \<longrightarrow> gc_candidate keep es1 name = None" using one Inr by auto
    have "gc_candidate keep es1 x = None" if "gc_candidate keep es x = None" for x
    proof -
      have "sm_ok es" using Cons.prems(1) by (simp add: gc_inv_def)
      then have "sm_get es1 x = sm_get es x \<or> sm_get es1 x = None"
        using s by (auto simp: gc_entry_def Let_def sm_get_del split: option.splits if_splits sum.splits)
      then show ?thesis using that by (auto simp: gc_candidate_def)
    qed
    then show ?thesis using Cons.IH [OF inv1(1) rest] inv1(2) by auto
  qed
qed

lemma garbage_collectD:
  assumes "sm_ok (ca_entries c)" and "garbage_collect C names retained opts c = (c', r)"
  shows "ca_limits c' = ca_limits c \<and> ca_next_temp c' = ca_next_temp c \<and>
    gc_safe opts (set (map (drop 7) retained)) (ca_entries c) (ca_entries c') \<and>
    (\<forall>res. r = Inr res \<longrightarrow> (\<exists>res0. gc_inv opts (set (map (drop 7) retained)) (ca_entries c) (ca_entries c', res0) \<and>
       res = res0\<lparr>gr_candidates := sort (gr_candidates res0), gr_removed := sort (gr_removed res0)\<rparr> \<and>
       (\<forall>name \<in> set names. \<not> gc_dry_run opts \<longrightarrow> gc_candidate (set (map (drop 7) retained)) (ca_entries c') name = None)))"
proof (cases "gc_max_removals opts = 0 \<or> list_ex (\<lambda>d. hex_digest d = None) retained")
  case True
  then have "c' = c" "\<forall>res. r \<noteq> Inr res" using assms(2) by (auto simp: garbage_collect_def split: if_splits)
  then show ?thesis using assms(1) by (simp add: gc_safe_def)
next
  case False
  let ?keep = "set (map (drop 7) retained)" and ?res = "\<lparr>gr_candidates = [], gr_removed = [], gr_reclaimed_bytes = 0\<rparr>"
  obtain es' res' q where l: "gc_loop C opts ?keep names (ca_entries c, ?res) = ((es', res'), q)" by (metis surj_pair)
  have "gc_inv opts ?keep (ca_entries c) (ca_entries c, ?res)" using assms(1) by (simp add: gc_inv_def)
  note k = gc_loop_keeps [OF this l]
  have c': "c' = c\<lparr>ca_entries := es'\<rparr>"
      "\<And>res. r = Inr res \<Longrightarrow> q = Inr () \<and> res = res'\<lparr>gr_candidates := sort (gr_candidates res'), gr_removed := sort (gr_removed res')\<rparr>"
    using assms(2) l False by (auto simp: garbage_collect_def split: sum.splits)
  show ?thesis using k c' by auto
qed

lemma gc_keeps_retained:
  assumes "sm_ok (ca_entries c)" and "garbage_collect C names retained opts c = (c', r)" and "d \<in> set retained"
  shows "cache_open C V c' d = cache_open C V c d"
proof (cases "hex_digest d")
  case None
  then show ?thesis by (simp add: cache_open_def)
next
  case (Some h)
  note g = garbage_collectD [OF assms(1,2)]
  have "gc_candidate (set (map (drop 7) retained)) (ca_entries c) h = None"
    using assms(3) hex_digest_name [OF Some] by (auto simp: gc_candidate_def split: option.splits cache_node.splits)
  then have "sm_get (ca_entries c') h = sm_get (ca_entries c) h" using g unfolding gc_safe_def by blast
  then have "entry_provider V (ca_limits c') (ca_entries c') h = entry_provider V (ca_limits c) (ca_entries c) h"
    using g entry_provider_cong by metis
  then show ?thesis by (simp add: cache_open_def Some)
qed

section \<open>Live digests\<close>

lemma lock_entry_digests_live:
  "lock_entry_digests L kvs ds = Inr (Inr live) \<Longrightarrow> ds \<subseteq> live \<and> (\<forall>kv \<in> set kvs. \<exists>d. lock_entry_digest L kv = Inr (Inr d) \<and> d \<in> live)"
proof (induction kvs arbitrary: ds)
  case (Cons kv kvs)
  then obtain d where d: "lock_entry_digest L kv = Inr (Inr d)" "lock_entry_digests L kvs (insert d ds) = Inr (Inr live)"
    by (auto simp: bindR_nested)
  then show ?case using Cons.IH [OF d(2)] by auto
qed simp

lemma mapR_source: "mapR f xs = Inr ys \<Longrightarrow> y \<in> set ys \<Longrightarrow> \<exists>x \<in> set xs. f x = Inr y"
  by (induction xs arbitrary: ys) (auto simp: bindR_Inr)

lemma parse_lock_entry_key: "parse_lock_entry L (k, v) = Inr (k', lock) \<Longrightarrow> k' = k"
  by (auto simp: parse_lock_entry_def bindR_Inr split: if_splits)

text \<open>The digests of a lockfile, as the tools read them, include every digest the resolver reads from it.\<close>

lemma parse_lock_live:
  assumes "parse_lock L t = Inr locks" and "lockfile_digests L t = Inr live" and "sm_get locks k = Some lock"
  shows "lk_digest lock \<in> live"
proof -
  have "t \<noteq> []" using assms(1,3) by (auto simp: parse_lock_def)
  obtain r bundles kvs where r: "read_json L t = Inr r" "j_at r ''bundles'' = Inr bundles" "members bundles = Inr kvs"
      "lock_entry_digests L kvs {} = Inr (Inr live)"
    using assms(2) by (auto simp: lockfile_digests_def lock_digests_def bindR_Inr split: sum.split_asm if_split_asm)
  then have mapped: "mapR (parse_lock_entry L) kvs = Inr locks"
    using assms(1) \<open>t \<noteq> []\<close> by (auto simp: parse_lock_def bindR_Inr split: if_splits)
  obtain kv where kv: "kv \<in> set kvs" "parse_lock_entry L kv = Inr (k, lock)"
    using mapR_source [OF mapped sm_get_in_set [OF assms(3)]] by (elim bexE)
  obtain i v where i: "kv = (i, v)" by fastforce
  have v: "(k, v) \<in> set kvs" "parse_lock_entry L (k, v) = Inr (k, lock)"
    using kv parse_lock_entry_key [of L i v k lock] by (simp_all add: i)
  have "\<exists>d. lock_entry_digest L (k, v) = Inr (Inr d) \<and> d \<in> live" using lock_entry_digests_live [OF r(4)] v(1) by blast
  then show ?thesis using v(2)
    by (auto simp: lock_entry_digest_def parse_lock_entry_def bindR_Inr split: if_splits)
qed

end
