(* ===== verification/Store_Safety.thy ===== *)
theory Store_Safety
  imports Store_Laws Resolver_Sample
begin

text \<open>
  The cache as a store of contents: what is installed stays available through every sequence of installations
  and of collections that retain it. The locale \<open>content_store\<close> is the contract; it is interpreted on the
  operations of the cache.
\<close>

section \<open>Stores of contents\<close>

locale content_store =
  fixes inv :: "'s \<Rightarrow> bool" and opened :: "'s \<Rightarrow> 'd \<Rightarrow> 'p option" and step :: "'a \<Rightarrow> 's \<Rightarrow> 's"
    and retains :: "'a \<Rightarrow> 'd \<Rightarrow> bool"
  assumes step_inv: "inv s \<Longrightarrow> inv (step a s)"
    and step_opened: "inv s \<Longrightarrow> retains a d \<Longrightarrow> opened s d = Some p \<Longrightarrow> opened (step a s) d = Some p"
begin

lemma opened_stays:
  "inv s \<Longrightarrow> \<forall>a \<in> set as. retains a d \<Longrightarrow> opened s d = Some p \<Longrightarrow> opened (fold step as s) d = Some p"
  by (induction as arbitrary: s) (simp_all add: step_inv step_opened)

end

datatype cache_op = Install install_io provider | Collect "string list" "string list" CacheGcOptions

fun cache_step :: "codec \<Rightarrow> fs_env \<Rightarrow> cache_op \<Rightarrow> cache \<Rightarrow> cache" where
  "cache_step C V (Install io P) c = fst (install C V io c P)"
| "cache_step C V (Collect names retained opts) c = fst (garbage_collect C names retained opts c)"

fun retains :: "cache_op \<Rightarrow> string \<Rightarrow> bool" where
  "retains (Install _ _) d = True"
| "retains (Collect _ retained _) d = (d \<in> set retained)"

definition cache_opened :: "codec \<Rightarrow> fs_env \<Rightarrow> cache \<Rightarrow> string \<Rightarrow> provider option" where
  "cache_opened C V c d = (case cache_open C V c d of Inl _ \<Rightarrow> None | Inr p \<Rightarrow> Some p)"

lemma cache_opened_Some: "cache_opened C V c d = Some p \<longleftrightarrow> cache_open C V c d = Inr p"
  by (simp add: cache_opened_def split: sum.splits)

interpretation bundle_cache: content_store "\<lambda>c. sm_ok (ca_entries c)" "cache_opened C V" "cache_step C V" retains for C V
proof
  fix c :: cache and a
  assume ok: "sm_ok (ca_entries c)"
  show "sm_ok (ca_entries (cache_step C V a c))"
  proof (cases a)
    case (Install io P)
    then show ?thesis using install_keeps [OF ok, of C V io P] by (metis cache_step.simps(1) prod.collapse)
  next
    case (Collect names kept opts)
    then show ?thesis using garbage_collectD [OF ok, of C names kept opts]
      by (metis cache_step.simps(2) gc_safe_def prod.collapse)
  qed
next
  fix c :: cache and a d p
  assume ok: "sm_ok (ca_entries c)" and keep: "retains a d" and p: "cache_opened C V c d = Some p"
  show "cache_opened C V (cache_step C V a c) d = Some p"
  proof (cases a)
    case (Install io P)
    obtain c' r where i: "install C V io c P = (c', r)" by fastforce
    then show ?thesis using Install install_keeps [OF ok i] p by (auto simp: cache_opened_Some cache_open_opens)
  next
    case (Collect names kept opts)
    obtain c' r where g: "garbage_collect C names kept opts c = (c', r)" by fastforce
    then show ?thesis using Collect keep p gc_keeps_retained [OF ok g] by (simp add: cache_opened_Some)
  qed
qed

text \<open>
  C37. Safety of the cache. When an installation reports a digest, that is the digest of the bundle it was given;
  and after any further sequence of installations, with whatever failures and races, and of collections that
  retain the digest, the cache still opens it, and what it opens loads as a bundle with this very digest.
\<close>

theorem installed_bundle_stays:
  assumes "sm_ok (ca_entries c)" and "install C V io c P = (c1, Inr d)" and "\<forall>a \<in> set later. retains a d"
  shows "(\<exists>b. load_bundle_from_provider C P = Inr b \<and> bu_digest b = d) \<and>
    (\<exists>p b. cache_open C V (fold (cache_step C V) later c1) d = Inr p \<and> load_bundle_from_provider C p = Inr b \<and> bu_digest b = d)"
proof -
  from install_keeps [OF assms(1,2)]
  have ok: "sm_ok (ca_entries c1)" and src: "\<exists>b. load_bundle_from_provider C P = Inr b \<and> bu_digest b = d"
    and op: "\<exists>h. hex_digest d = Some h \<and> opens C V (ca_limits c1) (ca_entries c1) h d" by auto
  from op obtain p b where p: "cache_open C V c1 d = Inr p" "load_bundle_from_provider C p = Inr b" "bu_digest b = d"
    by (auto simp: opens_def cache_open_opens)
  have "cache_opened C V (fold (cache_step C V) later c1) d = Some p"
    by (rule bundle_cache.opened_stays [OF ok assms(3)]) (simp add: cache_opened_Some p(1))
  then show ?thesis using src p(2,3) by (auto simp: cache_opened_Some)
qed

section \<open>A concrete cache\<close>

lemma load_cong:
  assumes "pv_list P = Inr ps" and "pv_list Q = Inr ps" and "pv_read P ''manifest.json'' = pv_read Q ''manifest.json''"
    and "\<And>p. p \<in> set ps \<Longrightarrow> pv_read P p = pv_read Q p"
  shows "load_bundle_from_provider C P = load_bundle_from_provider C Q"
proof -
  have "read_contents P (sort ps) = read_contents Q (sort ps)"
    unfolding read_contents_def by (rule mapR_cong) (auto simp: assms(4))
  then show ?thesis by (simp add: load_bundle_from_provider_def assms(1-3) thrown_def)
qed

definition plain_fs :: fs_env where
  "plain_fs = \<lparr>fe_walk = sm_keys, fe_missing = (\<lambda>p. p), fe_not_file = []\<rparr>"

definition plain_io :: install_io where
  "plain_io = \<lparr>ii_write = (\<lambda>_. Written), ii_in_the_way = (\<lambda>p. p), ii_race = None, ii_renamed = True, ii_dir_synced = True\<rparr>"

definition empty_cache :: cache where
  "empty_cache = \<lparr>ca_entries = [], ca_limits = \<lparr>li_max_resources = 9, li_max_resource_bytes = 9, li_max_total_bytes = 9,
     li_max_path_bytes = 99, li_max_depth = 9\<rparr>, ca_next_temp = 1\<rparr>"

definition manifest_tree :: "string \<Rightarrow> tree" where
  "manifest_tree t = [(''manifest.json'', Regular (length t) t (length t))]"

lemma manifest_path: "normalize_resource_path ''manifest.json'' = Inr ''manifest.json''" "path_depth ''manifest.json'' = 1"
    "steps_to ''manifest.json'' = [''manifest.json'']"
  using note_paths normalize_accepts [of "''manifest.json''" "''manifest.json''"] by simp (code_simp+)

lemma manifest_tree_loads:
  assumes "length t = 1"
  shows "load_bundle_from_provider C (dir_provider plain_fs (ca_limits empty_cache) (manifest_tree t)) =
    load_bundle_from_provider C (manifest_only t)"
proof (rule load_cong [of _ "[''manifest.json'']"])
  show "pv_list (dir_provider plain_fs (ca_limits empty_cache) (manifest_tree t)) = Inr [''manifest.json'']"
    using assms by (simp add: dir_provider_def dir_list_def plain_fs_def manifest_tree_def list_entry_def manifest_path empty_cache_def)
  have r: "pv_read (dir_provider plain_fs (ca_limits empty_cache) (manifest_tree t)) ''manifest.json'' = pv_read (manifest_only t) ''manifest.json''"
    using assms by (simp add: dir_provider_def dir_read_def plain_fs_def manifest_tree_def manifest_path empty_cache_def
        contains_symlink_def manifest_only_def as_provider_def mp_read_def)
  then show "pv_read (dir_provider plain_fs (ca_limits empty_cache) (manifest_tree t)) ''manifest.json'' = pv_read (manifest_only t) ''manifest.json''" .
  show "pv_read (dir_provider plain_fs (ca_limits empty_cache) (manifest_tree t)) p = pv_read (manifest_only t) p"
    if "p \<in> set [''manifest.json'']" for p using that r by simp
qed (simp add: manifest_only_def as_provider_def mp_list_def)

lemma sample_installs:
  assumes "load_bundle_from_provider C (manifest_only t) = Inr b" and "length t = 1" and "hex_digest (bu_digest b) = Some h"
  shows "install C plain_fs plain_io empty_cache (manifest_only t) =
    (empty_cache\<lparr>ca_entries := [(h, Cached (manifest_tree t))], ca_next_temp := 2\<rparr>, Inr (bu_digest b))"
proof -
  have read: "pv_read (manifest_only t) ''manifest.json'' = Inr t" "pv_list (manifest_only t) = Inr [''manifest.json'']"
    by (simp_all add: manifest_only_def as_provider_def mp_read_def mp_list_def manifest_path)
  then have copy: "copy_resources plain_io (manifest_only t) [] = Inr (manifest_tree t)"
    by (simp add: copy_resources_def copy_resource_def write_resource_def manifest_path plain_io_def is_subdir_def manifest_tree_def)
  have lim: "validate_limits (ca_limits empty_cache) = Inr ()" by (simp add: validate_limits_def empty_cache_def)
  have st: "stage C plain_fs plain_io (ca_limits empty_cache) (bu_digest b) (manifest_only t) [] = Inr (manifest_tree t)"
    by (simp add: stage_def copy new_dir_provider_def lim manifest_tree_loads assms)
  have pub: "publish C plain_fs plain_io (ca_limits empty_cache) (bu_digest b) (manifest_tree t) h [] = ([(h, Cached (manifest_tree t))], Inr ())"
    by (simp add: publish_def publish_directory_def plain_io_def)
  have e: "ca_entries empty_cache = []" "ca_next_temp empty_cache = 1" by (simp_all add: empty_cache_def)
  show ?thesis by (simp add: install_def assms e reached_def install_new_def staging_tree_def st pub Let_def)
qed

theorem installed_bundle_stays_witness:
  "\<exists>p b. cache_open (sample_codec JNull) plain_fs
       (fold (cache_step (sample_codec JNull) plain_fs)
          [Install plain_io (manifest_only ''B''), Collect [''x''] [bu_digest bundle_a] \<lparr>gc_dry_run = False, gc_max_removals = 5\<rparr>]
          (fst (install (sample_codec JNull) plain_fs plain_io empty_cache (manifest_only ''A'')))) (bu_digest bundle_a) = Inr p \<and>
     load_bundle_from_provider (sample_codec JNull) p = Inr b \<and> bu_digest b = bu_digest bundle_a"
proof -
  obtain h where "hex_digest (bu_digest bundle_a) = Some h" using loaded_digest_valid [OF sample_loads(1)] by blast
  then have i: "install (sample_codec JNull) plain_fs plain_io empty_cache (manifest_only ''A'') =
      (fst (install (sample_codec JNull) plain_fs plain_io empty_cache (manifest_only ''A'')), Inr (bu_digest bundle_a))"
    using sample_installs [OF sample_loads(1)] by simp
  have ok: "sm_ok (ca_entries empty_cache)" by (simp add: empty_cache_def)
  have keep: "\<forall>a \<in> set [Install plain_io (manifest_only ''B''),
      Collect [''x''] [bu_digest bundle_a] \<lparr>gc_dry_run = False, gc_max_removals = 5\<rparr>]. retains a (bu_digest bundle_a)" by simp
  from installed_bundle_stays [OF ok i keep] show ?thesis by (rule conjunct2)
qed

section \<open>Garbage collection\<close>

text \<open>
  C38. What garbage collection removes. Whatever the outcome, retained digests open as before, and only directories
  under the name of a digest that is not retained can be gone: links, files and other names are untouched. A dry
  run changes nothing. A successful collection has at most the allowed number of candidates; when it is not a dry
  run, the candidates are exactly the digests whose directories are gone, and no candidate among the visited names
  is left.
\<close>

theorem collection_exact:
  assumes "sm_ok (ca_entries c)" and "garbage_collect C names retained opts c = (c', r)"
  shows "(\<forall>d \<in> set retained. cache_open C V c' d = cache_open C V c d) \<and>
    (\<forall>name. sm_get (ca_entries c') name = sm_get (ca_entries c) name \<or>
       sm_get (ca_entries c') name = None \<and> (\<exists>t. sm_get (ca_entries c) name = Some (Cached t)) \<and>
       hex_digest (''sha256:'' @ name) \<noteq> None \<and> ''sha256:'' @ name \<notin> set retained) \<and>
    (gc_dry_run opts \<longrightarrow> c' = c) \<and>
    (\<forall>res. r = Inr res \<longrightarrow> length (gr_candidates res) \<le> gc_max_removals opts \<and>
       (\<not> gc_dry_run opts \<longrightarrow> gr_removed res = gr_candidates res \<and>
         (\<forall>name. ''sha256:'' @ name \<in> set (gr_removed res) \<longleftrightarrow> sm_get (ca_entries c') name \<noteq> sm_get (ca_entries c) name) \<and>
         (\<forall>name \<in> set names. gc_candidate (set (map (drop 7) retained)) (ca_entries c') name = None)))"
proof -
  let ?keep = "set (map (drop 7) retained)"
  note g = garbage_collectD [OF assms]
  have cand: "(\<exists>t. sm_get (ca_entries c) name = Some (Cached t)) \<and> hex_digest (''sha256:'' @ name) \<noteq> None \<and>
      ''sha256:'' @ name \<notin> set retained" if "gc_candidate ?keep (ca_entries c) name \<noteq> None" for name
    using that by (force simp: gc_candidate_def image_iff split: option.splits cache_node.splits if_splits)
  have names: "sm_get (ca_entries c') name = sm_get (ca_entries c) name \<or>
       sm_get (ca_entries c') name = None \<and> gc_candidate ?keep (ca_entries c) name \<noteq> None" for name
    using g unfolding gc_safe_def by blast
  have dry: "c' = c" if "gc_dry_run opts" using g that by (simp add: gc_safe_def)
  have outcome: "length (gr_candidates res) \<le> gc_max_removals opts \<and> (\<not> gc_dry_run opts \<longrightarrow> gr_removed res = gr_candidates res \<and>
         (\<forall>name. ''sha256:'' @ name \<in> set (gr_removed res) \<longleftrightarrow> sm_get (ca_entries c') name \<noteq> sm_get (ca_entries c) name) \<and>
         (\<forall>name \<in> set names. gc_candidate ?keep (ca_entries c') name = None))" if ok: "r = Inr res" for res
  proof -
    obtain res0 where r0: "gc_inv opts ?keep (ca_entries c) (ca_entries c', res0)"
        "res = res0\<lparr>gr_candidates := sort (gr_candidates res0), gr_removed := sort (gr_removed res0)\<rparr>"
        "\<forall>name \<in> set names. \<not> gc_dry_run opts \<longrightarrow> gc_candidate ?keep (ca_entries c') name = None"
      using g [THEN conjunct2, THEN conjunct2, THEN conjunct2, THEN spec, THEN mp, OF ok] by (elim exE conjE)
    have gone: "''sha256:'' @ name \<in> set (gr_removed res) \<longleftrightarrow> sm_get (ca_entries c') name \<noteq> sm_get (ca_entries c) name" for name
      using gc_inv_name [OF r0(1), of name] cand [of name] r0(2) by auto
    have "length (gr_candidates res) \<le> gc_max_removals opts" "\<not> gc_dry_run opts \<longrightarrow> gr_removed res = gr_candidates res"
      using r0(1,2) by (auto simp: gc_inv_def)
    then show ?thesis using gone r0(3) by blast
  qed
  show ?thesis
    by (intro conjI allI ballI impI gc_keeps_retained [OF assms] dry) (use names cand outcome in blast)+
qed

definition name_of :: "char \<Rightarrow> string" where
  "name_of x = replicate 64 x"

lemma name_of_digest: "lower_hex x \<Longrightarrow> hex_digest (''sha256:'' @ name_of x) = Some (name_of x)"
  by (simp add: hex_digest_def name_of_def list_all_iff)

lemma name_of_inj: "name_of x = name_of y \<longleftrightarrow> x = y"
  by (simp add: name_of_def)

definition two_entries :: cache where
  "two_entries = empty_cache\<lparr>ca_entries := [(name_of (CHR ''a''), Cached []), (name_of (CHR ''b''), Cached [])]\<rparr>"

lemma two_names: "lower_hex (CHR ''a'')" "lower_hex (CHR ''b'')" "name_of (CHR ''a'') \<noteq> name_of (CHR ''b'')"
    "name_of (CHR ''b'') \<noteq> name_of (CHR ''a'')"
  by (simp_all add: lower_hex_def less_eq_char_def name_of_inj)

lemma two_entries_ok: "sm_ok (ca_entries two_entries)"
proof -
  have "name_of x = x # replicate 63 x" for x using replicate_Suc [of 63 x] by (simp add: name_of_def)
  then have "name_of (CHR ''a'') < name_of (CHR ''b'')" by (simp add: less_char_def)
  then show ?thesis by (simp add: two_entries_def sm_ok_Cons)
qed

lemmas two_digests = name_of_digest [OF two_names(1), simplified] name_of_digest [OF two_names(2), simplified]

theorem collection_exact_witness:
  "cache_open (sample_codec JNull) plain_fs (fst (garbage_collect (sample_codec JNull) [name_of (CHR ''a''), name_of (CHR ''b'')]
       [''sha256:'' @ name_of (CHR ''a'')] \<lparr>gc_dry_run = False, gc_max_removals = 5\<rparr> two_entries)) (''sha256:'' @ name_of (CHR ''a'')) =
     cache_open (sample_codec JNull) plain_fs two_entries (''sha256:'' @ name_of (CHR ''a'')) \<and>
   gc_candidate {name_of (CHR ''a'')} (ca_entries (fst (garbage_collect (sample_codec JNull) [name_of (CHR ''a''), name_of (CHR ''b'')]
       [''sha256:'' @ name_of (CHR ''a'')] \<lparr>gc_dry_run = False, gc_max_removals = 5\<rparr> two_entries))) (name_of (CHR ''b'')) = None"
proof -
  let ?o = "\<lparr>gc_dry_run = False, gc_max_removals = 5\<rparr>" and ?r = "[''sha256:'' @ name_of (CHR ''a'')]"
    and ?n = "[name_of (CHR ''a''), name_of (CHR ''b'')]"
  let ?g = "garbage_collect (sample_codec JNull) ?n ?r ?o two_entries"
  have "?g = (two_entries\<lparr>ca_entries := [(name_of (CHR ''a''), Cached [])]\<rparr>,
      Inr \<lparr>gr_candidates = [''sha256:'' @ name_of (CHR ''b'')], gr_removed = [''sha256:'' @ name_of (CHR ''b'')], gr_reclaimed_bytes = 0\<rparr>)"
    by (simp add: garbage_collect_def gc_entry_def gc_candidate_def two_entries_def two_digests two_names tree_bytes_def Let_def)
  then obtain c' res where g: "?g = (c', Inr res)" by blast
  note x = collection_exact [OF two_entries_ok g, of plain_fs]
  have "cache_open (sample_codec JNull) plain_fs c' (''sha256:'' @ name_of (CHR ''a'')) =
      cache_open (sample_codec JNull) plain_fs two_entries (''sha256:'' @ name_of (CHR ''a''))" using x by simp
  moreover have "gc_candidate (set (map (drop 7) ?r)) (ca_entries c') (name_of (CHR ''b'')) = None" using x by simp
  ultimately show ?thesis using g by simp
qed

text \<open>A collection over the limit has removed entries before it fails, and reports none of them.\<close>

lemma collection_over_limit_removes:
  "garbage_collect C [name_of (CHR ''a''), name_of (CHR ''b'')] [] \<lparr>gc_dry_run = False, gc_max_removals = 1\<rparr> two_entries =
    (two_entries\<lparr>ca_entries := [(name_of (CHR ''b''), Cached [])]\<rparr>,
     Inl (tool_error ''GC_LIMIT_EXCEEDED'' ''cache GC candidate limit exceeded''))"
  by (simp add: garbage_collect_def gc_entry_def gc_candidate_def two_entries_def two_digests two_names tree_bytes_def Let_def)

text \<open>The name of the staging directory is not private to a process: when another process, or one that crashed, has
  a file of the bundle there, the installation fails, and removes that directory.\<close>

lemma shared_staging_fails:
  assumes "sm_ok (ca_entries c)" and "load_bundle_from_provider C P = Inr b" and "hex_digest (bu_digest b) = Some h"
    and "reached (ca_entries c) h = None" and "sm_get (ca_entries c) (staging_name h (ca_next_temp c)) = Some (Cached t)"
    and "pv_list P = Inr (p # ps)" and "sm_has t p"
  shows "\<exists>c' m. install C V io c P = (c', Inl (tool_error ''CACHE_INSTALL_FAILED'' m)) \<and>
    sm_get (ca_entries c') (staging_name h (ca_next_temp c)) = None"
proof -
  have "\<exists>e. copy_resource io P p t = Inl e"
    using assms(7) by (auto simp: copy_resource_def write_resource_def split: sum.splits)
  then obtain e where "stage C V io (ca_limits c) (bu_digest b) P t = Inl e"
    by (auto simp: stage_def copy_resources_def assms(6))
  then show ?thesis using assms(1-5)
    by (auto simp: install_def install_new_def staging_tree_def Let_def install_failed_def sm_get_del)
qed

end
