(* ===== verification/Store_Files.thy ===== *)
theory Store_Files
  imports Bundle_Store
begin

text \<open>What a reader can see of a lockfile or a keyring snapshot while it is replaced, and what a failed replacement
  leaves behind.\<close>

definition file_at :: "host_dirs \<Rightarrow> string \<Rightarrow> string \<Rightarrow> string option" where
  "file_at w dir name = Option.bind (sm_get w dir) (\<lambda>d. sm_get d name)"

definition host_ok :: "host_dirs \<Rightarrow> bool" where
  "host_ok w = (\<forall>dir d. sm_get w dir = Some d \<longrightarrow> sm_ok d)"

definition sync_failed :: "'a result \<Rightarrow> bool" where
  "sync_failed r = (case r of Inl e \<Rightarrow> err_code e = ''DIRECTORY_SYNC_FAILED'' | Inr _ \<Rightarrow> False)"

lemma temporary_other: "temporary_sibling process counter name \<noteq> name"
proof
  assume "temporary_sibling process counter name = name"
  then have "length (temporary_sibling process counter name) = length name" by simp
  then show False by (simp add: temporary_sibling_def)
qed

text \<open>What an operation leaves under the temporary name: nothing, unless it failed after creating that file and
  the removal of the file failed as well.\<close>

definition left_over :: "write_io \<Rightarrow> string \<Rightarrow> unit result \<Rightarrow> string option" where
  "left_over io data r = (case r of
     Inr _ \<Rightarrow> None
   | Inl e \<Rightarrow>
       if err_code e = ''FILE_WRITE_FAILED''
       then (case wi_outcome io of Not_written (Some n) \<Rightarrow> Some (take n data) | _ \<Rightarrow> None)
       else if err_code e = ''LOCKFILE_REPLACE_FAILED'' \<and> \<not> wi_temp_removed io then Some data else None)"

lemmas outcome_defs = sync_failed_def left_over_def tool_error_def

text \<open>A directory after a replacement: the file is new when the operation succeeded or only the final flush failed,
  the temporary name has what was left over, and every other file is as it was.\<close>

definition replaced_get :: "write_io \<Rightarrow> string \<Rightarrow> string \<Rightarrow> unit result \<Rightarrow> string \<Rightarrow> string option \<Rightarrow> string option" where
  "replaced_get io name data r k old =
    (if k = name \<and> (r = Inr () \<or> sync_failed r) then Some data
     else if k = temporary_sibling (wi_process io) (wi_counter io) name \<and> left_over io data r \<noteq> None
     then left_over io data r else old)"

lemma replace_in_get:
  assumes "sm_ok d" and "replace_in io durable name data d = (d', r)"
  shows "sm_get d' k = replaced_get io name data r k (sm_get d k)"
proof -
  let ?t = "temporary_sibling (wi_process io) (wi_counter io) name"
  have n: "?t \<noteq> name" by (rule temporary_other)
  show ?thesis
  proof (cases "sm_has d ?t \<or> wi_outcome io = Not_created")
    case True
    then show ?thesis using assms by (auto simp: replace_in_def write_bytes_def Let_def outcome_defs replaced_get_def)
  next
    case False
    then have fresh: "sm_get d ?t = None" by auto
    show ?thesis
    proof (cases "wi_outcome io")
      case (Not_written stays)
      then show ?thesis using assms False n
        by (auto simp: replace_in_def write_bytes_def Let_def outcome_defs replaced_get_def split: option.splits)
    next
      case Written
      then show ?thesis using assms False fresh n
        by (auto simp: replace_in_def write_bytes_def replace_file_def Let_def outcome_defs replaced_get_def sm_get_del
            split: if_split_asm)
    qed (use False in simp)
  qed
qed

lemma write_text_get:
  assumes "host_ok w" and "write_text_atomic io opts path data w = (w', r)"
  shows "file_at w' dir k =
    (if dir = parent_dir io path then replaced_get io (tp_name path) data r k (file_at w dir k) else file_at w dir k)"
proof -
  let ?p = "parent_dir io path"
  let ?w = "if sm_get w ?p = None \<and> al_create_parent opts then sm_put ?p [] w else w"
  have same: "file_at ?w dir' k' = file_at w dir' k'" for dir' k' by (auto simp: file_at_def)
  show ?thesis
  proof (cases "tp_parent path = None \<and> tp_name path = [] \<or> al_max_bytes opts = 0 \<or> al_max_bytes opts < length data \<or>
      sm_get w ?p = None \<and> al_create_parent opts \<and> wi_mkdir_error io \<noteq> None \<or> sm_get ?w ?p = None")
    case True
    then have "(w' = w \<or> w' = ?w) \<and> r \<noteq> Inr () \<and> \<not> sync_failed r \<and> left_over io data r = None"
      using assms(2) unfolding write_text_atomic_def Let_def
      by (auto simp: outcome_defs split: if_split_asm)
    then show ?thesis using same [of dir k] by (elim conjE disjE) (simp_all add: replaced_get_def)
  next
    case go: False
    then obtain d where d: "sm_get ?w ?p = Some d" by blast
    obtain d' q where rep: "replace_in io (al_durable opts) (tp_name path) data d = (d', q)" by fastforce
    have w': "w' = sm_put ?p d' ?w" "r = q"
      using assms(2) go d rep unfolding write_text_atomic_def Let_def by (auto split: if_split_asm)
    have "sm_ok d" using assms(1) d by (auto simp: host_ok_def split: if_split_asm)
    note g = replace_in_get [OF this rep, of k]
    have "file_at w' dir k = (if dir = ?p then sm_get d' k else file_at ?w dir k)" by (simp add: file_at_def w'(1))
    moreover have "file_at ?w ?p k = sm_get d k" using d by (simp add: file_at_def)
    ultimately show ?thesis using g same [of dir k] w'(2) by auto
  qed
qed

lemma lock_entry_error: "lock_entry_digest L kv = Inr (Inl e) \<Longrightarrow> err_code e = ''LOCKFILE_ENTRY_INVALID''"
  by (cases kv) (auto simp: lock_entry_digest_def bindR_Inr tool_error_def split: if_split_asm)

lemma lockfile_error_code: "lock_entry_digests L kvs ds = Inr (Inl e) \<Longrightarrow> err_code e = ''LOCKFILE_ENTRY_INVALID''"
proof (induction kvs arbitrary: ds)
  case (Cons kv kvs)
  then obtain r where r: "lock_entry_digest L kv = Inr r" by (auto simp: bindR_Inr)
  show ?case
  proof (cases r)
    case (Inl e')
    then show ?thesis using Cons.prems r lock_entry_error by simp
  next
    case (Inr d)
    then show ?thesis using Cons r by simp
  qed
qed simp

lemma lockfile_error_outcome:
  assumes "lockfile_digests L data = Inl e"
  shows "\<not> sync_failed (Inl e :: unit result)" and "left_over io text (Inl e) = None"
proof -
  have "err_code e = ''LOCKFILE_INVALID'' \<or> err_code e = ''LOCKFILE_ENTRY_INVALID''"
    using assms lockfile_error_code
    by (auto simp: lockfile_digests_def lock_digests_def bindR_Inr tool_error_def split: sum.splits if_splits)
  then show "\<not> sync_failed (Inl e :: unit result)" and "left_over io text (Inl e) = None"
    by (auto simp: sync_failed_def left_over_def)
qed

text \<open>
  C39. A lockfile is replaced in one piece. Whatever fails, the lockfile has either its complete old contents or the
  complete new text: it is new exactly when the operation reports success or \<open>DIRECTORY_SYNC_FAILED\<close>, and then the
  text is a valid lockfile; every other error leaves the old one. Every other file of the host is as before, with
  one exception: when the write of the temporary file fails and its \<open>unlink\<close> fails too, some first bytes of the text
  stay under the temporary name, and when the rename fails and the removal after it fails too, the whole text does
  (\<open>left_over\<close>). Those removals are the ones whose errors the code ignores; when they work, no temporary file is
  left.
\<close>

theorem lockfile_replaced_atomically:
  assumes "host_ok w" and "write_lockfile_atomic L io opts path data w = (w', r)"
  shows "file_at w' dir k =
      (if dir = parent_dir io path \<and> k = tp_name path \<and> (r = Inr () \<or> sync_failed r) then Some data
       else if dir = parent_dir io path \<and> k = temporary_sibling (wi_process io) (wi_counter io) (tp_name path) \<and>
         left_over io data r \<noteq> None then left_over io data r
       else file_at w dir k) \<and>
    (r = Inr () \<or> sync_failed r \<longrightarrow> (\<exists>ds. lockfile_digests L data = Inr ds))"
proof (cases "lockfile_digests L data")
  case (Inl e)
  then have "w' = w" "r = Inl e" using assms(2) by (simp_all add: write_lockfile_atomic_def)
  then show ?thesis using lockfile_error_outcome [OF Inl] by simp
next
  case (Inr ds)
  then have "write_text_atomic io opts path data w = (w', r)" using assms(2) by (simp add: write_lockfile_atomic_def)
  then show ?thesis using write_text_get [OF assms(1)] Inr by (auto simp: replaced_get_def)
qed

definition lock_lib :: jsonlib where
  "lock_lib = \<lparr>jl_parse = (\<lambda>_ _. Inr (JObj [(''bundles'', JObj []), (''format'', JStr ''dage-lock''), (''lock_version'', JInt 1)])),
     jl_write = (\<lambda>_ _. []), jl_number_text = (\<lambda>_. []), jl_double = (\<lambda>_. 0), jl_what = (\<lambda>_. [])\<rparr>"

definition unsynced_io :: write_io where
  "unsynced_io = \<lparr>wi_current = ''here'', wi_mkdir_error = None, wi_process = 7, wi_counter = 1, wi_outcome = Written,
     wi_renamed = True, wi_dir_synced = False, wi_temp_removed = True\<rparr>"

definition old_host :: host_dirs where
  "old_host = [(''here'', [(''dage.lock'', ''old'')])]"

theorem lockfile_replaced_atomically_witness:
  "file_at (fst (write_lockfile_atomic lock_lib unsynced_io \<lparr>al_durable = True, al_create_parent = False, al_max_bytes = 99\<rparr>
      \<lparr>tp_parent = None, tp_name = ''dage.lock''\<rparr> ''new'' old_host)) ''here'' ''dage.lock'' = Some ''new''"
proof -
  let ?o = "\<lparr>al_durable = True, al_create_parent = False, al_max_bytes = 99\<rparr>" and ?p = "\<lparr>tp_parent = None, tp_name = ''dage.lock''\<rparr>"
  let ?x = "write_lockfile_atomic lock_lib unsynced_io ?o ?p ''new'' old_host"
  have ok: "host_ok old_host" by (simp add: host_ok_def old_host_def sm_ok_Cons)
  have "lockfile_digests lock_lib ''new'' = Inr {}"
    by (simp add: lockfile_digests_def lock_digests_def read_json_def lock_lib_def get_string_def j_get_def j_at_def in_range_def)
  then have "snd ?x = Inl (tool_error ''DIRECTORY_SYNC_FAILED'' ''lockfile replaced but directory sync failed'')"
    using temporary_other [of 7 1 "''dage.lock''"]
    by (simp add: write_lockfile_atomic_def write_text_atomic_def parent_dir_def unsynced_io_def old_host_def replace_in_def
        write_bytes_def replace_file_def Let_def)
  then have "sync_failed (snd ?x)" by (simp add: sync_failed_def tool_error_def)
  moreover have "parent_dir unsynced_io ?p = ''here''" by (simp add: parent_dir_def unsynced_io_def)
  ultimately show ?thesis
    using lockfile_replaced_atomically [OF ok, of lock_lib unsynced_io ?o ?p "''new''" "fst ?x" "snd ?x" "''here''" "''dage.lock''"] by simp
qed

end
