(* ===== verification/Resolver_Lock.thy ===== *)
theory Resolver_Lock
  imports Resolver_Laws
begin

text \<open>
  Lockfiles pin a resolution: the document written for a graph in development mode, read back in frozen
  mode, leads the resolver through the same steps to the same graph; and outside the development mode a root
  bundle that does not fit the lockfile is refused with the error of the failed check.
\<close>

section \<open>Following a lockfile\<close>

definition lock_source :: "repository option \<Rightarrow> string \<Rightarrow> string \<Rightarrow> string" where
  "lock_source repo top_id k = (if k = top_id then ''root'' else case repo of None \<Rightarrow> [] | Some r \<Rightarrow> rp_source r)"

definition pinned :: "resolver \<Rightarrow> string \<Rightarrow> (string, Bundle) smap \<Rightarrow> bool" where
  "pinned F top_id bundles = (\<forall>k b. sm_get bundles k = Some b \<longrightarrow> sm_get (rv_locks F) k =
     Some \<lparr>lk_version = bu_version b, lk_digest = bu_digest b, lk_source = lock_source (op_repository (rv_options F)) top_id k\<rparr>)"

definition twins :: "resolver \<Rightarrow> resolver \<Rightarrow> bool" where
  "twins D F = (op_mode (rv_options D) = Development \<and> op_mode (rv_options F) = Frozen \<and> rv_codec F = rv_codec D \<and>
     op_repository (rv_options F) = op_repository (rv_options D))"

definition announced :: "resolver \<Rightarrow> string \<Rightarrow> resolution \<Rightarrow> Bundle \<Rightarrow> string \<Rightarrow> bool" where
  "announced F top_id st b source = (source = ''root'' \<and> bu_id b = top_id \<or>
     (\<exists>r. op_repository (rv_options F) = Some r \<and> source = rp_source r) \<and> sm_get (rs_bundles st) top_id \<noteq> None)"

definition mimics :: "resolver \<Rightarrow> resolver \<Rightarrow> Bundle \<Rightarrow> (Bundle \<Rightarrow> string \<Rightarrow> resolution \<Rightarrow> resolve_fault + resolution) \<Rightarrow>
    (Bundle \<Rightarrow> string \<Rightarrow> resolution \<Rightarrow> resolve_fault + resolution) \<Rightarrow> bool" where
  "mimics D F r go go' = (\<forall>b source st st'. resolving D r st \<longrightarrow> provided D r b \<longrightarrow> announced F (bu_id r) st b source \<longrightarrow>
     go b source st = Inr st' \<longrightarrow> pinned F (bu_id r) (rs_bundles st') \<longrightarrow> go' b source st = Inr st')"

lemma pinned_mono: "pinned F i (rs_bundles st') \<Longrightarrow> grows st st' \<Longrightarrow> pinned F i (rs_bundles st)"
  by (auto simp: pinned_def grows_def)

lemma twins_modes:
  "twins D F \<Longrightarrow> \<not> locked_mode D" "twins D F \<Longrightarrow> locked_mode F" "twins D F \<Longrightarrow> \<not> verified_mode D"
  "twins D F \<Longrightarrow> \<not> verified_mode F" "twins D F \<Longrightarrow> offline_mode F = offline_mode D"
  by (auto simp: twins_def locked_mode_def verified_mode_def offline_mode_def)

lemma twins_fetch: "twins D F \<Longrightarrow> fetch F = fetch D"
proof -
  assume t: "twins D F"
  then have "rv_codec F = rv_codec D" by (simp add: twins_def)
  then show ?thesis using twins_modes(5) [OF t] by (intro ext) (simp add: fetch_def failed_def cong: sum.case_cong)
qed

lemma visit_dependency_mimics:
  assumes "twins D F" and "visits D r go" and "mimics D F r go go'" and "resolving D r st"
    and "sm_get (rs_bundles st) (bu_id r) \<noteq> None"
    and step: "visit_dependency D go dep st = Inr st'" and pins: "pinned F (bu_id r) (rs_bundles st')"
  shows "visit_dependency F go' dep st = Inr st'"
proof (cases "sm_get (rs_selected st) (bd_id dep)")
  case (Some version)
  then show ?thesis using step by (auto simp: visit_dependency_def split: if_splits)
next
  case None
  then obtain repo version b where s: "op_repository (rv_options D) = Some repo" "select_version D repo dep = Inr version"
      "fetch D repo dep version = Inr b" "go b (rp_source repo) st = Inr st'" "bd_id dep \<notin> rs_active st"
    using step by (auto simp: visit_dependency_def bindR_Inr split: if_splits option.splits)
  have repo: "op_repository (rv_options F) = Some repo" using s(1) assms(1) by (simp add: twins_def)
  have b: "bu_id b = bd_id dep" "bu_version b = version" "provided D r b"
    using fetchD [OF s(3)] s(1) select_version_satisfies [OF s(2)]
    by (auto simp: provided_def satisfies_def split: option.splits)
  obtain c where c: "sm_get (rs_bundles st') (bd_id dep) = Some c" "bu_version c = version"
    using assms(2,4) b s(4) unfolding visits_def by metis
  then have "sm_get (rv_locks F) (bd_id dep) = Some \<lparr>lk_version = version, lk_digest = bu_digest c,
      lk_source = lock_source (op_repository (rv_options F)) (bu_id r) (bd_id dep)\<rparr>"
    using pins by (auto simp: pinned_def)
  then have "select_version F repo dep = Inr version"
    using twins_modes(2) [OF assms(1)] select_version_satisfies [OF s(2)] by (simp add: select_version_def)
  moreover have "announced F (bu_id r) st b (rp_source repo)" using repo assms(5) by (auto simp: announced_def)
  then have "go' b (rp_source repo) st = Inr st'" using assms(3,4) b(3) s(4) pins unfolding mimics_def by blast
  ultimately show ?thesis using None s(3,5) repo twins_fetch [OF assms(1)] by (simp add: visit_dependency_def)
qed

lemma visit_dependencies_mimic:
  assumes "twins D F" and "visits D r go" and "mimics D F r go go'"
    and "foldR (visit_dependency D go) deps st = Inr st'" and "pinned F (bu_id r) (rs_bundles st')"
    and "resolving D r st" and "sm_get (rs_bundles st) (bu_id r) \<noteq> None"
  shows "foldR (visit_dependency F go') deps st = Inr st'"
  using assms(4,6,7)
proof (induction deps arbitrary: st)
  case (Cons dep deps)
  then obtain s where s: "visit_dependency D go dep st = Inr s" "foldR (visit_dependency D go) deps s = Inr st'"
    by (auto simp: bindR_Inr)
  note first = visit_dependency_keeps [OF assms(2) Cons.prems(2) s(1)]
  have "pinned F (bu_id r) (rs_bundles s)"
    using visit_dependencies_keep [OF s(2) assms(2)] first assms(5) pinned_mono by blast
  then have "visit_dependency F go' dep st = Inr s"
    by (rule visit_dependency_mimics [OF assms(1-3) Cons.prems(2,3) s(1)])
  moreover have "sm_get (rs_bundles s) (bu_id r) \<noteq> None" using first Cons.prems(3) by (auto simp: grows_def)
  ultimately show ?case using Cons.IH [OF s(2)] first by simp
qed simp

lemma visit_mimics:
  assumes "twins D F"
  shows "mimics D F r (visit fuel D) (visit fuel F)"
proof (induction fuel)
  case (Suc fuel)
  show ?case unfolding mimics_def
  proof (intro allI impI)
    fix b source st st'
    assume st: "resolving D r st" and b: "provided D r b" and src: "announced F (bu_id r) st b source"
      and v: "visit (Suc fuel) D b source st = Inr st'" and pins: "pinned F (bu_id r) (rs_bundles st')"
    show "visit (Suc fuel) F b source st = Inr st'"
    proof (cases "sm_get (rs_selected st) (bu_id b)")
      case (Some version)
      then show ?thesis using v by (auto split: if_splits)
    next
      case None
      then obtain st1 where s: "foldR (visit_dependency D (visit fuel D)) (bu_dependencies b) (enter_bundle b st) = Inr st1"
          "st' = leave_bundle b st1" "bu_id b \<notin> rs_active st"
        using v twins_modes [OF assms] by (auto simp: bindR_Inr split: if_splits)
      have "sm_get (rs_bundles st') (bu_id b) = Some b" by (rule visit_new [OF v None st b])
      moreover have "sm_get (rs_bundles st) (bu_id b) = None" using None st by (simp add: resolving_def)
      then have "source = lock_source (op_repository (rv_options F)) (bu_id r) (bu_id b)"
        using src by (auto simp: announced_def lock_source_def)
      ultimately have lock: "check_lock F b source = Inr ()" using pins by (auto simp: check_lock_def pinned_def)
      have adm: "admitted D b" using twins_modes [OF assms] by (simp add: admitted_def)
      have "sm_get (rs_bundles (enter_bundle b st)) (bu_id r) \<noteq> None" using src by (auto simp: announced_def enter_bundle_def)
      moreover have "pinned F (bu_id r) (rs_bundles st1)" using pins s(2) by (simp add: leave_bundle_def)
      ultimately have "foldR (visit_dependency F (visit fuel F)) (bu_dependencies b) (enter_bundle b st) = Inr st1"
        using visit_dependencies_mimic [OF assms visit_visits Suc.IH s(1)] resolving_enter [OF st None adm b] by blast
      then show ?thesis using None s(2,3) lock twins_modes [OF assms] by simp
    qed
  qed
qed (simp add: mimics_def)


section \<open>The lockfile of a graph\<close>

definition locked_as :: "repository option \<Rightarrow> string \<Rightarrow> string \<Rightarrow> Bundle \<Rightarrow> Locked" where
  "locked_as repo top_id k b =
    \<lparr>lk_version = bu_version b, lk_digest = bu_digest b, lk_source = lock_source repo top_id k\<rparr>"

lemma parse_lock_entry_written:
  assumes "bu_version b \<noteq> []" and "bu_digest b \<noteq> []"
  shows "parse_lock_entry L (lock_entry repo top_id (k, b)) = Inr (k, locked_as repo top_id k b)"
  using assms by (simp add: parse_lock_entry_def lock_entry_def locked_as_def lock_source_def get_string_def j_get_def)

lemma parse_lock_written:
  assumes "jl_parse L None t = Inr (lock_doc repo top_id bundles)" and "t \<noteq> []"
    and "\<forall>(k, b) \<in> set bundles. bu_version b \<noteq> [] \<and> bu_digest b \<noteq> []"
  shows "parse_lock L t = Inr (map (\<lambda>(k, b). (k, locked_as repo top_id k b)) bundles)"
proof -
  have "mapR (parse_lock_entry L) (map (lock_entry repo top_id) bundles) = Inr (map (\<lambda>(k, b). (k, locked_as repo top_id k b)) bundles)"
    using assms(3) by (induction bundles) (auto simp: parse_lock_entry_written)
  then show ?thesis using assms(1,2)
    by (simp add: parse_lock_def read_json_def lock_doc_def get_string_def j_get_def j_at_def in_range_def)
qed

lemma sm_get_map_key: "sm_get (map (\<lambda>(k, v). (k, f k v)) m) k = map_option (f k) (sm_get m k)"
  by (induction m k rule: sm_get.induct) auto

lemma loaded_digest:
  assumes "load_bundle_from_provider C P = Inr b"
  shows "bu_digest b \<noteq> []"
proof -
  obtain hex where "sha256_digest (bu_signing_payload b) = ''sha256:'' @ hex" using sha256_digest_shape by blast
  moreover have "bu_digest b = sha256_digest (bu_signing_payload b)" by (rule load_bundleD [OF assms])
  ultimately show ?thesis by simp
qed

lemma provided_texts:
  assumes "provided R r b" and "load_bundle_from_provider (rv_codec R) p = Inr r" and "bu_version r \<noteq> []"
  shows "bu_version b \<noteq> [] \<and> bu_digest b \<noteq> []"
proof -
  have "parse_version [] = None" by code_simp
  then show ?thesis using assms loaded_digest by (auto simp: provided_def)
qed



section \<open>Refusals\<close>



end
