(* ===== verification/Resolver_Trust.thy ===== *)
theory Resolver_Trust
  imports Resolver_Laws
begin

text \<open>
  Trust: what a passed signature policy means in terms of the keys of a keyring, and the snapshot of a keyring
  as a round trip.
\<close>

section \<open>Hexadecimal keys\<close>

lemma nibble_hex_digit: "n < 16 \<Longrightarrow> nibble (hex_digit n) = Some n"
  by (auto simp: nibble_def hex_digit_def less_Suc_eq eval_nat_numeral)

lemma hex_pairs_hex_key: "hex_pairs (hex_key bytes) = Some bytes"
proof (induction bytes)
  case (Cons c cs)
  have "of_char c < (256 :: nat)" by simp
  then have "of_char c div 16 < (16 :: nat)" "of_char c mod 16 < (16 :: nat)" by linarith+
  then have "nibble (hex_digit (of_char c div 16)) = Some (of_char c div 16)"
      "nibble (hex_digit (of_char c mod 16)) = Some (of_char c mod 16)"
    by (simp_all only: nibble_hex_digit)
  moreover have "char_of (16 * (of_char c div 16) + of_char c mod (16 :: nat)) = c" by (simp only: mult_div_mod_eq char_of_char)
  ultimately show ?case using Cons by (simp add: hex_key_def)
qed (simp add: hex_key_def)

lemma hex_key_inj: "inj hex_key"
  by (rule injI) (metis hex_pairs_hex_key option.inject)

lemma length_hex_key: "length (hex_key bytes) = 2 * length bytes"
  by (induction bytes) (simp_all add: hex_key_def)

lemma parse_hex_key: "length bytes = 32 \<Longrightarrow> parse_key_hex (hex_key bytes) = Some bytes"
  by (simp add: parse_key_hex_def length_hex_key hex_pairs_hex_key)

section \<open>Counting signatures\<close>

text \<open>The signatures of a bundle that count for a key: made by a key of the ring that is neither revoked nor
  out of its scope, trusted, and valid on the payload.\<close>

definition usable :: "Keyring \<Rightarrow> string \<Rightarrow> string \<Rightarrow> string \<Rightarrow> bool" where
  "usable keys bundle_id key_id key = (case sm_get keys key_id of
     None \<Rightarrow> False
   | Some record \<Rightarrow> kr_key record = key \<and> \<not> kr_revoked record \<and>
       (kr_namespace_scopes record = [] \<or> (\<exists>scope \<in> set (kr_namespace_scopes record). namespace_match bundle_id scope)))"

definition signs :: "crypto \<Rightarrow> Keyring \<Rightarrow> (SignatureContext \<Rightarrow> bool result) \<Rightarrow> Bundle \<Rightarrow> BundleSignature \<Rightarrow> string \<Rightarrow> bool" where
  "signs K keys trust b s key = (bs_algorithm s = ''ed25519'' \<and> usable keys (bu_id b) (bs_key_id s) key \<and>
     trust (signature_context b s) = Inr True \<and> verify_ed25519 K key (bu_signing_payload b) (bs_signature_base64 s))"

definition signers :: "crypto \<Rightarrow> Keyring \<Rightarrow> (SignatureContext \<Rightarrow> bool result) \<Rightarrow> Bundle \<Rightarrow> string set" where
  "signers K keys trust b = {key. \<exists>s \<in> set (bu_signatures b). signs K keys trust b s key}"

lemma find_key_usable: "find_key keys i ctx = Inr key \<longleftrightarrow> usable keys (sc_bundle_id ctx) i key"
  by (auto simp: find_key_def usable_def list_ex_iff split: option.splits if_splits)

lemma proved_key_signs:
  "proved_key K (find_key keys) trust b s = Some h \<longleftrightarrow> (\<exists>key. signs K keys trust b s key \<and> h = hex_key key)"
proof (cases "find_key keys (bs_key_id s) (signature_context b s)")
  case (Inl e)
  then have "\<not> usable keys (bu_id b) (bs_key_id s) key" for key
    using find_key_usable [of keys "bs_key_id s" "signature_context b s" key] by (simp add: signature_context_def)
  then show ?thesis using Inl by (simp add: proved_key_def signs_def)
next
  case (Inr key)
  then have "usable keys (bu_id b) (bs_key_id s) key' \<longleftrightarrow> key' = key" for key'
    using find_key_usable [of keys "bs_key_id s" "signature_context b s" key'] by (auto simp: signature_context_def)
  then show ?thesis using Inr by (auto simp: proved_key_def signs_def)
qed

definition count_all :: "crypto \<Rightarrow> Keyring \<Rightarrow> (SignatureContext \<Rightarrow> bool result) \<Rightarrow> Bundle \<Rightarrow> BundleSignature list \<Rightarrow> string set" where
  "count_all K keys trust b ss = hex_key ` {key. \<exists>s \<in> set ss. signs K keys trust b s key}"

lemma fold_count_sound:
  "valid \<subseteq> A \<Longrightarrow> snd (fold (count_signature K (find_key keys) trust b) ss (seen, valid)) \<subseteq> A \<union> count_all K keys trust b ss"
proof (induction ss arbitrary: seen valid A)
  case (Cons s ss)
  obtain seen1 valid1 where st: "count_signature K (find_key keys) trust b s (seen, valid) = (seen1, valid1)" by fastforce
  have "valid1 \<subseteq> A \<union> count_all K keys trust b [s]"
    using st Cons.prems proved_key_signs [of K keys trust b s]
    by (auto simp: count_signature_def count_all_def split: if_splits option.splits)
  from Cons.IH [OF this, of seen1] show ?case using st by (auto simp: count_all_def)
qed auto

lemma fold_count_complete:
  assumes "distinct (map bs_key_id ss)" and "\<forall>s \<in> set ss. bs_key_id s \<noteq> [] \<and> bs_key_id s \<notin> seen"
  shows "snd (fold (count_signature K (find_key keys) trust b) ss (seen, valid)) = valid \<union> count_all K keys trust b ss"
  using assms
proof (induction ss arbitrary: seen valid)
  case (Cons s ss)
  let ?v = "case proved_key K (find_key keys) trust b s of None \<Rightarrow> valid | Some key \<Rightarrow> insert key valid"
  have "count_signature K (find_key keys) trust b s (seen, valid) = (insert (bs_key_id s) seen, ?v)"
    using Cons.prems by (simp add: count_signature_def)
  moreover have "?v = valid \<union> count_all K keys trust b [s]"
  proof (cases "proved_key K (find_key keys) trust b s")
    case None
    then show ?thesis using proved_key_signs [of K keys trust b s] by (auto simp: count_all_def)
  next
    case (Some h)
    then obtain key where k: "signs K keys trust b s key" "h = hex_key key" using proved_key_signs by blast
    then have "{key'. signs K keys trust b s key'} = {key}"
      by (auto simp: signs_def usable_def split: option.splits)
    then show ?thesis using Some k(2) by (simp add: count_all_def)
  qed
  moreover have "snd (fold (count_signature K (find_key keys) trust b) ss (insert (bs_key_id s) seen, ?v)) =
      ?v \<union> count_all K keys trust b ss"
    by (rule Cons.IH) (use Cons.prems in \<open>auto intro: rev_image_eqI\<close>)
  ultimately show ?case by (auto simp: count_all_def)
qed (simp add: count_all_def)

lemma card_count_all: "card (count_all K keys trust b (bu_signatures b)) = card (signers K keys trust b)"
  unfolding count_all_def signers_def by (rule card_image) (rule inj_on_subset [OF hex_key_inj], simp)

lemma finite_signers: "finite {key. \<exists>s \<in> set ss. signs K keys trust b s key}"
proof (rule finite_subset)
  show "{key. \<exists>s \<in> set ss. signs K keys trust b s key} \<subseteq>
      (\<lambda>s. case sm_get keys (bs_key_id s) of None \<Rightarrow> [] | Some record \<Rightarrow> kr_key record) ` set ss"
    by (force simp: signs_def usable_def split: option.splits)
qed simp

lemma quorum_sound:
  assumes "op_keys opts = Some (find_key keys)" and "op_trust opts = Some trust"
    and "sp_kind (op_signature_policy opts) \<noteq> Disabled" and "verify_signatures K opts b = Inr ()"
  shows "0 < required_signatures (op_signature_policy opts) b \<and>
    required_signatures (op_signature_policy opts) b \<le> card (signers K keys trust b)"
proof -
  let ?valid = "snd (fold (count_signature K (find_key keys) trust b) (bu_signatures b) ({}, {}))"
  let ?n = "required_signatures (op_signature_policy opts) b"
  have pass: "0 < ?n \<and> ?n \<le> card ?valid"
    using assms by (auto simp: verify_signatures_def Let_def required_signatures_def not_less split: if_splits)
  have "?valid \<subseteq> count_all K keys trust b (bu_signatures b)"
    using fold_count_sound [of "{}" "{}"] by simp
  then have "card ?valid \<le> card (count_all K keys trust b (bu_signatures b))"
    by (rule card_mono [rotated]) (simp add: count_all_def finite_signers)
  then have "card ?valid \<le> card (signers K keys trust b)" by (simp only: card_count_all)
  then show ?thesis using pass by linarith
qed

lemma quorum_enough:
  assumes "op_keys opts = Some (find_key keys)" and "op_trust opts = Some trust"
    and "sp_kind (op_signature_policy opts) \<noteq> Disabled"
    and "distinct (map bs_key_id (bu_signatures b))" and "[] \<notin> set (map bs_key_id (bu_signatures b))"
    and "0 < required_signatures (op_signature_policy opts) b"
    and "required_signatures (op_signature_policy opts) b \<le> card (signers K keys trust b)"
  shows "verify_signatures K opts b = Inr ()"
proof -
  have "\<forall>s \<in> set (bu_signatures b). bs_key_id s \<noteq> [] \<and> bs_key_id s \<notin> {}" using assms(5) by force
  from fold_count_complete [OF assms(4) this, of K keys trust b "{}"]
  have "card (snd (fold (count_signature K (find_key keys) trust b) (bu_signatures b) ({}, {}))) = card (signers K keys trust b)"
    by (simp add: card_count_all)
  then show ?thesis using assms by (auto simp: verify_signatures_def Let_def required_signatures_def not_less)
qed

text \<open>
  C31. What a signature policy guarantees. With a keyring as key provider and any policy but the disabled
  one, a bundle that passes is signed by at least the required number of different public keys, and at
  least by one: each of them is in the keyring, neither revoked nor restricted to other namespaces,
  accepted by the trust policy, and verifies the signing payload of the bundle. Conversely, when the
  signatures carry different key ids, so many keys are enough.
\<close>

theorem signature_quorum:
  assumes "op_keys opts = Some (find_key keys)" and "op_trust opts = Some trust"
    and "sp_kind (op_signature_policy opts) \<noteq> Disabled"
  shows "(verify_signatures K opts b = Inr () \<longrightarrow>
      0 < required_signatures (op_signature_policy opts) b \<and>
      required_signatures (op_signature_policy opts) b \<le> card (signers K keys trust b)) \<and>
    (distinct (map bs_key_id (bu_signatures b)) \<and> [] \<notin> set (map bs_key_id (bu_signatures b)) \<and>
      0 < required_signatures (op_signature_policy opts) b \<and>
      required_signatures (op_signature_policy opts) b \<le> card (signers K keys trust b) \<longrightarrow>
      verify_signatures K opts b = Inr ())"
  using quorum_sound [OF assms, of K b] quorum_enough [OF assms, of b K] by blast


text \<open>The primitive of the sample accepts every signature of 64 bytes.\<close>

definition lenient_crypto :: crypto where
  "lenient_crypto = \<lparr>cr_decode_block = \<lambda>_. Some (replicate 64 CHR ''s''), cr_verify = \<lambda>_ _ _. True\<rparr>"

definition sample_key :: KeyRecord where
  "sample_key = \<lparr>kr_key_id = ''k'', kr_key = replicate 32 CHR ''p'', kr_namespace_scopes = [''a'', ''b''], kr_revoked = False\<rparr>"

definition sample_keyring :: Keyring where
  "sample_keyring = [(''k'', sample_key)]"

definition signed_options :: BundleResolverOptions where
  "signed_options = sample_resolver\<lparr>op_keys := Some (find_key sample_keyring), op_trust := Some allow_known_keys\<rparr>"

lemma bundle_a_signed:
  "bu_signatures bundle_a = [\<lparr>bs_algorithm = ''ed25519'', bs_key_id = ''k'', bs_signature_base64 = ''c2ln'', bs_signed_at = []\<rparr>]"
  by (simp add: bundle_a_def sample_member_def Let_def)

lemma sample_signers: "signers lenient_crypto sample_keyring allow_known_keys bundle_a = {replicate 32 CHR ''p''}"
  by (auto simp: signers_def bundle_a_signed signs_def usable_def sample_keyring_def sample_key_def allow_known_keys_def
      verify_ed25519_def decode_base64_def lenient_crypto_def namespace_match_def)

theorem signature_quorum_witness:
  "verify_signatures lenient_crypto signed_options bundle_a = Inr () \<and>
   required_signatures (op_signature_policy signed_options) bundle_a \<le> card (signers lenient_crypto sample_keyring allow_known_keys bundle_a)"
proof -
  have o: "op_keys signed_options = Some (find_key sample_keyring)" "op_trust signed_options = Some allow_known_keys"
      "sp_kind (op_signature_policy signed_options) \<noteq> Disabled" "required_signatures (op_signature_policy signed_options) bundle_a = 1"
    by (simp_all add: signed_options_def sample_resolver_def required_signatures_def)
  from signature_quorum [OF o(1-3), of lenient_crypto bundle_a] show ?thesis
    by (simp add: o(4) bundle_a_signed sample_signers)
qed

section \<open>Snapshots\<close>

definition keyring_ok :: "Keyring \<Rightarrow> bool" where
  "keyring_ok keys = (sm_ok keys \<and> (\<forall>(k, record) \<in> set keys. kr_key_id record = k \<and> k \<noteq> [] \<and>
     length (kr_key record) = 32 \<and> \<not> list_ex bad_scope (kr_namespace_scopes record)))"

lemma keyring_empty_ok: "keyring_ok []"
  by (simp add: keyring_ok_def)

lemma keyring_add_ok: "keyring_ok keys \<Longrightarrow> keyring_add record keys = Inr keys' \<Longrightarrow> keyring_ok keys'"
  by (auto simp: keyring_ok_def keyring_add_def split: if_splits dest!: sm_put_set)

lemma keyring_revoke_ok: "keyring_ok keys \<Longrightarrow> keyring_revoke i keys = Inr keys' \<Longrightarrow> keyring_ok keys'"
  by (auto simp: keyring_ok_def keyring_revoke_def split: option.splits dest!: sm_put_set sm_get_in_set)

lemma sm_put_last: "(\<forall>kv \<in> set m. fst kv < k) \<Longrightarrow> sm_put k v m = m @ [(k, v)]"
  by (induction k v m rule: sm_put.induct) auto

lemma mapR_strings: "mapR (\<lambda>s. case s of JStr t \<Rightarrow> Inr t | _ \<Rightarrow> Inl e) (map JStr ts) = Inr ts"
  by (induction ts) simp_all

lemma read_key_written:
  assumes "kr_key_id record \<noteq> []" and "length (kr_key record) = 32" and "\<not> list_ex bad_scope (kr_namespace_scopes record)"
    and "kr_key_id record \<notin> seen" and "sm_get acc (kr_key_id record) = None"
  shows "read_key L (key_json record) (seen, acc) =
    Inr (Inr (insert (kr_key_id record) seen, sm_put (kr_key_id record) record acc))"
proof -
  have "read_scopes (JArr (map JStr (kr_namespace_scopes record))) = Inr (kr_namespace_scopes record)"
    by (simp add: read_scopes_def mapR_strings)
  then show ?thesis using assms
    by (cases "record") (simp add: read_key_def key_json_def get_string_def get_bool_def j_get_def j_at_def parse_hex_key keyring_add_def)
qed

lemma read_keys_written:
  assumes "keyring_ok (acc @ keys)"
  shows "read_keys L (map (\<lambda>(k, record). key_json record) keys) (fst ` set acc, acc) = Inr (Inr (acc @ keys))"
  using assms
proof (induction keys arbitrary: acc)
  case (Cons kr keys)
  obtain k e where kr: "kr = (k, e)" by fastforce
  have r: "kr_key_id e = k" "k \<noteq> []" "length (kr_key e) = 32" "\<not> list_ex bad_scope (kr_namespace_scopes e)"
    using Cons.prems kr by (auto simp: keyring_ok_def)
  have less: "\<forall>kv \<in> set acc. fst kv < k" using Cons.prems kr by (auto simp: keyring_ok_def sm_ok_def sorted_wrt_append)
  then have new: "k \<notin> fst ` set acc" "sm_get acc k = None" by (auto simp: sm_get_None_iff)
  have "read_key L (key_json e) (fst ` set acc, acc) = Inr (Inr (fst ` set (acc @ [kr]), acc @ [kr]))"
    using read_key_written [of e "fst ` set acc" acc L] r new sm_put_last [OF less, of e] kr by simp
  moreover have "read_keys L (map (\<lambda>(k, record). key_json record) keys) (fst ` set (acc @ [kr]), acc @ [kr]) = Inr (Inr ((acc @ [kr]) @ keys))"
    by (rule Cons.IH) (use Cons.prems in simp)
  ultimately show ?case using kr by simp
qed simp

text \<open>
  Round trip of a keyring. Adding and revoking keys keep a keyring well formed, and a well-formed keyring
  is read back from its snapshot with every key, scope and revocation mark, provided the reader gives back
  the document that was written.
\<close>

theorem keyring_snapshot_roundtrip:
  assumes "keyring_ok keys" and "keyring_add record keys = Inr keys1" and "keyring_revoke i keys1 = Inr keys2"
    and "snapshot_json L keys2 = Inr t" and "jl_parse L None t = Inr (keyring_doc keys2)"
  shows "keyring_ok keys2 \<and> from_snapshot_json L t = Inr keys2"
proof -
  have ok: "keyring_ok keys2" using assms(1-3) keyring_add_ok keyring_revoke_ok by blast
  then have "read_keys L (map (\<lambda>(k, record). key_json record) keys2) ({}, []) = Inr (Inr keys2)"
    using read_keys_written [of "[]" keys2 L] by simp
  then have "from_snapshot L t = Inr (Inr keys2)" using assms(5)
    by (simp add: from_snapshot_def read_json_def keyring_doc_def get_string_def j_get_def j_at_def in_range_def)
  then show ?thesis using ok by (simp add: from_snapshot_json_def)
qed

theorem keyring_snapshot_roundtrip_witness:
  "\<exists>keys2 L t. keyring_revoke ''k'' sample_keyring = Inr keys2 \<and> snapshot_json L keys2 = Inr t \<and> from_snapshot_json L t = Inr keys2"
proof -
  have add: "keyring_add sample_key [] = Inr sample_keyring"
    by (simp add: keyring_add_def sample_key_def sample_keyring_def bad_scope_def)
  obtain keys2 where rev: "keyring_revoke ''k'' sample_keyring = Inr keys2"
    by (simp add: keyring_revoke_def sample_keyring_def)
  let ?L = "bare_lib\<lparr>jl_parse := \<lambda>_ _. Inr (keyring_doc keys2)\<rparr>"
  have "snapshot_json ?L keys2 = Inr ''null''" "jl_parse ?L None ''null'' = Inr (keyring_doc keys2)"
    by (simp_all add: snapshot_json_def write_json_def bare_lib_def)
  from keyring_snapshot_roundtrip [OF keyring_empty_ok add rev this] rev this(1) show ?thesis by blast
qed

end
