(* ===== verification/Production.thy ===== *)
theory Production
  imports Store_Safety Store_Files Resolver_Lock Resolver_Trust
begin

text \<open>
  What the resolver admits, for every bundle of a graph, and a deployment in small: the two sample bundles,
  signed by a key of the sample keyring and pinned by a lockfile, resolved with the options for production.
\<close>

lemma resolved_admitted:
  assumes "resolve fuel C K opts p = Some (Inr g)" and "sm_get (gr_bundles g) k = Some c"
  shows "\<exists>locks. parse_lock (cd_lib C) (op_lock_json opts) = Inr locks \<and>
    admitted \<lparr>rv_codec = C, rv_crypto = K, rv_options = opts, rv_locks = locks\<rparr> c"
proof -
  from resolveD [OF assms(1)] obtain locks b st where g: "parse_lock (cd_lib C) (op_lock_json opts) = Inr locks"
    "visit fuel \<lparr>rv_codec = C, rv_crypto = K, rv_options = opts, rv_locks = locks\<rparr> b ''root'' empty_resolution = Inr st"
    "gr_bundles g = rs_bundles st" by (elim exE conjE) simp
  let ?R = "\<lparr>rv_codec = C, rv_crypto = K, rv_options = opts, rv_locks = locks\<rparr>"
  have pb: "provided ?R b b" by (simp add: provided_def)
  have "resolving ?R b st"
    using visit_visits [of ?R b fuel] resolving_empty [of ?R b] g(2) pb unfolding visits_def by blast
  then have "admitted ?R c" using assms(2) g(3) by (simp add: resolving_def)
  then show ?thesis using g(1) by blast
qed

section \<open>The sample\<close>

definition deployed :: "(string, Bundle) smap" where
  "deployed = [(''a'', bundle_a), (''b'', bundle_b)]"

definition deployed_codec :: codec where
  "deployed_codec = sample_codec (lock_doc (Some (as_repository sample_repository)) ''a'' deployed)"

definition deployed_policy :: SignaturePolicy where
  "deployed_policy = \<lparr>sp_kind = Threshold, sp_threshold = 1\<rparr>"

definition deployed_options :: BundleResolverOptions where
  "deployed_options = \<lparr>op_mode = Verified, op_repository = Some (as_repository sample_repository),
     op_keys = Some (find_key sample_keyring), op_trust = Some allow_known_keys, op_lock_json = ''L'',
     op_signature_policy = deployed_policy\<rparr>"

lemma lock_entry_digest_written:
  assumes "k \<noteq> []" and "bu_version b \<noteq> []" and "hex_digest (bu_digest b) \<noteq> None"
  shows "lock_entry_digest L (lock_entry repo top_id (k, b)) = Inr (Inr (bu_digest b))"
  using assms by (simp add: lock_entry_digest_def lock_entry_def get_string_def j_get_def)

lemma deployed_digests: "hex_digest (bu_digest bundle_a) \<noteq> None" "hex_digest (bu_digest bundle_b) \<noteq> None"
  using loaded_digest_valid [OF sample_loads(1)] loaded_digest_valid [OF sample_loads(2)] by auto

lemma deployed_lock:
  "lockfile_digests (cd_lib deployed_codec) ''L'' = Inr {bu_digest bundle_a, bu_digest bundle_b}"
proof -
  have "lock_entry_digests (cd_lib deployed_codec) (map (lock_entry (Some (as_repository sample_repository)) ''a'') deployed) {} =
      Inr (Inr {bu_digest bundle_a, bu_digest bundle_b})"
    by (simp add: deployed_def lock_entry_digest_written deployed_digests insert_commute)
  moreover have "read_json (cd_lib deployed_codec) ''L'' = Inr (lock_doc (Some (as_repository sample_repository)) ''a'' deployed)"
    by (simp add: read_json_def deployed_codec_def sample_codec_def)
  ultimately show ?thesis
    by (simp add: lockfile_digests_def lock_digests_def lock_doc_def get_string_def j_get_def j_at_def in_range_def)
qed

lemma deployed_profile:
  "verified_production_profile (cd_lib deployed_codec) ''L'' (as_repository sample_repository) (find_key sample_keyring)
     allow_known_keys deployed_policy False = Inr deployed_options"
  by (simp add: verified_production_profile_def deployed_lock deployed_options_def deployed_policy_def)

lemma bundle_b_signed:
  "bu_signatures bundle_b = [\<lparr>bs_algorithm = ''ed25519'', bs_key_id = ''k'', bs_signature_base64 = ''c2ln'', bs_signed_at = []\<rparr>]"
  by (simp add: bundle_b_def sample_member_def Let_def)

lemma deployed_signers: "signers lenient_crypto sample_keyring allow_known_keys bundle_b = {replicate 32 CHR ''p''}"
  by (auto simp: signers_def bundle_b_signed signs_def usable_def sample_keyring_def sample_key_def allow_known_keys_def
      verify_ed25519_def decode_base64_def lenient_crypto_def namespace_match_def)

lemma deployed_verifies:
  "verify_signatures lenient_crypto deployed_options bundle_a = Inr ()" "verify_signatures lenient_crypto deployed_options bundle_b = Inr ()"
  by (rule quorum_enough [of _ sample_keyring allow_known_keys];
      simp add: deployed_options_def deployed_policy_def required_signatures_def bundle_a_signed bundle_b_signed sample_signers deployed_signers)+

definition deployed_locks :: "(string, Locked) smap" where
  "deployed_locks = map (\<lambda>(k, b). (k, locked_as (Some (as_repository sample_repository)) ''a'' k b)) deployed"

lemma deployed_locks_get:
  "sm_get deployed_locks ''a'' = Some \<lparr>lk_version = ''1.0.0'', lk_digest = bu_digest bundle_a, lk_source = ''root''\<rparr>"
  "sm_get deployed_locks ''b'' = Some \<lparr>lk_version = ''1.2.0'', lk_digest = bu_digest bundle_b, lk_source = ''mem''\<rparr>"
  by (simp_all add: deployed_locks_def deployed_def locked_as_def lock_source_def)

lemma deployed_resolves:
  "resolve 2 deployed_codec lenient_crypto deployed_options (manifest_only ''A'') = Some (Inr (sample_graph Verified))"
proof -
  let ?repo = "as_repository sample_repository"
  let ?R = "\<lparr>rv_codec = deployed_codec, rv_crypto = lenient_crypto, rv_options = deployed_options, rv_locks = deployed_locks\<rparr>"
  have digest: "bu_digest bundle_a \<noteq> []" "bu_digest bundle_b \<noteq> []"
    using loaded_digest [OF sample_loads(1)] loaded_digest [OF sample_loads(2)] by simp_all
  have locks: "parse_lock (cd_lib deployed_codec) ''L'' = Inr deployed_locks"
    unfolding deployed_locks_def by (rule parse_lock_written) (simp_all add: deployed_codec_def sample_codec_def deployed_def digest)
  have m: "locked_mode ?R" "verified_mode ?R" "op_repository deployed_options = Some ?repo" "op_lock_json deployed_options = ''L''"
      "op_mode deployed_options = Verified"
    by (simp_all add: locked_mode_def verified_mode_def deployed_options_def)
  have sel: "select_version ?R ?repo \<lparr>bd_id = ''b'', bd_constraint = ''^1.0.0''\<rparr> = Inr ''1.2.0''"
    using sample_satisfies by (simp add: select_version_def m deployed_locks_get)
  have chk: "check_lock ?R bundle_a ''root'' = Inr ()" "check_lock ?R bundle_b ''mem'' = Inr ()"
    by (simp_all add: check_lock_def m deployed_locks_get)
  have ver: "failed ?R (verify_signatures lenient_crypto deployed_options bundle_a) = Inr ()"
      "failed ?R (verify_signatures lenient_crypto deployed_options bundle_b) = Inr ()"
    by (simp_all add: deployed_verifies)
  have f: "fetch ?R ?repo \<lparr>bd_id = ''b'', bd_constraint = ''^1.0.0''\<rparr> ''1.2.0'' = Inr bundle_b"
    by (rule sample_fetch) (simp add: deployed_codec_def)
  have v: "visit 2 ?R bundle_a ''root'' empty_resolution = Inr \<lparr>rs_selected = [(''a'', ''1.0.0''), (''b'', ''1.2.0'')],
      rs_active = {}, rs_bundles = [(''a'', bundle_a), (''b'', bundle_b)], rs_order = [''b'', ''a'']\<rparr>"
    by (simp add: eval_nat_numeral visit_dependency_def chk m sel f ver enter_bundle_def leave_bundle_def
        empty_resolution_def less_char_def)
  have load: "load_bundle_from_provider deployed_codec (manifest_only ''A'') = Inr bundle_a"
    by (simp add: deployed_codec_def sample_loads)
  have w: "write_json (cd_lib deployed_codec) j styled = ''L''" for j styled by (simp add: deployed_codec_def)
  show ?thesis
    by (simp add: resolve_def resolve_unchecked_def resolve_from_def locks m failed_def load v w sample_graph_def)
qed

end
