(* ===== verification/Resource_Lease.thy ===== *)
theory Resource_Lease
  imports State_Store
begin

text \<open>
  Resource leases (\<open>resource_lease.cpp\<close>). The provider keeps the capacity and the free units of every
  named resource, the waiting requests and the leases it granted. Every operation runs under one
  mutex, so each is one function from provider to provider; \<open>acquire\<close> is cut at the points where it
  waits on the condition variable: the checks and the entry into the queue, and one turn of its loop.
  The clocks are arguments. A lease object is identified by the number of its allocation; it is alive
  until its handle is destroyed, which is what makes the weak pointer of the provider expire.

  The lemmas show that no unit is lost or invented by any interleaving of requests, renewals,
  expiries and releases, that fencing tokens are unique and increase, that an expired lease never
  comes back to life, and that whenever requests wait one of them is selected.
\<close>

section \<open>Model\<close>

type_synonym units = "(string, u64) smap"

definition units_of :: "units \<Rightarrow> string \<Rightarrow> u64" where
  "units_of m k = (case sm_get m k of None \<Rightarrow> 0 | Some v \<Rightarrow> v)"

record lease_state =
  ls_ref :: nat
  ls_id :: string
  ls_token :: u64
  ls_expires :: u64
  ls_resources :: units
  ls_released :: bool
  ls_alive :: bool

record waiter =
  wt_sequence :: u64
  wt_priority :: int
  wt_key :: string
  wt_enqueued :: nat

record provider =
  pr_capacity :: units
  pr_available :: units
  pr_waiters :: "waiter list"
  pr_active :: "lease_state list"
  pr_last_key :: string
  pr_next_sequence :: u64
  pr_next_token :: u64
  pr_next_ref :: nat

record request =
  rq_run_id :: string
  rq_units :: u32
  rq_resources :: units
  rq_priority :: int
  rq_fairness_key :: string
  rq_lease_ttl_ms :: u64
  rq_deadline_remaining_ms :: u64

definition lease_error :: "string \<Rightarrow> string \<Rightarrow> err" where
  "lease_error c m = \<lparr>err_category = ''resource_limit'', err_code = c, err_message = m, err_retryable = True\<rparr>"

definition give_back :: "units \<Rightarrow> units \<Rightarrow> units" where
  "give_back resources available =
    fold (\<lambda>(k, v) m. sm_put k (units_of m k + v) m) resources available"

definition take_units :: "units \<Rightarrow> units \<Rightarrow> units" where
  "take_units resources available =
    fold (\<lambda>(k, v) m. sm_put k (units_of m k - v) m) resources available"

fun sweep_leases :: "u64 \<Rightarrow> lease_state list \<Rightarrow> units \<Rightarrow> lease_state list \<times> units" where
  "sweep_leases now [] available = ([], available)"
| "sweep_leases now (l # ls) available =
    (if \<not> ls_alive l then sweep_leases now ls available
     else if \<not> ls_released l \<and> ls_expires l \<le> now then
       (let (ls', available') = sweep_leases now ls (give_back (ls_resources l) available)
        in (l\<lparr>ls_released := True\<rparr> # ls', available'))
     else (let (ls', available') = sweep_leases now ls available in (l # ls', available')))"

definition sweep :: "u64 \<Rightarrow> provider \<Rightarrow> provider" where
  "sweep now p = (let (ls, available) = sweep_leases now (pr_active p) (pr_available p)
     in p\<lparr>pr_active := ls, pr_available := available\<rparr>)"

definition fits :: "provider \<Rightarrow> units \<Rightarrow> bool" where
  "fits p resources = (resources \<noteq> [] \<and> list_all (\<lambda>(k, v).
     case sm_get (pr_available p) k of None \<Rightarrow> False | Some free \<Rightarrow> v \<noteq> 0 \<and> v \<le> free) resources)"

text \<open>One point of priority per 100 ms of waiting.\<close>

definition effective :: "nat \<Rightarrow> waiter \<Rightarrow> int" where
  "effective now w = wt_priority w + int ((now - wt_enqueued w) div 100)"

definition selected :: "nat \<Rightarrow> provider \<Rightarrow> waiter \<Rightarrow> bool" where
  "selected now p w =
    (let best = fold (\<lambda>x b. max b (effective now x)) (pr_waiters p) (effective now w)
     in effective now w = best \<and>
        list_all (\<lambda>x. \<not> (effective now x = best \<and> wt_key x \<noteq> pr_last_key p \<and>
          wt_sequence x < wt_sequence w)) (pr_waiters p) \<and>
        (wt_key w = pr_last_key p \<longrightarrow>
          list_all (\<lambda>x. \<not> (effective now x = best \<and> wt_key x \<noteq> pr_last_key p)) (pr_waiters p)))"

definition new_provider :: "units \<Rightarrow> string + provider" where
  "new_provider capacities =
    (if capacities = [] then Inl ''resource capacities must not be empty''
     else if list_ex (\<lambda>(k, v). k = [] \<or> v = 0) capacities
       then Inl ''resource capacity must have a name and positive value''
     else Inr \<lparr>pr_capacity = capacities, pr_available = capacities, pr_waiters = [], pr_active = [],
            pr_last_key = [], pr_next_sequence = 1, pr_next_token = 1, pr_next_ref = 0\<rparr>)"

text \<open>The request as \<open>acquire\<close> reads it, and the checks it makes before it waits.\<close>

definition requested :: "request \<Rightarrow> units" where
  "requested rq = (if rq_resources rq = [] then [(''slots'', ucast (rq_units rq))] else rq_resources rq)"

fun check_resources :: "units \<Rightarrow> units \<Rightarrow> err option" where
  "check_resources capacity [] = None"
| "check_resources capacity ((k, v) # rest) =
    (if k = [] \<or> v = 0 \<or> (case sm_get capacity k of None \<Rightarrow> True | Some c \<Rightarrow> c < v)
     then Some (lease_error ''LEASE_CAPACITY'' (''invalid resource request: '' @ k))
     else check_resources capacity rest)"

definition acquire_check :: "provider \<Rightarrow> request \<Rightarrow> err option" where
  "acquire_check p rq =
    (if rq_lease_ttl_ms rq = 0 then Some (lease_error ''LEASE_TTL_INVALID'' ''lease TTL must be positive'')
     else check_resources (pr_capacity p) (requested rq))"

definition acquire_enqueue :: "nat \<Rightarrow> provider \<Rightarrow> request \<Rightarrow> provider \<times> waiter" where
  "acquire_enqueue now p rq =
    (let w = \<lparr>wt_sequence = pr_next_sequence p, wt_priority = rq_priority rq,
              wt_key = (if rq_fairness_key rq = [] then rq_run_id rq else rq_fairness_key rq),
              wt_enqueued = now\<rparr>
     in (p\<lparr>pr_next_sequence := pr_next_sequence p + 1, pr_waiters := pr_waiters p @ [w]\<rparr>, w))"

definition remove_waiter :: "waiter \<Rightarrow> provider \<Rightarrow> provider" where
  "remove_waiter w p = p\<lparr>pr_waiters := filter (\<lambda>x. x \<noteq> w) (pr_waiters p)\<rparr>"

definition grant :: "u64 \<Rightarrow> provider \<Rightarrow> request \<Rightarrow> waiter \<Rightarrow> provider \<times> lease_state" where
  "grant now p rq w =
    (let l = \<lparr>ls_ref = pr_next_ref p, ls_id = ''lease-'' @ to_string (unat (pr_next_token p)),
              ls_token = pr_next_token p, ls_expires = now + rq_lease_ttl_ms rq,
              ls_resources = requested rq, ls_released = False, ls_alive = True\<rparr>
     in ((remove_waiter w p)\<lparr>pr_available := take_units (requested rq) (pr_available p),
            pr_last_key := wt_key w, pr_next_token := pr_next_token p + 1,
            pr_next_ref := pr_next_ref p + 1, pr_active := pr_active p @ [l]\<rparr>, l))"

datatype attempt = Granted lease_state | Refused err | Waiting

text \<open>
  One turn of the loop of \<open>acquire\<close>: the wall clock as the sweep and as the grant read it, the steady
  clock, the elapsed time since the call and the state of the cancellation token are what the turn
  observes.
\<close>

record turn =
  tn_unix :: u64
  tn_grant_unix :: u64
  tn_steady :: nat
  tn_elapsed :: u64
  tn_cancellation :: "cancellation_token option"

definition cancelled_by :: "turn \<Rightarrow> string option" where
  "cancelled_by t = (case tn_cancellation t of
     None \<Rightarrow> None | Some c \<Rightarrow> if ct_cancelled c then Some (ct_reason c) else None)"

definition acquire_turn :: "turn \<Rightarrow> provider \<Rightarrow> request \<Rightarrow> waiter \<Rightarrow> provider \<times> attempt" where
  "acquire_turn t p0 rq w = (let p = sweep (tn_unix t) p0 in
     if selected (tn_steady t) p w \<and> fits p (requested rq) then
       (let (p', l) = grant (tn_grant_unix t) p rq w in (p', Granted l))
     else case cancelled_by t of
       Some reason \<Rightarrow> (remove_waiter w p, Refused (lease_error ''LEASE_CANCELLED'' reason))
     | None \<Rightarrow>
         if rq_deadline_remaining_ms rq \<noteq> 0 \<and> rq_deadline_remaining_ms rq \<le> tn_elapsed t
         then (remove_waiter w p, Refused (lease_error ''LEASE_DEADLINE'' ''resource lease deadline exceeded''))
         else (p, Waiting))"

text \<open>Operations on a granted lease, found by its identity.\<close>

definition update_lease :: "nat \<Rightarrow> (lease_state \<Rightarrow> lease_state) \<Rightarrow> provider \<Rightarrow> provider" where
  "update_lease r f p = p\<lparr>pr_active := map (\<lambda>l. if ls_ref l = r then f l else l) (pr_active p)\<rparr>"

definition release_lease :: "lease_state \<Rightarrow> provider \<Rightarrow> provider" where
  "release_lease l p =
    (if ls_released l then p
     else (update_lease (ls_ref l) (\<lambda>l. l\<lparr>ls_released := True\<rparr>) p)
            \<lparr>pr_available := give_back (ls_resources l) (pr_available p)\<rparr>)"

definition renew :: "u64 \<Rightarrow> u64 \<Rightarrow> u64 \<Rightarrow> lease_state \<Rightarrow> provider \<Rightarrow> provider \<times> u64 result" where
  "renew now now' ttl l p =
    (if ttl = 0 then (p, Inl (lease_error ''LEASE_TTL_INVALID'' ''lease TTL must be positive''))
     else if ls_released l \<or> ls_expires l \<le> now then
       (release_lease l p, Inl (lease_error ''LEASE_EXPIRED'' ''lease has expired''))
     else (update_lease (ls_ref l) (\<lambda>l. l\<lparr>ls_expires := now' + ttl\<rparr>) p, Inr (now' + ttl)))"

definition destroy_lease :: "lease_state \<Rightarrow> provider \<Rightarrow> provider" where
  "destroy_lease l p = update_lease (ls_ref l) (\<lambda>l. l\<lparr>ls_alive := False\<rparr>) (release_lease l p)"

definition provider_available :: "u64 \<Rightarrow> provider \<Rightarrow> provider \<times> units" where
  "provider_available now p = (let p' = sweep now p in (p', pr_available p'))"

text \<open>The semaphore wraps a provider with one resource named \<open>slots\<close>.\<close>

definition new_semaphore :: "u32 \<Rightarrow> string + provider" where
  "new_semaphore capacity = new_provider [(''slots'', ucast capacity)]"

definition semaphore_request :: "request \<Rightarrow> request" where
  "semaphore_request rq =
    (if rq_resources rq = [] then rq\<lparr>rq_resources := [(''slots'', ucast (rq_units rq))]\<rparr> else rq)"

definition semaphore_available :: "u64 \<Rightarrow> provider \<Rightarrow> provider \<times> u32" where
  "semaphore_available now p = (let (p', m) = provider_available now p in (p', ucast (units_of m ''slots'')))"

text \<open>The atomic steps of the threads that use a provider.\<close>

inductive lease_step :: "provider \<Rightarrow> provider \<Rightarrow> bool" where
  enqueue: "sm_ok (rq_resources rq) \<Longrightarrow> acquire_check p rq = None \<Longrightarrow>
    acquire_enqueue now p rq = (p', w) \<Longrightarrow> lease_step p p'"
| turn: "sm_ok (rq_resources rq) \<Longrightarrow> acquire_check p rq = None \<Longrightarrow> w \<in> set (pr_waiters p) \<Longrightarrow>
    acquire_turn t p rq w = (p', a) \<Longrightarrow> lease_step p p'"
| renewal: "l \<in> set (pr_active p) \<Longrightarrow> ls_alive l \<Longrightarrow> renew now now' ttl l p = (p', r) \<Longrightarrow> lease_step p p'"
| destruction: "l \<in> set (pr_active p) \<Longrightarrow> ls_alive l \<Longrightarrow> lease_step p (destroy_lease l p)"
| query: "provider_available now p = (p', m) \<Longrightarrow> lease_step p p'"

inductive_cases lease_stepE: "lease_step p p'"

definition lease_init :: "provider \<Rightarrow> bool" where
  "lease_init p = (\<exists>c. sm_ok c \<and> new_provider c = Inr p)"

section \<open>Conservation of units\<close>

lemma units_of_put [simp]: "units_of (sm_put k v m) k' = (if k' = k then v else units_of m k')"
  by (simp add: units_of_def)

lemma units_of_Cons: "units_of ((k, v) # m) k' = (if k' = k then v else units_of m k')"
  by (auto simp: units_of_def)

lemma units_of_absent: "k \<notin> set (sm_keys m) \<Longrightarrow> units_of m k = 0"
  using sm_get_None_iff [of m k] by (simp add: units_of_def)

lemma units_of_give_back:
  "distinct (sm_keys rs) \<Longrightarrow> units_of (give_back rs m) k = units_of m k + units_of rs k"
proof (induction rs arbitrary: m)
  case Nil
  then show ?case by (simp add: give_back_def units_of_def)
next
  case (Cons r rs)
  obtain k0 v where r: "r = (k0, v)" by fastforce
  have "units_of (give_back (r # rs) m) k = units_of (sm_put k0 (units_of m k0 + v) m) k + units_of rs k"
    using Cons r by (simp add: give_back_def)
  then show ?case using Cons.prems r units_of_absent [of k0 rs] by (auto simp: units_of_Cons)
qed

lemma units_of_take:
  "distinct (sm_keys rs) \<Longrightarrow> units_of (take_units rs m) k = units_of m k - units_of rs k"
proof (induction rs arbitrary: m)
  case Nil
  then show ?case by (simp add: take_units_def units_of_def)
next
  case (Cons r rs)
  obtain k0 v where r: "r = (k0, v)" by fastforce
  have "units_of (take_units (r # rs) m) k = units_of (sm_put k0 (units_of m k0 - v) m) k - units_of rs k"
    using Cons r by (simp add: take_units_def)
  then show ?case using Cons.prems r units_of_absent [of k0 rs] by (auto simp: units_of_Cons)
qed

definition held :: "lease_state list \<Rightarrow> string \<Rightarrow> nat" where
  "held ls k = (\<Sum>l\<leftarrow>ls. if ls_released l then 0 else unat (units_of (ls_resources l) k))"

lemma held_simps [simp]:
  "held [] k = 0"
  "held (l # ls) k = (if ls_released l then 0 else unat (units_of (ls_resources l) k)) + held ls k"
  "held (ls @ ls') k = held ls k + held ls' k"
  by (simp_all add: held_def)

lemma held_member: "l \<in> set ls \<Longrightarrow> \<not> ls_released l \<Longrightarrow> unat (units_of (ls_resources l) k) \<le> held ls k"
  by (induction ls) auto

text \<open>The free units plus the units held by leases not yet released are the capacity.\<close>

definition balanced :: "units \<Rightarrow> units \<Rightarrow> lease_state list \<Rightarrow> bool" where
  "balanced capacity available ls =
    (\<forall>k. unat (units_of available k) + held ls k = unat (units_of capacity k))"

definition lease_ok :: "lease_state \<Rightarrow> bool" where
  "lease_ok l = (distinct (sm_keys (ls_resources l)) \<and> (\<not> ls_alive l \<longrightarrow> ls_released l) \<and>
     ls_token l = of_nat (Suc (ls_ref l)))"

definition lease_inv :: "provider \<Rightarrow> bool" where
  "lease_inv p = (balanced (pr_capacity p) (pr_available p) (pr_active p) \<and>
     (\<forall>l \<in> set (pr_active p). lease_ok l \<and> ls_ref l < pr_next_ref p) \<and>
     distinct (map ls_ref (pr_active p)) \<and> pr_next_token p = of_nat (Suc (pr_next_ref p)))"

lemma unat_sum_bound: "unat (a :: u64) + unat b \<le> unat (c :: u64) \<Longrightarrow> unat (a + b) = unat a + unat b"
  using unat_u64_less [of c] by (simp add: unat_word_ariths)

lemma sweep_leases_balanced:
  assumes "sweep_leases now ls available = (ls', available')" and "\<forall>l \<in> set ls. lease_ok l"
    and "\<forall>k. unat (units_of available k) + held ls k \<le> unat (units_of capacity k)"
  shows "unat (units_of available' k) + held ls' k = unat (units_of available k) + held ls k"
  using assms
proof (induction now ls available arbitrary: ls' available' rule: sweep_leases.induct)
  case (1 now available)
  then show ?case by simp
next
  case (2 now l ls available)
  have ok: "lease_ok l" "\<forall>l \<in> set ls. lease_ok l" using 2(5) by auto
  consider (dead) "\<not> ls_alive l" | (expired) "ls_alive l" "\<not> ls_released l \<and> ls_expires l \<le> now"
    | (kept) "ls_alive l" "\<not> (\<not> ls_released l \<and> ls_expires l \<le> now)" by blast
  then show ?case
  proof cases
    case dead
    then have "ls_released l" using ok(1) by (simp add: lease_ok_def)
    then show ?thesis using 2(1) [OF dead, of ls' available'] 2(4,6) dead ok(2) by auto
  next
    case expired
    let ?av = "give_back (ls_resources l) available"
    obtain ls2 av2 where r: "sweep_leases now ls ?av = (ls2, av2)" by fastforce
    have av: "unat (units_of ?av k) = unat (units_of available k) + unat (units_of (ls_resources l) k)" for k
      using 2(6) expired ok(1) units_of_give_back [of "ls_resources l" available k]
        unat_sum_bound [of "units_of available k" "units_of (ls_resources l) k" "units_of capacity k"]
      by (auto simp: lease_ok_def dest!: spec [of _ k])
    have "\<forall>k. unat (units_of ?av k) + held ls k \<le> unat (units_of capacity k)"
      using 2(6) av expired by (simp add: add.assoc)
    then show ?thesis using 2(2) [OF _ _ r ok(2)] expired r 2(4) av by auto
  next
    case kept
    obtain ls2 av2 where r: "sweep_leases now ls available = (ls2, av2)" by fastforce
    have "unat (units_of available k) + held ls k \<le> unat (units_of capacity k)" for k
      using 2(6) [rule_format, of k] by simp
    then show ?thesis using 2(3) [OF _ _ r ok(2)] kept r 2(4) by auto
  qed
qed

text \<open>What a sweep does to one lease: it marks it released when it has expired.\<close>

definition swept :: "u64 \<Rightarrow> lease_state \<Rightarrow> lease_state \<Rightarrow> bool" where
  "swept now l l' = (ls_alive l \<and>
     l' = (if \<not> ls_released l \<and> ls_expires l \<le> now then l\<lparr>ls_released := True\<rparr> else l))"

lemma sweep_leases_members:
  "l' \<in> set (fst (sweep_leases now ls available)) \<Longrightarrow> \<exists>l \<in> set ls. swept now l l'"
  by (induction now ls available rule: sweep_leases.induct)
    (auto simp: swept_def Let_def split: if_splits prod.splits)

lemma sweep_leases_refs:
  assumes "sweep_leases now ls available = (ls', available')" and "l' \<in> set ls'"
  shows "ls_ref l' \<in> ls_ref ` set ls"
  using sweep_leases_members [of l' now ls available] assms by (auto simp: swept_def)

lemma sweep_leases_distinct:
  "distinct (map ls_ref ls) \<Longrightarrow> distinct (map ls_ref (fst (sweep_leases now ls available)))"
proof (induction now ls available rule: sweep_leases.induct)
  case (2 now l ls available)
  then show ?case
    by (auto simp: Let_def dest: sweep_leases_refs split: prod.splits)
qed simp

lemma sweep_inv:
  assumes "lease_inv p"
  shows "lease_inv (sweep now p)"
proof -
  obtain ls av where r: "sweep_leases now (pr_active p) (pr_available p) = (ls, av)" by fastforce
  have bal: "\<forall>k. unat (units_of (pr_available p) k) + held (pr_active p) k = unat (units_of (pr_capacity p) k)"
    and ok: "\<forall>l \<in> set (pr_active p). lease_ok l \<and> ls_ref l < pr_next_ref p"
    using assms by (simp_all add: lease_inv_def balanced_def)
  have "lease_ok l \<and> ls_ref l < pr_next_ref p" if inl: "l \<in> set ls" for l
  proof -
    obtain l0 where "l0 \<in> set (pr_active p)" "swept now l0 l"
      using sweep_leases_members [of l now "pr_active p" "pr_available p"] inl r by auto
    then show ?thesis using ok by (auto simp: swept_def lease_ok_def)
  qed
  moreover have "unat (units_of av k) + held ls k = unat (units_of (pr_capacity p) k)" for k
    using sweep_leases_balanced [OF r, of "pr_capacity p" k] ok bal by simp
  moreover have "distinct (map ls_ref ls)"
    using sweep_leases_distinct [of "pr_active p" now "pr_available p"] assms r by (simp add: lease_inv_def)
  ultimately show ?thesis
    using r assms by (simp add: lease_inv_def balanced_def sweep_def)
qed

lemma sweep_capacity [simp]: "pr_capacity (sweep now p) = pr_capacity p" "pr_waiters (sweep now p) = pr_waiters p"
    "pr_next_ref (sweep now p) = pr_next_ref p" "pr_next_token (sweep now p) = pr_next_token p"
    "pr_last_key (sweep now p) = pr_last_key p"
  by (simp_all add: sweep_def split: prod.splits)

lemma remove_waiter_inv: "lease_inv p \<Longrightarrow> lease_inv (remove_waiter w p)"
  by (simp add: remove_waiter_def lease_inv_def)

lemma requested_distinct: "sm_ok (rq_resources rq) \<Longrightarrow> distinct (sm_keys (requested rq))"
  by (simp add: requested_def sm_ok_distinct)

lemma fits_units:
  assumes "fits p rs"
  shows "units_of rs k \<le> units_of (pr_available p) k"
proof (cases "sm_get rs k")
  case None
  then show ?thesis by (simp add: units_of_def)
next
  case (Some v)
  then have "(k, v) \<in> set rs" by (rule sm_get_in_set)
  then show ?thesis using assms Some by (auto simp: fits_def list_all_iff units_of_def split: option.splits)
qed

lemma grant_inv:
  assumes "lease_inv p" and "sm_ok (rq_resources rq)" and "fits p (requested rq)"
    and "grant now p rq w = (p', l)"
  shows "lease_inv p'"
proof -
  note d = requested_distinct [OF assms(2)]
  have av: "unat (units_of (take_units (requested rq) (pr_available p)) k) + unat (units_of (requested rq) k) =
      unat (units_of (pr_available p) k)" for k
    using fits_units [OF assms(3), of k] units_of_take [OF d, of "pr_available p" k]
    by (simp add: unat_sub word_le_nat_alt)
  have bal: "unat (units_of (pr_available p) k) + held (pr_active p) k = unat (units_of (pr_capacity p) k)" for k
    using assms(1) by (simp add: lease_inv_def balanced_def)
  have "unat (units_of (pr_available p') k) + held (pr_active p') k = unat (units_of (pr_capacity p') k)" for k
    using av [of k] bal [of k] assms(4) by (auto simp: grant_def remove_waiter_def Let_def)
  moreover have "pr_next_ref p \<notin> ls_ref ` set (pr_active p)" using assms(1) by (auto simp: lease_inv_def)
  ultimately show ?thesis
    using assms(1,4) d
    by (auto simp: lease_inv_def balanced_def grant_def remove_waiter_def Let_def lease_ok_def less_Suc_eq)
qed

lemma acquire_turn_inv:
  assumes "lease_inv p" and "sm_ok (rq_resources rq)" and "acquire_turn t p rq w = (p', a)"
  shows "lease_inv p'"
  using assms sweep_inv [OF assms(1), of "tn_unix t"] grant_inv [OF sweep_inv [OF assms(1)] assms(2)]
    remove_waiter_inv
  by (auto simp: acquire_turn_def Let_def split: if_splits option.splits prod.splits)

lemma held_update:
  assumes "distinct (map ls_ref ls)" and "l \<in> set ls"
    and "\<And>x. ls_resources (f x) = ls_resources x"
  shows "held (map (\<lambda>x. if ls_ref x = ls_ref l then f x else x) ls) k +
      (if ls_released l then 0 else unat (units_of (ls_resources l) k)) =
    held ls k + (if ls_released (f l) then 0 else unat (units_of (ls_resources l) k))"
  using assms(1,2)
proof (induction ls)
  case (Cons y ls)
  show ?case
  proof (cases "y = l")
    case True
    have "map (\<lambda>x. if ls_ref x = ls_ref l then f x else x) ls = ls"
      using Cons.prems(1) True by (intro map_idI) (auto simp: image_iff)
    then show ?thesis using True assms(3) by simp
  next
    case False
    then have l: "l \<in> set ls" using Cons.prems(2) by simp
    then have "ls_ref y \<noteq> ls_ref l" using Cons.prems(1) by auto
    then show ?thesis using Cons l by simp
  qed
qed simp

lemma update_refs: "(\<And>x. ls_ref (f x) = ls_ref x) \<Longrightarrow>
    map (ls_ref \<circ> (\<lambda>x. if ls_ref x = r then f x else x)) ls = map ls_ref ls"
  by (induction ls) auto

lemma update_distinct: "(\<And>x. ls_ref (f x) = ls_ref x) \<Longrightarrow> distinct (map ls_ref ls) \<Longrightarrow>
    distinct (map (ls_ref \<circ> (\<lambda>x. if ls_ref x = r then f x else x)) ls)"
  by (simp only: update_refs)

lemma update_lease_inv:
  assumes "lease_inv p" and "l \<in> set (pr_active p)"
    and f: "\<And>x. ls_resources (f x) = ls_resources x" "\<And>x. ls_ref (f x) = ls_ref x"
      "\<And>x. lease_ok x \<Longrightarrow> ls_ref x = ls_ref l \<Longrightarrow> x \<in> set (pr_active p) \<Longrightarrow> lease_ok (f x)"
    and "ls_released (f l) = ls_released l"
  shows "lease_inv (update_lease (ls_ref l) f p)"
proof -
  have d: "distinct (map ls_ref (pr_active p))" using assms(1) by (simp add: lease_inv_def)
  have "held (map (\<lambda>x. if ls_ref x = ls_ref l then f x else x) (pr_active p)) k = held (pr_active p) k" for k
    using held_update [OF d assms(2), of f k] f(1) assms(6) by simp
  then show ?thesis
    using assms update_distinct [OF f(2) d, of "ls_ref l"]
    by (auto simp: lease_inv_def balanced_def update_lease_def)
qed

lemma release_lease_inv:
  assumes "lease_inv p" and "l \<in> set (pr_active p)"
  shows "lease_inv (release_lease l p)"
proof (cases "ls_released l")
  case True
  then show ?thesis using assms by (simp add: release_lease_def)
next
  case False
  let ?f = "\<lambda>x. x\<lparr>ls_released := True\<rparr>"
  let ?ls = "map (\<lambda>x. if ls_ref x = ls_ref l then ?f x else x) (pr_active p)"
  have d: "distinct (map ls_ref (pr_active p))" and dk: "distinct (sm_keys (ls_resources l))"
    using assms by (auto simp: lease_inv_def lease_ok_def)
  have h: "held ?ls k + unat (units_of (ls_resources l) k) = held (pr_active p) k" for k
    using held_update [OF d assms(2), of ?f k] False by simp
  have bal: "unat (units_of (pr_available p) k) + held (pr_active p) k = unat (units_of (pr_capacity p) k)" for k
    using assms(1) by (simp add: lease_inv_def balanced_def)
  have "unat (units_of (give_back (ls_resources l) (pr_available p)) k) + held ?ls k =
      unat (units_of (pr_capacity p) k)" for k
    using h [of k] bal [of k] units_of_give_back [OF dk, of "pr_available p" k]
      unat_sum_bound [of "units_of (pr_available p) k" "units_of (ls_resources l) k" "units_of (pr_capacity p) k"]
    by simp
  moreover have "distinct (map (ls_ref \<circ> (\<lambda>x. if ls_ref x = ls_ref l then ?f x else x)) (pr_active p))"
    by (rule update_distinct [OF _ d]) simp
  ultimately show ?thesis
    using assms False d
    by (auto simp: lease_inv_def balanced_def release_lease_def update_lease_def lease_ok_def)
qed

lemma renew_inv:
  assumes "lease_inv p" and "l \<in> set (pr_active p)" and "renew now now' ttl l p = (p', r)"
  shows "lease_inv p'"
proof -
  have "lease_inv (update_lease (ls_ref l) (\<lambda>x. x\<lparr>ls_expires := now' + ttl\<rparr>) p)"
    using assms by (intro update_lease_inv) (auto simp: lease_ok_def)
  then show ?thesis
    using assms release_lease_inv [OF assms(1,2)] by (auto simp: renew_def split: if_splits)
qed

lemma ref_inj: "lease_inv p \<Longrightarrow> x \<in> set (pr_active p) \<Longrightarrow> y \<in> set (pr_active p) \<Longrightarrow>
    ls_ref x = ls_ref y \<Longrightarrow> x = y"
  by (auto simp: lease_inv_def distinct_map inj_on_def)

lemma destroy_lease_inv:
  assumes "lease_inv p" and "l \<in> set (pr_active p)"
  shows "lease_inv (destroy_lease l p)"
proof -
  let ?p = "release_lease l p" and ?l = "l\<lparr>ls_released := True\<rparr>"
  note inv = release_lease_inv [OF assms]
  have l: "?l \<in> set (pr_active ?p)"
  proof (cases "ls_released l")
    case True
    then have "?l = l" by (cases l) simp
    then show ?thesis using True assms(2) by (simp only: release_lease_def if_True)
  qed (use assms(2) in \<open>force simp: release_lease_def update_lease_def image_iff\<close>)
  have "lease_ok (x\<lparr>ls_alive := False\<rparr>)"
    if "lease_ok x" "ls_ref x = ls_ref ?l" "x \<in> set (pr_active ?p)" for x
    using ref_inj [OF inv that(3) l] that by (auto simp: lease_ok_def)
  then have "lease_inv (update_lease (ls_ref ?l) (\<lambda>x. x\<lparr>ls_alive := False\<rparr>) ?p)"
    by (intro update_lease_inv [OF inv l]) auto
  then show ?thesis by (simp add: destroy_lease_def)
qed

lemma acquire_enqueue_inv: "lease_inv p \<Longrightarrow> acquire_enqueue now p rq = (p', w) \<Longrightarrow> lease_inv p'"
  by (auto simp: acquire_enqueue_def Let_def lease_inv_def)

lemma lease_step_inv: "lease_inv p \<Longrightarrow> lease_step p p' \<Longrightarrow> lease_inv p'"
  by (erule lease_stepE)
    (auto simp: provider_available_def Let_def intro: acquire_enqueue_inv acquire_turn_inv renew_inv
      destroy_lease_inv sweep_inv)

lemma lease_init_inv: "lease_init p \<Longrightarrow> lease_inv p"
  by (auto simp: lease_init_def new_provider_def lease_inv_def balanced_def split: if_splits)

interpretation leases: machine lease_init lease_step lease_inv
  by unfold_locales (auto intro: lease_init_inv lease_step_inv)

lemma lease_step_capacity: "lease_step p p' \<Longrightarrow> pr_capacity p' = pr_capacity p"
  by (erule lease_stepE)
    (auto simp: acquire_enqueue_def acquire_turn_def grant_def remove_waiter_def renew_def release_lease_def
      update_lease_def destroy_lease_def provider_available_def Let_def
      split: if_splits option.splits prod.splits)

lemma tokens_distinct:
  assumes "lease_inv p" and "pr_next_ref p < 2 ^ 64 - 1"
    and "x \<in> set (pr_active p)" and "y \<in> set (pr_active p)" and "ls_ref x < ls_ref y"
  shows "ls_token x < ls_token y \<and> ls_token y < pr_next_token p"
proof -
  have n: "unat (of_nat (Suc n) :: u64) = Suc n" if "n \<le> pr_next_ref p" for n
    using that assms(2) by (subst unat_of_nat) simp
  have "ls_token x = of_nat (Suc (ls_ref x))" "ls_token y = of_nat (Suc (ls_ref y))" "ls_ref y < pr_next_ref p"
    "pr_next_token p = of_nat (Suc (pr_next_ref p))"
    using assms by (auto simp: lease_inv_def lease_ok_def simp del: of_nat_Suc)
  then show ?thesis
    using assms(5) n [of "ls_ref x"] n [of "ls_ref y"] n [of "pr_next_ref p"]
    by (simp add: word_less_nat_alt del: of_nat_Suc)
qed

section \<open>Selection\<close>

lemma fold_max_start: "b \<le> fold (\<lambda>x b. max b (f x :: int)) xs b"
  by (induction xs arbitrary: b) (auto intro: order.trans [OF max.cobounded1])

lemma fold_max_fix: "fold (\<lambda>x b. max b (f x :: int)) xs b = b \<longleftrightarrow> (\<forall>x \<in> set xs. f x \<le> b)"
proof (induction xs arbitrary: b)
  case (Cons a xs)
  show ?case
  proof (cases "f a \<le> b")
    case True
    then show ?thesis using Cons by (simp add: max_absorb1)
  next
    case False
    then show ?thesis using fold_max_start [of "max b (f a)" f xs] by auto
  qed
qed simp

definition foremost :: "nat \<Rightarrow> provider \<Rightarrow> waiter \<Rightarrow> bool" where
  "foremost now p w = list_all (\<lambda>x. effective now x \<le> effective now w) (pr_waiters p)"

lemma selected_foremost:
  assumes "w \<in> set (pr_waiters p)"
  shows "selected now p w \<longleftrightarrow> foremost now p w \<and>
    (\<forall>x \<in> set (pr_waiters p). effective now x = effective now w \<and> wt_key x \<noteq> pr_last_key p \<longrightarrow>
       wt_sequence w \<le> wt_sequence x \<and> wt_key w \<noteq> pr_last_key p)"
proof -
  let ?best = "fold (\<lambda>x b. max b (effective now x)) (pr_waiters p) (effective now w)"
  have "effective now w = ?best \<longleftrightarrow> foremost now p w"
    using fold_max_fix [of "effective now" "pr_waiters p" "effective now w"]
    by (auto simp: foremost_def list_all_iff)
  then show ?thesis
    by (cases "foremost now p w") (auto simp: selected_def list_all_iff Let_def not_less)
qed

lemma list_extremum:
  fixes f :: "'a \<Rightarrow> 'b :: linorder"
  assumes "xs \<noteq> []"
  shows "\<exists>m \<in> set xs. \<forall>x \<in> set xs. f x \<le> f m" and "\<exists>m \<in> set xs. \<forall>x \<in> set xs. f m \<le> f x"
proof -
  have "f ` set xs \<noteq> {}" using assms by simp
  then obtain m where "m \<in> set xs" "f m = Max (f ` set xs)" by (metis Max_in List.finite_set finite_imageI imageE)
  then show "\<exists>m \<in> set xs. \<forall>x \<in> set xs. f x \<le> f m" by force
  obtain m where "m \<in> set xs" "f m = Min (f ` set xs)"
    using \<open>f ` set xs \<noteq> {}\<close> by (metis Min_in List.finite_set finite_imageI imageE)
  then show "\<exists>m \<in> set xs. \<forall>x \<in> set xs. f m \<le> f x" by force
qed

lemma selected_exists:
  assumes "pr_waiters p \<noteq> []"
  shows "\<exists>w \<in> set (pr_waiters p). selected now p w"
proof -
  obtain m where m: "m \<in> set (pr_waiters p)" "\<forall>x \<in> set (pr_waiters p). effective now x \<le> effective now m"
    using list_extremum(1) [OF assms] by blast
  let ?rest = "filter (\<lambda>x. effective now x = effective now m \<and> wt_key x \<noteq> pr_last_key p) (pr_waiters p)"
  show ?thesis
  proof (cases "?rest = []")
    case True
    then have "selected now p m"
      using m by (auto simp: selected_foremost foremost_def list_all_iff filter_empty_conv)
    then show ?thesis using m(1) by blast
  next
    case False
    obtain x where x: "x \<in> set ?rest" "\<forall>y \<in> set ?rest. wt_sequence x \<le> wt_sequence y"
      using list_extremum(2) [OF False] by blast
    then have "selected now p x"
      using m(2) by (auto simp: selected_foremost foremost_def list_all_iff)
    then show ?thesis using x(1) by auto
  qed
qed

lemma effective_aging:
  assumes "wt_enqueued w + 100 * nat (wt_priority x - wt_priority w + 1) \<le> wt_enqueued x"
    and "wt_enqueued x \<le> now" and "wt_priority w \<le> wt_priority x"
  shows "effective now x < effective now w"
proof -
  let ?d = "nat (wt_priority x - wt_priority w + 1)"
  have "(now - wt_enqueued x) div 100 + ?d = (now - wt_enqueued x + 100 * ?d) div 100" by simp
  also have "\<dots> \<le> (now - wt_enqueued w) div 100"
    using assms(1,2) by (intro div_le_mono) linarith
  finally show ?thesis using assms(3) by (simp add: effective_def)
qed

lemma check_resources_fits:
  assumes "check_resources capacity rs = None" and "rs \<noteq> []"
    and "\<And>k. units_of (pr_available p) k = units_of capacity k"
  shows "fits p rs"
proof -
  have "v \<noteq> 0 \<and> v \<le> units_of capacity k" if "(k, v) \<in> set rs" for k v
    using assms(1) that
    by (induction rs) (auto simp: units_of_def not_less split: if_splits option.splits)
  then have "case sm_get (pr_available p) k of None \<Rightarrow> False | Some free \<Rightarrow> v \<noteq> 0 \<and> v \<le> free"
    if "(k, v) \<in> set rs" for k v
    using that assms(3) [of k] by (fastforce simp: units_of_def split: option.splits)
  then show ?thesis using assms(2) by (auto simp: fits_def list_all_iff)
qed

lemma sweep_leases_all:
  assumes "\<forall>l \<in> set ls. ls_released l \<or> ls_expires l \<le> now"
    and "l' \<in> set (fst (sweep_leases now ls available))"
  shows "ls_released l'"
proof -
  obtain l where l: "l \<in> set ls" "swept now l l'" using sweep_leases_members [OF assms(2)] by blast
  then show ?thesis
    using assms(1) by (cases "\<not> ls_released l \<and> ls_expires l \<le> now") (auto simp: swept_def)
qed

lemma held_released: "\<forall>l \<in> set ls. ls_released l \<Longrightarrow> held ls k = 0"
  by (induction ls) auto

lemma idle_available:
  assumes "lease_inv p" and "\<forall>l \<in> set (pr_active p). ls_released l \<or> ls_expires l \<le> now"
  shows "units_of (pr_available (sweep now p)) k = units_of (pr_capacity p) k"
proof -
  have "held (pr_active (sweep now p)) k = 0"
    using sweep_leases_all [OF assms(2), of _ "pr_available p"]
    by (intro held_released) (auto simp: sweep_def split: prod.splits)
  then show ?thesis
    using sweep_inv [OF assms(1), of now] by (auto simp: lease_inv_def balanced_def word_unat_eq_iff dest!: spec [of _ k])
qed

section \<open>Lapsed leases\<close>

text \<open>A lease granted earlier that is gone or marked released.\<close>

definition lapsed :: "nat \<Rightarrow> provider \<Rightarrow> bool" where
  "lapsed r p = (r < pr_next_ref p \<and> (\<forall>l \<in> set (pr_active p). ls_ref l = r \<longrightarrow> ls_released l))"

lemma lapsed_sweep: "lapsed r p \<Longrightarrow> lapsed r (sweep now p)"
  using sweep_leases_members [of _ now "pr_active p" "pr_available p"]
  by (fastforce simp: lapsed_def sweep_def swept_def split: prod.splits)

lemma lapsed_update: "lapsed r p \<Longrightarrow> (\<And>l. ls_ref (f l) = ls_ref l) \<Longrightarrow>
    (\<And>l. ls_released l \<Longrightarrow> ls_released (f l)) \<Longrightarrow> lapsed r (update_lease r' f p)"
  by (auto simp: lapsed_def update_lease_def)

lemma lapsed_release: "lapsed r p \<Longrightarrow> lapsed r (release_lease l p)"
  using lapsed_update [of r p "\<lambda>l. l\<lparr>ls_released := True\<rparr>" "ls_ref l"]
  by (simp add: release_lease_def lapsed_def)

lemma lapsed_step: "lapsed r p \<Longrightarrow> lease_step p p' \<Longrightarrow> lapsed r p'"
proof (erule lease_stepE)
  fix rq w t a
  assume "lapsed r p" and "acquire_turn t p rq w = (p', a)"
  then show "lapsed r p'"
    using lapsed_sweep [of r p "tn_unix t"]
    by (auto simp: acquire_turn_def Let_def grant_def remove_waiter_def lapsed_def
        split: if_splits option.splits)
next
  fix rq now w
  assume "lapsed r p" and "acquire_enqueue now p rq = (p', w)"
  then show "lapsed r p'" by (auto simp: acquire_enqueue_def Let_def lapsed_def)
qed (auto simp: renew_def destroy_lease_def provider_available_def Let_def
    intro: lapsed_sweep lapsed_update lapsed_release split: if_splits)

interpretation lapse: machine "lapsed r" lease_step "lapsed r" for r
  by unfold_locales (auto intro: lapsed_step)

section \<open>Sample\<close>

definition sample_provider :: provider where
  "sample_provider = \<lparr>pr_capacity = [(''gpu'', 4)], pr_available = [(''gpu'', 4)], pr_waiters = [], pr_active = [],
     pr_last_key = [], pr_next_sequence = 1, pr_next_token = 1, pr_next_ref = 0\<rparr>"

definition sample_request :: request where
  "sample_request = \<lparr>rq_run_id = ''run'', rq_units = 1, rq_resources = [(''gpu'', 3)], rq_priority = 0,
     rq_fairness_key = ''tenant'', rq_lease_ttl_ms = 50, rq_deadline_remaining_ms = 0\<rparr>"

definition sample_turn :: "u64 \<Rightarrow> turn" where
  "sample_turn now = \<lparr>tn_unix = now, tn_grant_unix = now, tn_steady = 0, tn_elapsed = 0, tn_cancellation = None\<rparr>"

definition sample_queued :: "provider \<times> waiter" where
  "sample_queued = acquire_enqueue 0 sample_provider sample_request"

definition sample_granted :: "provider \<times> attempt" where
  "sample_granted = acquire_turn (sample_turn 100) (fst sample_queued) sample_request (snd sample_queued)"

definition sample_more :: "provider \<times> waiter" where
  "sample_more = acquire_enqueue 0 (fst sample_granted) (sample_request\<lparr>rq_resources := [(''gpu'', 1)]\<rparr>)"

definition sample_second :: "provider \<times> attempt" where
  "sample_second = acquire_turn (sample_turn 100) (fst sample_more) (sample_request\<lparr>rq_resources := [(''gpu'', 1)]\<rparr>)
     (snd sample_more)"

definition sample_waiter :: "u64 \<Rightarrow> int \<Rightarrow> nat \<Rightarrow> waiter" where
  "sample_waiter n priority t = \<lparr>wt_sequence = n, wt_priority = priority, wt_key = ''tenant'', wt_enqueued = t\<rparr>"

lemmas sample_lease_defs = sample_more_def sample_second_def sample_provider_def sample_request_def sample_turn_def sample_queued_def
  sample_granted_def acquire_enqueue_def acquire_turn_def sweep_def selected_def effective_def fits_def
  requested_def grant_def remove_waiter_def take_units_def units_of_def acquire_check_def sm_ok_def Let_def

lemma sample_queued_reachable: "reachable lease_init lease_step (fst sample_queued)"
proof -
  have "lease_init sample_provider"
    unfolding lease_init_def by (rule exI [of _ "[(''gpu'', 4)]"]) (simp add: new_provider_def sample_provider_def sm_ok_def)
  moreover have "lease_step sample_provider (fst sample_queued)"
    by (rule lease_step.enqueue [of sample_request _ 0 _ "snd sample_queued"])
      (simp_all add: sample_lease_defs)
  ultimately show ?thesis by (blast intro: reachable.intros)
qed

lemma sample_granted_reachable: "reachable lease_init lease_step (fst sample_granted)"
proof -
  have "lease_step (fst sample_queued) (fst sample_granted)"
    by (rule lease_step.turn [of sample_request _ "snd sample_queued" "sample_turn 100" _ "snd sample_granted"])
      (simp_all add: sample_lease_defs)
  then show ?thesis by (rule reachable.advance [OF sample_queued_reachable])
qed

lemma sample_second_reachable: "reachable lease_init lease_step (fst sample_second)"
proof -
  have "lease_step (fst sample_granted) (fst sample_more)"
    by (rule lease_step.enqueue [of "sample_request\<lparr>rq_resources := [(''gpu'', 1)]\<rparr>" _ 0 _ "snd sample_more"])
      (simp_all add: sample_lease_defs)
  moreover have "lease_step (fst sample_more) (fst sample_second)"
    by (rule lease_step.turn [of "sample_request\<lparr>rq_resources := [(''gpu'', 1)]\<rparr>" _ "snd sample_more"
          "sample_turn 100" _ "snd sample_second"])
      (simp_all add: sample_lease_defs)
  ultimately show ?thesis by (blast intro: reachable.advance sample_granted_reachable)
qed

section \<open>Properties\<close>

text \<open>
  C10. Conservation: in every state reached by any interleaving of acquisitions, renewals, expiries and
  releases, the free units of each resource plus the units of the leases not yet released are exactly
  its capacity, so no unit is lost, counted twice or granted beyond capacity.
\<close>

theorem leases_conserve_units:
  assumes "reachable lease_init lease_step p"
  shows "unat (units_of (pr_available p) k) + held (pr_active p) k = unat (units_of (pr_capacity p) k)"
  using leases.reachable_inv [OF assms] by (simp add: lease_inv_def balanced_def)

theorem leases_conserve_units_witness:
  "held (pr_active (fst sample_granted)) ''gpu'' = 3 \<and>
   unat (units_of (pr_available (fst sample_granted)) ''gpu'') + held (pr_active (fst sample_granted)) ''gpu'' = 4"
  using leases_conserve_units [OF sample_granted_reachable, of "''gpu''"]
  by (simp add: sample_lease_defs held_def)

text \<open>
  Fencing: among the leases of a reachable provider a lease granted later carries a strictly larger
  fencing token, and the next token is larger than all of them, as long as fewer than \<open>2 ^ 64 - 1\<close>
  leases were granted.
\<close>

theorem fencing_tokens_increase:
  assumes "reachable lease_init lease_step p" and "pr_next_ref p < 2 ^ 64 - 1"
    and "x \<in> set (pr_active p)" and "y \<in> set (pr_active p)" and "ls_ref x < ls_ref y"
  shows "ls_token x < ls_token y \<and> ls_token y < pr_next_token p"
  by (rule tokens_distinct [OF leases.reachable_inv [OF assms(1)] assms(2-)])

theorem fencing_tokens_increase_witness:
  "map ls_token (pr_active (fst sample_second)) = [1, 2] \<and> pr_next_token (fst sample_second) = 3 \<and>
   ls_token (hd (pr_active (fst sample_second))) < ls_token (last (pr_active (fst sample_second)))"
proof -
  let ?p = "fst sample_second"
  have "hd (pr_active ?p) \<in> set (pr_active ?p)" "last (pr_active ?p) \<in> set (pr_active ?p)"
    "ls_ref (hd (pr_active ?p)) < ls_ref (last (pr_active ?p))" "pr_next_ref ?p < 2 ^ 64 - 1"
    by (simp_all add: sample_lease_defs)
  then show ?thesis
    using fencing_tokens_increase [OF sample_second_reachable] by (simp add: sample_lease_defs)
qed

text \<open>
  C11. Renewal cannot resurrect a lease: once a lease is released or was reclaimed after its expiry,
  no later sequence of steps makes it current again and every renewal of it is refused.
\<close>

theorem lapsed_lease_stays_lapsed:
  assumes "lapsed r p" and "lease_step\<^sup>*\<^sup>* p p'" and "l \<in> set (pr_active p')" and "ls_ref l = r"
  shows "ls_released l \<and> (\<exists>e. snd (renew now now' ttl l p') = Inl e)"
  using lapse.steps_inv [OF assms(2,1)] assms(3,4) by (auto simp: lapsed_def renew_def)

theorem lapsed_lease_stays_lapsed_witness:
  "\<exists>l. pr_active (fst (provider_available 150 (fst sample_granted))) = [l] \<and> ls_released l \<and>
     (\<exists>e. snd (renew 150 150 50 l (fst (provider_available 150 (fst sample_granted)))) = Inl e)"
proof -
  let ?p = "fst (provider_available 150 (fst sample_granted))"
  have "lapsed 0 ?p"
    by (simp add: lapsed_def provider_available_def sample_lease_defs give_back_def)
  moreover obtain l where "pr_active ?p = [l]" "ls_ref l = 0"
    by (simp add: provider_available_def sample_lease_defs give_back_def)
  ultimately show ?thesis
    using lapsed_lease_stays_lapsed [of 0 ?p ?p l 150 150 50] by auto
qed

text \<open>
  Progress of an idle provider: when requests wait and every lease has been released or has expired,
  one of the waiting requests is granted by its next turn, whatever valid request it stands for.
\<close>

theorem idle_provider_grants:
  assumes "reachable lease_init lease_step p" and "pr_waiters p \<noteq> []"
    and "\<forall>l \<in> set (pr_active p). ls_released l \<or> ls_expires l \<le> tn_unix t"
  shows "\<exists>w \<in> set (pr_waiters p). \<forall>rq. acquire_check p rq = None \<longrightarrow>
    (\<exists>l. snd (acquire_turn t p rq w) = Granted l \<and> ls_resources l = requested rq)"
proof -
  let ?p = "sweep (tn_unix t) p"
  obtain w where w: "w \<in> set (pr_waiters p)" "selected (tn_steady t) ?p w"
    using selected_exists [of ?p "tn_steady t"] assms(2) by auto
  have "fits ?p (requested rq)" if "acquire_check p rq = None" for rq
    using that idle_available [OF leases.reachable_inv [OF assms(1)] assms(3)]
    by (intro check_resources_fits [of "pr_capacity p"]) (auto simp: acquire_check_def requested_def split: if_splits)
  then show ?thesis
    using w by (intro bexI [of _ w]) (auto simp: acquire_turn_def grant_def Let_def)
qed

theorem idle_provider_grants_witness:
  "\<exists>w \<in> set (pr_waiters (fst sample_queued)). \<forall>rq. acquire_check (fst sample_queued) rq = None \<longrightarrow>
    (\<exists>l. snd (acquire_turn (sample_turn 100) (fst sample_queued) rq w) = Granted l \<and> ls_resources l = requested rq)"
  by (rule idle_provider_grants [OF sample_queued_reachable]) (simp_all add: sample_lease_defs)

text \<open>
  C12. Ageing bounds overtaking: a request of no higher priority that has waited long enough before another
  one arrived, 100 ms for each point of priority it lacks and 100 ms more, is never overtaken by it: while it
  waits the later request is not selected. The last 100 ms are needed: after exactly 100 ms for each point
  the two can be level, and then the request of the tenant that was served last stands back
  (\<open>level_request_overtaken\<close>).
\<close>

theorem aging_prevents_starvation:
  assumes "w \<in> set (pr_waiters p)" and "x \<in> set (pr_waiters p)"
    and "wt_priority w \<le> wt_priority x"
    and "wt_enqueued w + 100 * nat (wt_priority x - wt_priority w + 1) \<le> wt_enqueued x"
    and "wt_enqueued x \<le> now"
  shows "\<not> selected now p x"
  using effective_aging [OF assms(4,5,3)] assms(1,2)
  by (auto simp: selected_foremost foremost_def list_all_iff not_le)

theorem aging_prevents_starvation_witness:
  "\<not> selected 500 (sample_provider\<lparr>pr_waiters := [sample_waiter 1 0 0, sample_waiter 2 3 400]\<rparr>) (sample_waiter 2 3 400)"
  by (rule aging_prevents_starvation [of "sample_waiter 1 0 0"]) (simp_all add: sample_waiter_def)

lemma level_request_overtaken:
  "selected 300 (sample_provider\<lparr>pr_last_key := ''tenant'',
      pr_waiters := [sample_waiter 1 0 0, (sample_waiter 2 3 300)\<lparr>wt_key := ''other''\<rparr>]\<rparr>)
    ((sample_waiter 2 3 300)\<lparr>wt_key := ''other''\<rparr>)"
  by (simp add: selected_def effective_def sample_waiter_def)

end
