(* ===== verification/Scheduler.thy ===== *)
theory Scheduler
  imports Dage_Prelude
begin

text \<open>
  The thread pool (\<open>scheduler.cpp\<close>). A task is named by a number. A worker thread carries the stack of
  the tasks it is running: the one it took from the queue and above it the tasks it runs inline, each
  with the flag whether the thread-local inline depth counts it. A submission that finds the queue full
  under the blocking policy waits; the waiting submissions of workers and of other threads are part of
  the state. The fields \<open>po_accepted\<close> and \<open>po_taken\<close> record the tasks put into and taken from the queue.

  The lemmas show that the queue is bounded and first-in first-out, that no accepted task is lost, that
  workers stop only after a shutdown has drained the queue, that the inline depth stays within its limit,
  and that under the blocking policy continuations submitted by the workers can block the pool for ever.
\<close>

section \<open>Model\<close>

datatype policy = Reject | Block | CallerRuns

record thread_pool_options =
  to_worker_count :: u64
  to_queue_capacity :: u64
  to_full_policy :: policy
  to_max_inline_depth :: u64

type_synonym frame = "nat \<times> bool"

datatype worker_thread = Idle | Running "frame list" | Stuck "frame list" nat | Exited

record pool =
  po_capacity :: u64
  po_policy :: policy
  po_max_inline_depth :: u64
  po_stopping :: bool
  po_queue :: "nat list"
  po_workers :: "worker_thread list"
  po_outside :: "nat list"
  po_accepted :: "nat list"
  po_taken :: "nat list"

text \<open>The constructor and \<open>start\<close>; \<open>hardware\<close> is the number the standard library reports.\<close>

definition worker_total :: "u64 \<Rightarrow> thread_pool_options \<Rightarrow> u64" where
  "worker_total hardware opt =
    (if to_worker_count opt = 0 then (if hardware = 0 then 1 else hardware) else to_worker_count opt)"

definition new_pool :: "u64 \<Rightarrow> thread_pool_options \<Rightarrow> pool" where
  "new_pool hardware opt =
    (let count = worker_total hardware opt in
     \<lparr>po_capacity = (if to_queue_capacity opt = 0 then count * 64 else to_queue_capacity opt),
      po_policy = to_full_policy opt, po_max_inline_depth = to_max_inline_depth opt, po_stopping = False,
      po_queue = [], po_workers = replicate (unat count) Idle, po_outside = [], po_accepted = [], po_taken = []\<rparr>)"

text \<open>
  What \<open>schedule\<close> does with a task: it throws, runs the task on the calling thread, counted by the
  inline depth or not, puts it into the queue, or waits for space.
\<close>

datatype outcome = Threw string | Runs bool | Queued | Waits

definition enqueue :: "nat \<Rightarrow> pool \<Rightarrow> pool" where
  "enqueue task p = p\<lparr>po_queue := po_queue p @ [task], po_accepted := po_accepted p @ [task]\<rparr>"

definition full :: "pool \<Rightarrow> bool" where
  "full p = (unat (po_capacity p) \<le> length (po_queue p))"

text \<open>
  The calling thread is described by its inline depth when it is a worker of this pool, else by None.
  An empty function is None.
\<close>

definition schedule_task :: "nat option \<Rightarrow> nat option \<Rightarrow> bool \<Rightarrow> pool \<Rightarrow> pool \<times> outcome" where
  "schedule_task caller task continuation p =
    (case task of None \<Rightarrow> (p, Threw ''scheduler task must not be empty'')
     | Some t \<Rightarrow>
       if caller \<noteq> None \<and> \<not> continuation then
         (if po_policy p = CallerRuns \<and> the caller < unat (po_max_inline_depth p) then (p, Runs True)
          else (p, Threw ''nested scheduling requires verified caller-runs metadata''))
       else if po_stopping p then (p, Threw ''scheduler is stopping'')
       else if full p then
         (case po_policy p of
            Block \<Rightarrow> (p, Waits)
          | CallerRuns \<Rightarrow> (p, Runs False)
          | Reject \<Rightarrow> (p, Threw ''scheduler queue is full''))
       else (enqueue t p, Queued))"

text \<open>The end of the wait for space.\<close>

definition resume_submit :: "nat \<Rightarrow> pool \<Rightarrow> (pool \<times> outcome) option" where
  "resume_submit task p =
    (if po_stopping p then Some (p, Threw ''scheduler is stopping'')
     else if full p then None
     else Some (enqueue task p, Queued))"

definition inline_depth :: "frame list \<Rightarrow> nat" where
  "inline_depth st = length (filter snd st)"

definition set_worker :: "nat \<Rightarrow> worker_thread \<Rightarrow> pool \<Rightarrow> pool" where
  "set_worker i w p = p\<lparr>po_workers := (po_workers p)[i := w]\<rparr>"

text \<open>A submission by a thread outside the pool and by the task that a worker is running.\<close>

definition submit_outside :: "nat \<Rightarrow> bool \<Rightarrow> pool \<Rightarrow> pool" where
  "submit_outside task continuation p =
    (case schedule_task None (Some task) continuation p of
       (p', Waits) \<Rightarrow> p'\<lparr>po_outside := po_outside p' @ [task]\<rparr>
     | (p', _) \<Rightarrow> p')"

definition submit_inside :: "nat \<Rightarrow> frame list \<Rightarrow> nat \<Rightarrow> bool \<Rightarrow> pool \<Rightarrow> pool" where
  "submit_inside i st task continuation p =
    (case schedule_task (Some (inline_depth st)) (Some task) continuation p of
       (p', Waits) \<Rightarrow> set_worker i (Stuck st task) p'
     | (p', Runs counted) \<Rightarrow> set_worker i (Running ((task, counted) # st)) p'
     | (p', _) \<Rightarrow> p')"

text \<open>One passage of \<open>worker_loop\<close>: None while the worker waits on an empty queue.\<close>

definition worker_turn :: "nat \<Rightarrow> pool \<Rightarrow> pool option" where
  "worker_turn i p =
    (if po_stopping p \<and> po_queue p = [] then Some (set_worker i Exited p)
     else case po_queue p of
       [] \<Rightarrow> None
     | task # rest \<Rightarrow>
         Some (set_worker i (Running [(task, False)]) (p\<lparr>po_queue := rest, po_taken := po_taken p @ [task]\<rparr>)))"

definition finish_task :: "nat \<Rightarrow> frame list \<Rightarrow> pool \<Rightarrow> pool" where
  "finish_task i st p = set_worker i (if tl st = [] then Idle else Running (tl st)) p"

definition shutdown :: "pool \<Rightarrow> pool" where
  "shutdown p = p\<lparr>po_stopping := True\<rparr>"

definition worker_at :: "pool \<Rightarrow> nat \<Rightarrow> worker_thread option" where
  "worker_at p i = (if i < length (po_workers p) then Some (po_workers p ! i) else None)"

inductive pool_step :: "pool \<Rightarrow> pool \<Rightarrow> bool" where
  outside: "pool_step p (submit_outside task continuation p)"
| outside_resumes: "po_outside p = xs @ task # ys \<Longrightarrow> resume_submit task p = Some (p', r) \<Longrightarrow>
    pool_step p (p'\<lparr>po_outside := xs @ ys\<rparr>)"
| inside: "worker_at p i = Some (Running st) \<Longrightarrow> pool_step p (submit_inside i st task continuation p)"
| inside_resumes: "worker_at p i = Some (Stuck st task) \<Longrightarrow> resume_submit task p = Some (p', r) \<Longrightarrow>
    pool_step p (set_worker i (Running st) p')"
| worker: "worker_at p i = Some Idle \<Longrightarrow> worker_turn i p = Some p' \<Longrightarrow> pool_step p p'"
| finish: "worker_at p i = Some (Running st) \<Longrightarrow> pool_step p (finish_task i st p)"
| stop: "pool_step p (shutdown p)"

inductive_cases pool_stepE: "pool_step p p'"

definition pool_init :: "pool \<Rightarrow> bool" where
  "pool_init p = (\<exists>hardware opt. p = new_pool hardware opt)"

section \<open>Invariant\<close>

definition stack_ok :: "u64 \<Rightarrow> frame list \<Rightarrow> bool" where
  "stack_ok limit st = (st \<noteq> [] \<and> inline_depth st \<le> unat limit)"

fun worker_ok :: "u64 \<Rightarrow> worker_thread \<Rightarrow> bool" where
  "worker_ok limit Idle = True"
| "worker_ok limit (Running st) = stack_ok limit st"
| "worker_ok limit (Stuck st task) = stack_ok limit st"
| "worker_ok limit Exited = True"

definition pool_inv :: "pool \<Rightarrow> bool" where
  "pool_inv p = (length (po_queue p) \<le> unat (po_capacity p) \<and> po_accepted p = po_taken p @ po_queue p \<and>
     list_all (worker_ok (po_max_inline_depth p)) (po_workers p) \<and>
     (Exited \<in> set (po_workers p) \<longrightarrow> po_stopping p \<and> po_queue p = []))"

lemma worker_at_SomeD: "worker_at p i = Some w \<Longrightarrow> i < length (po_workers p) \<and> w \<in> set (po_workers p)"
  by (auto simp: worker_at_def split: if_splits)

lemma worker_at_ok:
  "pool_inv p \<Longrightarrow> worker_at p i = Some w \<Longrightarrow> worker_ok (po_max_inline_depth p) w"
  by (auto simp: pool_inv_def list_all_iff dest: worker_at_SomeD)

lemma set_worker_inv:
  assumes "pool_inv p" and "worker_ok (po_max_inline_depth p) w"
    and "w = Exited \<Longrightarrow> po_stopping p \<and> po_queue p = []"
  shows "pool_inv (set_worker i w p)"
  using assms set_update_subset_insert [of "po_workers p" i w]
  by (fastforce simp: pool_inv_def set_worker_def list_all_iff)

lemma enqueue_inv: "pool_inv p \<Longrightarrow> \<not> full p \<Longrightarrow> \<not> po_stopping p \<Longrightarrow> pool_inv (enqueue task p)"
  by (auto simp: pool_inv_def enqueue_def full_def)

lemma enqueue_limit [simp]:
  "po_max_inline_depth (enqueue task p) = po_max_inline_depth p" "po_stopping (enqueue task p) = po_stopping p"
  by (simp_all add: enqueue_def)

lemma outside_inv [simp]: "pool_inv (p\<lparr>po_outside := xs\<rparr>) = pool_inv p"
  by (simp add: pool_inv_def)

lemma schedule_inv:
  assumes "pool_inv p" and "schedule_task caller task continuation p = (p', r)"
  shows "pool_inv p' \<and> po_max_inline_depth p' = po_max_inline_depth p"
  using assms
  by (auto simp: schedule_task_def enqueue_inv split: option.splits if_splits policy.splits)

lemma schedule_runs:
  "schedule_task caller task continuation p = (p', Runs True) \<Longrightarrow> \<exists>d. caller = Some d \<and> d < unat (po_max_inline_depth p)"
  by (auto simp: schedule_task_def split: option.splits if_splits policy.splits)

lemma submit_outside_inv: "pool_inv p \<Longrightarrow> pool_inv (submit_outside task continuation p)"
  using schedule_inv [of p None "Some task" continuation]
  by (auto simp: submit_outside_def split: prod.splits outcome.splits)

lemma submit_inside_inv:
  assumes "pool_inv p" and "worker_at p i = Some (Running st)"
  shows "pool_inv (submit_inside i st task continuation p)"
proof -
  obtain p' r where s: "schedule_task (Some (inline_depth st)) (Some task) continuation p = (p', r)" by fastforce
  note inv = schedule_inv [OF assms(1) s]
  have ok: "stack_ok (po_max_inline_depth p) st" using worker_at_ok [OF assms] by simp
  have "stack_ok (po_max_inline_depth p) ((task, counted) # st)" if "r = Runs counted" for counted
    using ok schedule_runs [of "Some (inline_depth st)" "Some task" continuation p p'] s that
    by (cases counted) (auto simp: stack_ok_def inline_depth_def)
  then show ?thesis
    using conjunct1 [OF inv] conjunct2 [OF inv] ok s
    by (cases r) (auto simp: submit_inside_def intro!: set_worker_inv)
qed

lemma resume_submit_inv: "pool_inv p \<Longrightarrow> resume_submit task p = Some (p', r) \<Longrightarrow>
    pool_inv p' \<and> po_max_inline_depth p' = po_max_inline_depth p"
  by (auto simp: resume_submit_def enqueue_inv split: if_splits)

lemma worker_turn_inv:
  assumes "pool_inv p" and "worker_turn i p = Some p'"
  shows "pool_inv p'"
proof (cases "po_queue p")
  case Nil
  then show ?thesis using assms by (auto simp: worker_turn_def intro: set_worker_inv split: if_splits)
next
  case (Cons task rest)
  then have "pool_inv (p\<lparr>po_queue := rest, po_taken := po_taken p @ [task]\<rparr>)"
    using assms(1) by (auto simp: pool_inv_def)
  then show ?thesis
    using assms(2) Cons by (auto simp: worker_turn_def stack_ok_def inline_depth_def intro!: set_worker_inv)
qed

lemma finish_task_inv:
  assumes "pool_inv p" and "worker_at p i = Some (Running st)"
  shows "pool_inv (finish_task i st p)"
proof -
  have "inline_depth (tl st) \<le> inline_depth st" by (cases st) (auto simp: inline_depth_def)
  then show ?thesis
    using assms worker_at_ok [OF assms] by (auto simp: finish_task_def stack_ok_def intro!: set_worker_inv)
qed

lemma pool_step_inv: "pool_inv p \<Longrightarrow> pool_step p p' \<Longrightarrow> pool_inv p'"
proof (erule pool_stepE)
  fix i st task p1 r
  assume "pool_inv p" and "p' = set_worker i (Running st) p1" and "worker_at p i = Some (Stuck st task)"
    and "resume_submit task p = Some (p1, r)"
  then show "pool_inv p'"
    using resume_submit_inv [of p task p1 r] worker_at_ok [of p i] by (auto intro!: set_worker_inv)
next
  assume "pool_inv p" and "p' = shutdown p"
  then show "pool_inv p'" by (auto simp: pool_inv_def shutdown_def)
qed (auto intro: submit_outside_inv submit_inside_inv worker_turn_inv finish_task_inv dest: resume_submit_inv)

lemma pool_init_inv: "pool_init p \<Longrightarrow> pool_inv p"
  by (auto simp: pool_init_def new_pool_def pool_inv_def Let_def list_all_iff)

interpretation pool_runs: machine pool_init pool_step pool_inv
  by unfold_locales (auto intro: pool_init_inv pool_step_inv)

section \<open>Shutdown\<close>

definition stopped_at :: "nat list \<Rightarrow> pool \<Rightarrow> bool" where
  "stopped_at accepted p = (po_stopping p \<and> po_accepted p = accepted)"

lemma stopped_schedule:
  "po_stopping p \<Longrightarrow> schedule_task caller task continuation p = (p', r) \<Longrightarrow> p' = p \<and> r \<noteq> Waits"
  by (auto simp: schedule_task_def split: option.splits if_splits policy.splits)

lemma stopped_step: "stopped_at xs p \<Longrightarrow> pool_step p p' \<Longrightarrow> stopped_at xs p'"
proof (erule pool_stepE)
  fix task continuation
  assume "stopped_at xs p" and "p' = submit_outside task continuation p"
  then show "stopped_at xs p'"
    using stopped_schedule [of p None "Some task" continuation]
    by (auto simp: stopped_at_def submit_outside_def split: prod.splits outcome.splits)
next
  fix i st task continuation
  assume "stopped_at xs p" and "p' = submit_inside i st task continuation p"
  then show "stopped_at xs p'"
    using stopped_schedule [of p "Some (inline_depth st)" "Some task" continuation]
    by (auto simp: stopped_at_def submit_inside_def set_worker_def split: prod.splits outcome.splits)
qed (auto simp: stopped_at_def resume_submit_def worker_turn_def set_worker_def finish_task_def shutdown_def
    split: if_splits list.splits)

interpretation pool_stop: machine "stopped_at xs" pool_step "stopped_at xs" for xs
  by unfold_locales (auto intro: stopped_step)

section \<open>Blocked continuations\<close>

definition jammed :: "pool \<Rightarrow> bool" where
  "jammed p = (po_policy p = Block \<and> full p \<and> \<not> po_stopping p \<and>
     list_all (\<lambda>w. case w of Stuck st task \<Rightarrow> True | _ \<Rightarrow> False) (po_workers p))"

definition live_step :: "pool \<Rightarrow> pool \<Rightarrow> bool" where
  "live_step p p' = (pool_step p p' \<and> \<not> po_stopping p')"

definition jammed_like :: "pool \<Rightarrow> pool \<Rightarrow> bool" where
  "jammed_like p0 p = (jammed p \<and> po_taken p = po_taken p0 \<and> po_workers p = po_workers p0)"

lemma jammed_step: "jammed_like p0 p \<Longrightarrow> live_step p p' \<Longrightarrow> jammed_like p0 p'"
  unfolding live_step_def
proof (elim conjE pool_stepE)
  fix task continuation
  assume "jammed_like p0 p" and "p' = submit_outside task continuation p"
  then show "jammed_like p0 p'"
    by (auto simp: jammed_like_def jammed_def submit_outside_def schedule_task_def full_def)
qed (auto simp: jammed_like_def jammed_def resume_submit_def list_all_iff shutdown_def dest!: worker_at_SomeD)

interpretation pool_jam: machine "jammed_like p0" live_step "jammed_like p0" for p0
  by unfold_locales (auto intro: jammed_step)

section \<open>Sample\<close>

definition sample_options :: thread_pool_options where
  "sample_options = \<lparr>to_worker_count = 1, to_queue_capacity = 1, to_full_policy = Block, to_max_inline_depth = 1\<rparr>"

text \<open>One worker takes task 0 and submits two continuations while the queue holds one task.\<close>

definition sample_busy :: pool where
  "sample_busy = the (worker_turn 0 (submit_outside 0 False (new_pool 0 sample_options)))"

definition sample_jam :: pool where
  "sample_jam = submit_inside 0 [(0, False)] 2 True (submit_inside 0 [(0, False)] 1 True sample_busy)"

lemmas sample_pool_defs = sample_options_def sample_busy_def sample_jam_def new_pool_def worker_total_def
  submit_outside_def submit_inside_def schedule_task_def enqueue_def full_def worker_turn_def set_worker_def
  worker_at_def inline_depth_def Let_def

lemma sample_busy_reachable: "reachable pool_init pool_step sample_busy"
proof -
  let ?p = "submit_outside 0 False (new_pool 0 sample_options)"
  have "reachable pool_init pool_step (new_pool 0 sample_options)"
    by (rule reachable.start) (auto simp: pool_init_def)
  then have "reachable pool_init pool_step ?p" by (rule reachable.advance) (rule pool_step.outside)
  moreover have "pool_step ?p sample_busy"
    by (rule pool_step.worker [of _ 0]) (simp_all add: sample_pool_defs)
  ultimately show ?thesis by (rule reachable.advance)
qed

lemma sample_jam_reachable: "reachable pool_init pool_step sample_jam"
proof -
  let ?p = "submit_inside 0 [(0, False)] 1 True sample_busy"
  have "pool_step sample_busy ?p" by (rule pool_step.inside) (simp add: sample_pool_defs)
  moreover have "pool_step ?p sample_jam"
    unfolding sample_jam_def by (rule pool_step.inside) (simp add: sample_pool_defs)
  ultimately show ?thesis by (blast intro: reachable.advance sample_busy_reachable)
qed

section \<open>Properties\<close>

text \<open>
  C13. The queue is bounded and first-in first-out: in every reachable state it holds at most the
  configured number of tasks, and the tasks taken so far followed by the queued ones are exactly the
  accepted tasks in their order, so no accepted task is lost, duplicated or overtaken.
\<close>

theorem pool_queue_fifo:
  assumes "reachable pool_init pool_step p"
  shows "length (po_queue p) \<le> unat (po_capacity p) \<and> po_accepted p = po_taken p @ po_queue p"
  using pool_runs.reachable_inv [OF assms] by (simp add: pool_inv_def)

theorem pool_queue_fifo_witness:
  "po_accepted sample_jam = [0, 1] \<and> po_queue sample_jam = [1] \<and>
   length (po_queue sample_jam) \<le> unat (po_capacity sample_jam) \<and> po_accepted sample_jam = po_taken sample_jam @ [1]"
  using pool_queue_fifo [OF sample_jam_reachable] by (simp add: sample_pool_defs)

text \<open>
  Shutdown drains the queue: once a worker has left its loop, every task that was ever accepted has
  been taken, and no later step accepts another one.
\<close>

theorem shutdown_drains:
  assumes "reachable pool_init pool_step p" and "Exited \<in> set (po_workers p)" and "pool_step\<^sup>*\<^sup>* p p'"
  shows "po_taken p = po_accepted p \<and> po_accepted p' = po_accepted p \<and> po_stopping p'"
proof -
  have "po_stopping p \<and> po_queue p = [] \<and> po_accepted p = po_taken p"
    using pool_runs.reachable_inv [OF assms(1)] assms(2) by (simp add: pool_inv_def)
  then show ?thesis
    using pool_stop.steps_inv [OF assms(3), of "po_accepted p"] by (simp add: stopped_at_def)
qed

theorem shutdown_drains_witness:
  "let p = the (worker_turn 0 (shutdown (finish_task 0 [(0, False)] sample_busy)))
   in Exited \<in> set (po_workers p) \<and> po_taken p = [0] \<and> po_accepted p = [0] \<and>
      po_accepted (submit_outside 7 False p) = [0]"
proof -
  let ?p1 = "finish_task 0 [(0, False)] sample_busy"
  let ?p = "the (worker_turn 0 (shutdown ?p1))"
  have "pool_step sample_busy ?p1" by (rule pool_step.finish) (simp add: sample_pool_defs)
  moreover have "pool_step ?p1 (shutdown ?p1)" by (rule pool_step.stop)
  moreover have "pool_step (shutdown ?p1) ?p"
    by (rule pool_step.worker [of _ 0]) (simp_all add: sample_pool_defs finish_task_def shutdown_def)
  ultimately have "reachable pool_init pool_step ?p" by (blast intro: reachable.advance sample_busy_reachable)
  moreover have "Exited \<in> set (po_workers ?p)" "po_taken ?p = [0]"
    by (simp_all add: sample_pool_defs finish_task_def shutdown_def)
  moreover have "pool_step\<^sup>*\<^sup>* ?p (submit_outside 7 False ?p)" by (blast intro: pool_step.outside)
  ultimately show ?thesis using shutdown_drains [of ?p "submit_outside 7 False ?p"] by (simp add: Let_def)
qed

text \<open>
  Inline execution is bounded: in every reachable state a worker counts at most \<open>max_inline_depth\<close>
  tasks that it runs inline on top of the task it took from the queue.
\<close>

theorem inline_depth_bounded:
  assumes "reachable pool_init pool_step p" and "Running st \<in> set (po_workers p)"
  shows "inline_depth st \<le> unat (po_max_inline_depth p)"
  using pool_runs.reachable_inv [OF assms(1)] assms(2) by (auto simp: pool_inv_def list_all_iff stack_ok_def)

theorem inline_depth_bounded_witness:
  "inline_depth [(0, False)] \<le> unat (po_max_inline_depth sample_busy)"
  by (rule inline_depth_bounded [OF sample_busy_reachable]) (simp add: sample_pool_defs)

text \<open>
  C14. Continuations can deadlock the blocking pool: when the queue is full and every worker waits in
  the submission of a continuation, no sequence of steps short of a shutdown lets a worker go on or
  takes a task from the queue.
\<close>

theorem blocked_continuations_deadlock:
  assumes "jammed p" and "live_step\<^sup>*\<^sup>* p p'"
  shows "po_workers p' = po_workers p \<and> po_taken p' = po_taken p"
  using pool_jam.steps_inv [OF assms(2), of p] assms(1) by (simp add: jammed_like_def)

theorem blocked_continuations_deadlock_witness:
  "reachable pool_init pool_step sample_jam \<and> po_workers sample_jam = [Stuck [(0, False)] 2] \<and>
   {p. live_step\<^sup>*\<^sup>* sample_jam p} \<subseteq> {p. po_workers p = po_workers sample_jam \<and> po_taken p = po_taken sample_jam}"
proof -
  have jam: "jammed sample_jam" and w: "po_workers sample_jam = [Stuck [(0, False)] 2]"
    by (simp_all add: jammed_def sample_pool_defs)
  have "{p. live_step\<^sup>*\<^sup>* sample_jam p} \<subseteq> {p. po_workers p = po_workers sample_jam \<and> po_taken p = po_taken sample_jam}"
    using blocked_continuations_deadlock [OF jam] by blast
  then show ?thesis by (intro conjI sample_jam_reachable w)
qed

end
