(* ===== verification/Trace.thy ===== *)
theory Trace
  imports Json_Value Sha256 "HOL-Library.Sublist"
begin

text \<open>
  Trace events and the sinks they pass through (\<open>trace.hpp\<close>, \<open>trace.cpp\<close>, \<open>opentelemetry.cpp\<close>): the
  deterministic sampling bucket, the in-memory sink, the bounded asynchronous queue as the steps of its
  emitters and its worker, the sampling and the redacting filters, and the bridge that turns node events
  into spans.

  The lemmas show that the asynchronous queue stays within its capacity, exports events in the order in
  which it accepted them and accounts for every one of them, that redaction leaves no listed field in any
  part of a payload, and that the bridge exports one span per finished node.
\<close>

section \<open>Events and sampling\<close>

datatype TraceCapture = Off | Metadata | Inputs | Full

record EventEnvelope =
  ev_schema_version :: u32
  ev_sequence :: u64
  ev_timestamp_unix_ms :: u64
  ev_elapsed_ms :: u64
  ev_attempt :: u32
  ev_event :: string
  ev_run_id :: string
  ev_invocation_id :: string
  ev_workflow_digest :: string
  ev_bundle_digest :: string
  ev_node_id :: string
  ev_node_type :: string
  ev_executor :: string
  ev_category :: string
  ev_code :: string
  ev_payload_json :: string
  ev_trace_id :: string
  ev_span_id :: string
  ev_parent_span_id :: string
  ev_causation_id :: string

definition char_code :: "char \<Rightarrow> int" where
  "char_code c = of_char c"

definition hex_value :: "char \<Rightarrow> u32" where
  "hex_value c = word_of_int
    (if char_code (CHR ''0'') \<le> char_code c \<and> char_code c \<le> char_code (CHR ''9'')
       then char_code c - char_code (CHR ''0'')
     else 10 + (if char_code (CHR ''a'') \<le> char_code c \<and> char_code c \<le> char_code (CHR ''f'')
                then char_code c - char_code (CHR ''a'') else char_code c - char_code (CHR ''A'')))"

definition trace_sample_bucket :: "string \<Rightarrow> u32" where
  "trace_sample_bucket trace_id =
    (let digest = sha256_digest trace_id;
         offset = (case find_str '':'' digest of None \<Rightarrow> 0 | Some p \<Rightarrow> p + 1)
     in fold (\<lambda>c value. or (push_bit 4 value) (hex_value c)) (take 8 (drop offset digest)) 0 mod 10000)"

text \<open>The in-memory sink.\<close>

definition memory_emit :: "EventEnvelope \<Rightarrow> EventEnvelope list \<Rightarrow> EventEnvelope list" where
  "memory_emit event events = events @ [event]"

section \<open>The asynchronous sink\<close>

datatype TraceQueueFullPolicy = DropNewest | DropOldest | Block_emitter

record trace_queue =
  tq_capacity :: nat
  tq_policy :: TraceQueueFullPolicy
  tq_stopping :: bool
  tq_active :: "EventEnvelope option"
  tq_queue :: "EventEnvelope list"
  tq_accepted :: u64
  tq_dropped :: u64
  tq_exported :: u64
  tq_waiting :: "EventEnvelope list"
  tq_downstream :: "EventEnvelope list"
  tq_history :: "EventEnvelope list"
  tq_lost :: nat

definition new_trace_queue :: "bool \<Rightarrow> nat \<Rightarrow> TraceQueueFullPolicy \<Rightarrow> string + trace_queue" where
  "new_trace_queue downstream capacity full_policy =
    (if \<not> downstream \<or> capacity = 0 then Inl ''invalid async trace options''
     else Inr \<lparr>tq_capacity = capacity, tq_policy = full_policy, tq_stopping = False, tq_active = None,
       tq_queue = [], tq_accepted = 0, tq_dropped = 0, tq_exported = 0, tq_waiting = [],
       tq_downstream = [], tq_history = [], tq_lost = 0\<rparr>)"

text \<open>
  \<open>tq_history\<close> lists the accepted events, \<open>tq_downstream\<close> those passed on, \<open>tq_lost\<close> counts the events
  that were turned away.
\<close>

definition push_event :: "EventEnvelope \<Rightarrow> trace_queue \<Rightarrow> trace_queue" where
  "push_event event q = q\<lparr>tq_queue := tq_queue q @ [event], tq_accepted := tq_accepted q + 1,
     tq_history := tq_history q @ [event]\<rparr>"

definition async_emit :: "EventEnvelope \<Rightarrow> trace_queue \<Rightarrow> trace_queue" where
  "async_emit event q =
    (if tq_stopping q then q
     else if tq_capacity q \<le> length (tq_queue q) then
       (case tq_policy q of
          DropNewest \<Rightarrow> q\<lparr>tq_dropped := tq_dropped q + 1, tq_lost := tq_lost q + 1\<rparr>
        | DropOldest \<Rightarrow> push_event event (q\<lparr>tq_queue := tl (tq_queue q), tq_dropped := tq_dropped q + 1\<rparr>)
        | Block_emitter \<Rightarrow> q\<lparr>tq_waiting := tq_waiting q @ [event]\<rparr>)
     else push_event event q)"

text \<open>The end of the wait of a blocked emitter: the wait predicate holds.\<close>

definition async_resume :: "EventEnvelope \<Rightarrow> trace_queue \<Rightarrow> trace_queue option" where
  "async_resume event q =
    (if tq_stopping q then Some q
     else if length (tq_queue q) < tq_capacity q then Some (push_event event q) else None)"

text \<open>The worker takes the next event and, after passing it on, counts it.\<close>

definition worker_take :: "trace_queue \<Rightarrow> trace_queue option" where
  "worker_take q = (case tq_queue q of
     [] \<Rightarrow> None
   | event # rest \<Rightarrow> Some (q\<lparr>tq_queue := rest, tq_active := Some event\<rparr>))"

definition worker_done :: "trace_queue \<Rightarrow> trace_queue" where
  "worker_done q = (case tq_active q of
     None \<Rightarrow> q
   | Some event \<Rightarrow> q\<lparr>tq_active := None, tq_exported := tq_exported q + 1,
       tq_downstream := memory_emit event (tq_downstream q)\<rparr>)"

definition async_stop :: "trace_queue \<Rightarrow> trace_queue" where
  "async_stop q = q\<lparr>tq_stopping := True\<rparr>"

text \<open>The condition under which \<open>flush\<close> returns.\<close>

definition flushed :: "trace_queue \<Rightarrow> bool" where
  "flushed q = (tq_queue q = [] \<and> tq_active q = None)"

inductive trace_step :: "trace_queue \<Rightarrow> trace_queue \<Rightarrow> bool" where
  emit: "trace_step q (async_emit event q)"
| resume: "tq_waiting q = xs @ event # ys \<Longrightarrow> async_resume event q = Some q' \<Longrightarrow>
    trace_step q (q'\<lparr>tq_waiting := xs @ ys\<rparr>)"
| take: "tq_active q = None \<Longrightarrow> worker_take q = Some q' \<Longrightarrow> trace_step q q'"
| export: "trace_step q (worker_done q)"
| stop: "trace_step q (async_stop q)"

inductive_cases trace_stepE: "trace_step q q'"

definition trace_init :: "trace_queue \<Rightarrow> bool" where
  "trace_init q = (\<exists>d c p. new_trace_queue d c p = Inr q)"

section \<open>Filters\<close>

definition sample_keeps :: "u32 \<Rightarrow> bool \<Rightarrow> EventEnvelope \<Rightarrow> bool" where
  "sample_keeps rate_basis_points always_sample_errors event =
    (let error = ev_code event \<noteq> [];
         key = (if ev_trace_id event = [] then ev_run_id event else ev_trace_id event)
     in trace_sample_bucket key < rate_basis_points \<or> (error \<and> always_sample_errors))"

fun redact :: "string list \<Rightarrow> string \<Rightarrow> json \<Rightarrow> json" where
  "redact names replacement (JObj m) =
    JObj (map (\<lambda>e. (fst e, if fst e \<in> set names then JStr replacement else redact names replacement (snd e))) m)"
| "redact names replacement (JArr xs) = JArr (map (redact names replacement) xs)"
| "redact names replacement j = j"

definition redacted :: "jsonlib \<Rightarrow> string list \<Rightarrow> string \<Rightarrow> EventEnvelope \<Rightarrow> EventEnvelope" where
  "redacted L names replacement event =
    (if ev_payload_json event = [] then event
     else case jl_parse L None (ev_payload_json event) of
       Inl _ \<Rightarrow> event
     | Inr j \<Rightarrow> event\<lparr>ev_payload_json := jl_write L Compact_ascii (redact names replacement j)\<rparr>)"

section \<open>Spans\<close>

record span =
  sp_trace_id :: string
  sp_span_id :: string
  sp_parent_span_id :: string
  sp_name :: string
  sp_start_unix_ms :: u64
  sp_end_unix_ms :: u64
  sp_status_code :: string
  sp_attributes :: "(string, string) smap"

definition empty_span :: span where
  "empty_span = \<lparr>sp_trace_id = [], sp_span_id = [], sp_parent_span_id = [], sp_name = [], sp_start_unix_ms = 0,
     sp_end_unix_ms = 0, sp_status_code = [], sp_attributes = []\<rparr>"

definition span_head :: "EventEnvelope \<Rightarrow> span" where
  "span_head event = empty_span\<lparr>sp_trace_id := ev_trace_id event, sp_span_id := ev_span_id event,
     sp_parent_span_id := ev_parent_span_id event, sp_name := ''dage.node.'' @ ev_node_id event,
     sp_start_unix_ms := ev_timestamp_unix_ms event\<rparr>"

definition start_span :: "EventEnvelope \<Rightarrow> span" where
  "start_span event = (span_head event)\<lparr>sp_attributes :=
     fold (\<lambda>(k, v). sm_put k v)
       [(''dage.run_id'', ev_run_id event), (''dage.workflow_digest'', ev_workflow_digest event),
        (''dage.node.type'', ev_node_type event), (''dage.causation_id'', ev_causation_id event),
        (''dage.invocation_id'', ev_invocation_id event)] []\<rparr>"

definition end_span :: "EventEnvelope \<Rightarrow> span \<Rightarrow> span" where
  "end_span event sp = sp\<lparr>sp_end_unix_ms := ev_timestamp_unix_ms event,
     sp_status_code := (if ev_event event = ''node_succeeded'' then ''OK''
       else if ev_event event = ''run_suspended'' then ''UNSET'' else ''ERROR''),
     sp_attributes :=
       (let a = (if ev_category event = [] then sp_attributes sp
                 else sm_put ''error.type'' (ev_category event) (sp_attributes sp))
        in if ev_code event = [] then a else sm_put ''error.code'' (ev_code event) a)\<rparr>"

definition finishes_span :: "string \<Rightarrow> bool" where
  "finishes_span name = (name \<in> {''node_succeeded'', ''node_failed'', ''node_blocked'', ''run_suspended''})"

definition bridge_emit ::
  "EventEnvelope \<Rightarrow> (string, span) smap \<times> span list \<Rightarrow> (string, span) smap \<times> span list" where
  "bridge_emit event st = (case st of (active, exported) \<Rightarrow>
     if ev_event event = ''node_started'' then (sm_put (ev_span_id event) (start_span event) active, exported)
     else if finishes_span (ev_event event) then
       (case sm_get active (ev_span_id event) of
          Some sp \<Rightarrow> (sm_del (ev_span_id event) active, exported @ [end_span event sp])
        | None \<Rightarrow> (active, exported @ [end_span event (span_head event)]))
     else st)"

section \<open>The queue loses nothing silently\<close>

definition in_flight :: "trace_queue \<Rightarrow> EventEnvelope list" where
  "in_flight q = (case tq_active q of None \<Rightarrow> [] | Some e \<Rightarrow> [e])"

definition kept_events :: "trace_queue \<Rightarrow> EventEnvelope list" where
  "kept_events q = tq_downstream q @ in_flight q @ tq_queue q"

definition trace_inv :: "trace_queue \<Rightarrow> bool" where
  "trace_inv q = (0 < tq_capacity q \<and> length (tq_queue q) \<le> tq_capacity q \<and>
     tq_accepted q = of_nat (length (tq_history q)) \<and> tq_exported q = of_nat (length (tq_downstream q)) \<and>
     subseq (kept_events q) (tq_history q) \<and>
     tq_dropped q = of_nat (length (tq_history q) - length (kept_events q) + tq_lost q) \<and>
     (tq_policy q \<noteq> DropOldest \<longrightarrow> kept_events q = tq_history q))"

lemma kept_push [simp]:
  "kept_events (push_event e q) = kept_events q @ [e]" "tq_history (push_event e q) = tq_history q @ [e]"
  "tq_capacity (push_event e q) = tq_capacity q" "tq_policy (push_event e q) = tq_policy q"
  "tq_queue (push_event e q) = tq_queue q @ [e]" "tq_accepted (push_event e q) = tq_accepted q + 1"
  "tq_exported (push_event e q) = tq_exported q" "tq_downstream (push_event e q) = tq_downstream q"
  "tq_dropped (push_event e q) = tq_dropped q" "tq_lost (push_event e q) = tq_lost q"
  by (simp_all add: push_event_def kept_events_def in_flight_def)

lemma push_event_inv: "trace_inv q \<Longrightarrow> length (tq_queue q) < tq_capacity q \<Longrightarrow> trace_inv (push_event e q)"
  by (auto simp: trace_inv_def)

lemma drop_oldest_inv:
  assumes "trace_inv q" and "tq_capacity q \<le> length (tq_queue q)" and "tq_policy q = DropOldest"
  shows "trace_inv (push_event e (q\<lparr>tq_queue := tl (tq_queue q), tq_dropped := tq_dropped q + 1\<rparr>))"
proof -
  obtain x rest where q: "tq_queue q = x # rest" using assms by (cases "tq_queue q") (auto simp: trace_inv_def)
  let ?q = "q\<lparr>tq_queue := tl (tq_queue q), tq_dropped := tq_dropped q + 1\<rparr>"
  have k: "kept_events q = (tq_downstream q @ in_flight q) @ x # rest"
    and k': "kept_events ?q = (tq_downstream q @ in_flight q) @ rest"
    by (simp_all add: kept_events_def in_flight_def q)
  have "subseq (kept_events ?q) (kept_events q)" unfolding k k' by (intro list_emb_append_mono) auto
  then have sub: "subseq (kept_events ?q) (tq_history q)"
    using assms(1) subseq_order.trans by (auto simp: trace_inv_def)
  have len: "length (kept_events q) = Suc (length (kept_events ?q))" by (simp add: k k')
  then have "length (tq_history q) - length (kept_events ?q) = Suc (length (tq_history q) - length (kept_events q))"
    using assms(1) list_emb_length [of "(=)" "kept_events q" "tq_history q"] by (simp add: trace_inv_def)
  then show ?thesis using assms sub q by (auto simp: trace_inv_def)
qed

lemma async_emit_inv:
  assumes "trace_inv q"
  shows "trace_inv (async_emit e q)"
proof (cases "\<not> tq_stopping q \<and> tq_capacity q \<le> length (tq_queue q) \<and> tq_policy q = DropOldest")
  case True
  then show ?thesis using drop_oldest_inv [OF assms, of e] by (simp add: async_emit_def)
next
  case False
  then show ?thesis
    using assms push_event_inv [OF assms, of e]
    by (auto simp: async_emit_def trace_inv_def kept_events_def in_flight_def split: TraceQueueFullPolicy.splits)
qed

lemma trace_step_inv: "trace_inv q \<Longrightarrow> trace_step q q' \<Longrightarrow> trace_inv q'"
proof (erule trace_stepE)
  fix xs e ys q1
  assume a: "trace_inv q" "q' = q1\<lparr>tq_waiting := xs @ ys\<rparr>" "async_resume e q = Some q1"
  then have "trace_inv q1" by (auto simp: async_resume_def push_event_inv split: if_splits)
  then show "trace_inv q'" using a(2) by (simp add: trace_inv_def kept_events_def in_flight_def)
next
  assume "trace_inv q" "q' = worker_done q"
  then show "trace_inv q'"
    by (auto simp: trace_inv_def worker_done_def kept_events_def in_flight_def memory_emit_def split: option.splits)
next
  fix e
  assume "trace_inv q" "q' = async_emit e q"
  then show "trace_inv q'" by (simp add: async_emit_inv)
qed (auto simp: async_stop_def worker_take_def trace_inv_def kept_events_def in_flight_def split: list.splits)

lemma trace_init_inv: "trace_init q \<Longrightarrow> trace_inv q"
  by (auto simp: trace_init_def new_trace_queue_def trace_inv_def kept_events_def in_flight_def split: if_splits)

interpretation trace_runs: machine trace_init trace_step trace_inv
  by unfold_locales (auto intro: trace_init_inv trace_step_inv)

lemma emit_reachable: "reachable trace_init trace_step q \<Longrightarrow> reachable trace_init trace_step (async_emit e q)"
  by (erule reachable.advance) (rule trace_step.emit)

section \<open>Redaction\<close>

text \<open>Every listed field of a value, at any depth, holds the replacement.\<close>

fun hides :: "string list \<Rightarrow> string \<Rightarrow> json \<Rightarrow> bool" where
  "hides names r (JObj m) = (\<forall>e \<in> set m. if fst e \<in> set names then snd e = JStr r else hides names r (snd e))"
| "hides names r (JArr xs) = (\<forall>x \<in> set xs. hides names r x)"
| "hides names r j = True"

lemma redact_hides: "hides names r (redact names r j)"
  by (induction names r j rule: redact.induct) auto

lemma redact_same: "hides names r j \<Longrightarrow> redact names r j = j"
  by (induction names r j rule: redact.induct) (fastforce intro!: map_idI simp: prod_eq_iff)+

section \<open>Spans\<close>

lemma bridge_keeps_ok: "sm_ok (fst st) \<Longrightarrow> sm_ok (fst (bridge_emit e st))"
  by (auto simp: bridge_emit_def sm_simps split: prod.splits option.splits)

definition untouched :: "string \<Rightarrow> EventEnvelope \<Rightarrow> bool" where
  "untouched k e = (ev_span_id e = k \<longrightarrow> ev_event e \<noteq> ''node_started'' \<and> \<not> finishes_span (ev_event e))"

lemma bridge_other: "untouched k e \<Longrightarrow> sm_ok (fst st) \<Longrightarrow> sm_get (fst (bridge_emit e st)) k = sm_get (fst st) k"
  by (auto simp: bridge_emit_def untouched_def sm_simps split: prod.splits option.splits)

lemma bridge_others:
  assumes "\<forall>e \<in> set es. untouched k e" and "sm_ok (fst st)"
  shows "sm_get (fst (fold bridge_emit es st)) k = sm_get (fst st) k \<and> sm_ok (fst (fold bridge_emit es st))"
  using assms
proof (induction es arbitrary: st)
  case (Cons e es)
  then have "sm_ok (fst (bridge_emit e st))" "sm_get (fst (bridge_emit e st)) k = sm_get (fst st) k"
    using bridge_keeps_ok bridge_other by auto
  then show ?case using Cons by simp
qed simp

section \<open>Sample\<close>

definition sample_event :: "string \<Rightarrow> string \<Rightarrow> EventEnvelope" where
  "sample_event name sid = \<lparr>ev_schema_version = 1, ev_sequence = 0, ev_timestamp_unix_ms = 7, ev_elapsed_ms = 0,
     ev_attempt = 0, ev_event = name, ev_run_id = ''run-1'', ev_invocation_id = ''root'', ev_workflow_digest = [],
     ev_bundle_digest = [], ev_node_id = ''a'', ev_node_type = ''tool'', ev_executor = [], ev_category = [],
     ev_code = [], ev_payload_json = [], ev_trace_id = [], ev_span_id = sid, ev_parent_span_id = [],
     ev_causation_id = []\<rparr>"

section \<open>Properties\<close>

text \<open>
  C15. The asynchronous sink accounts for every event: in every reachable state the queue is within its
  capacity, the events passed on, in export and queued are a subsequence of the accepted ones in their
  order, all of them unless the policy evicts the oldest, and the counters are the numbers of accepted,
  exported and dropped events.
\<close>

theorem trace_queue_accounts:
  assumes "reachable trace_init trace_step q"
  shows "length (tq_queue q) \<le> tq_capacity q \<and> subseq (kept_events q) (tq_history q) \<and>
    (tq_policy q \<noteq> DropOldest \<longrightarrow> kept_events q = tq_history q) \<and>
    tq_accepted q = of_nat (length (tq_history q)) \<and> tq_exported q = of_nat (length (tq_downstream q)) \<and>
    tq_dropped q = of_nat (length (tq_history q) - length (kept_events q) + tq_lost q)"
  using trace_runs.reachable_inv [OF assms] by (simp add: trace_inv_def)

definition sample_queue :: trace_queue where
  "sample_queue = async_emit (sample_event ''b'' []) (async_emit (sample_event ''a'' [])
     \<lparr>tq_capacity = 1, tq_policy = DropOldest, tq_stopping = False, tq_active = None,
       tq_queue = [], tq_accepted = 0, tq_dropped = 0, tq_exported = 0, tq_waiting = [],
       tq_downstream = [], tq_history = [], tq_lost = 0\<rparr>)"

theorem trace_queue_accounts_witness:
  "tq_queue sample_queue = [sample_event ''b'' []] \<and> tq_dropped sample_queue = 1 \<and>
   tq_accepted sample_queue = of_nat (length (tq_history sample_queue))"
proof -
  have "reachable trace_init trace_step sample_queue"
    unfolding sample_queue_def
    by (intro emit_reachable reachable.start) (auto simp: trace_init_def new_trace_queue_def)
  then show ?thesis
    using trace_queue_accounts [of sample_queue]
    by (simp add: sample_queue_def async_emit_def push_event_def)
qed

text \<open>
  C16. Redaction is complete and idempotent: after redaction every listed field of the payload, at any
  depth inside objects and arrays, holds the replacement text, and redacting again changes nothing.
\<close>

theorem redaction_complete:
  "hides names r (redact names r j) \<and> redact names r (redact names r j) = redact names r j"
  using redact_same [OF redact_hides] redact_hides by simp

text \<open>
  A node gives one span: a start event followed by events that neither start nor finish the same
  span and by its finishing event exports exactly one further span, with the data of the start event
  and the end time and status of the finishing event, and the span is no longer open.
\<close>

theorem span_exported_once:
  assumes "sm_ok (fst st)" and "ev_event s = ''node_started''" and "finishes_span (ev_event f)"
    and "ev_span_id f = ev_span_id s" and "\<forall>e \<in> set es. untouched (ev_span_id s) e"
  shows "let before = fold bridge_emit es (bridge_emit s st); after = bridge_emit f before
    in snd after = snd before @ [end_span f (start_span s)] \<and> sm_get (fst after) (ev_span_id s) = None"
proof -
  let ?b = "fold bridge_emit es (bridge_emit s st)"
  have s: "sm_ok (fst (bridge_emit s st))" "sm_get (fst (bridge_emit s st)) (ev_span_id s) = Some (start_span s)"
    using assms(1,2) bridge_keeps_ok [of st s] by (auto simp: bridge_emit_def sm_simps split: prod.splits)
  then have "sm_get (fst ?b) (ev_span_id s) = Some (start_span s)" "sm_ok (fst ?b)"
    using bridge_others [OF assms(5) s(1)] by simp_all
  moreover have "ev_event f \<noteq> ''node_started''" using assms(3) by (auto simp: finishes_span_def)
  ultimately show ?thesis
    using assms(3,4) by (auto simp: bridge_emit_def Let_def sm_simps split: prod.splits)
qed

theorem span_exported_once_witness:
  "finishes_span ''node_succeeded'' \<and>
   (let s = sample_event ''node_started'' ''x''; f = sample_event ''node_succeeded'' ''x''
    in snd (bridge_emit f (bridge_emit s ([], []))) = [end_span f (start_span s)])"
  using span_exported_once [of "([], [])" "sample_event ''node_started'' ''x''" "sample_event ''node_succeeded'' ''x''" "[]"]
  by (simp add: sample_event_def finishes_span_def Let_def bridge_emit_def)

end
