(* ===== verification/Run_State.thy ===== *)
theory Run_State
  imports Expr_Eval Workflow_Validate Trace Resource_Lease
begin

text \<open>
  The state of a run and the vocabulary in which the engine is written (\<open>dage.cpp\<close>: results, run
  options, \<open>Run::Impl\<close>, \<open>emit\<close>, \<open>checkpoint\<close>, the wrappers around the host interfaces).

  Code of the host is the environment \<open>env\<close>: the JSON library, the registered executors and what they
  answer, the scheduler's effect on child runs, the clock, the fault injector, the lease provider and the
  state store. A host function may depend on time, so it receives the number of environment queries made
  so far. The store is a state of its own type with the operations of its interface. What the run does to
  the outside is recorded in the world: the emitted events, the store, and the log of executor calls and
  of saved checkpoints.

  A fragment of \<open>execute_step\<close> is an action on run and world; it ends with a value, with the return of a
  result, with an exception, or with the termination of the process.
\<close>

section \<open>Results and options\<close>

record exec_error =
  ee_category :: string
  ee_code :: string
  ee_message :: string
  ee_node_id :: string
  ee_attempt :: u32
  ee_retryable :: bool

record exec_result =
  er_success :: bool
  er_output :: json
  er_error :: exec_error

definition no_error :: exec_error where
  "no_error = \<lparr>ee_category = [], ee_code = [], ee_message = [], ee_node_id = [], ee_attempt = 0, ee_retryable = False\<rparr>"

definition ok_result :: "json \<Rightarrow> exec_result" where
  "ok_result output = \<lparr>er_success = True, er_output = output, er_error = no_error\<rparr>"

definition fail_with :: "string \<Rightarrow> string \<Rightarrow> string \<Rightarrow> bool \<Rightarrow> exec_result" where
  "fail_with category code message retryable = \<lparr>er_success = False, er_output = JNull,
     er_error = no_error\<lparr>ee_category := category, ee_code := code, ee_message := message, ee_retryable := retryable\<rparr>\<rparr>"

abbreviation fail_result :: "string \<Rightarrow> string \<Rightarrow> string \<Rightarrow> exec_result" where
  "fail_result category code message \<equiv> fail_with category code message False"

datatype RunMode = Normal | Replay | Shadow

datatype NodeStatus = Pending | Running | Succeeded | Failed | Suspended | Skipped | Blocked

datatype ChildRecordRetention = DeleteOnParentCommit | Keep

record run_options =
  ro_mode :: RunMode
  ro_allow_external_writes :: bool
  ro_allow_irreversible :: bool
  ro_deadline_ms :: u64
  ro_retry_budget :: u32
  ro_max_output_bytes :: u64
  ro_max_state_bytes :: u64
  ro_max_events :: u64
  ro_max_in_flight_tasks :: u32
  ro_trace_capture :: TraceCapture
  ro_child_record_retention :: ChildRecordRetention
  ro_component_identities :: "(string, string) smap"

definition default_options :: run_options where
  "default_options = \<lparr>ro_mode = Normal, ro_allow_external_writes = True, ro_allow_irreversible = False,
     ro_deadline_ms = 0, ro_retry_budget = 100, ro_max_output_bytes = 16 * 1024 * 1024,
     ro_max_state_bytes = 32 * 1024 * 1024, ro_max_events = 100000, ro_max_in_flight_tasks = 64,
     ro_trace_capture = Metadata, ro_child_record_retention = DeleteOnParentCommit, ro_component_identities = []\<rparr>"

fun run_mode_name :: "RunMode \<Rightarrow> string" where
  "run_mode_name Normal = ''normal''"
| "run_mode_name Replay = ''replay''"
| "run_mode_name Shadow = ''shadow''"

fun node_status_name :: "NodeStatus \<Rightarrow> string" where
  "node_status_name Pending = ''pending''"
| "node_status_name Running = ''running''"
| "node_status_name Succeeded = ''succeeded''"
| "node_status_name Failed = ''failed''"
| "node_status_name Suspended = ''suspended''"
| "node_status_name Skipped = ''skipped''"
| "node_status_name Blocked = ''blocked''"

fun capture_name :: "TraceCapture \<Rightarrow> string" where
  "capture_name Off = ''off''"
| "capture_name Metadata = ''metadata''"
| "capture_name Inputs = ''inputs''"
| "capture_name Full = ''full''"

fun capture_level :: "TraceCapture \<Rightarrow> nat" where
  "capture_level Off = 0"
| "capture_level Metadata = 1"
| "capture_level Inputs = 2"
| "capture_level Full = 3"

section \<open>Runs\<close>

record par =
  pc_node :: string
  pc_join :: string
  pc_mode :: string
  pc_fail :: string
  pc_branches :: "string list"
  pc_minimum :: nat
  pc_max_parallel :: nat
  pc_next_index :: nat
  pc_in_flight :: nat
  pc_success_count :: nat
  pc_failure_count :: nat
  pc_launching :: bool
  pc_batch_ready :: bool
  pc_terminal :: bool
  pc_terminal_result :: exec_result
  pc_batch_results :: "(string \<times> exec_result) list"

record run_impl =
  ri_workflow :: WorkflowIR
  ri_options :: run_options
  ri_cancelled :: bool
  ri_cancellation :: cancellation_token
  ri_workflow_input :: json
  ri_outputs :: json
  ri_state :: json
  ri_error :: json
  ri_run :: json
  ri_resume_output :: json
  ri_step :: u64
  ri_elapsed_ms :: u64
  ri_fingerprint :: string
  ri_bundle_digest :: string
  ri_invocation_id :: string
  ri_trace_id :: string
  ri_current_span_id :: string
  ri_parent_span_id :: string
  ri_last_span_id :: string
  ri_causation_id :: string
  ri_hits :: "(string, int) smap"
  ri_loops :: "(string, int) smap"
  ri_current :: string
  ri_stop_before :: string
  ri_node_status :: "(string, NodeStatus) smap"
  ri_event_sequence :: u64
  ri_store_version :: u64
  ri_retry_remaining :: u32
  ri_initialized :: bool
  ri_is_suspended :: bool
  ri_has_resume :: bool
  ri_completed :: bool
  ri_async_pending :: bool
  ri_async_ready :: bool
  ri_async_generation :: u64
  ri_async_attempt :: u32
  ri_async_node :: string
  ri_async_result :: exec_result
  ri_async_lease :: bool
  ri_async_committer :: "bool option"
  ri_async_timer :: "u64 option"
  ri_subflow_node :: string
  ri_subflow_pending :: bool
  ri_subflow_ready :: bool
  ri_subflow_result :: exec_result
  ri_parallel :: "par option"
  ri_deterministic_replay :: bool

definition new_run :: "WorkflowIR \<Rightarrow> run_options \<Rightarrow> string \<Rightarrow> run_impl" where
  "new_run w opt bundle = \<lparr>ri_workflow = w, ri_options = opt, ri_cancelled = False, ri_cancellation = new_token,
     ri_workflow_input = JNull, ri_outputs = JObj [], ri_state = JObj [], ri_error = JObj [], ri_run = JObj [],
     ri_resume_output = JNull, ri_step = 0, ri_elapsed_ms = 0, ri_fingerprint = wf_digest w,
     ri_bundle_digest = bundle, ri_invocation_id = ''root'', ri_trace_id = [], ri_current_span_id = [],
     ri_parent_span_id = [], ri_last_span_id = [], ri_causation_id = [], ri_hits = [], ri_loops = [],
     ri_current = [], ri_stop_before = [],
     ri_node_status = fold (\<lambda>n. sm_put (nd_id n) Pending) (wf_nodes w) [],
     ri_event_sequence = 0, ri_store_version = 0, ri_retry_remaining = ro_retry_budget opt,
     ri_initialized = False, ri_is_suspended = False, ri_has_resume = False, ri_completed = False,
     ri_async_pending = False, ri_async_ready = False, ri_async_generation = 0, ri_async_attempt = 0,
     ri_async_node = [],
     ri_async_result = fail_result ''internal_error'' ''ASYNC_NOT_READY'' ''Async result is not ready.'',
     ri_async_lease = False, ri_async_committer = None, ri_async_timer = None,
     ri_subflow_node = [], ri_subflow_pending = False, ri_subflow_ready = False,
     ri_subflow_result = fail_result ''internal_error'' ''SUBFLOW_NOT_READY'' ''Subflow result is not ready.'',
     ri_parallel = None, ri_deterministic_replay = False\<rparr>"

section \<open>Environment and world\<close>

record exec_context =
  xc_run_id :: string
  xc_node_id :: string
  xc_node_type :: string
  xc_attempt :: u32
  xc_idempotency_key :: string
  xc_run_mode :: string
  xc_deadline_remaining_ms :: u64
  xc_may_commit :: bool
  xc_fencing_token :: "u64 option"

text \<open>
  The answer of a synchronous executor: its result or exception, whether it committed its effect and
  whether it was ready before the timeout; the answer of an asynchronous executor when it is started: the
  exception it threw, and the completion and the commit that happened before it returned.
\<close>

record call_reply =
  cr_result :: "fault + exec_result"
  cr_committed :: bool
  cr_in_time :: bool

record start_reply =
  as_throws :: "string option"
  as_completes :: "exec_result option"
  as_committed :: bool

record lease_info =
  li_id :: string
  li_token :: u64
  li_expires :: u64

text \<open>A host interface answers with a result or by an exception, whose text is known when it is standard.\<close>

type_synonym 'a answer = "string option + 'a result"

record 's store_ops =
  so_load :: "string \<Rightarrow> 's \<Rightarrow> 's \<times> StateRecord answer"
  so_compare_exchange :: "string \<Rightarrow> u64 \<Rightarrow> string \<Rightarrow> 's \<Rightarrow> 's \<times> u64 answer"
  so_claim :: "string \<Rightarrow> u64 \<Rightarrow> string \<Rightarrow> 's \<Rightarrow> 's \<times> StateRecord answer"
  so_erase :: "string \<Rightarrow> 's \<Rightarrow> 's \<times> bool answer"

record 's env =
  en_lib :: jsonlib
  en_tracing :: bool
  en_executors :: "string list"
  en_async_executors :: "string list"
  en_workflows :: "(string, WorkflowIR) smap"
  en_policy :: "(string \<Rightarrow> bool) option"
  en_call :: "nat \<Rightarrow> string \<Rightarrow> exec_context \<Rightarrow> json \<Rightarrow> call_reply"
  en_start :: "nat \<Rightarrow> string \<Rightarrow> exec_context \<Rightarrow> json \<Rightarrow> start_reply"
  en_child :: "nat \<Rightarrow> run_impl \<Rightarrow> exec_result option"
  en_leases :: "(nat \<Rightarrow> request \<Rightarrow> lease_info answer) option"
  en_store :: "'s store_ops option"
  en_inject :: "nat \<Rightarrow> string \<Rightarrow> string \<Rightarrow> bool"
  en_elapsed :: "nat \<Rightarrow> u64"
  en_unix :: "nat \<Rightarrow> u64"

datatype action =
  Called string exec_context json
| Saved string u64 json
| Launched run_impl json

record 's world =
  wd_tick :: nat
  wd_store :: 's
  wd_trace :: "EventEnvelope list"
  wd_next_run_id :: u64
  wd_next_recovery_owner :: u64
  wd_replay :: "(string, exec_result list) smap"
  wd_log :: "action list"

section \<open>Actions\<close>

datatype 'a out = Done 'a | Return exec_result | Raise fault | Terminate

type_synonym ('s, 'a) act = "run_impl \<times> 's world \<Rightarrow> (run_impl \<times> 's world) \<times> 'a out"

definition retA :: "'a \<Rightarrow> ('s, 'a) act" where
  "retA x st = (st, Done x)"

definition returnA :: "exec_result \<Rightarrow> ('s, 'a) act" where
  "returnA r st = (st, Return r)"

definition terminateA :: "('s, 'a) act" where
  "terminateA st = (st, Terminate)"

definition liftA :: "'a res \<Rightarrow> ('s, 'a) act" where
  "liftA r st = (st, case r of Inl f \<Rightarrow> Raise f | Inr x \<Rightarrow> Done x)"

definition bindA :: "('s, 'a) act \<Rightarrow> ('a \<Rightarrow> ('s, 'b) act) \<Rightarrow> ('s, 'b) act" where
  "bindA m f st = (case m st of
     (st', Done x) \<Rightarrow> f x st'
   | (st', Return r) \<Rightarrow> (st', Return r)
   | (st', Raise e) \<Rightarrow> (st', Raise e)
   | (st', Terminate) \<Rightarrow> (st', Terminate))"

definition thenA :: "('s, unit) act \<Rightarrow> ('s, 'b) act \<Rightarrow> ('s, 'b) act" where
  "thenA m m' = bindA m (\<lambda>_. m')"

definition whenA :: "bool \<Rightarrow> ('s, unit) act \<Rightarrow> ('s, unit) act" where
  "whenA b m = (if b then m else retA ())"

definition getR :: "('s, run_impl) act" where
  "getR st = (st, Done (fst st))"

definition modR :: "(run_impl \<Rightarrow> run_impl) \<Rightarrow> ('s, unit) act" where
  "modR f st = ((f (fst st), snd st), Done ())"

definition getW :: "('s, 's world) act" where
  "getW st = (st, Done (snd st))"

definition modW :: "('s world \<Rightarrow> 's world) \<Rightarrow> ('s, unit) act" where
  "modW f st = ((fst st, f (snd st)), Done ())"

fun forA :: "'a list \<Rightarrow> ('a \<Rightarrow> ('s, unit) act) \<Rightarrow> ('s, unit) act" where
  "forA [] f = retA ()"
| "forA (x # xs) f = thenA (f x) (forA xs f)"

text \<open>One query of the environment.\<close>

definition tickA :: "('s, nat) act" where
  "tickA = bindA getW (\<lambda>w. thenA (modW (\<lambda>w. w\<lparr>wd_tick := wd_tick w + 1\<rparr>)) (retA (wd_tick w)))"

definition askA :: "(nat \<Rightarrow> 'a) \<Rightarrow> ('s, 'a) act" where
  "askA f = bindA tickA (\<lambda>t. retA (f t))"

definition logA :: "action \<Rightarrow> ('s, unit) act" where
  "logA a = modW (\<lambda>w. w\<lparr>wd_log := wd_log w @ [a]\<rparr>)"

section \<open>JSON access along a path\<close>

definition jobj :: "(string \<times> json) list \<Rightarrow> json" where
  "jobj kvs = JObj (fold (\<lambda>(k, v). sm_put k v) kvs [])"

definition ju64 :: "u64 \<Rightarrow> json" where
  "ju64 w = JUInt (uint w)"

definition ju32 :: "u32 \<Rightarrow> json" where
  "ju32 w = JUInt (uint w)"

text \<open>Assignment through a chain of \<open>operator[]\<close>, and the null members a mere reading creates.\<close>

fun put_path :: "json \<Rightarrow> string list \<Rightarrow> json \<Rightarrow> json res" where
  "put_path j [] v = Inr v"
| "put_path j (k # ks) v = bindR (j_at j k) (\<lambda>c. bindR (put_path c ks v) (j_put j k))"

fun touch_path :: "json \<Rightarrow> string list \<Rightarrow> json res" where
  "touch_path j [] = Inr j"
| "touch_path j (k # ks) = bindR (j_at j k) (\<lambda>c. bindR (touch_path c ks) (j_put j k))"

fun at_path :: "json \<Rightarrow> string list \<Rightarrow> json res" where
  "at_path j [] = Inr j"
| "at_path j (k # ks) = bindR (j_at j k) (\<lambda>c. at_path c ks)"

definition set_state :: "string list \<Rightarrow> json \<Rightarrow> ('s, unit) act" where
  "set_state path v = bindA getR (\<lambda>r. bindA (liftA (put_path (ri_state r) path v))
     (\<lambda>j. modR (\<lambda>r. r\<lparr>ri_state := j\<rparr>)))"

definition touch_state :: "string list \<Rightarrow> ('s, unit) act" where
  "touch_state path = bindA getR (\<lambda>r. bindA (liftA (touch_path (ri_state r) path))
     (\<lambda>j. modR (\<lambda>r. r\<lparr>ri_state := j\<rparr>)))"

definition read_state :: "string list \<Rightarrow> ('s, json) act" where
  "read_state path = thenA (touch_state path) (bindA getR (\<lambda>r. liftA (at_path (ri_state r) path)))"

definition set_outputs :: "string list \<Rightarrow> json \<Rightarrow> ('s, unit) act" where
  "set_outputs path v = bindA getR (\<lambda>r. bindA (liftA (put_path (ri_outputs r) path v))
     (\<lambda>j. modR (\<lambda>r. r\<lparr>ri_outputs := j\<rparr>)))"

definition read_outputs :: "string list \<Rightarrow> ('s, json) act" where
  "read_outputs path = bindA getR (\<lambda>r. bindA (liftA (touch_path (ri_outputs r) path))
     (\<lambda>j. thenA (modR (\<lambda>r. r\<lparr>ri_outputs := j\<rparr>)) (liftA (at_path j path))))"

definition set_run :: "string \<Rightarrow> json \<Rightarrow> ('s, unit) act" where
  "set_run k v = bindA getR (\<lambda>r. bindA (liftA (j_put (ri_run r) k v)) (\<lambda>j. modR (\<lambda>r. r\<lparr>ri_run := j\<rparr>)))"

definition run_id :: "'s env \<Rightarrow> run_impl \<Rightarrow> string res" where
  "run_id E r = bindR (j_at (ri_run r) ''id'') (as_string (en_lib E))"

text \<open>\<open>Value::parse(write_json(v))\<close> and \<open>parse_json(v.to_json())\<close>.\<close>

definition reparse :: "jsonlib \<Rightarrow> json \<Rightarrow> json res" where
  "reparse L v = parse_json L (write_json L v False)"

section \<open>Events\<close>

definition bump :: "('s, unit) act" where
  "bump = modR (\<lambda>r. r\<lparr>ri_event_sequence := ri_event_sequence r + 1\<rparr>)"

definition envelope :: "run_impl \<Rightarrow> u64 \<Rightarrow> u64 \<Rightarrow> string \<Rightarrow> string \<Rightarrow> string \<Rightarrow> u32 \<Rightarrow> exec_result option \<Rightarrow>
    string \<Rightarrow> TraceCapture \<Rightarrow> EventEnvelope" where
  "envelope r unix_ms elapsed ident name node attempt result payload level =
    (let ir = find_node (ri_workflow r) node;
         failed = (case result of None \<Rightarrow> None | Some x \<Rightarrow> if er_success x then None else Some (er_error x))
     in \<lparr>ev_schema_version = 1, ev_sequence = ri_event_sequence r, ev_timestamp_unix_ms = unix_ms,
         ev_elapsed_ms = (if ri_initialized r then elapsed else 0), ev_attempt = attempt, ev_event = name,
         ev_run_id = ident, ev_invocation_id = ri_invocation_id r, ev_workflow_digest = ri_fingerprint r,
         ev_bundle_digest = ri_bundle_digest r, ev_node_id = node,
         ev_node_type = (case ir of None \<Rightarrow> [] | Some n \<Rightarrow> node_type_name (nd_type n)),
         ev_executor = (case ir of None \<Rightarrow> [] | Some n \<Rightarrow> nd_executor n),
         ev_category = (case failed of None \<Rightarrow> [] | Some e \<Rightarrow> ee_category e),
         ev_code = (case failed of None \<Rightarrow> [] | Some e \<Rightarrow> ee_code e),
         ev_payload_json =
           (if capture_level level \<le> capture_level (ro_trace_capture (ri_options r)) then payload else []),
         ev_trace_id = ri_trace_id r, ev_span_id = ri_current_span_id r,
         ev_parent_span_id = ri_parent_span_id r, ev_causation_id = ri_causation_id r\<rparr>)"

definition emit :: "'s env \<Rightarrow> string \<Rightarrow> string \<Rightarrow> u32 \<Rightarrow> exec_result option \<Rightarrow> string \<Rightarrow> TraceCapture \<Rightarrow> ('s, unit) act" where
  "emit E name node attempt result payload level = bindA getR (\<lambda>r.
     if \<not> en_tracing E \<or> ro_trace_capture (ri_options r) = Off then retA ()
     else bindA (liftA (get_string (en_lib E) (ri_run r) ''id'' [])) (\<lambda>ident.
          bindA (askA (\<lambda>t. (en_unix E t, en_elapsed E t))) (\<lambda>(unix_ms, elapsed).
          modW (\<lambda>w. w\<lparr>wd_trace := wd_trace w @
            [envelope r unix_ms elapsed ident name node attempt result payload level]\<rparr>))))"

text \<open>An event takes the next number; some work may lie between the numbering and the emission.\<close>

definition announce :: "'s env \<Rightarrow> ('s, unit) act \<Rightarrow> string \<Rightarrow> string \<Rightarrow> u32 \<Rightarrow> exec_result option \<Rightarrow> string \<Rightarrow> TraceCapture \<Rightarrow>
    ('s, unit) act" where
  "announce E pre name node attempt result payload level =
     thenA bump (thenA pre (emit E name node attempt result payload level))"

definition event :: "'s env \<Rightarrow> string \<Rightarrow> string \<Rightarrow> u32 \<Rightarrow> exec_result option \<Rightarrow> string \<Rightarrow> TraceCapture \<Rightarrow> ('s, unit) act" where
  "event E name node attempt result payload level = announce E (retA ()) name node attempt result payload level"

section \<open>Checkpoints\<close>

definition checkpoint_doc :: "run_impl \<Rightarrow> json" where
  "checkpoint_doc r = (let opt = ri_options r in jobj
    [(''format'', JStr ''dage-checkpoint''), (''format_version'', JStr ''0.2.0''), (''runtime_version'', JStr ''0.2.0''),
     (''workflow_digest'', JStr (ri_fingerprint r)), (''bundle_digest'', JStr (ri_bundle_digest r)),
     (''required_capabilities'', JArr [JStr ''state.v1'', JStr ''node_status.v1'', JStr ''effects.v1'']),
     (''current'', JStr (ri_current r)), (''workflow_input'', ri_workflow_input r), (''outputs'', ri_outputs r),
     (''state'', ri_state r), (''error'', ri_error r), (''run'', ri_run r), (''step'', ju64 (ri_step r)),
     (''elapsed_ms'', ju64 (ri_elapsed_ms r)), (''suspended'', JBool (ri_is_suspended r)),
     (''completed'', JBool (ri_completed r)), (''run_mode'', JStr (run_mode_name (ro_mode opt))),
     (''allow_external_writes'', JBool (ro_allow_external_writes opt)),
     (''allow_irreversible'', JBool (ro_allow_irreversible opt)),
     (''event_sequence'', ju64 (ri_event_sequence r)), (''deadline_ms'', ju64 (ro_deadline_ms opt)),
     (''retry_budget_remaining'', ju32 (ri_retry_remaining r)),
     (''trace_capture'', JStr (capture_name (ro_trace_capture opt))),
     (''component_identities'', JObj (map (\<lambda>(k, v). (k, JStr v)) (ro_component_identities opt))),
     (''state_version'', ju64 (ri_store_version r)),
     (''trace'', jobj [(''trace_id'', JStr (ri_trace_id r)), (''last_span_id'', JStr (ri_last_span_id r)),
        (''invocation_id'', JStr (ri_invocation_id r)), (''current_span_id'', JStr (ri_current_span_id r)),
        (''parent_span_id'', JStr (ri_parent_span_id r)), (''causation_id'', JStr (ri_causation_id r))]),
     (''resource_limits'', jobj [(''max_output_bytes'', ju64 (ro_max_output_bytes opt)),
        (''max_state_bytes'', ju64 (ro_max_state_bytes opt)), (''max_events'', ju64 (ro_max_events opt)),
        (''max_in_flight_tasks'', ju32 (ro_max_in_flight_tasks opt))]),
     (''child_record_retention'',
        JStr (if ro_child_record_retention opt = Keep then ''keep'' else ''delete_on_parent_commit'')),
     (''node_status'', JObj (map (\<lambda>(k, v). (k, JStr (node_status_name v))) (ri_node_status r))),
     (''hits'', JObj (map (\<lambda>(k, v). (k, JInt v)) (ri_hits r))),
     (''loops'', JObj (map (\<lambda>(k, v). (k, JInt v)) (ri_loops r)))])"

definition checkpoint :: "jsonlib \<Rightarrow> run_impl \<Rightarrow> string" where
  "checkpoint L r = write_json L (checkpoint_doc r) True"

section \<open>Host interfaces\<close>

definition state_provider_error :: "string \<Rightarrow> string \<Rightarrow> err" where
  "state_provider_error code message = \<lparr>err_category = ''state_store'', err_code = code, err_message = message, err_retryable = False\<rparr>"

definition call_state_provider :: "'a answer \<Rightarrow> 'a result" where
  "call_state_provider answer = (case answer of
     Inl (Some text) \<Rightarrow> Inl (state_provider_error ''STATE_PROVIDER_EXCEPTION'' text)
   | Inl None \<Rightarrow> Inl (state_provider_error ''STATE_PROVIDER_EXCEPTION'' ''StateStore threw a non-standard exception.'')
   | Inr r \<Rightarrow> r)"

definition storeA :: "('s \<Rightarrow> 's \<times> 'a answer) \<Rightarrow> ('s, 'a result) act" where
  "storeA f = bindA getW (\<lambda>w. case f (wd_store w) of (s, answer) \<Rightarrow>
     thenA (modW (\<lambda>w. w\<lparr>wd_store := s\<rparr>)) (retA (call_state_provider answer)))"

definition store_load :: "'s store_ops \<Rightarrow> string \<Rightarrow> ('s, StateRecord result) act" where
  "store_load ops ident = storeA (so_load ops ident)"

definition store_compare_exchange :: "'s store_ops \<Rightarrow> string \<Rightarrow> u64 \<Rightarrow> string \<Rightarrow> ('s, u64 result) act" where
  "store_compare_exchange ops ident expected text =
    bindA (storeA (so_compare_exchange ops ident expected text)) (\<lambda>result. retA (case result of
      Inl e \<Rightarrow> Inl e
    | Inr v \<Rightarrow> if v \<noteq> expected + 1 then
        Inl (state_provider_error ''STATE_PROTOCOL_ERROR'' ''StateStore CAS returned a non-monotonic version.'')
      else Inr v))"

definition store_claim :: "'s store_ops \<Rightarrow> string \<Rightarrow> u64 \<Rightarrow> string \<Rightarrow> ('s, StateRecord result) act" where
  "store_claim ops ident expected owner =
    bindA (storeA (so_claim ops ident expected owner)) (\<lambda>result. retA (case result of
      Inl e \<Rightarrow> Inl e
    | Inr rec \<Rightarrow> if sr_version rec \<noteq> expected + 1 \<or> sr_owner rec \<noteq> owner then
        Inl (state_provider_error ''STATE_PROTOCOL_ERROR'' ''StateStore claim returned invalid ownership metadata.'')
      else Inr rec))"

definition store_erase :: "'s store_ops \<Rightarrow> string \<Rightarrow> ('s, bool result) act" where
  "store_erase ops ident = storeA (so_erase ops ident)"

definition acquire_resource_lease :: "lease_info answer \<Rightarrow> lease_info result" where
  "acquire_resource_lease answer = (case answer of
     Inl (Some text) \<Rightarrow> Inl \<lparr>err_category = ''resource_limit'', err_code = ''LEASE_PROVIDER_EXCEPTION'', err_message = text,
       err_retryable = False\<rparr>
   | Inl None \<Rightarrow> Inl \<lparr>err_category = ''resource_limit'', err_code = ''LEASE_PROVIDER_EXCEPTION'',
       err_message = ''ResourceLeaseProvider threw a non-standard exception.'', err_retryable = False\<rparr>
   | Inr r \<Rightarrow> r)"

text \<open>
  The saving of a checkpoint: the document with the next version is exchanged against the version the run
  holds. The action answers the error of the store, if any.
\<close>

definition persist :: "'s env \<Rightarrow> ('s, err option) act" where
  "persist E = (case en_store E of
     None \<Rightarrow> retA None
   | Some ops \<Rightarrow> bindA getR (\<lambda>r.
       bindA (liftA (parse_json (en_lib E) (checkpoint (en_lib E) r))) (\<lambda>doc.
       bindA (liftA (j_put doc ''state_version'' (ju64 (ri_store_version r + 1)))) (\<lambda>persisted.
       bindA (liftA (run_id E r)) (\<lambda>ident.
       bindA (store_compare_exchange ops ident (ri_store_version r) (write_json (en_lib E) persisted True)) (\<lambda>saved.
       case saved of
         Inl e \<Rightarrow> retA (Some e)
       | Inr v \<Rightarrow> thenA (logA (Saved ident v persisted))
           (thenA (modR (\<lambda>r. r\<lparr>ri_store_version := v\<rparr>)) (retA None))))))))"

definition state_failure :: "err \<Rightarrow> exec_result" where
  "state_failure e = fail_result ''state_store'' (err_code e) (err_message e)"

text \<open>The usual reaction: a failed save ends \<open>execute_step\<close>.\<close>

definition persist_or_return :: "'s env \<Rightarrow> ('s, unit) act" where
  "persist_or_return E = bindA (persist E) (\<lambda>e. case e of None \<Rightarrow> retA () | Some e \<Rightarrow> returnA (state_failure e))"

definition inject :: "'s env \<Rightarrow> string \<Rightarrow> string \<Rightarrow> string \<Rightarrow> ('s, unit) act" where
  "inject E point node message = bindA (askA (\<lambda>t. en_inject E t point node)) (\<lambda>b.
     if b then returnA (fail_result ''injected_failure'' ''INJECTED_CRASH'' message) else retA ())"

end
