(* ===== verification/Run_Step.thy ===== *)
theory Run_Step
  imports Run_State
begin

text \<open>
  The engine (\<open>Run::execute_step\<close>): the start of a run, one iteration of its loop over the nodes, and the
  loop. An iteration checks cancellation, pending continuations and quotas, applies the effect policy,
  prepares effects, resolves the input, executes the node by its kind (recorded outcome, synchronous
  attempts, asynchronous executor, parallel branches, child workflow, human), records the result and
  selects the next edge.

  A child run that a node launches is started on the scheduler. Whether it has already finished when the
  parent looks is a question to the environment; a completion that comes later is one of the operations
  on a waiting run in \<open>Run_Api\<close>.
\<close>

section \<open>Time and quotas\<close>

definition workflow_timeout :: "run_impl \<Rightarrow> u64" where
  "workflow_timeout r =
    (let timeout = wf_timeout_ms (ri_workflow r); deadline = ro_deadline_ms (ri_options r)
     in if timeout \<noteq> 0 then (if deadline \<noteq> 0 then min timeout deadline else timeout) else deadline)"

definition remaining_ms :: "u64 \<Rightarrow> u64 \<Rightarrow> u64" where
  "remaining_ms timeout elapsed = (if timeout \<noteq> 0 \<and> elapsed < timeout then timeout - elapsed else 0)"

definition elapsedA :: "'s env \<Rightarrow> ('s, u64) act" where
  "elapsedA E = bindA (askA (en_elapsed E)) (\<lambda>t. bindA getR (\<lambda>r. retA (ri_elapsed_ms r + t)))"

definition attempt_timeout :: "u64 \<Rightarrow> u64 \<Rightarrow> u64 \<Rightarrow> u64" where
  "attempt_timeout node_timeout overall remaining =
    (if overall \<noteq> 0 then (if node_timeout \<noteq> 0 then min node_timeout remaining else remaining) else node_timeout)"

text \<open>The delay before the next attempt.\<close>

definition retry_wait :: "NodeIR \<Rightarrow> u64 \<Rightarrow> u32 \<Rightarrow> string \<Rightarrow> u64" where
  "retry_wait node delay attempt key =
    (let scaled = (if nd_retry_backoff node = ''exponential'' \<and> 1 < attempt
                   then delay * push_bit (min (unat attempt - 1) 20) 1 else delay)
     in if nd_retry_jitter_ms node \<noteq> 0
        then scaled + (ucast (trace_sample_bucket key) mod (nd_retry_jitter_ms node + 1)) else scaled)"

definition int_of_delay :: "u64 \<Rightarrow> u64" where
  "int_of_delay delay = scast (ucast delay :: u32)"

section \<open>Effect policy\<close>

definition has_effect :: "NodeIR \<Rightarrow> bool" where
  "has_effect node = (nd_effect node = ExternalWrite \<or> nd_effect node = Irreversible)"

definition not_replayable :: "ReplayPolicy \<Rightarrow> bool" where
  "not_replayable p = (p = AtMostOnce \<or> p = Manual \<or> p = Forbidden)"

definition effect_blocked :: "run_impl \<Rightarrow> NodeIR \<Rightarrow> bool" where
  "effect_blocked r node = (\<not> ri_deterministic_replay r \<and>
     ((nd_effect node = ExternalWrite \<and> \<not> ro_allow_external_writes (ri_options r)) \<or>
      (nd_effect node = Irreversible \<and> \<not> ro_allow_irreversible (ri_options r)) \<or>
      (ro_mode (ri_options r) = Shadow \<and> has_effect node) \<or>
      (ro_mode (ri_options r) = Replay \<and> not_replayable (nd_replay node))))"

definition effect_key :: "'s env \<Rightarrow> NodeIR \<Rightarrow> string \<Rightarrow> string \<Rightarrow> string" where
  "effect_key E node ident current =
    replace_token (replace_token (nd_idempotency_key node) ''${run.id}'' ident) ''${node.id}'' current"

definition effect_status :: "'s env \<Rightarrow> string \<Rightarrow> ('s, string) act" where
  "effect_status E current = bindA (read_state [''_effects'', current]) (\<lambda>e.
     liftA (get_string (en_lib E) e ''status'' []))"

definition prepare_effect :: "'s env \<Rightarrow> NodeIR \<Rightarrow> string \<Rightarrow> ('s, unit) act" where
  "prepare_effect E node current =
    thenA (set_state [''_effects'', current, ''status''] (JStr ''prepared''))
    (bindA getR (\<lambda>r. bindA (liftA (run_id E r)) (\<lambda>ident.
    thenA (set_state [''_effects'', current, ''idempotency_key''] (JStr (effect_key E node ident current)))
    (thenA (persist_or_return E)
    (inject E ''after_prepare'' current ''Failure injected after effect prepare.'')))))"

section \<open>Executors\<close>

definition exec_ctx :: "'s env \<Rightarrow> run_impl \<Rightarrow> NodeIR \<Rightarrow> string \<Rightarrow> string \<Rightarrow> u32 \<Rightarrow> u64 \<Rightarrow> exec_context" where
  "exec_ctx E r node ident current attempt remaining =
    \<lparr>xc_run_id = ident, xc_node_id = current, xc_node_type = node_type_name (nd_type node), xc_attempt = attempt,
     xc_idempotency_key = effect_key E node ident current, xc_run_mode = run_mode_name (ro_mode (ri_options r)),
     xc_deadline_remaining_ms = remaining, xc_may_commit = has_effect node, xc_fencing_token = None\<rparr>"

definition requested_resources :: "json \<Rightarrow> (string, u64) smap res" where
  "requested_resources config = bindR (j_at config ''resources'') (\<lambda>resources.
     if is_object resources then
       bindR (member_names resources) (\<lambda>names.
       bindR (mapR (\<lambda>k. bindR (bindR (j_at resources k) as_uint64) (\<lambda>v. Inr (k, v))) names) (\<lambda>kvs.
       Inr (fold (\<lambda>(k, v). sm_put k v) kvs [])))
     else Inr [])"

definition as_int :: "json \<Rightarrow> int res" where
  "as_int j = as_integer (- (2 ^ 31)) (2 ^ 31 - 1) j"

definition lease_request :: "'s env \<Rightarrow> json \<Rightarrow> exec_context \<Rightarrow> request res" where
  "lease_request E config ctx =
    bindR (requested_resources config) (\<lambda>resources.
    bindR (bindR (j_get config ''resource_priority'' (JInt 0)) as_int) (\<lambda>priority.
    bindR (get_string (en_lib E) config ''resource_fairness_key'' (xc_run_id ctx)) (\<lambda>key.
    bindR (get_u64 config ''resource_lease_ttl_ms'' 30000) (\<lambda>ttl.
    Inr \<lparr>rq_run_id = xc_run_id ctx, rq_units = 1, rq_resources = resources, rq_priority = priority,
      rq_fairness_key = replace_token (replace_token key ''${run.id}'' (xc_run_id ctx)) ''${node.id}'' (xc_node_id ctx),
      rq_lease_ttl_ms = ttl, rq_deadline_remaining_ms = xc_deadline_remaining_ms ctx\<rparr>))))"

definition lease_payload :: "request \<Rightarrow> json \<Rightarrow> (string \<times> json) list" where
  "lease_payload rq resources =
    [(''units'', ju32 (rq_units rq)), (''deadline_remaining_ms'', ju64 (rq_deadline_remaining_ms rq)),
     (''priority'', JInt (rq_priority rq)), (''fairness_key'', JStr (rq_fairness_key rq)),
     (''ttl_ms'', ju64 (rq_lease_ttl_ms rq)), (''resources'', resources)]"

definition lease_failure :: "err \<Rightarrow> exec_result" where
  "lease_failure e = fail_with (err_category e) (err_code e) (err_message e) (err_retryable e)"

text \<open>The lease of an attempt: no provider, the failure of the provider, or the granted lease.\<close>

definition acquire_lease :: "'s env \<Rightarrow> NodeIR \<Rightarrow> exec_context \<Rightarrow> ('s, exec_result + lease_info option) act" where
  "acquire_lease E node ctx = (case en_leases E of
     None \<Rightarrow> retA (Inr None)
   | Some provider \<Rightarrow>
       bindA (liftA (reparse (en_lib E) (nd_config node))) (\<lambda>config.
       bindA (liftA (lease_request E config ctx)) (\<lambda>rq.
       bindA (liftA (j_at config ''resources'')) (\<lambda>resources.
       thenA (event E ''resource_lease_requested'' (xc_node_id ctx) (xc_attempt ctx) None
         (write_json (en_lib E) (jobj (lease_payload rq resources)) False) Metadata)
       (bindA (askA (\<lambda>t. acquire_resource_lease (provider t rq))) (\<lambda>acquired.
       case acquired of
         Inl e \<Rightarrow> retA (Inl (lease_failure e))
       | Inr lease \<Rightarrow>
           thenA (event E ''resource_lease_acquired'' (xc_node_id ctx) (xc_attempt ctx) None
             (write_json (en_lib E) (jobj (lease_payload rq resources @
               [(''lease_id'', JStr (li_id lease)), (''fencing_token'', ju64 (li_token lease)),
                (''expires_at_unix_ms'', ju64 (li_expires lease))])) False) Metadata)
           (retA (Inr (Some lease)))))))))"

definition release_event :: "'s env \<Rightarrow> string \<Rightarrow> u32 \<Rightarrow> ('s, unit) act" where
  "release_event E current attempt = event E ''resource_lease_released'' current attempt None ''{}'' Metadata"

definition at_attempt :: "u32 \<Rightarrow> string \<Rightarrow> exec_result \<Rightarrow> exec_result" where
  "at_attempt attempt current r = r\<lparr>er_error := (er_error r)\<lparr>ee_attempt := attempt, ee_node_id := current\<rparr>\<rparr>"

definition cancel_attempt :: "run_impl \<Rightarrow> run_impl" where
  "cancel_attempt r = r\<lparr>ri_cancelled := True, ri_cancellation := request_cancel ''node timeout'' (ri_cancellation r)\<rparr>"

text \<open>
  The call of a synchronous executor. With a timeout it runs on a thread of its own; an exception then
  leaves the thread joinable and ends the process.
\<close>

definition call_executor :: "'s env \<Rightarrow> string \<Rightarrow> exec_context \<Rightarrow> u64 \<Rightarrow> json \<Rightarrow> ('s, exec_result \<times> bool) act" where
  "call_executor E executor ctx timeout node_input =
    bindA (askA (\<lambda>t. case reparse (en_lib E) node_input of
        Inl f \<Rightarrow> (None, \<lparr>cr_result = Inl f, cr_committed = False, cr_in_time = True\<rparr>)
      | Inr input \<Rightarrow> (Some input, en_call E t executor ctx input))) (\<lambda>(input, reply).
    thenA (case input of None \<Rightarrow> retA () | Some input \<Rightarrow> logA (Called executor ctx input))
    (if timeout \<noteq> 0 then
       (if cr_in_time reply then
          (case cr_result reply of Inl f \<Rightarrow> terminateA | Inr r \<Rightarrow> retA (r, cr_committed reply))
        else thenA (modR cancel_attempt)
          (retA (fail_with ''timeout'' ''NODE_TIMEOUT'' ''Node timeout.'' True, cr_committed reply)))
     else bindA (liftA (cr_result reply)) (\<lambda>r. retA (r, cr_committed reply))))"

definition commit_unknown :: exec_result where
  "commit_unknown = fail_result ''effect_unknown'' ''EFFECT_COMMITTED_WITH_ERROR''
     ''Executor reported failure after committing an external effect.''"

definition commit_missing :: exec_result where
  "commit_missing = fail_result ''effect_unknown'' ''EFFECT_COMMIT_NOT_CONFIRMED''
     ''External effect executor returned success without committing the fence.''"

text \<open>
  What follows a synchronous attempt of an effect: the flag says that the attempt loop is left at once.
\<close>

definition settle_effect :: "'s env \<Rightarrow> NodeIR \<Rightarrow> string \<Rightarrow> bool \<Rightarrow> exec_result \<Rightarrow> ('s, bool \<times> exec_result) act" where
  "settle_effect E node current committed result =
    (if has_effect node \<and> committed then
       thenA (set_state [''_effects'', current, ''status''] (JStr (if er_success result then ''committed'' else ''unknown'')))
       (bindA (persist E) (\<lambda>e. case e of
          Some e \<Rightarrow> retA (True, state_failure e)
        | None \<Rightarrow> thenA (inject E ''after_commit'' current ''Failure injected after effect commit.'')
            (retA (if er_success result then (False, result) else (True, commit_unknown)))))
     else if has_effect node \<and> er_success result then
       thenA (set_state [''_effects'', current, ''status''] (JStr ''unknown'')) (retA (False, commit_missing))
     else retA (False, result))"

definition retry_payload :: "u64 \<Rightarrow> json \<Rightarrow> u32 \<Rightarrow> json" where
  "retry_payload wait next_attempt budget =
    jobj [(''delay_ms'', ju64 wait), (''next_attempt'', next_attempt), (''budget_remaining'', ju32 budget)]"

definition budget_exhausted :: exec_result where
  "budget_exhausted = fail_result ''resource_limit'' ''RETRY_BUDGET_EXHAUSTED'' ''Run retry budget exhausted.''"

definition retry_late :: exec_result where
  "retry_late = fail_result ''timeout'' ''RETRY_DEADLINE_EXCEEDED'' ''Retry delay exceeds remaining deadline.''"

text \<open>One synchronous attempt: Inl leaves the loop with a result, Inr goes on to the next attempt.\<close>

definition perform_attempt :: "'s env \<Rightarrow> run_impl \<Rightarrow> NodeIR \<Rightarrow> string \<Rightarrow> json \<Rightarrow> int \<Rightarrow> int \<Rightarrow>
    ('s, exec_result + exec_result) act" where
  "perform_attempt E r node current node_input max_attempts attempt =
    bindA (liftA (run_id E r)) (\<lambda>ident.
    bindA (elapsedA E) (\<lambda>elapsed.
    let overall = workflow_timeout r; remaining = remaining_ms overall elapsed;
        ctx = exec_ctx E r node ident current (word_of_int attempt) remaining
    in bindA (acquire_lease E node ctx) (\<lambda>lease. case lease of
       Inl failure \<Rightarrow> retA (Inl failure)
     | Inr lease \<Rightarrow>
        if overall \<noteq> 0 \<and> remaining = 0 then
          retA (Inl (fail_result ''timeout'' ''WORKFLOW_TIMEOUT'' ''Workflow deadline exceeded.''))
        else
        bindA (call_executor E (nd_executor node) (ctx\<lparr>xc_fencing_token := map_option li_token lease\<rparr>)
          (attempt_timeout (nd_timeout_ms node) overall remaining) node_input) (\<lambda>(result, committed).
        thenA (whenA (lease \<noteq> None) (release_event E current (word_of_int attempt)))
        (bindA (settle_effect E node current committed result) (\<lambda>(leave, result).
        if leave then retA (Inl result)
        else let result = at_attempt (word_of_int attempt) current result in
        if er_success result \<or> \<not> ee_retryable (er_error result) \<or> attempt = max_attempts then retA (Inl result)
        else let wait = retry_wait node (int_of_delay (nd_retry_delay_ms node)) (word_of_int attempt)
                   (ident @ current @ to_string (nat attempt)) in
        if overall \<noteq> 0 \<and> remaining \<le> wait then retA (Inl retry_late)
        else bindA getR (\<lambda>r.
        thenA (event E ''retry_scheduled'' current (word_of_int attempt) (Some result)
          (write_json (en_lib E) (retry_payload wait (JInt (attempt + 1)) (ri_retry_remaining r)) False) Metadata)
        (retA (Inr result)))))))))"

definition sync_attempt :: "'s env \<Rightarrow> NodeIR \<Rightarrow> string \<Rightarrow> json \<Rightarrow> int \<Rightarrow> int \<Rightarrow> ('s, exec_result + exec_result) act" where
  "sync_attempt E node current node_input max_attempts attempt =
    bindA getR (\<lambda>r.
    if 1 < attempt \<and> ri_retry_remaining r = 0 then retA (Inl budget_exhausted)
    else thenA (whenA (1 < attempt) (modR (\<lambda>r. r\<lparr>ri_retry_remaining := ri_retry_remaining r - 1\<rparr>)))
    (perform_attempt E r node current node_input max_attempts attempt))"

fun sync_attempts :: "'s env \<Rightarrow> NodeIR \<Rightarrow> string \<Rightarrow> json \<Rightarrow> int \<Rightarrow> nat \<Rightarrow> exec_result \<Rightarrow> ('s, exec_result) act" where
  "sync_attempts E node current node_input max_attempts 0 result = retA result"
| "sync_attempts E node current node_input max_attempts (Suc n) result =
    bindA (sync_attempt E node current node_input max_attempts (max_attempts - int n)) (\<lambda>x. case x of
      Inl result \<Rightarrow> retA result
    | Inr result \<Rightarrow> sync_attempts E node current node_input max_attempts n result)"

definition attempts_of :: "NodeIR \<Rightarrow> int" where
  "attempts_of node = sint (nd_max_attempts node)"

definition run_sync :: "'s env \<Rightarrow> NodeIR \<Rightarrow> string \<Rightarrow> json \<Rightarrow> exec_result \<Rightarrow> ('s, exec_result) act" where
  "run_sync E node current node_input result =
    sync_attempts E node current node_input (attempts_of node) (nat (attempts_of node)) result"

section \<open>Asynchronous executors\<close>

definition pending_result :: "string \<Rightarrow> exec_result" where
  "pending_result message = fail_result ''suspended'' ''ASYNC_PENDING'' message"

definition clear_async :: "run_impl \<Rightarrow> run_impl" where
  "clear_async r = r\<lparr>ri_async_pending := False, ri_async_ready := False, ri_async_node := [], ri_async_lease := False,
     ri_async_timer := None, ri_async_committer := None, ri_async_attempt := 0\<rparr>"

definition settle_async :: "'s env \<Rightarrow> NodeIR \<Rightarrow> string \<Rightarrow> bool \<Rightarrow> exec_result \<Rightarrow> ('s, exec_result) act" where
  "settle_async E node current committed result =
    (if has_effect node \<and> committed then
       thenA (set_state [''_effects'', current, ''status''] (JStr (if er_success result then ''committed'' else ''unknown'')))
       (bindA (persist E) (\<lambda>e.
        let result = (case e of Some e \<Rightarrow> state_failure e | None \<Rightarrow> result) in
        thenA (inject E ''after_commit'' current ''Failure injected after effect commit.'')
        (retA (if \<not> er_success result \<and> ee_category (er_error result) \<noteq> ''state_store'' then commit_unknown else result))))
     else if has_effect node \<and> er_success result then
       thenA (set_state [''_effects'', current, ''status''] (JStr ''unknown'')) (retA commit_missing)
     else retA result)"

definition await_retry :: "run_impl \<Rightarrow> run_impl" where
  "await_retry r = r\<lparr>ri_async_generation := ri_async_generation r + 1, ri_async_ready := False, ri_async_lease := False,
     ri_async_committer := None, ri_async_timer := Some (ri_async_generation r + 1)\<rparr>"

definition retry_async :: "'s env \<Rightarrow> NodeIR \<Rightarrow> string \<Rightarrow> exec_result \<Rightarrow> ('s, exec_result) act" where
  "retry_async E node current result =
    bindA getR (\<lambda>r. bindA (liftA (run_id E r)) (\<lambda>ident.
    thenA (modR (\<lambda>r. r\<lparr>ri_retry_remaining := ri_retry_remaining r - 1\<rparr>))
    (bindA (elapsedA E) (\<lambda>elapsed.
    let wait = retry_wait node (nd_retry_delay_ms node) (ri_async_attempt r)
          (ident @ current @ to_string (unat (ri_async_attempt r)));
        overall = workflow_timeout r
    in if overall \<noteq> 0 \<and> remaining_ms overall elapsed \<le> wait then retA retry_late
    else thenA (event E ''retry_scheduled'' current (ri_async_attempt r) (Some result)
        (write_json (en_lib E) (retry_payload wait (ju32 (ri_async_attempt r + 1)) (ri_retry_remaining r - 1)) False) Metadata)
      (thenA (modR await_retry) (returnA (pending_result ''Async retry delay is pending.'')))))))"

definition continue_async :: "'s env \<Rightarrow> NodeIR \<Rightarrow> string \<Rightarrow> ('s, exec_result) act" where
  "continue_async E node current = bindA getR (\<lambda>r.
    let attempt = ri_async_attempt r; result = at_attempt attempt current (ri_async_result r) in
    thenA (whenA (ri_async_lease r)
      (thenA (modR (\<lambda>r. r\<lparr>ri_async_lease := False\<rparr>)) (release_event E current attempt)))
    (bindA (settle_async E node current (ri_async_committer r = Some True) result) (\<lambda>result.
    let retry = (ee_retryable (er_error result) \<and> attempt < nd_max_attempts node) in
    bindA (if retry \<and> ri_retry_remaining r \<noteq> 0 then retry_async E node current result
           else if retry then retA budget_exhausted else retA result) (\<lambda>result.
    thenA (modR clear_async) (retA result)))))"

definition begin_async :: "string \<Rightarrow> run_impl \<Rightarrow> run_impl" where
  "begin_async current r = r\<lparr>ri_async_pending := True, ri_async_ready := False, ri_async_node := current,
     ri_async_generation := ri_async_generation r + 1\<rparr>"

text \<open>The completion callback of one generation.\<close>

definition complete_async :: "u64 \<Rightarrow> exec_result \<Rightarrow> run_impl \<Rightarrow> run_impl" where
  "complete_async generation completed r =
    (if \<not> ri_async_pending r \<or> ri_async_ready r \<or> ri_async_generation r \<noteq> generation then r
     else r\<lparr>ri_async_result := completed, ri_async_ready := True\<rparr>)"

text \<open>The call of an asynchronous executor, which may complete before it returns.\<close>

definition launch_async :: "'s env \<Rightarrow> NodeIR \<Rightarrow> string \<Rightarrow> exec_context \<Rightarrow> u64 \<Rightarrow> lease_info option \<Rightarrow> json \<Rightarrow>
    ('s, exec_result) act" where
  "launch_async E node current ctx timeout lease node_input =
    thenA (whenA (lease \<noteq> None) (modR (\<lambda>r. r\<lparr>ri_async_lease := True\<rparr>)))
    (thenA (modR (begin_async current))
    (bindA getR (\<lambda>r.
    thenA (whenA (timeout \<noteq> 0) (modR (\<lambda>r. r\<lparr>ri_async_timer := Some (ri_async_generation r)\<rparr>)))
    (bindA (askA (\<lambda>t. case reparse (en_lib E) node_input of
        Inl f \<Rightarrow> (None, \<lparr>as_throws = Some (fault_what (en_lib E) f), as_completes = None, as_committed = False\<rparr>)
      | Inr input \<Rightarrow> (Some input, en_start E t (nd_executor node) ctx input))) (\<lambda>(input, reply).
    thenA (case input of None \<Rightarrow> retA () | Some input \<Rightarrow> logA (Called (nd_executor node) ctx input))
    (thenA (whenA (has_effect node \<and> as_committed reply) (modR (\<lambda>r. r\<lparr>ri_async_committer := Some True\<rparr>)))
    (thenA (case as_completes reply of
         Some completed \<Rightarrow> modR (complete_async (ri_async_generation r) completed)
       | None \<Rightarrow> (case as_throws reply of
           Some text \<Rightarrow> modR (complete_async (ri_async_generation r) (fail_result ''tool_error'' ''ASYNC_START_FAILED'' text))
         | None \<Rightarrow> retA ()))
    (returnA (pending_result ''Async executor completion is pending.'')))))))))"

definition start_async :: "'s env \<Rightarrow> NodeIR \<Rightarrow> string \<Rightarrow> bool \<Rightarrow> json \<Rightarrow> ('s, exec_result) act" where
  "start_async E node current continuing_retry node_input =
    thenA (whenA (\<not> continuing_retry) (modR (\<lambda>r. r\<lparr>ri_async_attempt := 1\<rparr>)))
    (bindA getR (\<lambda>r. bindA (liftA (run_id E r)) (\<lambda>ident.
    bindA (elapsedA E) (\<lambda>elapsed.
    let overall = workflow_timeout r; remaining = remaining_ms overall elapsed;
        ctx = exec_ctx E r node ident current (ri_async_attempt r) remaining
    in thenA (modR (\<lambda>r. r\<lparr>ri_async_committer := (if has_effect node then Some False else None)\<rparr>))
    (bindA (acquire_lease E node ctx) (\<lambda>lease. case lease of
      Inl failure \<Rightarrow> retA failure
    | Inr lease \<Rightarrow> launch_async E node current (ctx\<lparr>xc_fencing_token := map_option li_token lease\<rparr>)
        (attempt_timeout (nd_timeout_ms node) overall remaining) lease node_input))))))"

section \<open>Child workflows\<close>

definition clear_subflow :: "run_impl \<Rightarrow> run_impl" where
  "clear_subflow r = r\<lparr>ri_subflow_pending := False, ri_subflow_ready := False, ri_subflow_node := []\<rparr>"

text \<open>What a child run inherits from its parent.\<close>

definition child_of :: "run_impl \<Rightarrow> WorkflowIR \<Rightarrow> string \<Rightarrow> run_impl" where
  "child_of r w invocation = (new_run w (ri_options r) [])\<lparr>ri_trace_id := ri_trace_id r,
     ri_parent_span_id := ri_current_span_id r, ri_causation_id := ri_current_span_id r,
     ri_invocation_id := invocation, ri_deterministic_replay := ri_deterministic_replay r\<rparr>"

definition subflow_child :: "run_impl \<Rightarrow> WorkflowIR \<Rightarrow> string \<Rightarrow> string \<Rightarrow> run_impl" where
  "subflow_child r w current entry =
    (child_of r w (ri_invocation_id r @ ''/subflow:'' @ current @ '':'' @ to_string (unat (ri_step r))))\<lparr>ri_current := entry\<rparr>"

definition run_subflow :: "'s env \<Rightarrow> NodeIR \<Rightarrow> string \<Rightarrow> bool \<Rightarrow> json \<Rightarrow> ('s, exec_result) act" where
  "run_subflow E node current continuing node_input =
    (if continuing then
       bindA getR (\<lambda>r. thenA (modR clear_subflow) (retA (ri_subflow_result r)))
     else
       bindA (liftA (reparse (en_lib E) (nd_config node))) (\<lambda>config.
       bindA (liftA (bindR (j_at config ''workflow'') (as_string (en_lib E)))) (\<lambda>name.
       case sm_get (en_workflows E) name of
         None \<Rightarrow> retA (fail_result ''executor_not_found'' ''SUBFLOW_NOT_FOUND'' ''Registered subflow was not found.'')
       | Some w \<Rightarrow>
         bindA (liftA (get_string (en_lib E) config ''entry'' [])) (\<lambda>entry.
         bindA getR (\<lambda>r.
         let child = subflow_child r w current entry in
         thenA (modR (\<lambda>r. r\<lparr>ri_subflow_pending := True, ri_subflow_ready := False, ri_subflow_node := current\<rparr>))
         (bindA (liftA (reparse (en_lib E) node_input)) (\<lambda>input.
         thenA (logA (Launched child input))
         (bindA (askA (\<lambda>t. en_child E t child)) (\<lambda>finished. case finished of
            None \<Rightarrow> returnA (pending_result ''Subflow completion is pending.'')
          | Some result \<Rightarrow> thenA (modR (\<lambda>r. clear_subflow (r\<lparr>ri_subflow_result := result\<rparr>))) (retA result))))))))))"

section \<open>Parallel branches\<close>

definition batch_limit :: "run_impl \<Rightarrow> nat" where
  "batch_limit r = (let configured = unat (wf_max_parallel (ri_workflow r));
      tasks = unat (ro_max_in_flight_tasks (ri_options r))
    in max 1 (min configured (if tasks \<noteq> 0 then tasks else configured)))"

definition new_par :: "NodeIR \<Rightarrow> string \<Rightarrow> nat \<Rightarrow> string \<Rightarrow> string \<Rightarrow> nat \<Rightarrow> par" where
  "new_par node current limit mode fail minimum = \<lparr>pc_node = current, pc_join = nd_join node, pc_mode = mode,
     pc_fail = fail, pc_branches = nd_branches node, pc_minimum = minimum, pc_max_parallel = limit,
     pc_next_index = 0, pc_in_flight = 0, pc_success_count = 0, pc_failure_count = 0, pc_launching = False,
     pc_batch_ready = False, pc_terminal = False, pc_terminal_result = ok_result (JObj []), pc_batch_results = []\<rparr>"

definition set_par :: "par \<Rightarrow> ('s, unit) act" where
  "set_par p = modR (\<lambda>r. r\<lparr>ri_parallel := Some p\<rparr>)"

definition modP :: "(par \<Rightarrow> par) \<Rightarrow> ('s, unit) act" where
  "modP f = modR (\<lambda>r. r\<lparr>ri_parallel := map_option f (ri_parallel r)\<rparr>)"

definition child_id :: "string \<Rightarrow> string \<Rightarrow> u64 \<Rightarrow> string \<Rightarrow> string" where
  "child_id ident current step branch = ident @ ''-p-'' @ current @ ''-'' @ to_string (unat step) @ ''-'' @ branch"

definition parallel_payload :: "par \<Rightarrow> json" where
  "parallel_payload p = jobj [(''mode'', JStr (pc_mode p)), (''fail'', JStr (pc_fail p)),
     (''min_success'', JUInt (int (pc_minimum p))), (''max_parallel'', JUInt (int (pc_max_parallel p))),
     (''join'', JStr (pc_join p)), (''branches'', JArr (map JStr (pc_branches p)))]"

definition assign_children :: "'s env \<Rightarrow> string \<Rightarrow> string list \<Rightarrow> ('s, unit) act" where
  "assign_children E current branches =
    bindA (read_state [''_parallel_children'']) (\<lambda>table.
    bindA (liftA (is_member table current)) (\<lambda>known.
    if known then retA ()
    else forA branches (\<lambda>branch. bindA getR (\<lambda>r. bindA (liftA (run_id E r)) (\<lambda>ident.
      set_state [''_parallel_children'', current, branch] (JStr (child_id ident current (ri_step r) branch)))))))"

definition begin_parallel :: "'s env \<Rightarrow> NodeIR \<Rightarrow> string \<Rightarrow> ('s, par) act" where
  "begin_parallel E node current = bindA getR (\<lambda>r.
    bindA (liftA (reparse (en_lib E) (nd_policy node))) (\<lambda>policy.
    bindA (liftA (get_string (en_lib E) policy ''mode'' ''all'')) (\<lambda>mode.
    bindA (liftA (get_string (en_lib E) policy ''fail'' ''wait'')) (\<lambda>fail.
    bindA (liftA (get_u32 policy ''min_success'' 1)) (\<lambda>minimum.
    let p = new_par node current (batch_limit r) mode fail (unat minimum) in
    thenA (event E ''parallel_started'' current 0 None (write_json (en_lib E) (parallel_payload p) False) Metadata)
    (thenA (assign_children E current (pc_branches p))
    (thenA (persist_or_return E) (thenA (set_par p) (retA p)))))))))"

text \<open>The completions of a batch are counted in the order of their arrival.\<close>

definition collect_branch :: "'s env \<Rightarrow> string \<times> exec_result \<Rightarrow> ('s, unit) act" where
  "collect_branch E completed = (case completed of (branch, result) \<Rightarrow>
    if er_success result then
      thenA (modP (\<lambda>p. p\<lparr>pc_success_count := pc_success_count p + 1\<rparr>))
      (bindA (liftA (reparse (en_lib E) (er_output result))) (\<lambda>output. set_outputs [branch, ''output''] output))
    else
      thenA (modP (\<lambda>p. p\<lparr>pc_failure_count := pc_failure_count p + 1,
        pc_terminal_result := (if pc_failure_count p = 0 then result else pc_terminal_result p)\<rparr>))
      (thenA (set_outputs [branch, ''error'', ''category''] (JStr (ee_category (er_error result))))
      (thenA (set_outputs [branch, ''error'', ''code''] (JStr (ee_code (er_error result))))
      (thenA (set_outputs [branch, ''error'', ''message''] (JStr (ee_message (er_error result))))
      (modP (\<lambda>p. if pc_fail p = ''fast'' then p\<lparr>pc_terminal := True, pc_terminal_result := result\<rparr> else p))))))"

text \<open>A branch run, continued from its stored record when it has one.\<close>

definition branch_child :: "run_impl \<Rightarrow> par \<Rightarrow> string \<Rightarrow> string \<Rightarrow> run_impl" where
  "branch_child r p branch ident =
    (child_of r (ri_workflow r) (ri_invocation_id r @ ''/parallel:'' @ pc_node p @ '':'' @ to_string (unat (ri_step r)) @ '':'' @ branch))
      \<lparr>ri_current := branch, ri_stop_before := pc_join p, ri_run := JObj [(''id'', JStr ident)]\<rparr>"

definition resume_child :: "jsonlib \<Rightarrow> json \<Rightarrow> u64 \<Rightarrow> string \<Rightarrow> run_impl \<Rightarrow> run_impl res" where
  "resume_child L cp version branch c =
    bindR (get_string L cp ''workflow_digest'' []) (\<lambda>digest.
    if digest \<noteq> ri_fingerprint c then Inr c
    else bindR (get_string L cp ''current'' branch) (\<lambda>current.
    bindR (j_at cp ''workflow_input'') (\<lambda>input. bindR (j_at cp ''outputs'') (\<lambda>outputs.
    bindR (j_at cp ''state'') (\<lambda>state. bindR (j_at cp ''error'') (\<lambda>error. bindR (j_at cp ''run'') (\<lambda>run.
    bindR (get_u64 cp ''step'' 0) (\<lambda>step. bindR (get_u64 cp ''elapsed_ms'' 0) (\<lambda>elapsed.
    bindR (get_u64 cp ''event_sequence'' 0) (\<lambda>sequence.
    bindR (j_at cp ''trace'') (\<lambda>trace.
    bindR (get_string L trace ''invocation_id'' (ri_invocation_id c)) (\<lambda>invocation.
    Inr (c\<lparr>ri_current := current, ri_workflow_input := input, ri_outputs := outputs, ri_state := state,
      ri_error := error, ri_run := run, ri_step := step, ri_elapsed_ms := elapsed, ri_event_sequence := sequence,
      ri_invocation_id := invocation, ri_store_version := version, ri_initialized := True\<rparr>)))))))))))))"

definition load_child :: "'s env \<Rightarrow> string \<Rightarrow> string \<Rightarrow> run_impl \<Rightarrow> ('s, run_impl) act" where
  "load_child E ident branch c = (case en_store E of
     None \<Rightarrow> retA c
   | Some ops \<Rightarrow> bindA (store_load ops ident) (\<lambda>stored. case stored of
       Inr rec \<Rightarrow> bindA (liftA (parse_json (en_lib E) (sr_checkpoint rec))) (\<lambda>cp.
         liftA (resume_child (en_lib E) cp (sr_version rec) branch c))
     | Inl e \<Rightarrow> if err_code e = ''STATE_NOT_FOUND'' then retA c else returnA (state_failure e)))"

text \<open>The completion callback of a branch.\<close>

definition branch_done :: "string \<Rightarrow> exec_result \<Rightarrow> par \<Rightarrow> par" where
  "branch_done branch result p = (let left = pc_in_flight p - 1 in
     p\<lparr>pc_batch_results := pc_batch_results p @ [(branch, result)], pc_in_flight := left,
       pc_batch_ready := (pc_batch_ready p \<or> (left = 0 \<and> \<not> pc_launching p))\<rparr>)"

definition start_branch :: "'s env \<Rightarrow> string \<Rightarrow> par \<Rightarrow> string \<Rightarrow> ('s, unit) act" where
  "start_branch E current p branch =
    bindA (bindA (read_state [''_parallel_children'', current, branch]) (\<lambda>j. liftA (as_string (en_lib E) j))) (\<lambda>ident.
    bindA getR (\<lambda>r.
    bindA (load_child E ident branch (branch_child r p branch ident)) (\<lambda>child.
    thenA (modP (\<lambda>p. p\<lparr>pc_in_flight := pc_in_flight p + 1\<rparr>))
    (bindA (liftA (reparse (en_lib E) (ri_workflow_input r))) (\<lambda>input.
    thenA (logA (Launched child input))
    (bindA (askA (\<lambda>t. en_child E t child)) (\<lambda>finished. case finished of
       None \<Rightarrow> retA ()
     | Some result \<Rightarrow> modP (branch_done branch result))))))))"

definition launch_branch :: "'s env \<Rightarrow> string \<Rightarrow> par \<Rightarrow> string \<Rightarrow> ('s, unit) act" where
  "launch_branch E current p branch =
    thenA (modP (\<lambda>p. p\<lparr>pc_next_index := pc_next_index p + 1\<rparr>)) (start_branch E current p branch)"

definition launch_batch :: "'s env \<Rightarrow> string \<Rightarrow> par \<Rightarrow> ('s, unit) act" where
  "launch_batch E current p =
    thenA (modP (\<lambda>p. p\<lparr>pc_launching := True\<rparr>))
    (thenA (forA (take (pc_max_parallel p) (drop (pc_next_index p) (pc_branches p))) (launch_branch E current p))
    (modP (\<lambda>p. p\<lparr>pc_launching := False, pc_batch_ready := (pc_batch_ready p \<or> pc_in_flight p = 0)\<rparr>)))"

definition getP :: "('s, par) act" where
  "getP = bindA getR (\<lambda>r. case ri_parallel r of Some p \<Rightarrow> retA p | None \<Rightarrow> terminateA)"

text \<open>The completions that are ready, and whether the node has its result.\<close>

definition collect_batch :: "'s env \<Rightarrow> ('s, par) act" where
  "collect_batch E = bindA getP (\<lambda>p.
    if pc_in_flight p \<noteq> 0 \<and> \<not> pc_batch_ready p then
      returnA (pending_result ''Parallel child completions are pending.'')
    else thenA (modP (\<lambda>p. if pc_batch_ready p then p\<lparr>pc_batch_results := [], pc_batch_ready := False\<rparr> else p))
    (thenA (forA (if pc_batch_ready p then pc_batch_results p else []) (collect_branch E)) getP))"

definition parallel_stop :: "par \<Rightarrow> exec_result \<Rightarrow> exec_result option" where
  "parallel_stop p result = (if pc_terminal p then Some (pc_terminal_result p)
     else if pc_mode p = ''any'' \<and> 0 < pc_success_count p then Some result
     else if length (pc_branches p) \<le> pc_next_index p then Some result else None)"

text \<open>
  The loop over batches. Every passage that does not leave it launches at least one branch, so one unit
  of fuel per branch and one more are enough.
\<close>

fun parallel_loop :: "'s env \<Rightarrow> string \<Rightarrow> nat \<Rightarrow> exec_result \<Rightarrow> ('s, exec_result) act" where
  "parallel_loop E current fuel result = bindA (collect_batch E) (\<lambda>p. case parallel_stop p result of
     Some final \<Rightarrow> retA final
   | None \<Rightarrow> (case fuel of
        0 \<Rightarrow> terminateA
      | Suc fuel \<Rightarrow> thenA (launch_batch E current p) (parallel_loop E current fuel result)))"

declare parallel_loop.simps [simp del]

definition enough :: "par \<Rightarrow> bool" where
  "enough p = (if pc_mode p = ''any'' then 0 < pc_success_count p
     else if pc_mode p = ''min_success'' then pc_minimum p \<le> pc_success_count p
     else pc_success_count p = length (pc_branches p))"

definition judge_parallel :: "par \<Rightarrow> exec_result \<Rightarrow> exec_result" where
  "judge_parallel p result =
    (if \<not> enough p \<and> er_success result then
       (if pc_failure_count p \<noteq> 0 then pc_terminal_result p
        else fail_result ''tool_error'' ''PARALLEL_POLICY_FAILED'' ''Parallel success policy was not met.'')
     else result)"

definition run_parallel :: "'s env \<Rightarrow> NodeIR \<Rightarrow> string \<Rightarrow> exec_result \<Rightarrow> ('s, exec_result) act" where
  "run_parallel E node current result =
    bindA getR (\<lambda>r. bindA (case ri_parallel r of Some p \<Rightarrow> retA p | None \<Rightarrow> begin_parallel E node current) (\<lambda>p.
    bindA (parallel_loop E current (Suc (length (pc_branches p))) result) (\<lambda>result.
    bindA getP (\<lambda>p.
    let result = judge_parallel p result in
    thenA (if er_success result
      then inject E ''after_parallel_children'' current ''Failure injected after parallel child completion.'' else retA ())
    (thenA (if er_success result then set_state [''_parallel_next''] (JStr (pc_join p)) else retA ())
    (thenA (event E ''parallel_completed'' current 0 (Some result)
      (write_json (en_lib E) (jobj [(''success_count'', JUInt (int (pc_success_count p))),
        (''failure_count'', JUInt (int (pc_failure_count p))), (''join'', JStr (pc_join p)),
        (''policy_satisfied'', JBool (enough p))]) False) Metadata)
    (thenA (modR (\<lambda>r. r\<lparr>ri_parallel := None\<rparr>)) (retA result))))))))"

section \<open>Execution of a node\<close>

record flags =
  fl_async :: bool
  fl_retry :: bool
  fl_parallel :: bool
  fl_subflow :: bool

definition fresh :: "flags \<Rightarrow> bool" where
  "fresh f = (\<not> fl_async f \<and> \<not> fl_retry f \<and> \<not> fl_parallel f \<and> \<not> fl_subflow f)"

definition replay_outcome :: "string \<Rightarrow> ('s, exec_result) act" where
  "replay_outcome current = bindA getR (\<lambda>r. bindA getW (\<lambda>w.
    let key = ri_invocation_id r @ [newline] @ current in
    case sm_get (wd_replay w) key of
      Some (result # rest) \<Rightarrow> thenA (modW (\<lambda>w. w\<lparr>wd_replay := sm_put key rest (wd_replay w)\<rparr>)) (retA result)
    | _ \<Rightarrow> retA (fail_result ''trace_replay'' ''REPLAY_OUTCOME_MISSING'' ''Recorded executor outcome is missing.'')))"

definition run_executor :: "'s env \<Rightarrow> NodeIR \<Rightarrow> string \<Rightarrow> flags \<Rightarrow> json \<Rightarrow> exec_result \<Rightarrow> ('s, exec_result) act" where
  "run_executor E node current fl node_input result = bindA getR (\<lambda>r.
    let executor = nd_executor node in
    if ri_deterministic_replay r then replay_outcome current
    else if (case en_policy E of None \<Rightarrow> False | Some allowed \<Rightarrow> \<not> allowed executor) then
      retA (fail_result ''permission_denied'' ''EXECUTOR_DENIED'' ''Executor rejected by policy.'')
    else if executor \<notin> set (en_executors E) \<and> executor \<notin> set (en_async_executors E) then
      retA (fail_result ''executor_not_found'' ''EXECUTOR_NOT_FOUND'' ''Executor is not registered.'')
    else if fl_async fl then continue_async E node current
    else if executor \<in> set (en_async_executors E) then start_async E node current (fl_retry fl) node_input
    else run_sync E node current node_input result)"

definition execute_node :: "'s env \<Rightarrow> NodeIR \<Rightarrow> string \<Rightarrow> flags \<Rightarrow> bool \<Rightarrow> json \<Rightarrow> ('s, exec_result) act" where
  "execute_node E node current fl committed node_input =
    bindA (liftA (reparse (en_lib E) node_input)) (\<lambda>value.
    bindA getR (\<lambda>r.
    if committed then
      bindA (read_outputs [current, ''output'']) (\<lambda>output.
      bindA (liftA (reparse (en_lib E) output)) (\<lambda>v. retA (ok_result v)))
    else if nd_type node = Human \<and> ri_has_resume r then
      bindA (liftA (reparse (en_lib E) (ri_resume_output r))) (\<lambda>v.
      thenA (modR (\<lambda>r. r\<lparr>ri_has_resume := False, ri_is_suspended := False\<rparr>)) (retA (ok_result v)))
    else if nd_type node = Subflow then run_subflow E node current (fl_subflow fl) node_input
    else if needs_executor (nd_type node) then run_executor E node current fl node_input (ok_result value)
    else if nd_type node = Parallel then run_parallel E node current (ok_result value)
    else retA (ok_result value)))"

definition set_status :: "string \<Rightarrow> NodeStatus \<Rightarrow> ('s, unit) act" where
  "set_status current status = modR (\<lambda>r. r\<lparr>ri_node_status := sm_put current status (ri_node_status r)\<rparr>)"

text \<open>A human node whose executor asks for suspension.\<close>

definition suspend_run :: "'s env \<Rightarrow> string \<Rightarrow> exec_result \<Rightarrow> ('s, unit) act" where
  "suspend_run E current result =
    thenA (modR (\<lambda>r. r\<lparr>ri_is_suspended := True\<rparr>))
    (thenA (set_status current Suspended)
    (thenA (announce E
      (bindA (askA (en_elapsed E)) (\<lambda>elapsed. modR (\<lambda>r. r\<lparr>ri_elapsed_ms := ri_elapsed_ms r + elapsed\<rparr>)))
      ''run_suspended'' current 0 (Some result) [] Full)
    (thenA (persist_or_return E) (returnA result))))"

definition json_size :: "jsonlib \<Rightarrow> json \<Rightarrow> nat" where
  "json_size L j = length (write_json L j False)"

definition over_quota :: "jsonlib \<Rightarrow> u64 \<Rightarrow> json \<Rightarrow> bool" where
  "over_quota L quota j = (quota \<noteq> 0 \<and> unat quota < json_size L j)"

definition failure_payload :: "exec_error \<Rightarrow> json" where
  "failure_payload e = jobj [(''category'', JStr (ee_category e)), (''code'', JStr (ee_code e)),
     (''message'', JStr (ee_message e)), (''retryable'', JBool (ee_retryable e))]"

definition error_fields :: "string \<Rightarrow> exec_error \<Rightarrow> (string \<times> json) list" where
  "error_fields current e = [(''category'', JStr (ee_category e)), (''code'', JStr (ee_code e)),
     (''message'', JStr (ee_message e)), (''node'', JStr current), (''attempt'', ju32 (ee_attempt e)),
     (''retryable'', JBool (ee_retryable e))]"

definition record_result :: "'s env \<Rightarrow> string \<Rightarrow> exec_result \<Rightarrow> ('s, unit) act" where
  "record_result E current result =
    (if er_success result then
       thenA (set_status current Succeeded)
       (announce E
         (bindA (liftA (reparse (en_lib E) (er_output result))) (\<lambda>output.
          thenA (set_outputs [current, ''output''] output) (modR (\<lambda>r. r\<lparr>ri_error := JObj []\<rparr>))))
         ''node_succeeded'' current (ee_attempt (er_error result)) (Some result)
         (write_json (en_lib E) (er_output result) False) Full)
     else
       bindA getR (\<lambda>r.
       bindA (liftA (foldR (\<lambda>(k, v) j. j_put j k v) (error_fields current (er_error result)) (ri_error r))) (\<lambda>j.
       thenA (modR (\<lambda>r. r\<lparr>ri_error := j\<rparr>))
       (thenA (set_status current Failed)
       (event E ''node_failed'' current (ee_attempt (er_error result)) (Some result)
         (write_json (en_lib E) (failure_payload (er_error result)) False) Full)))))"

definition check_quotas :: "'s env \<Rightarrow> ('s, unit) act" where
  "check_quotas E = bindA getR (\<lambda>r.
    if over_quota (en_lib E) (ro_max_output_bytes (ri_options r)) (ri_outputs r) then
      returnA (fail_result ''resource_limit'' ''MAX_OUTPUT_BYTES'' ''Accumulated outputs exceed the run output quota.'')
    else if over_quota (en_lib E) (ro_max_state_bytes (ri_options r)) (ri_state r) then
      returnA (fail_result ''resource_limit'' ''MAX_STATE_BYTES'' ''Run state exceeds the state quota.'')
    else retA ())"

section \<open>Edges\<close>

definition edge_scope :: "run_impl \<Rightarrow> json \<Rightarrow> json \<Rightarrow> scope" where
  "edge_scope r node_input output = \<lparr>sc_workflow_input = ri_workflow_input r, sc_input = node_input, sc_output = output,
     sc_error = ri_error r, sc_nodes = ri_outputs r, sc_state = ri_state r, sc_run = ri_run r\<rparr>"

definition edge_matches :: "'s env \<Rightarrow> string \<Rightarrow> json \<Rightarrow> EdgeIR \<Rightarrow> ('s, bool) act" where
  "edge_matches E finished node_input e =
    (if ed_condition e = [] then retA True
     else bindA (read_outputs [finished, ''output'']) (\<lambda>output. bindA getR (\<lambda>r.
       liftA (eval_expr (en_lib E) (edge_scope r node_input output) (ed_condition e)))))"

definition evaluation_payload :: "TraceCapture \<Rightarrow> EdgeIR \<Rightarrow> bool \<Rightarrow> json" where
  "evaluation_payload capture e matched = jobj
    ([(''target'', JStr (ed_target e)), (''matched'', JBool matched), (''otherwise'', JBool (ed_otherwise e))] @
     (if ed_condition e = [] then [] else [(''condition_digest'', JStr (sha256_digest (ed_condition e)))]) @
     (if capture = Full then [(''condition'', JStr (ed_condition e))] else []))"

fun select_edge :: "'s env \<Rightarrow> string \<Rightarrow> json \<Rightarrow> EdgeIR list \<Rightarrow> ('s, EdgeIR option) act" where
  "select_edge E finished node_input [] = retA None"
| "select_edge E finished node_input (e # es) = bindA getR (\<lambda>r.
    case find_node (ri_workflow r) (ed_target e) of
      None \<Rightarrow> select_edge E finished node_input es
    | Some target \<Rightarrow>
      if \<not> nd_enabled target then select_edge E finished node_input es
      else bindA (edge_matches E finished node_input e) (\<lambda>matched.
        thenA (event E ''edge_evaluated'' finished 0 None
          (write_json (en_lib E) (evaluation_payload (ro_trace_capture (ri_options r)) e matched) False) Metadata)
        (if matched then retA (Some e) else select_edge E finished node_input es)))"

definition set_values :: "'s env \<Rightarrow> string \<Rightarrow> json \<Rightarrow> EdgeIR \<Rightarrow> ('s, unit) act" where
  "set_values E finished node_input e =
    bindA (liftA (reparse (en_lib E) (ed_set e))) (\<lambda>values.
    if \<not> is_object values then retA ()
    else bindA (liftA (member_names values)) (\<lambda>keys.
    forA keys (\<lambda>k. bindA (read_outputs [finished, ''output'']) (\<lambda>output. bindA getR (\<lambda>r.
      bindA (liftA (j_at values k)) (\<lambda>template.
      set_state [k] (resolve_template (en_lib E) (edge_scope r node_input output) template)))))))"

definition count_up :: "string \<Rightarrow> (string, int) smap \<Rightarrow> (string, int) smap \<times> int" where
  "count_up k m = (let n = (case sm_get m k of None \<Rightarrow> 0 | Some n \<Rightarrow> n) + 1 in (sm_put k n m, n))"

text \<open>The loop declaration of an edge: the target it leads to and the failure of an exhausted loop.\<close>

definition pass_loop :: "'s env \<Rightarrow> string \<Rightarrow> EdgeIR \<Rightarrow> ('s, string \<times> exec_result option) act" where
  "pass_loop E finished e =
    bindA (liftA (reparse (en_lib E) (ed_loop e))) (\<lambda>loop.
    if j_empty loop then retA (ed_target e, None)
    else bindA (liftA (get_string (en_lib E) loop ''id'' (finished @ ''_'' @ ed_target e))) (\<lambda>ident.
    bindA getR (\<lambda>r. case count_up ident (ri_loops r) of (loops, count) \<Rightarrow>
    thenA (modR (\<lambda>r. r\<lparr>ri_loops := loops\<rparr>))
    (bindA (liftA (bindR (j_at loop ''max_iterations'') as_int)) (\<lambda>limit.
    if count \<le> limit then retA (ed_target e, None)
    else bindA (liftA (get_string (en_lib E) loop ''on_exhausted'' [])) (\<lambda>next.
      retA (next, if next = []
        then Some (fail_result ''resource_limit'' ''LOOP_EXHAUSTED'' ''Loop exhausted.'') else None)))))))"

definition pass_hits :: "string \<Rightarrow> string \<Rightarrow> EdgeIR \<Rightarrow> ('s, exec_result option) act" where
  "pass_hits finished next e =
    (if ed_max_hits e = 0 then retA None
     else bindA getR (\<lambda>r. case count_up (finished @ ''->'' @ next) (ri_hits r) of (hits, count) \<Rightarrow>
       thenA (modR (\<lambda>r. r\<lparr>ri_hits := hits\<rparr>))
       (retA (if sint (ed_max_hits e) < count
         then Some (fail_result ''resource_limit'' ''MAX_HITS'' ''Edge max_hits exceeded.'') else None))))"

text \<open>The successor of a finished node and the result the run would complete with.\<close>

definition follow_edge :: "'s env \<Rightarrow> string \<Rightarrow> json \<Rightarrow> bool \<Rightarrow> EdgeIR \<Rightarrow> exec_result \<Rightarrow> ('s, string \<times> exec_result) act" where
  "follow_edge E finished node_input success e result =
    thenA (event E ''edge_selected'' finished 0 None (write_json (en_lib E)
      (jobj [(''target'', JStr (ed_target e)), (''outcome'', JStr (if success then ''success'' else ''error''))]) False) Metadata)
    (thenA (set_values E finished node_input e)
    (bindA (pass_loop E finished e) (\<lambda>(next, exhausted).
    bindA (pass_hits finished next e) (\<lambda>exceeded.
    retA (next, case exceeded of Some f \<Rightarrow> f | None \<Rightarrow> (case exhausted of Some f \<Rightarrow> f | None \<Rightarrow> result))))))"

definition leave_parallel :: "'s env \<Rightarrow> string \<Rightarrow> ('s, string \<times> string list) act" where
  "leave_parallel E current =
    bindA (read_state [''_parallel_children'', current]) (\<lambda>records.
    bindA (liftA (bindR (member_names records) (mapR (\<lambda>k. bindR (j_at records k) (as_string (en_lib E)))))) (\<lambda>children.
    bindA (bindA (read_state [''_parallel_next'']) (\<lambda>j. liftA (as_string (en_lib E) j))) (\<lambda>next.
    bindA getR (\<lambda>r.
    bindA (liftA (bindR (remove_member (ri_state r) ''_parallel_next'') (\<lambda>j.
        bindR (j_at j ''_parallel_children'') (\<lambda>table.
        bindR (remove_member table current) (\<lambda>table'. j_put j ''_parallel_children'' table'))))) (\<lambda>j.
    thenA (modR (\<lambda>r. r\<lparr>ri_state := j\<rparr>)) (retA (next, children)))))))"

definition next_node :: "'s env \<Rightarrow> NodeIR \<Rightarrow> string \<Rightarrow> json \<Rightarrow> exec_result \<Rightarrow>
    ('s, string \<times> exec_result \<times> string list) act" where
  "next_node E node current node_input result =
    bindA (if nd_type node = End \<and> er_success result
           then bindA (liftA (reparse (en_lib E) node_input)) (\<lambda>v. retA (ok_result v)) else retA result) (\<lambda>public.
    if nd_type node = Parallel \<and> er_success result then
      bindA (leave_parallel E current) (\<lambda>(next, children). retA (next, public, children))
    else if nd_type node = End \<and> er_success result then retA ([], public, [])
    else bindA (select_edge E current node_input (if er_success result then nd_next node else nd_error node)) (\<lambda>chosen.
      case chosen of
        None \<Rightarrow> retA ([], public, [])
      | Some e \<Rightarrow> bindA (follow_edge E current node_input (er_success result) e public) (\<lambda>(next, public).
          retA (next, public, []))))"

definition complete_run :: "'s env \<Rightarrow> exec_result \<Rightarrow> ('s, unit) act" where
  "complete_run E public =
    thenA (modR (\<lambda>r. r\<lparr>ri_completed := True\<rparr>))
    (thenA (set_state [''_run_result'', ''success''] (JBool (er_success public)))
    (if er_success public then
       bindA (liftA (reparse (en_lib E) (er_output public))) (\<lambda>output. set_state [''_run_result'', ''output''] output)
     else
       thenA (set_state [''_run_result'', ''error'', ''category''] (JStr (ee_category (er_error public))))
       (thenA (set_state [''_run_result'', ''error'', ''code''] (JStr (ee_code (er_error public))))
       (set_state [''_run_result'', ''error'', ''message''] (JStr (ee_message (er_error public)))))))"

definition erase_children :: "'s env \<Rightarrow> string list \<Rightarrow> ('s, unit) act" where
  "erase_children E children = (case en_store E of
     None \<Rightarrow> retA ()
   | Some ops \<Rightarrow> bindA getR (\<lambda>r.
      if ro_child_record_retention (ri_options r) = DeleteOnParentCommit then
        forA children (\<lambda>ident. bindA (store_erase ops ident) (\<lambda>erased. case erased of
          Inl e \<Rightarrow> returnA (state_failure e) | Inr _ \<Rightarrow> retA ()))
      else retA ()))"

text \<open>The part of an iteration behind the execution of the node.\<close>

definition finish_node :: "'s env \<Rightarrow> NodeIR \<Rightarrow> string \<Rightarrow> json \<Rightarrow> exec_result \<Rightarrow> ('s, exec_result) act" where
  "finish_node E node current node_input result0 =
    thenA (whenA (\<not> er_success result0 \<and> nd_type node = Human \<and> ee_category (er_error result0) = ''suspended'')
      (suspend_run E current result0))
    (bindA getR (\<lambda>r.
    let result = (if er_success result0 \<and> over_quota (en_lib E) (ro_max_output_bytes (ri_options r)) (er_output result0)
          then fail_result ''resource_limit'' ''MAX_OUTPUT_BYTES'' ''Node output exceeds the run output quota.'' else result0) in
    thenA (record_result E current result)
    (thenA (modR (\<lambda>r. r\<lparr>ri_last_span_id := ri_current_span_id r\<rparr>))
    (thenA (check_quotas E)
    (bindA (next_node E node current node_input result) (\<lambda>(next, public, children).
    thenA (modR (\<lambda>r. r\<lparr>ri_current := next\<rparr>))
    (thenA (whenA (next = []) (complete_run E public))
    (thenA (persist_or_return E)
    (thenA (erase_children E children)
    (thenA (inject E ''after_state_save'' current ''Failure injected after atomic state transition.'')
    (if next = [] then
       bindA (read_state [''_run_result'']) (\<lambda>final.
       thenA (event E ''run_completed'' current (ee_attempt (er_error public)) (Some public)
         (write_json (en_lib E) final False) Full) (returnA public))
     else retA result)))))))))))"

section \<open>The loop\<close>

definition observe :: "('s, flags) act" where
  "observe = bindA getR (\<lambda>r.
    let current = ri_current r; mine = (ri_async_pending r \<and> ri_async_node r = current);
        retry = (mine \<and> ee_code (er_error (ri_async_result r)) = ''ASYNC_RETRY_READY'')
    in if mine \<and> \<not> ri_async_ready r then returnA (pending_result ''Async executor completion is pending.'')
    else thenA (whenA retry (modR (\<lambda>r. r\<lparr>ri_async_pending := False, ri_async_ready := False, ri_async_timer := None,
        ri_async_attempt := ri_async_attempt r + 1\<rparr>)))
    (let subflow = (ri_subflow_pending r \<and> ri_subflow_node r = current) in
     if subflow \<and> \<not> ri_subflow_ready r then returnA (pending_result ''Subflow completion is pending.'')
     else retA \<lparr>fl_async = (mine \<and> \<not> retry), fl_retry = retry,
       fl_parallel = (case ri_parallel r of None \<Rightarrow> False | Some p \<Rightarrow> pc_node p = current), fl_subflow = subflow\<rparr>))"

definition check_limits :: "'s env \<Rightarrow> flags \<Rightarrow> ('s, unit) act" where
  "check_limits E fl = bindA getR (\<lambda>r.
    if ro_max_events (ri_options r) \<noteq> 0 \<and> ro_max_events (ri_options r) \<le> ri_event_sequence r then
      returnA (fail_result ''resource_limit'' ''MAX_EVENTS'' ''Run event quota exceeded.'')
    else thenA (whenA (fresh fl) (modR (\<lambda>r. r\<lparr>ri_step := ri_step r + 1\<rparr>)))
    (if fresh fl \<and> wf_max_steps (ri_workflow r) < ri_step r + 1 then
       returnA (fail_result ''resource_limit'' ''MAX_STEPS'' ''Maximum steps exceeded.'')
     else bindA (elapsedA E) (\<lambda>elapsed.
       if workflow_timeout r \<noteq> 0 \<and> workflow_timeout r < elapsed then
         returnA (fail_result ''timeout'' ''WORKFLOW_TIMEOUT'' ''Workflow timeout.'')
       else retA ())))"

definition start_node :: "'s env \<Rightarrow> string \<Rightarrow> ('s, unit) act" where
  "start_node E current =
    thenA (modR (\<lambda>r. r\<lparr>ri_parent_span_id := ri_last_span_id r, ri_causation_id := ri_last_span_id r,
      ri_current_span_id := substr (sha256_digest (ri_trace_id r @ current @ to_string (unat (ri_step r)))) 7 16\<rparr>))
    (thenA (set_status current Running) (event E ''node_started'' current 0 None [] Full))"

definition block_node :: "'s env \<Rightarrow> string \<Rightarrow> ('s, unit) act" where
  "block_node E current = thenA (set_status current Blocked)
    (thenA (event E ''node_blocked'' current 0 None [] Full)
    (returnA (fail_result ''effect_blocked'' ''EFFECT_REPLAY_BLOCKED''
      ''Node effect/replay policy blocks execution in this run mode.'')))"

text \<open>The record of an effect: whether it is committed, and its preparation when it is executed first.\<close>

definition fence_effect :: "'s env \<Rightarrow> NodeIR \<Rightarrow> string \<Rightarrow> flags \<Rightarrow> ('s, bool) act" where
  "fence_effect E node current fl =
    bindA (if has_effect node then effect_status E current else retA []) (\<lambda>status.
    if has_effect node \<and> status = ''prepared'' \<and> nd_replay node \<noteq> Safe \<and> nd_replay node \<noteq> Idempotent then
      returnA (fail_result ''effect_unknown'' ''EFFECT_RECOVERY_REQUIRES_MANUAL''
        ''Prepared non-idempotent effect cannot be executed automatically after recovery.'')
    else bindA getR (\<lambda>r.
      thenA (whenA (\<not> ri_deterministic_replay r \<and> has_effect node \<and> status \<noteq> ''committed'' \<and> \<not> fl_async fl \<and> \<not> fl_retry fl)
        (prepare_effect E node current))
      (retA (has_effect node \<and> status = ''committed''))))"

definition guard_effect :: "'s env \<Rightarrow> NodeIR \<Rightarrow> string \<Rightarrow> flags \<Rightarrow> ('s, bool) act" where
  "guard_effect E node current fl =
    bindA getR (\<lambda>r. thenA (whenA (effect_blocked r node) (block_node E current)) (fence_effect E node current fl))"

definition resolve_input :: "'s env \<Rightarrow> NodeIR \<Rightarrow> string \<Rightarrow> ('s, json) act" where
  "resolve_input E node current =
    bindA (liftA (reparse (en_lib E) (nd_input node))) (\<lambda>template.
    bindA (read_outputs [current, ''output'']) (\<lambda>output.
    bindA getR (\<lambda>r.
    let input = resolve_template (en_lib E) (edge_scope r (ri_workflow_input r) output) template in
    thenA (event E ''node_input_resolved'' current 0 None (write_json (en_lib E) (jobj [(''input'', input)]) False) Inputs)
    (retA input))))"

definition visit_node :: "'s env \<Rightarrow> NodeIR \<Rightarrow> string \<Rightarrow> flags \<Rightarrow> ('s, exec_result) act" where
  "visit_node E node current fl =
    bindA (guard_effect E node current fl) (\<lambda>committed.
    bindA (resolve_input E node current) (\<lambda>node_input.
    bindA (execute_node E node current fl committed node_input) (\<lambda>result.
    finish_node E node current node_input result)))"

definition enter_node :: "'s env \<Rightarrow> WorkflowIR \<Rightarrow> string \<Rightarrow> flags \<Rightarrow> ('s, exec_result) act" where
  "enter_node E w current fl = (case find_node w current of
     None \<Rightarrow> returnA (fail_result ''internal_error'' ''IR_NODE_NOT_FOUND'' (''IR node not found: '' @ current))
   | Some node \<Rightarrow>
     thenA (inject E ''before_node'' current ''Failure injected before node execution.'')
     (bindA getR (\<lambda>r. thenA (set_run ''step'' (ju64 (ri_step r)))
     (thenA (whenA (fresh fl) (start_node E current)) (visit_node E node current fl)))))"

text \<open>One iteration: the result handed to the next one, or the end of \<open>execute_step\<close>.\<close>

definition iterate :: "'s env \<Rightarrow> exec_result \<Rightarrow> ('s, exec_result) act" where
  "iterate E last_result = bindA getR (\<lambda>r.
    if ri_cancelled r then
      thenA (event E ''run_cancelled'' (ri_current r) 0 None [] Full)
      (returnA (fail_result ''cancelled'' ''CANCELLED'' (ct_reason (ri_cancellation r))))
    else bindA observe (\<lambda>fl.
    if ri_stop_before r \<noteq> [] \<and> ri_current r = ri_stop_before r then returnA last_result
    else thenA (check_limits E fl) (enter_node E (ri_workflow r) (ri_current r) fl)))"

text \<open>The loop of \<open>execute_step\<close>. Running out of fuel has the outcome of a process that is terminated;
  with the fuel that \<open>Run_Loop\<close> names it is not the reason for that outcome.\<close>

fun run_loop :: "'s env \<Rightarrow> nat \<Rightarrow> exec_result \<Rightarrow> ('s, exec_result) act" where
  "run_loop E 0 last_result = terminateA"
| "run_loop E (Suc fuel) last_result = bindA getR (\<lambda>r.
    if ri_current r = [] then returnA (ok_result (JObj []))
    else bindA (iterate E last_result) (run_loop E fuel))"

definition identity_payload :: "run_impl \<Rightarrow> json" where
  "identity_payload r = jobj
    ([(''runtime'', JStr ''dage/0.2.0''), (''workflow_digest'', JStr (ri_fingerprint r)),
      (''bundle_digest'', JStr (ri_bundle_digest r)), (''run_mode'', JStr (run_mode_name (ro_mode (ri_options r))))] @
     (if ro_trace_capture (ri_options r) = Full then [(''workflow_input'', ri_workflow_input r)] else []) @
     [(''components'', JObj (map (\<lambda>(k, v). (k, JStr v)) (ro_component_identities (ri_options r))))])"

definition assign_run_id :: "('s, unit) act" where
  "assign_run_id = bindA getR (\<lambda>r. bindA (liftA (is_member (ri_run r) ''id'')) (\<lambda>known.
     if known then retA ()
     else bindA getW (\<lambda>w. thenA (modW (\<lambda>w. w\<lparr>wd_next_run_id := wd_next_run_id w + 1\<rparr>))
       (set_run ''id'' (JStr (''run-'' @ to_string (unat (wd_next_run_id w))))))))"

definition initialize :: "'s env \<Rightarrow> json \<Rightarrow> ('s, unit) act" where
  "initialize E input =
    bindA (liftA (reparse (en_lib E) input)) (\<lambda>value.
    thenA (modR (\<lambda>r. r\<lparr>ri_workflow_input := value\<rparr>))
    (thenA assign_run_id
    (bindA getR (\<lambda>r. bindA (liftA (run_id E r)) (\<lambda>ident.
    thenA (whenA (ri_trace_id r = []) (modR (\<lambda>r. r\<lparr>ri_trace_id := substr (sha256_digest (ident @ ri_fingerprint r)) 7 32\<rparr>)))
    (thenA (set_run ''mode'' (JStr (run_mode_name (ro_mode (ri_options r)))))
    (thenA (modR (\<lambda>r. r\<lparr>ri_current := (if ri_current r = [] then wf_entry (ri_workflow r) else ri_current r),
        ri_initialized := True\<rparr>))
    (bindA getR (\<lambda>r.
    event E ''run_started'' (ri_current r) 0 None (write_json (en_lib E) (identity_payload r) False) Metadata)))))))))"

definition stored_result :: "'s env \<Rightarrow> ('s, exec_result) act" where
  "stored_result E = bindA (read_state [''_run_result'']) (\<lambda>final.
    bindA (liftA (get_bool final ''success'' False)) (\<lambda>success.
    if success then
      bindA (liftA (bindR (j_at final ''output'') (reparse (en_lib E)))) (\<lambda>v. returnA (ok_result v))
    else bindA (liftA (j_at final ''error'')) (\<lambda>error.
      bindA (liftA (get_string (en_lib E) error ''category'' ''execution_error'')) (\<lambda>category.
      bindA (liftA (get_string (en_lib E) error ''code'' ''RUN_FAILED'')) (\<lambda>code.
      bindA (liftA (get_string (en_lib E) error ''message'' ''Run failed.'')) (\<lambda>message.
      returnA (fail_result category code message)))))))"

definition execute_step :: "'s env \<Rightarrow> nat \<Rightarrow> json \<Rightarrow> ('s, exec_result) act" where
  "execute_step E fuel input = bindA getR (\<lambda>r.
    if ri_completed r then stored_result E
    else thenA (whenA (\<not> ri_initialized r) (initialize E input)) (run_loop E fuel (ok_result (JObj []))))"

end
