(* ===== verification/Run_Api.thy ===== *)
theory Run_Api
  imports Run_Step
begin

text \<open>
  The operations on a run around \<open>execute_step\<close>: its drive to completion or suspension, the callbacks
  that complete pending work (executor completion, node timeout, retry delay, child workflow, branch),
  cancellation, resumption, recovery from a checkpoint, snapshots and selective re-execution; and the
  creation of runs by the engine, replay runs included.
\<close>

section \<open>Creation\<close>

definition create_run :: "workflow \<Rightarrow> run_options \<Rightarrow> run_impl" where
  "create_run w opt = new_run (wk_compiled w) opt (wk_bundle_digest w)"

record replay_outcome_record =
  rp_invocation_id :: string
  rp_node_id :: string
  rp_result :: exec_result

definition add_outcome :: "replay_outcome_record \<Rightarrow> (string, exec_result list) smap \<Rightarrow> (string, exec_result list) smap" where
  "add_outcome o' m = (let key = rp_invocation_id o' @ [newline] @ rp_node_id o' in
     sm_put key ((case sm_get m key of None \<Rightarrow> [] | Some rs \<Rightarrow> rs) @ [rp_result o']) m)"

definition create_replay_run :: "workflow \<Rightarrow> string \<Rightarrow> string \<Rightarrow> replay_outcome_record list \<Rightarrow> ('s, unit) act" where
  "create_replay_run w digest bundle outcomes =
    (if digest \<noteq> wf_digest (wk_compiled w) then liftA (Inl (Invalid_arg ''replay Workflow digest mismatch''))
     else if bundle \<noteq> wk_bundle_digest w then liftA (Inl (Invalid_arg ''replay Bundle digest mismatch''))
     else thenA (modR (\<lambda>_. (create_run w (default_options\<lparr>ro_mode := Replay, ro_allow_external_writes := False,
         ro_allow_irreversible := False, ro_trace_capture := Metadata\<rparr>))\<lparr>ri_deterministic_replay := True\<rparr>))
       (modW (\<lambda>w. w\<lparr>wd_replay := fold add_outcome outcomes []\<rparr>)))"

section \<open>Driving a run\<close>

text \<open>
  One activation of the drive closure: a pending result leaves the run waiting, or has it driven again when
  a completion came in the meantime; any other result is delivered once and the pending work is dropped.
\<close>

datatype delivery = Waits bool | Delivered exec_result | Silent

record drive =
  dv_completion :: bool
  dv_delivered :: bool

definition drop_pending :: "run_impl \<Rightarrow> run_impl" where
  "drop_pending r = r\<lparr>ri_async_pending := False, ri_async_ready := False, ri_async_node := [], ri_async_lease := False,
     ri_async_timer := None, ri_async_committer := None, ri_subflow_pending := False, ri_subflow_ready := False\<rparr>"

definition completion_arrived :: "run_impl \<Rightarrow> bool" where
  "completion_arrived r = (ri_async_ready r \<or> (case ri_parallel r of None \<Rightarrow> False | Some p \<Rightarrow> pc_batch_ready p) \<or>
     ri_subflow_ready r)"

definition drive_once :: "'s env \<Rightarrow> nat \<Rightarrow> json \<Rightarrow> drive \<Rightarrow> run_impl \<times> 's world \<Rightarrow>
    (run_impl \<times> 's world) \<times> drive \<times> delivery out" where
  "drive_once E fuel input d st = (case execute_step E fuel input st of
     (st', Return r) \<Rightarrow>
       if \<not> er_success r \<and> ee_code (er_error r) = ''ASYNC_PENDING''
       then (st', d, Done (Waits (completion_arrived (fst st'))))
       else if dv_delivered d then (st', d, Done Silent)
       else ((drop_pending (fst st'), snd st'), d\<lparr>dv_delivered := True, dv_completion := False\<rparr>,
             Done (if dv_completion d then Delivered r else Silent))
   | (st', Done r) \<Rightarrow> (st', d, Done Silent)
   | (st', Raise f) \<Rightarrow> (st', d, Raise f)
   | (st', Terminate) \<Rightarrow> (st', d, Terminate))"

text \<open>
  The registration of a completion: Inl is the exception, Inr the drive and the result delivered at once
  when the scheduler rejects the run.
\<close>

definition execute_async :: "drive \<Rightarrow> bool \<Rightarrow> string option \<Rightarrow> string + drive \<times> exec_result option" where
  "execute_async d completion rejection =
    (if \<not> completion then Inl ''run completion callback is required''
     else if dv_completion d \<and> \<not> dv_delivered d then Inl ''run already has an active completion callback''
     else (case rejection of
         None \<Rightarrow> Inr (\<lparr>dv_completion = True, dv_delivered = False\<rparr>, None)
       | Some text \<Rightarrow> Inr (\<lparr>dv_completion = False, dv_delivered = True\<rparr>,
           Some (fail_with ''resource_limit'' ''SCHEDULER_REJECTED'' text True))))"

section \<open>Callbacks\<close>

text \<open>The completion handle of an asynchronous executor works once.\<close>

definition complete_handle :: "u64 \<Rightarrow> exec_result \<Rightarrow> bool \<Rightarrow> run_impl \<Rightarrow> bool \<times> bool \<times> run_impl" where
  "complete_handle generation result handle_done r =
    (if handle_done then (False, True, r) else (True, True, complete_async generation result r))"

definition node_timeout :: "u64 \<Rightarrow> run_impl \<Rightarrow> run_impl" where
  "node_timeout generation = complete_async generation (fail_with ''timeout'' ''NODE_TIMEOUT'' ''Node timeout.'' True)"

definition retry_elapsed :: "u64 \<Rightarrow> run_impl \<Rightarrow> run_impl" where
  "retry_elapsed generation = complete_async generation (fail_result ''internal'' ''ASYNC_RETRY_READY'' ''Retry delay elapsed.'')"

definition subflow_done :: "exec_result \<Rightarrow> run_impl \<Rightarrow> run_impl" where
  "subflow_done result r = (if \<not> ri_subflow_pending r \<or> ri_subflow_ready r then r
     else r\<lparr>ri_subflow_result := result, ri_subflow_ready := True\<rparr>)"

definition branch_completed :: "string \<Rightarrow> exec_result \<Rightarrow> run_impl \<Rightarrow> run_impl" where
  "branch_completed branch result r = r\<lparr>ri_parallel := map_option (branch_done branch result) (ri_parallel r)\<rparr>"

definition cancel :: "string \<Rightarrow> run_impl \<Rightarrow> run_impl" where
  "cancel reason r = r\<lparr>ri_cancelled := True, ri_cancellation := request_cancel reason (ri_cancellation r)\<rparr>"

definition resume :: "'s env \<Rightarrow> json \<Rightarrow> ('s, unit) act" where
  "resume E human_output = bindA getR (\<lambda>r.
    if \<not> ri_is_suspended r then returnA (fail_result ''invalid_input'' ''RUN_NOT_SUSPENDED'' ''Run is not suspended.'')
    else bindA (liftA (reparse (en_lib E) human_output)) (\<lambda>v.
      modR (\<lambda>r. r\<lparr>ri_resume_output := v, ri_has_resume := True\<rparr>)))"

section \<open>Recovery\<close>

definition mode_of :: "string \<Rightarrow> RunMode" where
  "mode_of s = (if s = ''replay'' then Replay else if s = ''shadow'' then Shadow else Normal)"

definition capture_of :: "string \<Rightarrow> TraceCapture" where
  "capture_of s = (if s = ''off'' then Off else if s = ''inputs'' then Inputs else if s = ''full'' then Full else Metadata)"

definition status_of :: "string \<Rightarrow> NodeStatus" where
  "status_of s = (if s = ''running'' then Running else if s = ''succeeded'' then Succeeded
     else if s = ''failed'' then Failed else if s = ''suspended'' then Suspended
     else if s = ''skipped'' then Skipped else if s = ''blocked'' then Blocked else Pending)"

definition read_members :: "(json \<Rightarrow> 'a res) \<Rightarrow> json \<Rightarrow> string \<Rightarrow> (string \<times> 'a) list res" where
  "read_members conv cp key = bindR (j_at cp key) (\<lambda>table.
     bindR (member_names table) (mapR (\<lambda>k. bindR (bindR (j_at table k) conv) (\<lambda>v. Inr (k, v)))))"

definition check_identity :: "jsonlib \<Rightarrow> workflow \<Rightarrow> json \<Rightarrow> unit res" where
  "check_identity L w cp =
    bindR (get_string L cp ''format'' []) (\<lambda>format.
    bindR (if format \<noteq> ''dage-checkpoint'' then Inr [] else get_string L cp ''format_version'' []) (\<lambda>version.
    if format \<noteq> ''dage-checkpoint'' \<or> version \<noteq> ''0.2.0'' then Inl (Thrown ''unsupported checkpoint format'')
    else bindR (get_string L cp ''workflow_digest'' []) (\<lambda>digest.
    if digest \<noteq> wf_digest (wk_compiled w) then
      Inl (Thrown (''checkpoint workflow mismatch: checkpoint='' @ digest @ '', workflow='' @ wf_digest (wk_compiled w)))
    else bindR (get_string L cp ''bundle_digest'' []) (\<lambda>bundle.
    if bundle \<noteq> wk_bundle_digest w then Inl (Thrown ''checkpoint bundle mismatch'') else Inr ()))))"

definition read_options :: "jsonlib \<Rightarrow> json \<Rightarrow> run_options res" where
  "read_options L cp =
    bindR (get_string L cp ''run_mode'' ''normal'') (\<lambda>mode.
    bindR (get_bool cp ''allow_external_writes'' True) (\<lambda>writes.
    bindR (get_bool cp ''allow_irreversible'' False) (\<lambda>irreversible.
    bindR (get_u64 cp ''deadline_ms'' 0) (\<lambda>deadline.
    bindR (get_u32 cp ''retry_budget_remaining'' 0) (\<lambda>budget.
    bindR (get_string L cp ''trace_capture'' ''metadata'') (\<lambda>capture.
    bindR (read_members (as_string L) cp ''component_identities'') (\<lambda>components.
    bindR (j_at cp ''resource_limits'') (\<lambda>limits.
    bindR (get_u64 limits ''max_output_bytes'' (16 * 1024 * 1024)) (\<lambda>output_bytes.
    bindR (get_u64 limits ''max_state_bytes'' (32 * 1024 * 1024)) (\<lambda>state_bytes.
    bindR (get_u64 limits ''max_events'' 100000) (\<lambda>events.
    bindR (get_u32 limits ''max_in_flight_tasks'' 64) (\<lambda>tasks.
    bindR (get_string L cp ''child_record_retention'' ''delete_on_parent_commit'') (\<lambda>retention.
    Inr \<lparr>ro_mode = mode_of mode, ro_allow_external_writes = writes, ro_allow_irreversible = irreversible,
      ro_deadline_ms = deadline, ro_retry_budget = budget, ro_max_output_bytes = output_bytes,
      ro_max_state_bytes = state_bytes, ro_max_events = events, ro_max_in_flight_tasks = tasks,
      ro_trace_capture = capture_of capture,
      ro_child_record_retention = (if retention = ''keep'' then Keep else DeleteOnParentCommit),
      ro_component_identities = fold (\<lambda>(k, v). sm_put k v) components []\<rparr>)))))))))))))"

definition read_trace :: "jsonlib \<Rightarrow> json \<Rightarrow> run_impl \<Rightarrow> run_impl res" where
  "read_trace L cp r = bindR (j_at cp ''trace'') (\<lambda>trace.
    bindR (get_string L trace ''trace_id'' []) (\<lambda>trace_id.
    bindR (get_string L trace ''last_span_id'' []) (\<lambda>last_span.
    bindR (get_string L trace ''invocation_id'' ''root'') (\<lambda>invocation.
    bindR (get_string L trace ''current_span_id'' []) (\<lambda>current_span.
    bindR (get_string L trace ''parent_span_id'' []) (\<lambda>parent_span.
    bindR (get_string L trace ''causation_id'' []) (\<lambda>causation.
    Inr (r\<lparr>ri_trace_id := trace_id, ri_last_span_id := last_span, ri_invocation_id := invocation,
      ri_current_span_id := current_span, ri_parent_span_id := parent_span, ri_causation_id := causation\<rparr>))))))))"

definition read_progress :: "jsonlib \<Rightarrow> json \<Rightarrow> run_impl \<Rightarrow> run_impl res" where
  "read_progress L cp r =
    bindR (bindR (j_at cp ''current'') (as_string L)) (\<lambda>current.
    bindR (j_at cp ''workflow_input'') (\<lambda>input. bindR (j_at cp ''outputs'') (\<lambda>outputs.
    bindR (j_at cp ''state'') (\<lambda>state. bindR (j_at cp ''error'') (\<lambda>error. bindR (j_at cp ''run'') (\<lambda>run.
    bindR (bindR (j_at cp ''step'') as_uint64) (\<lambda>step.
    bindR (bindR (j_at cp ''elapsed_ms'') as_uint64) (\<lambda>elapsed.
    bindR (bindR (j_at cp ''suspended'') as_bool) (\<lambda>suspended.
    bindR (bindR (j_at cp ''completed'') as_bool) (\<lambda>completed.
    bindR (get_u64 cp ''event_sequence'' 0) (\<lambda>sequence.
    bindR (get_u64 cp ''state_version'' 0) (\<lambda>version.
    Inr (r\<lparr>ri_current := current, ri_workflow_input := input, ri_outputs := outputs, ri_state := state,
      ri_error := error, ri_run := run, ri_step := step, ri_elapsed_ms := elapsed, ri_is_suspended := suspended,
      ri_completed := completed, ri_initialized := True, ri_event_sequence := sequence, ri_store_version := version\<rparr>)))))))))))))"

text \<open>The claim of a stored record by the recovering engine.\<close>

definition claim_record :: "'s env \<Rightarrow> json \<Rightarrow> ('s, unit) act" where
  "claim_record E cp = (case en_store E of
     None \<Rightarrow> retA ()
   | Some ops \<Rightarrow>
     bindA (liftA (j_at cp ''run'')) (\<lambda>run. bindA (liftA (is_member run ''id'')) (\<lambda>known.
     if \<not> known then retA ()
     else bindA (liftA (bindR (j_at run ''id'') (as_string (en_lib E)))) (\<lambda>ident.
     bindA (store_load ops ident) (\<lambda>existing. case existing of
       Inl e \<Rightarrow> if err_code e = ''STATE_NOT_FOUND'' then retA ()
         else liftA (Inl (Thrown (err_code e @ '': '' @ err_message e)))
     | Inr _ \<Rightarrow>
       bindA getW (\<lambda>wd. let owner = ''recovery-'' @ to_string (unat (wd_next_recovery_owner wd)) in
       thenA (modW (\<lambda>wd. wd\<lparr>wd_next_recovery_owner := wd_next_recovery_owner wd + 1\<rparr>))
       (bindA (liftA (get_u64 cp ''state_version'' 0)) (\<lambda>version.
       bindA (store_claim ops ident version owner) (\<lambda>claimed. case claimed of
         Inl e \<Rightarrow> liftA (Inl (Thrown (err_code e @ '': '' @ err_message e)))
       | Inr rec \<Rightarrow> thenA (modR (\<lambda>r. r\<lparr>ri_store_version := sr_version rec\<rparr>))
           (thenA (set_run ''recovery_owner'' (JStr owner)) (set_run ''recovery_epoch'' (ju64 (sr_epoch rec)))))))))))))"

text \<open>Nodes that were running are set back when their policy allows another execution.\<close>

definition settle_status :: "WorkflowIR \<Rightarrow> string \<times> NodeStatus \<Rightarrow> (string \<times> NodeStatus) res" where
  "settle_status w item = (case item of (k, status) \<Rightarrow>
    if status \<noteq> Running then Inr (k, status)
    else case find_node w k of
      None \<Rightarrow> Inl (Thrown (''checkpoint contains an in-flight node that cannot be safely resumed: '' @ k))
    | Some node \<Rightarrow> if not_replayable (nd_replay node)
        then Inl (Thrown (''checkpoint contains an in-flight node that cannot be safely resumed: '' @ k))
        else Inr (k, Pending))"

definition read_counters :: "jsonlib \<Rightarrow> json \<Rightarrow> run_impl \<Rightarrow> run_impl res" where
  "read_counters L cp r =
    bindR (read_members (\<lambda>j. bindR (as_string L j) (\<lambda>s. Inr (status_of s))) cp ''node_status'') (\<lambda>statuses.
    bindR (mapR (settle_status (ri_workflow r)) (fold (\<lambda>(k, v). sm_put k v) statuses (ri_node_status r))) (\<lambda>settled.
    bindR (read_members as_int cp ''hits'') (\<lambda>hits.
    bindR (read_members as_int cp ''loops'') (\<lambda>loops.
    Inr (r\<lparr>ri_node_status := settled, ri_hits := fold (\<lambda>(k, v). sm_put k v) hits [],
      ri_loops := fold (\<lambda>(k, v). sm_put k v) loops []\<rparr>)))))"

definition restored_event :: "'s env \<Rightarrow> json \<Rightarrow> ('s, unit) act" where
  "restored_event E cp =
    bindA (liftA (j_get cp ''event_sequence'' (JInt 0))) (\<lambda>sequence.
    bindA getR (\<lambda>r. bindA (liftA (j_get (ri_run r) ''recovery_owner'' (JStr []))) (\<lambda>owner.
    bindA (liftA (j_get (ri_run r) ''recovery_epoch'' (JInt 0))) (\<lambda>epoch.
    announce E (modR (\<lambda>r. r\<lparr>ri_causation_id := ri_last_span_id r\<rparr>))
      ''run_restored'' (ri_current r) 0 None (write_json (en_lib E)
      (jobj [(''checkpoint_sequence'', sequence), (''recovery_owner'', owner), (''recovery_epoch'', epoch)]) False) Metadata))))"

definition restore_run :: "'s env \<Rightarrow> workflow \<Rightarrow> string \<Rightarrow> ('s, unit) act" where
  "restore_run E w text =
    bindA (liftA (parse_json (en_lib E) text)) (\<lambda>cp.
    bindA (liftA (check_identity (en_lib E) w cp)) (\<lambda>_.
    bindA (liftA (read_options (en_lib E) cp)) (\<lambda>opt.
    bindA (liftA (bindR (read_progress (en_lib E) cp (create_run w opt)) (read_trace (en_lib E) cp))) (\<lambda>r.
    thenA (modR (\<lambda>_. r))
    (thenA (claim_record E cp)
    (bindA getR (\<lambda>r. bindA (liftA (read_counters (en_lib E) cp r)) (\<lambda>r.
    thenA (modR (\<lambda>_. r)) (restored_event E cp)))))))))"

section \<open>Snapshots and selective re-execution\<close>

definition snapshot_doc :: "run_impl \<Rightarrow> json res" where
  "snapshot_doc r = bindR (j_get (ri_run r) ''id'' (JStr [])) (\<lambda>ident. Inr (jobj
    [(''run_id'', ident), (''mode'', JStr (run_mode_name (ro_mode (ri_options r)))),
     (''current_node'', JStr (ri_current r)), (''step'', ju64 (ri_step r)),
     (''event_sequence'', ju64 (ri_event_sequence r)), (''suspended'', JBool (ri_is_suspended r)),
     (''completed'', JBool (ri_completed r)), (''cancelled'', JBool (ri_cancelled r)),
     (''workflow_digest'', JStr (ri_fingerprint r)), (''bundle_digest'', JStr (ri_bundle_digest r)),
     (''retry_budget_remaining'', ju32 (ri_retry_remaining r)),
     (''nodes'', JObj (map (\<lambda>(k, v). (k, JStr (node_status_name v))) (ri_node_status r)))]))"

definition snapshot :: "jsonlib \<Rightarrow> run_impl \<Rightarrow> json res" where
  "snapshot L r = bindR (snapshot_doc r) (reparse L)"

definition ir_targets :: "NodeIR \<Rightarrow> string list" where
  "ir_targets node = map ed_target (nd_next node) @ map ed_target (nd_error node) @ nd_branches node @
     (if nd_join node = [] then [] else [nd_join node])"

text \<open>The successors of a node as the work list of \<open>selective_rerun\<close> reads them.\<close>

definition ir_graph :: "WorkflowIR \<Rightarrow> graph" where
  "ir_graph w = map (\<lambda>(k, i). (k, ir_targets (wf_nodes w ! i))) (wf_index w)"

definition forget_node :: "string \<Rightarrow> run_impl \<Rightarrow> run_impl res" where
  "forget_node k r =
    bindR (remove_member (ri_outputs r) k) (\<lambda>outputs.
    bindR (j_at (ri_state r) ''_effects'') (\<lambda>effects.
    bindR (remove_member effects k) (\<lambda>effects'.
    bindR (j_put (ri_state r) ''_effects'' effects') (\<lambda>state.
    Inr (r\<lparr>ri_outputs := outputs, ri_state := state, ri_node_status := sm_put k Pending (ri_node_status r)\<rparr>)))))"

definition selective_rerun :: "string \<Rightarrow> ('s, unit) act" where
  "selective_rerun node_id = bindA getR (\<lambda>r. case find_node (ri_workflow r) node_id of
     None \<Rightarrow> returnA (fail_result ''invalid_input'' ''RERUN_NODE_NOT_FOUND'' ''Selective rerun node does not exist.'')
   | Some node \<Rightarrow>
     if not_replayable (nd_replay node) then
       returnA (fail_result ''effect_blocked'' ''RERUN_POLICY_BLOCKED'' ''Node replay policy forbids selective rerun.'')
     else bindA (liftA (foldR forget_node
         (sorted_list_of_set (reach_loop (ir_graph (ri_workflow r)) {} [node_id])) r)) (\<lambda>r.
       modR (\<lambda>_. r\<lparr>ri_current := node_id, ri_completed := False, ri_is_suspended := False,
         ri_options := (ri_options r)\<lparr>ro_mode := Replay\<rparr>\<rparr>)))"

end
