(* ===== verification/Run_Laws.thy ===== *)
theory Run_Laws
  imports Run_Api
begin

text \<open>
  How the actions of the engine move run and world. A relation between states before and after, closed
  under composition, is a \<open>frame\<close>: every composed action moves within it when its parts do. The contract
  is the locale \<open>action_frame\<close>; its interpretations are the relations used in the properties of the
  engine: what an action may log and which fields it keeps, and how it numbers the events it emits.
\<close>

section \<open>Evaluation\<close>

lemma bindA_eval:
  "bindA (retA x) f st = f x st" "bindA (returnA r) g st = (st, Return r)" "bindA getR h st = h (fst st) st"
  "bindA getW k st = k (snd st) st" "bindA (modR c) l st = l () (c (fst st), snd st)"
  "bindA (modW d) l st = l () (fst st, d (snd st))" "bindA (liftA (Inr y)) p st = p y st"
  "bindA (liftA (Inl e)) p st = (st, Raise e)" "bindA terminateA g st = (st, Terminate)"
  by (simp_all add: bindA_def retA_def returnA_def getR_def getW_def modR_def modW_def liftA_def terminateA_def)

lemma bindA_assoc: "bindA (bindA m f) g = bindA m (\<lambda>x. bindA (f x) g)"
  by (rule ext) (simp add: bindA_def split: prod.splits out.splits)

lemma act_eval:
  "retA x st = (st, Done x)" "returnA r st = (st, Return r)" "liftA (Inr y) st = (st, Done y)"
  "liftA (Inl e) st = (st, Raise e)" "modR c st = ((c (fst st), snd st), Done ())"
  "modW d st = ((fst st, d (snd st)), Done ())" "getR st = (st, Done (fst st))"
  by (simp_all add: retA_def returnA_def liftA_def modR_def modW_def getR_def)

lemma when_eval: "whenA True m = m" "whenA False m = retA ()"
  by (simp_all add: whenA_def)

lemmas run_eval = thenA_def when_eval bindA_eval bindA_assoc act_eval

section \<open>Frames\<close>

fun orderly :: "'a out \<Rightarrow> bool" where
  "orderly (Raise _) = False"
| "orderly Terminate = False"
| "orderly _ = True"

text \<open>
  A frame covers the states in which an action ends with a value, also those in which the engine returns, or
  all, those in which an exception leaves the engine included.
\<close>

datatype coverage = Ended | Orderly | Always

fun covers :: "coverage \<Rightarrow> 'a out \<Rightarrow> bool" where
  "covers _ (Done _) = True"
| "covers c (Return _) = (c \<noteq> Ended)"
| "covers c _ = (c = Always)"

lemma covers_always [simp]: "covers Always x" and covers_orderly [simp]: "covers Orderly x = orderly x"
  by (cases x; simp)+

definition moves :: "coverage \<Rightarrow> (run_impl \<times> 's world \<Rightarrow> run_impl \<times> 's world \<Rightarrow> bool) \<Rightarrow> ('s, 'a) act \<Rightarrow> bool" where
  "moves c R m = (\<forall>st. covers c (snd (m st)) \<longrightarrow> R st (fst (m st)))"

lemma movesI: "(\<And>st st' x. m st = (st', x) \<Longrightarrow> covers c x \<Longrightarrow> R st st') \<Longrightarrow> moves c R m"
  by (simp add: moves_def) (metis prod.collapse)

lemma movesD: "moves c R m \<Longrightarrow> m st = (st', x) \<Longrightarrow> covers c x \<Longrightarrow> R st st'"
  unfolding moves_def by (metis fst_conv snd_conv)

lemma bindA_outcomes:
  assumes "bindA m f st = (st'', y)"
  obtains (ended) st' x where "m st = (st', Done x)" "f x st' = (st'', y)"
  | (returned) r where "m st = (st'', Return r)" "y = Return r"
  | (raised) e where "m st = (st'', Raise e)" "y = Raise e"
  | (terminated) "m st = (st'', Terminate)" "y = Terminate"
proof (cases "m st")
  case (Pair st' x)
  then show ?thesis using assms that by (cases x) (auto simp: bindA_def)
qed

text \<open>Actions that never return from \<open>execute_step\<close>.\<close>

definition plain :: "('s, 'a) act \<Rightarrow> bool" where
  "plain m = (\<forall>st r. snd (m st) \<noteq> Return r)"

lemma plainD: "plain m \<Longrightarrow> m st = (st', Return r) \<Longrightarrow> False"
  unfolding plain_def by (metis snd_conv)

lemma plain_bind:
  assumes "plain m" and "\<And>x. plain (f x)"
  shows "plain (bindA m f)"
  unfolding plain_def
proof (intro allI notI)
  fix st r
  assume "snd (bindA m f st) = Return r"
  then have "bindA m f st = (fst (bindA m f st), Return r)" by (simp add: prod_eq_iff)
  then show False by (cases rule: bindA_outcomes) (auto dest: plainD [OF assms(1)] plainD [OF assms(2)])
qed

lemma plain_then: "plain m \<Longrightarrow> plain m' \<Longrightarrow> plain (thenA m m')"
  unfolding thenA_def by (rule plain_bind)

lemma plain_simple: "plain (retA x)" "plain (liftA y)" "plain getR" "plain getW" "plain (modR f)" "plain (modW g)"
  by (auto simp: plain_def retA_def liftA_def getR_def getW_def modR_def modW_def split: sum.splits)

lemmas plain_base = plain_bind plain_then plain_simple

lemma plain_outputs: "plain (askA h)" "plain (set_outputs path v)"
  unfolding askA_def tickA_def set_outputs_def by (intro plain_base)+

lemmas plain_rules = plain_base plain_outputs

locale action_frame =
  fixes c :: coverage and R :: "run_impl \<times> 's world \<Rightarrow> run_impl \<times> 's world \<Rightarrow> bool"
  assumes still: "R st st"
    and composed: "R st st' \<Longrightarrow> R st' st'' \<Longrightarrow> R st st''"
begin

lemma moves_pure:
  "moves c R (retA x)" "moves c R (returnA r)" "moves c R terminateA" "moves c R (liftA y)"
  "moves c R getR" "moves c R getW"
  by (auto simp: moves_def retA_def returnA_def terminateA_def liftA_def getR_def getW_def still split: sum.splits)

lemma moves_bind:
  assumes "moves c R m" and "\<And>x. moves c R (f x)"
  shows "moves c R (bindA m f)"
proof (rule movesI)
  fix st st'' y
  assume b: "bindA m f st = (st'', y)" and out: "covers c y"
  from b show "R st st''"
  proof (cases rule: bindA_outcomes)
    case (ended st' x)
    then have "R st st'" using movesD [OF assms(1)] by auto
    moreover have "R st' st''" using movesD [OF assms(2) ended(2) out] .
    ultimately show ?thesis by (rule composed)
  qed (use movesD [OF assms(1)] out in auto)
qed

lemma moves_then: "moves c R m \<Longrightarrow> moves c R m' \<Longrightarrow> moves c R (thenA m m')"
  unfolding thenA_def by (rule moves_bind)

lemma moves_when: "(b \<Longrightarrow> moves c R m) \<Longrightarrow> moves c R (whenA b m)"
  by (auto simp: whenA_def moves_pure)

lemma moves_if: "(b \<Longrightarrow> moves c R m) \<Longrightarrow> (\<not> b \<Longrightarrow> moves c R m') \<Longrightarrow> moves c R (if b then m else m')"
  by simp

lemma moves_option: "(x = None \<Longrightarrow> moves c R m) \<Longrightarrow> (\<And>y. x = Some y \<Longrightarrow> moves c R (f y)) \<Longrightarrow>
    moves c R (case x of None \<Rightarrow> m | Some y \<Rightarrow> f y)"
  by (cases x) auto

lemma moves_sum: "(\<And>y. x = Inl y \<Longrightarrow> moves c R (f y)) \<Longrightarrow> (\<And>y. x = Inr y \<Longrightarrow> moves c R (g y)) \<Longrightarrow>
    moves c R (case x of Inl y \<Rightarrow> f y | Inr y \<Rightarrow> g y)"
  by (cases x) auto

lemma moves_prod: "(\<And>a b. x = (a, b) \<Longrightarrow> moves c R (f a b)) \<Longrightarrow> moves c R (case x of (a, b) \<Rightarrow> f a b)"
  by (cases x) auto

lemma moves_for: "(\<And>x. x \<in> set xs \<Longrightarrow> moves c R (f x)) \<Longrightarrow> moves c R (forA xs f)"
  by (induction xs) (auto intro: moves_pure moves_then)

lemmas moves_rules = moves_pure moves_bind moves_then moves_when moves_if moves_option moves_sum moves_prod moves_for

end

lemma moves_modR: "moves c R (modR f) = (\<forall>r w. R (r, w) (f r, w))"
  by (auto simp: moves_def modR_def)

lemma moves_modW: "moves c R (modW f) = (\<forall>r w. R (r, w) (r, f w))"
  by (auto simp: moves_def modW_def)

section \<open>Quiet actions\<close>

text \<open>
  A quiet action keeps the workflow, the options, the replay flag, the step, the retry budget and the
  pending work of the run and adds neither events nor log entries.
\<close>

definition awaited :: "run_impl \<Rightarrow> u64 \<times> bool \<times> bool \<times> par option" where
  "awaited r = (ri_step r, ri_async_pending r, ri_subflow_pending r, ri_parallel r)"

declare awaited_def [simp]

definition minor :: "run_impl \<times> 's world \<Rightarrow> run_impl \<times> 's world \<Rightarrow> bool" where
  "minor st st' = (ri_workflow (fst st') = ri_workflow (fst st) \<and> ri_options (fst st') = ri_options (fst st) \<and>
     ri_deterministic_replay (fst st') = ri_deterministic_replay (fst st) \<and>
     ri_event_sequence (fst st') = ri_event_sequence (fst st) \<and> awaited (fst st') = awaited (fst st) \<and>
     ri_retry_remaining (fst st') = ri_retry_remaining (fst st) \<and>
     wd_trace (snd st') = wd_trace (snd st) \<and> wd_log (snd st') = wd_log (snd st))"

interpretation quietly: action_frame Always minor
  by unfold_locales (simp_all add: minor_def)

abbreviation quiet :: "('s, 'a) act \<Rightarrow> bool" where
  "quiet m \<equiv> moves Always minor m"

lemma quiet_modR:
  assumes "\<And>r. ri_workflow (f r) = ri_workflow r" and "\<And>r. ri_options (f r) = ri_options r"
    and "\<And>r. ri_deterministic_replay (f r) = ri_deterministic_replay r"
    and "\<And>r. ri_event_sequence (f r) = ri_event_sequence r" and "\<And>r. awaited (f r) = awaited r"
    and "\<And>r. ri_retry_remaining (f r) = ri_retry_remaining r"
  shows "quiet (modR f)"
  using assms by (simp add: moves_modR minor_def)

lemma quiet_modW: "(\<And>w. wd_log (f w) = wd_log w) \<Longrightarrow> (\<And>w. wd_trace (f w) = wd_trace w) \<Longrightarrow> quiet (modW f)"
  by (simp add: moves_modW minor_def)

lemmas quiet_base = quietly.moves_rules quiet_modR quiet_modW

lemma complete_async_fixed [simp]:
  "ri_workflow (complete_async g x r) = ri_workflow r" "ri_options (complete_async g x r) = ri_options r"
  "ri_deterministic_replay (complete_async g x r) = ri_deterministic_replay r"
  "ri_event_sequence (complete_async g x r) = ri_event_sequence r" "awaited (complete_async g x r) = awaited r"
  "ri_retry_remaining (complete_async g x r) = ri_retry_remaining r"
  by (simp_all add: complete_async_def)

named_theorems quiet_rules

lemma quiet_tick [quiet_rules]: "quiet tickA"
  unfolding tickA_def by (intro quiet_base) simp_all

lemma quiet_ask [quiet_rules]: "quiet (askA f)"
  unfolding askA_def by (intro quiet_base quiet_rules)

lemma quiet_state [quiet_rules]:
  "quiet (set_state path v)" "quiet (touch_state path)" "quiet (set_outputs path v)" "quiet (read_outputs path)"
  "quiet (set_run k v)" "quiet (set_status current status)"
  unfolding set_state_def touch_state_def set_outputs_def read_outputs_def set_run_def set_status_def
  by (intro quiet_base; simp)+

lemma quiet_read_state [quiet_rules]: "quiet (read_state path)"
  unfolding read_state_def by (intro quiet_base quiet_rules)

lemma quiet_store [quiet_rules]: "quiet (storeA f)"
  unfolding storeA_def by (intro quiet_base quiet_rules) simp_all

lemma quiet_store_ops [quiet_rules]:
  "quiet (store_load ops k)" "quiet (store_compare_exchange ops k v t)"
  "quiet (store_claim ops k v t)" "quiet (store_erase ops k)"
  unfolding store_load_def store_compare_exchange_def store_claim_def store_erase_def
  by (intro quiet_base quiet_rules)+

lemma quiet_inject [quiet_rules]: "quiet (inject E point node message)"
  unfolding inject_def by (intro quiet_base quiet_rules)

lemma quiet_elapsed [quiet_rules]: "quiet (elapsedA E)"
  unfolding elapsedA_def by (intro quiet_base quiet_rules)

lemma quiet_effect_status [quiet_rules]: "quiet (effect_status E current)"
  unfolding effect_status_def by (intro quiet_base quiet_rules)

lemma quiet_load_child [quiet_rules]: "quiet (load_child E k branch c)"
  unfolding load_child_def by (intro quiet_base quiet_rules)

lemma quiet_assign_children [quiet_rules]: "quiet (assign_children E current branches)"
  unfolding assign_children_def by (intro quiet_base quiet_rules)

lemma quiet_replay [quiet_rules]: "quiet (replay_outcome current)"
  unfolding replay_outcome_def Let_def
  by (intro quiet_base quiet_rules) (auto intro!: quiet_base split: list.split)

lemma quiet_edges [quiet_rules]:
  "quiet (edge_matches E finished node_input e)" "quiet (set_values E finished node_input e)"
  "quiet (pass_loop E finished e)" "quiet (pass_hits finished next e)"
  unfolding edge_matches_def set_values_def pass_loop_def pass_hits_def
  by (intro quiet_base quiet_rules; simp)+

lemma quiet_finish [quiet_rules]:
  "quiet (leave_parallel E current)" "quiet (complete_run E public)" "quiet (erase_children E children)"
  "quiet (check_quotas E)"
  unfolding leave_parallel_def complete_run_def erase_children_def check_quotas_def
  by (intro quiet_base quiet_rules; simp)+

lemma quiet_assign_run_id [quiet_rules]: "quiet assign_run_id"
  unfolding assign_run_id_def by (intro quiet_base quiet_rules) simp_all

lemma quiet_stored_result [quiet_rules]: "quiet (stored_result E)"
  unfolding stored_result_def by (intro quiet_base quiet_rules)

section \<open>The frame of the engine\<close>

fun is_call :: "action \<Rightarrow> bool" where
  "is_call (Called _ _ _) = True"
| "is_call _ = False"

text \<open>
  A relation that quiet actions, the log entries allowed by \<open>P\<close> and numbered events respect is respected
  by the whole engine, when \<open>P\<close> allows everything but calls and the calls of the executed node.
\<close>

definition calls_ok :: "(action \<Rightarrow> bool) \<Rightarrow> NodeIR \<Rightarrow> string \<Rightarrow> bool" where
  "calls_ok P node current = (\<forall>ctx input. xc_node_id ctx = current \<longrightarrow> P (Called (nd_executor node) ctx input))"

locale engine_frame = action_frame c R
  for c :: coverage and R :: "run_impl \<times> 's world \<Rightarrow> run_impl \<times> 's world \<Rightarrow> bool" +
  fixes P :: "action \<Rightarrow> bool" and E :: "'s env"
  assumes quiet_moves: "minor st st' \<Longrightarrow> R st st'"
    and log_moves: "P a \<Longrightarrow> moves c R (logA a)"
    and announce_moves: "quiet pre \<Longrightarrow> plain pre \<Longrightarrow> moves c R (announce E pre name node attempt result payload level)"
    and others_allowed: "\<not> is_call a \<Longrightarrow> P a"
begin

lemma from_quiet: "quiet m \<Longrightarrow> moves c R m"
  by (auto simp: moves_def intro: quiet_moves)

lemma moves_event: "moves c R (event E name node attempt result payload level)"
  unfolding event_def by (intro announce_moves quiet_base plain_rules)

lemma moves_log_other: "moves c R (logA (Saved k v j))" "moves c R (logA (Launched child j))"
  by (intro log_moves others_allowed; simp)+

lemmas frame_base = moves_rules moves_log_other moves_event announce_moves
  from_quiet [OF quiet_modR] from_quiet [OF quiet_modW] quiet_rules [THEN from_quiet]

lemma moves_persist: "moves c R (persist E)"
  unfolding persist_def by (intro frame_base) simp_all

lemma moves_persist_or_return: "moves c R (persist_or_return E)"
  unfolding persist_or_return_def by (intro frame_base moves_persist)

lemma moves_prepare: "moves c R (prepare_effect E node current)"
  unfolding prepare_effect_def by (intro frame_base moves_persist_or_return)

lemma moves_acquire: "moves c R (acquire_lease E node ctx)"
  unfolding acquire_lease_def by (intro frame_base)

lemma moves_release: "moves c R (release_event E current attempt)"
  unfolding release_event_def by (intro frame_base)

lemma moves_call:
  "calls_ok P node current \<Longrightarrow> xc_node_id ctx = current \<Longrightarrow>
    moves c R (call_executor E (nd_executor node) ctx timeout node_input)"
  unfolding call_executor_def by (intro frame_base log_moves) (simp_all add: calls_ok_def cancel_attempt_def)

lemma moves_settle: "moves c R (settle_effect E node current committed result)"
  unfolding settle_effect_def by (intro frame_base moves_persist)

lemma moves_settle_async: "moves c R (settle_async E node current committed result)"
  unfolding settle_async_def Let_def by (intro frame_base moves_persist)

lemma moves_suspend: "moves c R (suspend_run E current result)"
  unfolding suspend_run_def
  by (intro frame_base moves_persist_or_return quiet_base quiet_rules plain_rules) simp_all

lemma moves_record: "moves c R (record_result E current result)"
  unfolding record_result_def by (intro frame_base quiet_base quiet_rules plain_rules) simp_all

lemma moves_select: "moves c R (select_edge E finished node_input es)"
  by (induction es) (auto intro!: frame_base)

lemma moves_follow: "moves c R (follow_edge E finished node_input success e result)"
  unfolding follow_edge_def by (intro frame_base)

lemma moves_next: "moves c R (next_node E node current node_input result)"
  unfolding next_node_def by (intro frame_base moves_select moves_follow)

lemma moves_finish: "moves c R (finish_node E node current node_input result)"
  unfolding finish_node_def Let_def
  by (intro frame_base moves_suspend moves_record moves_next moves_persist_or_return) simp_all

lemma moves_start_node: "moves c R (start_node E current)"
  unfolding start_node_def by (intro frame_base) simp_all

lemma moves_block: "moves c R (block_node E current)"
  unfolding block_node_def by (intro frame_base)

lemma moves_guard: "moves c R (guard_effect E node current fl)"
  unfolding guard_effect_def fence_effect_def by (intro frame_base moves_block moves_prepare)

lemma moves_input: "moves c R (resolve_input E node current)"
  unfolding resolve_input_def Let_def by (intro frame_base)

lemma moves_initialize: "moves c R (initialize E input)"
  unfolding initialize_def by (intro frame_base) simp_all

lemma moves_perform:
  "calls_ok P node current \<Longrightarrow> moves c R (perform_attempt E r node current node_input max_attempts attempt)"
  unfolding perform_attempt_def Let_def
  by (intro frame_base moves_call [where current = current] moves_settle moves_acquire moves_release)
    (simp_all add: exec_ctx_def)

end

text \<open>Retries spend the budget of the run.\<close>

locale retry_frame = engine_frame +
  assumes retry_moves: "moves c R (modR (\<lambda>r. r\<lparr>ri_retry_remaining := f r\<rparr>))"
begin

lemma moves_sync_attempt:
  "calls_ok P node current \<Longrightarrow> moves c R (sync_attempt E node current node_input max_attempts attempt)"
  unfolding sync_attempt_def by (intro frame_base retry_moves moves_perform)

lemma moves_sync_attempts:
  "calls_ok P node current \<Longrightarrow> moves c R (sync_attempts E node current node_input max_attempts n result)"
  by (induction n arbitrary: result) (auto intro!: moves_rules moves_sync_attempt)

lemma moves_retry_async: "moves c R (retry_async E node current result)"
  unfolding retry_async_def Let_def by (intro frame_base retry_moves) (simp_all add: await_retry_def)

end

text \<open>
  The pending work is changed by the actions of asynchronous, child and parallel nodes and by the loop. The
  branches of a parallel node concern only its continuation.
\<close>

locale parallel_frame = engine_frame +
  assumes parallel_moves: "moves c R (modR (\<lambda>r. r\<lparr>ri_parallel := f r\<rparr>))"
begin

lemma moves_modP: "moves c R (modP g)" "moves c R getP" "moves c R (set_par p)"
  unfolding modP_def getP_def set_par_def by (intro moves_rules parallel_moves)+

lemma moves_collect: "moves c R (collect_branch E completed)"
  unfolding collect_branch_def by (intro frame_base moves_modP)

lemmas par_base = frame_base moves_modP moves_collect parallel_moves

lemma moves_launch: "moves c R (launch_branch E current p branch)"
  unfolding launch_branch_def start_branch_def by (intro par_base)

lemma moves_batch: "moves c R (launch_batch E current p)"
  unfolding launch_batch_def by (intro par_base moves_launch)

lemma moves_collect_batch: "moves c R (collect_batch E)"
  unfolding collect_batch_def by (intro par_base)

lemma moves_parallel_loop: "moves c R (parallel_loop E current fuel result)"
  by (induction fuel; subst parallel_loop.simps)
    (intro moves_rules moves_collect_batch, simp add: moves_rules moves_batch)+

lemma moves_begin_parallel: "moves c R (begin_parallel E node current)"
  unfolding begin_parallel_def Let_def by (intro par_base moves_persist_or_return)

lemma moves_parallel: "moves c R (run_parallel E node current result)"
  unfolding run_parallel_def Let_def
  by (intro par_base moves_parallel_loop moves_begin_parallel)

end

locale full_frame = retry_frame c R P E + parallel_frame c R P E
  for c :: coverage and R :: "run_impl \<times> 's world \<Rightarrow> run_impl \<times> 's world \<Rightarrow> bool" and P E +
  assumes pending_moves: "(\<And>r. ri_workflow (f r) = ri_workflow r) \<Longrightarrow> (\<And>r. ri_options (f r) = ri_options r) \<Longrightarrow>
    (\<And>r. ri_deterministic_replay (f r) = ri_deterministic_replay r) \<Longrightarrow>
    (\<And>r. ri_event_sequence (f r) = ri_event_sequence r) \<Longrightarrow> moves c R (modR f)"
begin

lemma moves_observe: "moves c R observe" "moves c R (check_limits E fl)"
  unfolding observe_def check_limits_def Let_def by (intro frame_base pending_moves; simp)+

lemmas full_base = frame_base pending_moves

lemma moves_continue_async: "moves c R (continue_async E node current)"
  unfolding continue_async_def Let_def
  by (intro full_base moves_settle_async moves_retry_async moves_release) (simp_all add: clear_async_def)

lemma moves_launch_async:
  "calls_ok P node current \<Longrightarrow> xc_node_id ctx = current \<Longrightarrow>
    moves c R (launch_async E node current ctx timeout lease node_input)"
  unfolding launch_async_def by (intro full_base log_moves) (simp_all add: begin_async_def calls_ok_def)

lemma moves_start_async:
  "calls_ok P node current \<Longrightarrow> moves c R (start_async E node current continuing_retry node_input)"
  unfolding start_async_def Let_def
  by (intro full_base moves_acquire moves_launch_async) (simp_all add: exec_ctx_def)

lemma moves_subflow: "moves c R (run_subflow E node current continuing node_input)"
  unfolding run_subflow_def Let_def by (intro full_base) (simp_all add: clear_subflow_def)

lemma moves_executor:
  "calls_ok P node current \<Longrightarrow> moves c R (run_executor E node current fl node_input result)"
  unfolding run_executor_def run_sync_def Let_def
  by (intro full_base moves_continue_async moves_start_async moves_sync_attempts)

lemma moves_execute_node:
  "calls_ok P node current \<Longrightarrow> moves c R (execute_node E node current fl committed node_input)"
  unfolding execute_node_def
  by (intro full_base moves_subflow moves_executor moves_parallel) simp_all

end

section \<open>What a run may log\<close>

text \<open>The log only grows, by actions that satisfy \<open>P\<close>; workflow, options and replay flag stay.\<close>

definition logs :: "(action \<Rightarrow> bool) \<Rightarrow> run_impl \<times> 's world \<Rightarrow> run_impl \<times> 's world \<Rightarrow> bool" where
  "logs P st st' = (ri_workflow (fst st') = ri_workflow (fst st) \<and> ri_options (fst st') = ri_options (fst st) \<and>
     ri_deterministic_replay (fst st') = ri_deterministic_replay (fst st) \<and>
     (\<exists>new. wd_log (snd st') = wd_log (snd st) @ new \<and> list_all P new))"

interpretation logging: action_frame Always "logs P" for P
proof
  fix st :: "run_impl \<times> 's world"
  show "logs P st st" by (auto simp: logs_def)
next
  fix st st' st'' :: "run_impl \<times> 's world"
  assume "logs P st st'" "logs P st' st''"
  then show "logs P st st''" by (fastforce simp: logs_def)
qed

lemma minor_logs: "minor st st' \<Longrightarrow> logs P st st'"
  by (simp add: minor_def logs_def)

lemma quiet_logs: "quiet m \<Longrightarrow> moves Always (logs P) m"
  by (auto simp: moves_def intro: minor_logs)

lemma announce_logs:
  assumes "quiet pre"
  shows "moves Always (logs P) (announce E pre name node attempt result payload level)"
  unfolding announce_def bump_def emit_def
  by (intro logging.moves_rules quiet_logs [OF assms] quiet_logs [OF quiet_ask])
    (auto simp: moves_modR moves_modW logs_def)

lemma log_logs: "P a \<Longrightarrow> moves Always (logs P) (logA a)"
  by (auto simp: logA_def moves_modW logs_def)

text \<open>The effect policy: an executor is called only for a node that the policy does not block.\<close>

definition policy_blocks :: "run_options \<Rightarrow> bool \<Rightarrow> NodeIR \<Rightarrow> bool" where
  "policy_blocks opt replaying node = (\<not> replaying \<and>
     ((nd_effect node = ExternalWrite \<and> \<not> ro_allow_external_writes opt) \<or>
      (nd_effect node = Irreversible \<and> \<not> ro_allow_irreversible opt) \<or>
      (ro_mode opt = Shadow \<and> has_effect node) \<or>
      (ro_mode opt = Replay \<and> not_replayable (nd_replay node))))"

lemma effect_blocked_policy: "effect_blocked r node = policy_blocks (ri_options r) (ri_deterministic_replay r) node"
  by (simp add: effect_blocked_def policy_blocks_def)

fun permitted :: "WorkflowIR \<Rightarrow> run_options \<Rightarrow> bool \<Rightarrow> action \<Rightarrow> bool" where
  "permitted w opt replaying (Called executor ctx input) =
    (\<exists>node. find_node w (xc_node_id ctx) = Some node \<and> \<not> replaying \<and> \<not> policy_blocks opt replaying node)"
| "permitted w opt replaying _ = True"

section \<open>How events are numbered\<close>

definition tracing :: "'s env \<Rightarrow> run_impl \<Rightarrow> bool" where
  "tracing E r = (en_tracing E \<and> ro_trace_capture (ri_options r) \<noteq> Off)"

text \<open>The emitted events carry consecutive numbers, from the number after the run's last one on.\<close>

fun numbered_from :: "u64 \<Rightarrow> EventEnvelope list \<Rightarrow> bool" where
  "numbered_from n [] = True"
| "numbered_from n (e # es) = (ev_sequence e = n + 1 \<and> numbered_from (n + 1) es)"

definition numbers :: "'s env \<Rightarrow> run_impl \<times> 's world \<Rightarrow> run_impl \<times> 's world \<Rightarrow> bool" where
  "numbers E st st' = (ri_options (fst st') = ri_options (fst st) \<and> (tracing E (fst st) \<longrightarrow>
     (\<exists>es. wd_trace (snd st') = wd_trace (snd st) @ es \<and> numbered_from (ri_event_sequence (fst st)) es \<and>
       ri_event_sequence (fst st') = ri_event_sequence (fst st) + of_nat (length es))))"

lemma numbered_append:
  "numbered_from n es \<Longrightarrow> numbered_from (n + of_nat (length es)) es' \<Longrightarrow> numbered_from n (es @ es')"
  by (induction es arbitrary: n) (auto simp: algebra_simps)

interpretation numbering: action_frame Orderly "numbers E" for E :: "'s env"
proof
  fix st :: "run_impl \<times> 's world"
  show "numbers E st st" by (auto simp: numbers_def)
next
  fix st st' st'' :: "run_impl \<times> 's world"
  assume "numbers E st st'" and "numbers E st' st''"
  moreover have "tracing E (fst st') = tracing E (fst st)" using \<open>numbers E st st'\<close> by (simp add: numbers_def tracing_def)
  ultimately show "numbers E st st''"
    by (auto simp: numbers_def algebra_simps intro!: numbered_append)
qed

lemma minor_numbers: "minor st st' \<Longrightarrow> numbers E st st'"
  by (auto simp: minor_def numbers_def)

lemma emit_numbers:
  assumes "emit E name node attempt result payload level (r, w) = (st', x)" and "orderly x"
  shows "ri_options (fst st') = ri_options r \<and> ri_event_sequence (fst st') = ri_event_sequence r \<and>
    (tracing E r \<longrightarrow> (\<exists>e. wd_trace (snd st') = wd_trace w @ [e] \<and> ev_sequence e = ri_event_sequence r))"
  using assms
  by (auto simp: emit_def bindA_def getR_def retA_def liftA_def askA_def tickA_def thenA_def getW_def modW_def
      envelope_def Let_def tracing_def split: if_splits sum.splits)

lemma announce_numbers:
  assumes "quiet pre" and "plain pre"
  shows "moves Orderly (numbers E) (announce E pre name node attempt result payload level)"
proof (rule movesI)
  fix st st' x
  assume a: "announce E pre name node attempt result payload level st = (st', x)" and o: "covers Orderly x"
  let ?st1 = "((fst st)\<lparr>ri_event_sequence := ri_event_sequence (fst st) + 1\<rparr>, snd st)"
  have "bindA pre (\<lambda>_. emit E name node attempt result payload level) ?st1 = (st', x)"
    using a by (simp add: announce_def bump_def run_eval)
  then show "numbers E st st'"
  proof (cases rule: bindA_outcomes)
    case (ended st2 y)
    have m: "minor ?st1 st2" using movesD [OF assms(1) ended(1)] by simp
    then show ?thesis
      using emit_numbers [of E name node attempt result payload level "fst st2" "snd st2" st' x] ended(2) o
      by (auto simp: numbers_def minor_def tracing_def)
  next
    case (returned r)
    then show ?thesis using plainD [OF assms(2)] by blast
  qed (use o in auto)
qed

lemma log_numbers: "moves Orderly (numbers E) (logA a)"
  by (simp add: logA_def moves_modW numbers_def)

lemma numbering_modR: "ri_options r' = ri_options r \<Longrightarrow> ri_event_sequence r' = ri_event_sequence r \<Longrightarrow> numbers E (r, w) (r', w)"
  by (auto simp: numbers_def)

interpretation numbered: full_frame Orderly "numbers E" "\<lambda>_. True" E for E
  by unfold_locales (auto simp: moves_modR numbering_modR intro: minor_numbers announce_numbers log_numbers)

section \<open>Iterations and loops\<close>

text \<open>An iteration respects a frame when the calls of the current node do.\<close>

context full_frame
begin

lemma moves_iterate:
  assumes "\<And>node current. calls_ok P node current"
  shows "moves c R (iterate E last_result)"
  unfolding iterate_def enter_node_def visit_node_def
  by (intro frame_base moves_observe moves_start_node moves_guard moves_input moves_execute_node moves_finish assms)

lemma moves_run_loop:
  assumes "\<And>last_result. moves c R (iterate E last_result)"
  shows "moves c R (run_loop E fuel last_result)"
  by (induction fuel arbitrary: last_result) (auto intro!: moves_rules assms)

lemma moves_execute_step:
  assumes "\<And>last_result. moves c R (iterate E last_result)"
  shows "moves c R (execute_step E fuel input)"
  unfolding execute_step_def by (intro frame_base moves_initialize moves_run_loop assms)

end

end
