(* ===== verification/Run_Sample.thy ===== *)
theory Run_Sample
  imports Run_Laws
begin

text \<open>
  A small run on which the properties of the engine are evaluated: a workflow with a tool and an end
  node, an environment whose executor answers at once, with and without a trace and a store in memory.
\<close>

definition plain_lib :: jsonlib where
  "plain_lib = \<lparr>jl_parse = (\<lambda>_ _. Inr (JObj [])), jl_write = (\<lambda>_ _. ''{}''), jl_number_text = (\<lambda>_. []),
     jl_double = (\<lambda>_. 0), jl_what = (\<lambda>_. [])\<rparr>"

definition plain_node :: "string \<Rightarrow> NodeType \<Rightarrow> NodeIR" where
  "plain_node k t = \<lparr>nd_id = k, nd_name = k, nd_executor = ''exec'', nd_idempotency_key = [], nd_join = [],
     nd_type = t, nd_enabled = True, nd_guarantees = False, nd_input = JObj [], nd_config = JObj [],
     nd_policy = JObj [], nd_effect = Pure, nd_replay = Safe, nd_timeout_ms = 0, nd_retry_delay_ms = 0,
     nd_retry_jitter_ms = 0, nd_max_attempts = 1, nd_retry_backoff = ''fixed'', nd_next = [], nd_error = [],
     nd_branches = []\<rparr>"

definition plain_edge :: "string \<Rightarrow> EdgeIR" where
  "plain_edge k = \<lparr>ed_target = k, ed_condition = [], ed_otherwise = False, ed_set = JObj [], ed_loop = JObj [], ed_max_hits = 0\<rparr>"

definition flow_of :: "NodeIR list \<Rightarrow> WorkflowIR" where
  "flow_of nodes = \<lparr>wf_id = ''flow'', wf_entry = ''a'', wf_digest = ''digest'', wf_max_steps = 10, wf_timeout_ms = 0,
     wf_max_parallel = 1, wf_nodes = nodes, wf_index = zip (map nd_id nodes) [0..<length nodes]\<rparr>"

definition tool_flow :: WorkflowIR where
  "tool_flow = flow_of [(plain_node ''a'' Tool)\<lparr>nd_next := [plain_edge ''z'']\<rparr>, plain_node ''z'' End]"

definition started_run :: "WorkflowIR \<Rightarrow> run_options \<Rightarrow> run_impl" where
  "started_run w opt = (new_run w opt [])\<lparr>ri_initialized := True, ri_current := ''a'', ri_run := JObj [(''id'', JStr ''run-1'')]\<rparr>"

definition plain_env :: "memory_store env" where
  "plain_env = \<lparr>en_lib = plain_lib, en_tracing = False, en_executors = [''exec''], en_async_executors = [],
     en_workflows = [], en_policy = None,
     en_call = (\<lambda>_ _ _ _. \<lparr>cr_result = Inr (ok_result (JObj [])), cr_committed = True, cr_in_time = True\<rparr>),
     en_start = (\<lambda>_ _ _ _. \<lparr>as_throws = None, as_completes = None, as_committed = False\<rparr>),
     en_child = (\<lambda>_ _. None), en_leases = None, en_store = None, en_inject = (\<lambda>_ _ _. False),
     en_elapsed = (\<lambda>_. 0), en_unix = (\<lambda>_. 0)\<rparr>"

definition plain_world :: "memory_store world" where
  "plain_world = \<lparr>wd_tick = 0, wd_store = [], wd_trace = [], wd_next_run_id = 1, wd_next_recovery_owner = 1,
     wd_replay = [], wd_log = []\<rparr>"

text \<open>The memory store as a store of the host, and a workflow whose tool writes to the outside.\<close>

definition memory_ops :: "memory_store store_ops" where
  "memory_ops = \<lparr>so_load = (\<lambda>k m. (m, Inr (mem_load m k))),
     so_compare_exchange = (\<lambda>k v text m. map_prod id Inr (mem_compare_exchange m k v text)),
     so_claim = (\<lambda>k v owner m. map_prod id Inr (mem_claim m k v owner)),
     so_erase = (\<lambda>k m. map_prod id Inr (mem_erase m k))\<rparr>"

definition store_env :: "memory_store env" where
  "store_env = plain_env\<lparr>en_store := Some memory_ops\<rparr>"

definition write_node :: NodeIR where
  "write_node = (plain_node ''a'' Tool)\<lparr>nd_effect := ExternalWrite, nd_replay := Idempotent, nd_next := [plain_edge ''z'']\<rparr>"

definition write_flow :: WorkflowIR where
  "write_flow = flow_of [write_node, plain_node ''z'' End]"

lemmas plain_defs = plain_node_def plain_edge_def flow_of_def tool_flow_def started_run_def
  plain_env_def plain_world_def new_run_def default_options_def

lemma plain_reparse [simp]: "reparse plain_lib j = Inr (JObj [])"
  by (simp add: reparse_def parse_json_def write_json_def plain_lib_def)

lemma plain_parse [simp]: "parse_json plain_lib text = (if 16777216 < length text then Inl (Thrown ''JSON exceeds 16 MiB limit'') else Inr (JObj []))"
  by (simp add: parse_json_def plain_lib_def)

lemma plain_write [simp]: "write_json plain_lib j styled = ''{}''"
  by (simp add: write_json_def plain_lib_def)

lemmas json_eval = j_get_def j_at_def j_put_def is_member_def member_names_def get_string_def get_bool_def
  get_u64_def get_u32_def run_id_def remove_member_def

lemmas step_eval = run_eval json_eval iterate_def enter_node_def observe_def check_limits_def elapsedA_def askA_def tickA_def
  inject_def set_run_def start_node_def set_status_def event_def announce_def bump_def emit_def visit_node_def
  guard_effect_def fence_effect_def effect_blocked_def has_effect_def not_replayable_def resolve_input_def read_outputs_def
  edge_scope_def execute_node_def run_executor_def run_sync_def attempts_of_def needs_executor_def
  finish_node_def record_result_def check_quotas_def over_quota_def json_size_def next_node_def set_outputs_def
  workflow_timeout_def fresh_def find_node_def logA_def Let_def persist_or_return_def persist_def

lemmas node_eval = sync_attempts.simps sync_attempt_def perform_attempt_def call_executor_def acquire_lease_def settle_effect_def
  select_edge.simps edge_matches_def follow_edge_def set_values_def pass_loop_def pass_hits_def complete_run_def
  set_state_def erase_children_def read_state_def touch_state_def remaining_ms_def attempt_timeout_def
  exec_ctx_def at_attempt_def ok_result_def no_error_def bindR_def

text \<open>Evaluation goes from left to right: the continuation of an action is rewritten only once its argument is known.\<close>

lemma act_cong:
  "m = m' \<Longrightarrow> bindA m f = bindA m' f" "a = a' \<Longrightarrow> thenA a b = thenA a' b" "c = c' \<Longrightarrow> whenA c d = whenA c' d"
  by simp_all

lemmas weak_congs = act_cong let_weak_cong prod.case_cong_weak

lemmas sample_eval = execute_step_def run_loop.simps step_eval plain_defs node_eval

lemmas store_eval = store_env_def memory_ops_def store_compare_exchange_def storeA_def call_state_provider_def
  mem_compare_exchange_def mem_slot_def default_record_def write_flow_def write_node_def prepare_effect_def effect_key_def
  replace_token.simps effect_status_def checkpoint_def

text \<open>What a run logs: the nodes whose executors are called, and the versions that are saved.\<close>

fun called :: "action \<Rightarrow> string option" where
  "called (Called executor ctx input) = Some (xc_node_id ctx)"
| "called _ = None"

lemma sample_calls:
  "map called (wd_log (snd (fst (execute_step plain_env (Suc (Suc (Suc 0))) (JObj [])
     (started_run tool_flow default_options, plain_world))))) = [Some ''a'']"
  by (simp add: sample_eval cong: weak_congs)

lemma sample_write:
  "map called (wd_log (snd (fst (execute_step store_env (Suc (Suc (Suc 0))) (JObj [])
     (started_run write_flow default_options, plain_world))))) = [None, Some ''a'', None, None, None]"
  by (simp add: sample_eval store_eval cong: weak_congs)

lemma sample_traced:
  "case execute_step (plain_env\<lparr>en_tracing := True\<rparr>) (Suc (Suc (Suc 0))) (JObj [])
     (started_run tool_flow default_options, plain_world) of (st, x) \<Rightarrow> orderly x \<and> length (wd_trace (snd st)) = 9"
  by (simp add: sample_eval cong: weak_congs)

end
