(* ===== verification/Run_Loop.thy ===== *)
theory Run_Loop
  imports Run_Sample
begin

text \<open>
  Termination of the loop of \<open>execute_step\<close>: a run without pending work counts a step in every iteration
  and has no pending work again when the iteration goes on, so the maximum of steps bounds the loop.
\<close>

section \<open>Actions that keep a view of the run\<close>

definition keeps :: "(run_impl \<Rightarrow> 'v) \<Rightarrow> run_impl \<times> 's world \<Rightarrow> run_impl \<times> 's world \<Rightarrow> bool" where
  "keeps view st st' = (view (fst st') = view (fst st))"

text \<open>
  A view that depends on the workflow, the retry budget and the pending work only is kept by the rest of
  the engine; one that does not depend on the budget is kept by retries as well.
\<close>

locale run_view =
  fixes view :: "run_impl \<Rightarrow> 'v"
  assumes view_depends: "ri_workflow r' = ri_workflow r \<Longrightarrow> awaited r' = awaited r \<Longrightarrow>
    ri_retry_remaining r' = ri_retry_remaining r \<Longrightarrow> view r' = view r"
begin

lemma keeps_quiet: "quiet m \<Longrightarrow> moves Always (keeps view) m"
  by (auto simp: moves_def minor_def keeps_def simp del: awaited_def intro: view_depends)

lemma keeps_modR: "(\<And>r. view (f r) = view r) \<Longrightarrow> moves Always (keeps view) (modR f)"
  by (simp add: moves_modR keeps_def)

lemma keeps_modW: "moves Always (keeps view) (modW f)"
  by (simp add: moves_modW keeps_def)

end

sublocale run_view \<subseteq> keeping: action_frame Always "keeps view"
  by unfold_locales (simp_all add: keeps_def)

context run_view
begin

lemma keeps_announce: "quiet pre \<Longrightarrow> moves Always (keeps view) (announce E pre name node attempt result payload level)"
  unfolding announce_def bump_def emit_def
  by (intro keeping.moves_rules keeps_quiet [OF quiet_ask] keeps_modR keeps_modW keeps_quiet [of pre] view_depends)
    simp_all

end

sublocale run_view \<subseteq> kept: engine_frame Always "keeps view" "\<lambda>_. True" E for E
proof
  fix st st' :: "run_impl \<times> 's world"
  show "minor st st' \<Longrightarrow> keeps view st st'"
    by (auto simp: minor_def keeps_def simp del: awaited_def intro: view_depends)
qed (auto simp: logA_def intro: keeps_announce keeps_modW)

locale work_view = run_view +
  assumes view_retry: "view (r\<lparr>ri_retry_remaining := n\<rparr>) = view r"

sublocale work_view \<subseteq> worked: retry_frame Always "keeps view" "\<lambda>_. True" E for E
  by unfold_locales (simp add: moves_modR keeps_def view_retry)

section \<open>How an action ends\<close>

definition concludes :: "(run_impl \<times> 's world \<Rightarrow> 'a \<Rightarrow> bool) \<Rightarrow> ('s, 'a) act \<Rightarrow> bool" where
  "concludes Q m = (\<forall>st st' x. m st = (st', Done x) \<longrightarrow> Q st' x)"

lemma concludesD: "concludes Q m \<Longrightarrow> m st = (st', Done x) \<Longrightarrow> Q st' x"
  unfolding concludes_def by blast

lemma concludes_bind:
  assumes "\<And>x. concludes Q (f x)"
  shows "concludes Q (bindA m f)"
  unfolding concludes_def
proof (intro allI impI)
  fix st st' y
  assume "bindA m f st = (st', Done y)"
  then show "Q st' y" by (cases rule: bindA_outcomes) (auto dest: concludesD [OF assms])
qed

lemma concludes_then: "concludes Q m' \<Longrightarrow> concludes Q (thenA m m')"
  unfolding thenA_def by (rule concludes_bind)

lemma concludes_return: "concludes Q (returnA r)"
  by (simp add: concludes_def returnA_def)

lemma concludes_modR: "(\<And>r w. Q (f r, w) x) \<Longrightarrow> concludes Q (thenA (modR f) (retA x))"
  by (auto simp: concludes_def run_eval)

lemma concludes_cases:
  "(b \<Longrightarrow> concludes Q m) \<Longrightarrow> (\<not> b \<Longrightarrow> concludes Q m') \<Longrightarrow> concludes Q (if b then m else m')"
  "concludes Q m \<Longrightarrow> (\<And>y. concludes Q (g y)) \<Longrightarrow> concludes Q (case z of None \<Rightarrow> m | Some y \<Rightarrow> g y)"
  "(\<And>a b. concludes Q (h a b)) \<Longrightarrow> concludes Q (case p of (a, b) \<Rightarrow> h a b)"
  by (cases z; cases p; simp)+

section \<open>Iterations without pending work\<close>

definition calm :: "run_impl \<Rightarrow> bool" where
  "calm r = (\<not> ri_async_pending r \<and> \<not> ri_subflow_pending r \<and> ri_parallel r = None)"

text \<open>An action that ends keeps the step, and leaves no pending work where there was none.\<close>

definition settles :: "run_impl \<times> 's world \<Rightarrow> run_impl \<times> 's world \<Rightarrow> bool" where
  "settles st st' = (ri_workflow (fst st') = ri_workflow (fst st) \<and> ri_step (fst st') = ri_step (fst st) \<and>
     (calm (fst st) \<longrightarrow> calm (fst st')))"

interpretation settled: action_frame Ended settles
  by unfold_locales (auto simp: settles_def)

interpretation steady: work_view "\<lambda>r. (ri_workflow r, awaited r)"
  by unfold_locales simp_all

interpretation branching: work_view "\<lambda>r. (ri_workflow r, ri_step r, ri_async_pending r, ri_subflow_pending r)"
  by unfold_locales simp_all

interpretation branches: parallel_frame Always
  "keeps (\<lambda>r. (ri_workflow r, ri_step r, ri_async_pending r, ri_subflow_pending r))" "\<lambda>_. True" E for E
  by unfold_locales (simp add: moves_modR keeps_def)

interpretation calling: work_view "\<lambda>r. (ri_workflow r, ri_step r, ri_async_pending r, ri_parallel r)"
  by unfold_locales simp_all

lemma steady_settles: "moves Always (keeps (\<lambda>r. (ri_workflow r, awaited r))) m \<Longrightarrow> moves Ended settles m"
  by (auto simp: moves_def keeps_def settles_def calm_def)

lemma concludes_settles: "concludes (\<lambda>_ _. False) m \<Longrightarrow> moves Ended settles m"
  by (rule movesI) (metis concludesD covers.simps(2-4) coverage.distinct(1) coverage.distinct(3) out.exhaust)

text \<open>Where an action concludes without the pending work it may have started, that work need not be looked at.\<close>

lemma settles_concluded:
  fixes m :: "('s, 'a) act"
  assumes "moves Always (keeps v) m" and "concludes (\<lambda>st _. Q (fst st)) m"
    and "\<And>st st' :: run_impl \<times> 's world. keeps v st st' \<Longrightarrow> Q (fst st') \<Longrightarrow> settles st st'"
  shows "moves Ended settles m"
proof (rule movesI)
  fix st st' x
  assume "m st = (st', x)" and "covers Ended x"
  then obtain y where d: "m st = (st', Done y)" by (cases x) auto
  then have "keeps v st st'" using movesD [OF assms(1) d] by simp
  then show "settles st st'" using concludesD [OF assms(2) d] by (rule assms(3))
qed

lemma settles_parallel: "moves Ended settles (run_parallel E node current result)"
proof (rule settles_concluded [OF branches.moves_parallel])
  show "concludes (\<lambda>st _. ri_parallel (fst st) = None) (run_parallel E node current result)"
    unfolding run_parallel_def Let_def by (intro concludes_bind concludes_then concludes_modR) simp
qed (simp add: keeps_def settles_def calm_def)

lemma settles_steady_parts: "moves Ended settles (liftA x)" "moves Ended settles getR" "moves Ended settles (retA y)"
  by (rule steady_settles, rule steady.keeping.moves_pure)+

lemma settles_modR: "(\<And>r. settles (r, undefined) (f r, undefined)) \<Longrightarrow> moves Ended settles (modR f)"
  by (simp add: moves_modR settles_def)

lemma settles_child:
  "moves Ended settles (thenA (modR (\<lambda>r. r\<lparr>ri_subflow_pending := True, ri_subflow_ready := False, ri_subflow_node := k\<rparr>))
     (bindA (liftA x) (\<lambda>input. thenA (logA (Launched child input)) (bindA (askA f) (\<lambda>finished. case finished of
        None \<Rightarrow> returnA e
      | Some result \<Rightarrow> thenA (modR (\<lambda>r. clear_subflow (r\<lparr>ri_subflow_result := result\<rparr>))) (retA result))))))"
    (is "moves Ended settles ?m")
proof (rule settles_concluded)
  show "moves Always (keeps (\<lambda>r. (ri_workflow r, ri_step r, ri_async_pending r, ri_parallel r))) ?m"
    by (intro calling.kept.frame_base calling.keeps_modR) (simp_all add: clear_subflow_def)
  show "concludes (\<lambda>st _. \<not> ri_subflow_pending (fst st)) ?m"
    by (intro concludes_bind concludes_then concludes_cases concludes_return concludes_modR) (simp add: clear_subflow_def)
qed (simp add: keeps_def settles_def calm_def)

lemma settles_subflow: "moves Ended settles (run_subflow E node current continuing node_input)"
  unfolding run_subflow_def Let_def
  by (intro settled.moves_rules settles_modR settles_child) (simp add: settles_def calm_def clear_subflow_def)

lemma settles_continue: "moves Ended settles (continue_async E node current)"
  unfolding continue_async_def Let_def
  by (intro settled.moves_rules settles_modR steady.kept.moves_settle_async [THEN steady_settles]
      steady.worked.moves_retry_async [THEN steady_settles] steady.kept.moves_release [THEN steady_settles])
    (simp_all add: settles_def calm_def clear_async_def)

lemma settles_launch: "moves Ended settles (launch_async E node current ctx timeout lease node_input)"
  unfolding launch_async_def
  by (intro concludes_settles concludes_then concludes_bind concludes_cases concludes_return)

lemma settles_start: "moves Ended settles (start_async E node current continuing_retry node_input)"
  unfolding start_async_def Let_def
  by (intro settled.moves_rules settles_modR settles_launch steady.kept.moves_acquire [THEN steady_settles]
      quiet_elapsed [THEN steady.keeps_quiet, THEN steady_settles]) (simp_all add: settles_def calm_def)

lemma settles_executor: "moves Ended settles (run_executor E node current fl node_input result)"
  unfolding run_executor_def run_sync_def Let_def
  by (intro settled.moves_rules settles_continue settles_start
      steady.worked.moves_sync_attempts [THEN steady_settles] quiet_replay [THEN steady.keeps_quiet, THEN steady_settles])
    (simp add: calls_ok_def)

lemma settles_execute_node: "moves Ended settles (execute_node E node current fl committed node_input)"
  unfolding execute_node_def
  by (intro settled.moves_rules settles_modR settles_subflow settles_executor settles_parallel
      quiet_state [THEN steady.keeps_quiet, THEN steady_settles]) (simp add: settles_def calm_def)

lemma settles_visit: "moves Ended settles (visit_node E node current fl)"
  unfolding visit_node_def
  by (intro settled.moves_bind settles_execute_node steady.kept.moves_guard [THEN steady_settles]
      steady.kept.moves_input [THEN steady_settles] steady.kept.moves_finish [THEN steady_settles])

section \<open>The loop\<close>

definition at_rest :: flags where
  "at_rest = \<lparr>fl_async = False, fl_retry = False, fl_parallel = False, fl_subflow = False\<rparr>"

lemma observe_calm: "calm r \<Longrightarrow> observe (r, w) = ((r, w), Done at_rest)"
  by (simp add: observe_def calm_def at_rest_def run_eval Let_def)

lemma check_limits_counts:
  assumes "check_limits E at_rest (r, w) = (st', Done ())"
  shows "fst st' = r\<lparr>ri_step := ri_step r + 1\<rparr> \<and> ri_step r + 1 \<le> wf_max_steps (ri_workflow r)"
  using assms
  by (auto simp: check_limits_def at_rest_def fresh_def run_eval elapsedA_def askA_def tickA_def split: if_splits)

lemma settles_inject: "moves Ended settles (inject E point node message)"
  by (rule steady_settles [OF steady.keeps_quiet [OF quiet_inject]])

lemma settles_enter: "moves Ended settles (enter_node E w current fl)"
  unfolding enter_node_def
  by (intro settled.moves_rules settles_inject settles_visit steady.kept.moves_start_node [THEN steady_settles]
      quiet_state [THEN steady.keeps_quiet, THEN steady_settles])

lemma cancelled_leaves: "thenA (event E name node attempt result payload level) (returnA x) st \<noteq> (st', Done y)"
  by (rule notI) (erule concludesD [where Q = "\<lambda>_ _. False", OF concludes_then [OF concludes_return]])

text \<open>The iteration of a run without pending work.\<close>

definition rested :: "'s env \<Rightarrow> exec_result \<Rightarrow> run_impl \<Rightarrow> ('s, exec_result) act" where
  "rested E last_result r =
    (if ri_cancelled r then
       thenA (event E ''run_cancelled'' (ri_current r) 0 None [] Full)
       (returnA (fail_result ''cancelled'' ''CANCELLED'' (ct_reason (ri_cancellation r))))
     else if ri_stop_before r \<noteq> [] \<and> ri_current r = ri_stop_before r then returnA last_result
     else thenA (check_limits E at_rest) (enter_node E (ri_workflow r) (ri_current r) at_rest))"

lemma iterate_rested: "calm r \<Longrightarrow> iterate E last_result (r, w) = rested E last_result r (r, w)"
  by (simp add: iterate_def rested_def bindA_eval bindA_def [of observe] observe_calm)

lemma iterate_counts:
  assumes i: "iterate E last_result (r, w) = (st', Done x)" and c: "calm r"
  shows "calm (fst st') \<and> ri_workflow (fst st') = ri_workflow r \<and> ri_step (fst st') = ri_step r + 1 \<and>
    ri_step r + 1 \<le> wf_max_steps (ri_workflow r)"
proof -
  have "bindA (check_limits E at_rest) (\<lambda>_. enter_node E (ri_workflow r) (ri_current r) at_rest) (r, w) = (st', Done x)"
    using i by (auto simp: iterate_rested [OF c] rested_def cancelled_leaves returnA_def
        thenA_def [of "check_limits E at_rest"] split: if_splits)
  then obtain st1 where l: "check_limits E at_rest (r, w) = (st1, Done ())"
      and t: "enter_node E (ri_workflow r) (ri_current r) at_rest st1 = (st', Done x)"
    by (cases rule: bindA_outcomes) auto
  have "settles st1 st'" using movesD [OF settles_enter t] by simp
  then show ?thesis using check_limits_counts [OF l] c by (simp add: settles_def calm_def)
qed

text \<open>Fuel for every remaining step and for the iterations that find the run at its end.\<close>

definition steps_left :: "run_impl \<Rightarrow> nat" where
  "steps_left r = unat (wf_max_steps (ri_workflow r)) - unat (ri_step r)"

lemma run_loop_fuel:
  assumes "calm r" and "wf_max_steps (ri_workflow r) \<noteq> -1" and "ri_step r \<le> wf_max_steps (ri_workflow r)"
    and "steps_left r < fuel" and "steps_left r < fuel'"
  shows "run_loop E fuel last_result (r, w) = run_loop E fuel' last_result (r, w)"
  using assms
proof (induction "steps_left r" arbitrary: r w fuel fuel' last_result rule: less_induct)
  case less
  obtain n n' where f: "fuel = Suc n" "fuel' = Suc n'" using less.prems(4,5) by (metis less_iff_Suc_add add_Suc_right)
  show ?case
  proof (cases "ri_current r = []")
    case True
    then show ?thesis by (simp add: f run_eval)
  next
    case False
    have "bindA (iterate E last_result) (run_loop E n) (r, w) = bindA (iterate E last_result) (run_loop E n') (r, w)"
    proof (cases "iterate E last_result (r, w)")
      case (Pair st' y)
      show ?thesis
      proof (cases y)
        case (Done x)
        obtain r' w' where st': "st' = (r', w')" by (cases st')
        have i: "calm r'" "ri_workflow r' = ri_workflow r" "ri_step r' = ri_step r + 1"
          "ri_step r + 1 \<le> wf_max_steps (ri_workflow r)"
          using iterate_counts [of E last_result r w st' x] Pair Done less.prems(1) st' by auto
        have "ri_step r \<noteq> -1" using less.prems(2,3) word_order.extremum_unique by force
        then have u: "unat (ri_step r + 1) = Suc (unat (ri_step r))" by (rule unat_u64_succ)
        then have "steps_left r' < steps_left r" using i by (simp add: steps_left_def word_le_nat_alt)
        moreover from this have "steps_left r' < n" "steps_left r' < n'" using less.prems(4,5) f by auto
        ultimately show ?thesis using less.hyps [of r' n n' x w'] i less.prems(2)
          by (simp add: bindA_def Pair Done st')
      qed (simp_all add: bindA_def Pair)
    qed
    then show ?thesis using False by (simp add: f bindA_eval)
  qed
qed

section \<open>The batches of a parallel node\<close>

text \<open>The branches of a parallel node, the size of a batch and the index of the next branch to launch.\<close>

definition window :: "run_impl \<Rightarrow> (string list \<times> nat \<times> nat) option" where
  "window r = map_option (\<lambda>p. (pc_branches p, pc_max_parallel p, pc_next_index p)) (ri_parallel r)"

interpretation windowed: work_view window
  by unfold_locales (simp_all add: window_def)

lemma window_modP:
  assumes "\<And>p. pc_branches (f p) = pc_branches p" and "\<And>p. pc_max_parallel (f p) = pc_max_parallel p"
    and "\<And>p. pc_next_index (f p) = pc_next_index p"
  shows "moves Always (keeps window) (modP f)"
  unfolding modP_def using assms by (auto simp: moves_modR keeps_def window_def option.map_comp o_def intro!: option.map_cong)

lemma window_collect: "moves Always (keeps window) (collect_branch E completed)"
  unfolding collect_branch_def by (intro windowed.kept.frame_base window_modP) simp_all

lemma window_start: "moves Always (keeps window) (start_branch E current p branch)"
  unfolding start_branch_def
  by (intro windowed.kept.frame_base window_modP) (simp_all add: branch_done_def Let_def)

lemma window_launch:
  assumes "launch_branch E current p branch st = (st', Done x)" and "window (fst st) = Some (bs, m, n)"
  shows "window (fst st') = Some (bs, m, Suc n)"
  using assms(1) unfolding launch_branch_def thenA_def
proof (cases rule: bindA_outcomes)
  case (ended st1 y)
  have "keeps window st1 st'" using movesD [OF window_start ended(2)] by simp
  moreover have "window (fst st1) = Some (bs, m, Suc n)"
    using ended(1) assms(2) by (auto simp: modP_def modR_def window_def)
  ultimately show ?thesis by (simp add: keeps_def)
qed simp_all

lemma window_launches:
  assumes "forA branches (launch_branch E current p) st = (st', Done x)" and "window (fst st) = Some (bs, m, n)"
  shows "window (fst st') = Some (bs, m, n + length branches)"
  using assms
proof (induction branches arbitrary: st n)
  case Nil
  then show ?case by (simp add: retA_def)
next
  case (Cons b branches)
  from Cons.prems(1) have "bindA (launch_branch E current p b) (\<lambda>_. forA branches (launch_branch E current p)) st = (st', Done x)"
    by (simp add: thenA_def)
  then show ?case
  proof (cases rule: bindA_outcomes)
    case (ended st1 y)
    then show ?thesis using Cons.IH [OF ended(2) window_launch [OF ended(1) Cons.prems(2)]] by simp
  qed simp_all
qed

lemma window_batch:
  assumes "launch_batch E current p st = (st', Done x)" and "window (fst st) = Some (bs, m, n)"
    and "pc_branches p = bs" and "pc_max_parallel p = m" and "pc_next_index p = n"
  shows "window (fst st') = Some (bs, m, n + min m (length bs - n))"
proof -
  let ?all = "forA (take m (drop n bs)) (launch_branch E current p)"
  let ?opening = "modP (\<lambda>p. p\<lparr>pc_launching := True\<rparr>)" and ?finish = "modP (\<lambda>p. p\<lparr>pc_launching := False, pc_batch_ready := (pc_batch_ready p \<or> pc_in_flight p = 0)\<rparr>)"
  have "bindA ?opening (\<lambda>_. bindA ?all (\<lambda>_. ?finish)) st = (st', Done x)"
    using assms by (simp add: launch_batch_def thenA_def)
  then obtain st1 st2 y where b: "?opening st = (st1, Done y)" and l: "?all st1 = (st2, Done ())" and f: "?finish st2 = (st', Done x)"
    by (elim bindA_outcomes) (auto elim: bindA_outcomes)
  have "keeps window st st1" using movesD [OF window_modP b] by simp
  then have w: "window (fst st1) = Some (bs, m, n)" using assms(2) by (simp add: keeps_def)
  have "keeps window st2 st'" using movesD [OF window_modP f] by simp
  then show ?thesis using window_launches [OF l w] by (simp add: keeps_def)
qed

lemma bindA_same:
  assumes "\<And>st' x. m st = (st', Done x) \<Longrightarrow> f x st' = g x st'"
  shows "bindA m f st = bindA m g st"
  using assms by (auto simp: bindA_def split: prod.splits out.splits)

lemma thenA_same: "(\<And>st'. m st = (st', Done ()) \<Longrightarrow> f st' = g st') \<Longrightarrow> thenA m f st = thenA m g st"
  unfolding thenA_def by (rule bindA_same) simp

lemma getP_window:
  "concludes (\<lambda>st p. window (fst st) = Some (pc_branches p, pc_max_parallel p, pc_next_index p)) getP"
  by (auto simp: concludes_def getP_def bindA_eval window_def terminateA_def retA_def split: option.splits)

lemma window_collect_batch:
  assumes "collect_batch E st = (st', Done p)"
  shows "window (fst st') = window (fst st) \<and> window (fst st') = Some (pc_branches p, pc_max_parallel p, pc_next_index p)"
proof
  have "moves Always (keeps window) (collect_batch E)"
    unfolding collect_batch_def getP_def by (intro windowed.kept.frame_base window_modP window_collect) simp_all
  then show "window (fst st') = window (fst st)" using assms by (auto dest: movesD simp: keeps_def)
  have "concludes (\<lambda>st p. window (fst st) = Some (pc_branches p, pc_max_parallel p, pc_next_index p)) (collect_batch E)"
    unfolding collect_batch_def
    by (intro concludes_bind concludes_then concludes_cases concludes_return getP_window)
  then show "window (fst st') = Some (pc_branches p, pc_max_parallel p, pc_next_index p)" using assms by (rule concludesD)
qed

text \<open>Enough fuel is one unit for every branch that is not yet launched, and one more.\<close>

lemma parallel_loop_fuel:
  assumes "window (fst st) = Some (bs, m, n)" and "0 < m" and "length bs - n < fuel" and "length bs - n < fuel'"
  shows "parallel_loop E current fuel result st = parallel_loop E current fuel' result st"
  using assms
proof (induction "length bs - n" arbitrary: n st fuel fuel' rule: less_induct)
  case less
  obtain k k' where f: "fuel = Suc k" "fuel' = Suc k'" using less.prems(3,4) by (metis less_iff_Suc_add add_Suc_right)
  show ?case
    unfolding parallel_loop.simps [of E current fuel] parallel_loop.simps [of E current fuel']
  proof (rule bindA_same)
    fix st1 p
    assume c: "collect_batch E st = (st1, Done p)"
    have w: "window (fst st1) = Some (bs, m, n)" and p: "pc_branches p = bs" "pc_max_parallel p = m" "pc_next_index p = n"
      using window_collect_batch [OF c] less.prems(1) by auto
    have "thenA (launch_batch E current p) (parallel_loop E current k result) st1 =
        thenA (launch_batch E current p) (parallel_loop E current k' result) st1" if "n < length bs"
    proof (rule thenA_same)
      fix st2
      assume "launch_batch E current p st1 = (st2, Done ())"
      from window_batch [OF this w p] have w2: "window (fst st2) = Some (bs, m, n + min m (length bs - n))" .
      show "parallel_loop E current k result st2 = parallel_loop E current k' result st2"
        by (rule less.hyps [OF _ w2 less.prems(2)]) (use that less.prems(2-4) f in auto)
    qed
    then show "(case parallel_stop p result of Some final \<Rightarrow> retA final
        | None \<Rightarrow> (case fuel of 0 \<Rightarrow> terminateA
          | Suc fuel \<Rightarrow> thenA (launch_batch E current p) (parallel_loop E current fuel result))) st1 =
      (case parallel_stop p result of Some final \<Rightarrow> retA final
        | None \<Rightarrow> (case fuel' of 0 \<Rightarrow> terminateA
          | Suc fuel \<Rightarrow> thenA (launch_batch E current p) (parallel_loop E current fuel result))) st1"
      by (auto simp: f parallel_stop_def p split: if_splits)
  qed
qed

section \<open>Properties\<close>

text \<open>
  C20. The loop of \<open>execute_step\<close> ends: for a run without pending work whose step is within the maximum, one
  iteration for each remaining step and one more are all that can happen, whatever the workflow, the
  executors and the host do, so any larger allowance gives the same result and the same state. The
  only exception is a maximum of \<open>2^64 - 1\<close>, which the counter can never exceed.
\<close>

theorem execute_step_terminates:
  assumes "calm r" and "wf_max_steps (ri_workflow r) \<noteq> -1" and "ri_step r \<le> wf_max_steps (ri_workflow r)"
    and "steps_left r < fuel"
  shows "execute_step E fuel input (r, w) = execute_step E (Suc (steps_left r)) input (r, w)"
proof -
  have "thenA (whenA (\<not> ri_initialized r) (initialize E input)) (run_loop E fuel (ok_result (JObj []))) (r, w) =
      thenA (whenA (\<not> ri_initialized r) (initialize E input)) (run_loop E (Suc (steps_left r)) (ok_result (JObj []))) (r, w)"
  proof (rule thenA_same)
    fix st
    assume i: "whenA (\<not> ri_initialized r) (initialize E input) (r, w) = (st, Done ())"
    have "moves Always (keeps (\<lambda>r. (ri_workflow r, awaited r))) (whenA (\<not> ri_initialized r) (initialize E input))"
      by (intro steady.keeping.moves_when steady.kept.moves_initialize)
    then have "keeps (\<lambda>r. (ri_workflow r, awaited r)) (r, w) st" using i by (auto dest: movesD)
    then show "run_loop E fuel (ok_result (JObj [])) st = run_loop E (Suc (steps_left r)) (ok_result (JObj [])) st"
      using assms by (cases st) (auto simp: keeps_def calm_def steps_left_def simp del: run_loop.simps intro!: run_loop_fuel)
  qed
  then show ?thesis by (simp add: execute_step_def bindA_eval)
qed

theorem execute_step_terminates_witness:
  "execute_step plain_env 1000 (JObj []) (started_run tool_flow default_options, plain_world) =
   execute_step plain_env 11 (JObj []) (started_run tool_flow default_options, plain_world)"
  using execute_step_terminates [of "started_run tool_flow default_options" 1000 plain_env "JObj []" plain_world]
  by (simp add: calm_def steps_left_def plain_defs del: run_loop.simps)

text \<open>
  The batches of a parallel node end: with a positive batch size, an allowance of one batch per branch
  and one more is never used up: any larger allowance gives the same result and the same state.
\<close>

theorem parallel_batches_terminate:
  assumes "ri_parallel (fst st) = Some p" and "0 < pc_max_parallel p" and "length (pc_branches p) < fuel"
  shows "parallel_loop E current fuel result st = parallel_loop E current (Suc (length (pc_branches p))) result st"
  using assms by (auto simp: window_def intro!: parallel_loop_fuel)

definition fork_run :: run_impl where
  "fork_run = (started_run tool_flow default_options)\<lparr>ri_parallel :=
     Some (new_par ((plain_node ''a'' Parallel)\<lparr>nd_branches := [''b'', ''c'']\<rparr>) ''a'' 1 ''all'' ''wait'' 1)\<rparr>"

theorem parallel_batches_terminate_witness:
  "parallel_loop plain_env ''a'' 7 (ok_result JNull) (fork_run, plain_world) =
   parallel_loop plain_env ''a'' 3 (ok_result JNull) (fork_run, plain_world)"
  using parallel_batches_terminate [of "(fork_run, plain_world)" _ 7 plain_env "''a''" "ok_result JNull"]
  by (simp add: fork_run_def new_par_def plain_node_def eval_nat_numeral)

end
