(* ===== verification/Run_Safety.thy ===== *)
theory Run_Safety
  imports Run_Loop
begin

text \<open>
  Properties of the engine that hold for every workflow, every environment and every state: which
  executors a run may call, how it numbers its events, and what it does with prepared, committed and
  recovered effects.
\<close>

section \<open>The effect policy\<close>

definition fixed :: "WorkflowIR \<Rightarrow> run_options \<Rightarrow> bool \<Rightarrow> run_impl \<Rightarrow> bool" where
  "fixed w opt replaying r = (ri_workflow r = w \<and> ri_options r = opt \<and> ri_deterministic_replay r = replaying)"

definition bound :: "WorkflowIR \<Rightarrow> run_options \<Rightarrow> bool \<Rightarrow> run_impl \<times> 's world \<Rightarrow> run_impl \<times> 's world \<Rightarrow> bool" where
  "bound w opt replaying st st' = (fixed w opt replaying (fst st) \<longrightarrow> logs (permitted w opt replaying) st st')"

interpretation bounded: action_frame Always "bound w opt replaying" for w opt replaying
proof
  fix st :: "run_impl \<times> 's world"
  show "bound w opt replaying st st" by (simp add: bound_def logging.still)
next
  fix st st' st'' :: "run_impl \<times> 's world"
  assume a: "bound w opt replaying st st'" "bound w opt replaying st' st''"
  show "bound w opt replaying st st''"
    unfolding bound_def
  proof
    assume f: "fixed w opt replaying (fst st)"
    then have "logs (permitted w opt replaying) st st'" using a(1) by (simp add: bound_def)
    moreover have "fixed w opt replaying (fst st')" using f \<open>logs _ st st'\<close> by (simp add: fixed_def logs_def)
    ultimately show "logs (permitted w opt replaying) st st''"
      using a(2) unfolding bound_def by (blast intro: logging.composed)
  qed
qed

lemma logs_bound: "moves Always (logs (permitted w opt replaying)) m \<Longrightarrow> moves Always (bound w opt replaying) m"
  by (simp add: moves_def bound_def)

interpretation guarded: full_frame Always "bound w opt replaying" "permitted w opt replaying" E for w opt replaying E
proof
  fix a
  show "\<not> is_call a \<Longrightarrow> permitted w opt replaying a" by (cases a) auto
next
  fix st st' :: "run_impl \<times> 's world"
  show "minor st st' \<Longrightarrow> bound w opt replaying st st'" by (simp add: bound_def minor_logs)
qed (auto simp: moves_modR bound_def logs_def intro: logs_bound announce_logs log_logs)

lemma bound_getR:
  assumes "\<And>r. fixed w opt replaying r \<Longrightarrow> moves Always (bound w opt replaying) (f r)"
  shows "moves Always (bound w opt replaying) (bindA getR f)"
  using assms by (auto simp: moves_def bound_def bindA_eval)

lemma permitted_calls:
  assumes "find_node w current = Some node" and "\<not> replaying" and "\<not> policy_blocks opt replaying node"
  shows "calls_ok (permitted w opt replaying) node current"
  using assms by (simp add: calls_ok_def)

lemma bound_executor:
  assumes "find_node w current = Some node" and "\<not> policy_blocks opt replaying node"
  shows "moves Always (bound w opt replaying) (run_executor E node current fl node_input result)"
proof (cases replaying)
  case True
  show ?thesis
    unfolding run_executor_def Let_def
    by (intro bound_getR) (auto simp: fixed_def True intro!: guarded.from_quiet quiet_rules)
next
  case False
  then show ?thesis using guarded.moves_executor [OF permitted_calls [OF assms(1) False assms(2)]] by simp
qed

lemma bound_execute_node:
  assumes "find_node w current = Some node" and "\<not> policy_blocks opt replaying node"
  shows "moves Always (bound w opt replaying) (execute_node E node current fl committed node_input)"
  unfolding execute_node_def
  by (intro guarded.frame_base guarded.moves_subflow bound_executor [OF assms] guarded.moves_parallel) simp_all

lemma block_node_not_done: "block_node E current st \<noteq> (st', Done x)"
  by (auto simp: block_node_def thenA_def bindA_def returnA_def split: prod.splits out.splits)

lemma guard_blocked:
  assumes "effect_blocked (fst st) node"
  shows "guard_effect E node current fl st \<noteq> (st', Done x)"
proof
  assume "guard_effect E node current fl st = (st', Done x)"
  then have "\<exists>f. bindA (block_node E current) f st = (st', Done x)"
    using assms by (auto simp: guard_effect_def run_eval)
  then obtain f where "bindA (block_node E current) f st = (st', Done x)" by blast
  then show False by (cases rule: bindA_outcomes) (auto simp: block_node_not_done)
qed

lemma bound_guard:
  assumes "\<not> policy_blocks opt replaying node \<Longrightarrow> (\<And>x. moves Always (bound w opt replaying) (f x))"
  shows "moves Always (bound w opt replaying) (bindA (guard_effect E node current fl) f)"
proof (cases "policy_blocks opt replaying node")
  case False
  then show ?thesis using assms by (intro bounded.moves_bind guarded.moves_guard) simp
next
  case True
  show ?thesis
  proof (rule movesI)
    fix st st'' y
    assume b: "bindA (guard_effect E node current fl) f st = (st'', y)"
    show "bound w opt replaying st st''"
    proof (cases "fixed w opt replaying (fst st)")
      case f: True
      then have e: "effect_blocked (fst st) node" using True by (simp add: effect_blocked_policy fixed_def)
      from b have "\<exists>z. guard_effect E node current fl st = (st'', z)"
        by (cases rule: bindA_outcomes) (use guard_blocked [OF e] in auto)
      then show ?thesis using movesD [OF guarded.moves_guard] by fastforce
    qed (simp add: bound_def)
  qed
qed

lemma bound_visit:
  assumes "find_node w current = Some node"
  shows "moves Always (bound w opt replaying) (visit_node E node current fl)"
  unfolding visit_node_def
  by (intro bound_guard guarded.frame_base guarded.moves_input bound_execute_node [OF assms] guarded.moves_finish)

lemma bound_enter: "moves Always (bound w opt replaying) (enter_node E w current fl)"
  unfolding enter_node_def by (intro guarded.frame_base guarded.moves_start_node bound_visit)

lemma bound_iterate: "moves Always (bound w opt replaying) (iterate E last_result)"
  unfolding iterate_def
  by (rule bound_getR) (auto simp: fixed_def intro!: guarded.frame_base guarded.moves_observe bound_enter)

section \<open>Properties\<close>

text \<open>
  C17. The effect policy is enforced: whatever the workflow, the host and the state are, every executor
  call made by \<open>execute_step\<close> is for a node that the run's options and mode permit. In particular a
  shadow run never calls an executor with an external or irreversible effect, a replay run never one
  whose policy forbids repetition, and a deterministic replay calls no executor at all.
\<close>

theorem executor_calls_permitted:
  assumes "execute_step E fuel input (r, wd) = ((r', wd'), x)"
  shows "\<exists>new. wd_log wd' = wd_log wd @ new \<and>
    list_all (permitted (ri_workflow r) (ri_options r) (ri_deterministic_replay r)) new"
proof -
  have "moves Always (bound (ri_workflow r) (ri_options r) (ri_deterministic_replay r)) (execute_step E fuel input)"
    by (rule guarded.moves_execute_step) (rule bound_iterate)
  from movesD [OF this assms] show ?thesis by (simp add: bound_def fixed_def logs_def)
qed

theorem executor_calls_permitted_witness:
  "\<exists>new. wd_log (snd (fst (execute_step plain_env (Suc (Suc (Suc 0))) (JObj [])
       (started_run tool_flow default_options, plain_world)))) = new \<and>
     map called new = [Some ''a''] \<and> list_all (permitted tool_flow default_options False) new"
proof -
  obtain r' wd' x where e: "execute_step plain_env (Suc (Suc (Suc 0))) (JObj [])
      (started_run tool_flow default_options, plain_world) = ((r', wd'), x)" by (metis prod.collapse)
  show ?thesis
    using executor_calls_permitted [OF e] sample_calls e
    by (simp add: plain_world_def started_run_def new_run_def)
qed

text \<open>
  The trace of a run has no gaps: unless an exception interrupts it, \<open>execute_step\<close> numbers the events
  it emits consecutively from the run's event counter on and leaves the counter at the last number, which
  is the order a replay of the trace insists on.
\<close>

theorem trace_numbers_consecutive:
  assumes "execute_step E fuel input (r, wd) = ((r', wd'), x)" and "orderly x" and "tracing E r"
  shows "\<exists>es. wd_trace wd' = wd_trace wd @ es \<and> numbered_from (ri_event_sequence r) es \<and>
    ri_event_sequence r' = ri_event_sequence r + of_nat (length es)"
proof -
  have "moves Orderly (numbers E) (execute_step E fuel input)"
    by (intro numbered.moves_execute_step numbered.moves_iterate) (simp add: calls_ok_def)
  from movesD [OF this assms(1)] show ?thesis using assms(2,3) by (simp add: numbers_def)
qed

theorem trace_numbers_consecutive_witness:
  "\<exists>es. wd_trace (snd (fst (execute_step (plain_env\<lparr>en_tracing := True\<rparr>) (Suc (Suc (Suc 0))) (JObj [])
       (started_run tool_flow default_options, plain_world)))) = es \<and> length es = 9 \<and> numbered_from 0 es"
proof -
  obtain r' wd' x where e: "execute_step (plain_env\<lparr>en_tracing := True\<rparr>) (Suc (Suc (Suc 0))) (JObj [])
      (started_run tool_flow default_options, plain_world) = ((r', wd'), x)" by (metis prod.collapse)
  have "orderly x \<and> length (wd_trace wd') = 9"
    using sample_traced e by simp
  moreover have "tracing (plain_env\<lparr>en_tracing := True\<rparr>) (started_run tool_flow default_options)"
    by (simp add: tracing_def started_run_def new_run_def default_options_def)
  ultimately show ?thesis
    using trace_numbers_consecutive [OF e] e by (auto simp: plain_world_def started_run_def new_run_def)
qed

end
