(* ===== verification/Run_Effects.thy ===== *)
theory Run_Effects
  imports Run_Safety
begin

text \<open>
  External effects: the record of a prepared effect is saved before its executor is called, a committed
  effect is not repeated, and a prepared effect whose policy forbids repetition waits for a person.
\<close>

section \<open>The saved record\<close>

lemma at_path_put: "put_path j path v = Inr j' \<Longrightarrow> at_path j' path = Inr v"
  by (induction j path v arbitrary: j' rule: put_path.induct) (auto simp: bindR_Inr j_at_def j_get_put)

lemma at_path_sibling:
  "put_path j (path @ [k]) v = Inr j' \<Longrightarrow> k' \<noteq> k \<Longrightarrow> at_path j' (path @ [k']) = at_path j (path @ [k'])"
  by (induction path arbitrary: j j') (auto simp: bindR_Inr j_at_def j_get_put)

definition prepared :: "run_impl \<Rightarrow> string \<Rightarrow> bool" where
  "prepared r k = (at_path (ri_state r) [''_effects'', k, ''status''] = Inr (JStr ''prepared''))"

text \<open>A saved checkpoint of a state in which the effect of a node is marked as prepared.\<close>

fun records :: "jsonlib \<Rightarrow> string \<Rightarrow> action \<Rightarrow> bool" where
  "records L k (Saved ident v doc) = (\<exists>r d. prepared r k \<and> parse_json L (checkpoint L r) = Inr d \<and>
     j_put d ''state_version'' (ju64 v) = Inr doc)"
| "records L k _ = False"

definition effectful :: "WorkflowIR \<Rightarrow> string \<Rightarrow> bool" where
  "effectful w k = (case find_node w k of None \<Rightarrow> False | Some node \<Rightarrow> has_effect node)"

text \<open>Every call of an executor with an effect comes after the record of the effect.\<close>

definition written_ahead :: "WorkflowIR \<Rightarrow> jsonlib \<Rightarrow> action list \<Rightarrow> bool" where
  "written_ahead w L acts = (\<forall>xs executor ctx input ys. acts = xs @ Called executor ctx input # ys \<longrightarrow>
     effectful w (xc_node_id ctx) \<longrightarrow> (\<exists>a \<in> set xs. records L (xc_node_id ctx) a))"

lemma written_ahead_append:
  assumes "written_ahead w L acts" and "written_ahead w L acts'"
  shows "written_ahead w L (acts @ acts')"
  unfolding written_ahead_def
proof (intro allI impI)
  fix xs executor ctx input ys
  assume e: "acts @ acts' = xs @ Called executor ctx input # ys" and f: "effectful w (xc_node_id ctx)"
  from e consider (left) us where "acts = xs @ us" "us @ acts' = Called executor ctx input # ys"
    | (right) us where "acts @ us = xs" "acts' = us @ Called executor ctx input # ys"
    by (auto simp: append_eq_append_conv2)
  then show "\<exists>a \<in> set xs. records L (xc_node_id ctx) a"
  proof cases
    case left
    show ?thesis
    proof (cases us)
      case Nil
      then have "acts' = [] @ Called executor ctx input # ys" using left(2) by simp
      then show ?thesis using assms(2) f unfolding written_ahead_def by fastforce
    next
      case (Cons a us')
      then have "acts = xs @ Called executor ctx input # us'" using left by simp
      then show ?thesis using assms(1) f unfolding written_ahead_def by blast
    qed
  next
    case right
    then show ?thesis using assms(2) f unfolding written_ahead_def by fastforce
  qed
qed

definition calls_only :: "string \<Rightarrow> action \<Rightarrow> bool" where
  "calls_only k a = (is_call a \<longrightarrow> called a = Some k)"

lemma written_ahead_calls:
  assumes "list_all (calls_only k) acts'" and "written_ahead w L acts" and "\<exists>a \<in> set acts. records L k a"
  shows "written_ahead w L (acts @ acts')"
  unfolding written_ahead_def
proof (intro allI impI)
  fix xs executor ctx input ys
  assume e: "acts @ acts' = xs @ Called executor ctx input # ys" and f: "effectful w (xc_node_id ctx)"
  from e consider (left) us where "acts = xs @ Called executor ctx input # us"
    | (right) us where "acts @ us = xs" "acts' = us @ Called executor ctx input # ys"
    by (auto simp: append_eq_append_conv2 append_eq_Cons_conv)
  then show "\<exists>a \<in> set xs. records L (xc_node_id ctx) a"
  proof cases
    case left
    then show ?thesis using assms(2) f unfolding written_ahead_def by blast
  next
    case right
    then have "calls_only k (Called executor ctx input)" using assms(1) by simp
    then show ?thesis using assms(3) right(1) by (auto simp: calls_only_def)
  qed
qed

lemma written_ahead_other:
  assumes "list_all (\<lambda>a. is_call a \<longrightarrow> (\<exists>k. called a = Some k \<and> \<not> effectful w k)) acts"
  shows "written_ahead w L acts"
  using assms by (auto simp: written_ahead_def)

section \<open>Preparation\<close>

lemma persist_saves:
  assumes "persist_or_return E st = (st', Done x)" and "en_store E = Some ops"
  shows "\<exists>ident v d doc. wd_log (snd st') = wd_log (snd st) @ [Saved ident v doc] \<and>
    parse_json (en_lib E) (checkpoint (en_lib E) (fst st)) = Inr d \<and> j_put d ''state_version'' (ju64 v) = Inr doc"
  using assms
  by (auto simp: persist_or_return_def persist_def bindA_def thenA_def getR_def liftA_def retA_def returnA_def modR_def
      modW_def logA_def store_compare_exchange_def storeA_def getW_def
      split: sum.splits prod.splits option.splits if_splits out.splits)

lemma set_state_puts:
  "set_state path v st = (st', Done x) \<Longrightarrow> put_path (ri_state (fst st)) path v = Inr (ri_state (fst st')) \<and> snd st' = snd st"
  by (auto simp: set_state_def bindA_def getR_def liftA_def modR_def split: sum.splits)

lemma inject_logs: "inject E point node message st = (st', Done x) \<Longrightarrow> wd_log (snd st') = wd_log (snd st)"
  using movesD [OF quiet_inject, of E point node message st st' "Done x"] by (simp add: minor_def)

lemma bindA_Done: "bindA m f st = (st'', Done y) \<Longrightarrow> \<exists>st' x. m st = (st', Done x) \<and> f x st' = (st'', Done y)"
  by (erule bindA_outcomes) auto

lemma prepare_records:
  assumes "prepare_effect E node current st = (st', Done x)" and "en_store E = Some ops"
  shows "\<exists>a. wd_log (snd st') = wd_log (snd st) @ [a] \<and> records (en_lib E) current a"
proof -
  from assms(1) obtain st1 ident st2 st3 y z
    where p1: "set_state [''_effects'', current, ''status''] (JStr ''prepared'') st = (st1, Done ())"
      and p2: "set_state [''_effects'', current, ''idempotency_key''] (JStr (effect_key E node ident current)) st1 = (st2, Done ())"
      and s: "persist_or_return E st2 = (st3, Done y)"
      and i: "inject E ''after_prepare'' current ''Failure injected after effect prepare.'' st3 = (st', Done z)"
    unfolding prepare_effect_def thenA_def
    by (auto simp: getR_def liftA_def dest!: bindA_Done split: sum.splits)
  have "prepared (fst st1) current"
    unfolding prepared_def by (rule at_path_put [OF conjunct1 [OF set_state_puts [OF p1]]])
  moreover have "at_path (ri_state (fst st2)) ([''_effects'', current] @ [''status'']) =
      at_path (ri_state (fst st1)) ([''_effects'', current] @ [''status''])"
    using set_state_puts [OF p2] by (intro at_path_sibling [where k = "''idempotency_key''"]) auto
  ultimately have "prepared (fst st2) current" by (simp only: prepared_def append.simps)
  moreover obtain ident v d doc where "wd_log (snd st3) = wd_log (snd st2) @ [Saved ident v doc]"
      "parse_json (en_lib E) (checkpoint (en_lib E) (fst st2)) = Inr d" "j_put d ''state_version'' (ju64 v) = Inr doc"
    using persist_saves [OF s assms(2)] by blast
  ultimately show ?thesis
    using inject_logs [OF i] set_state_puts [OF p1] set_state_puts [OF p2] by (intro exI [of _ "Saved ident v doc"]) auto
qed

section \<open>Frames of the log\<close>

lemma logs_full_frame:
  assumes "\<And>a. \<not> is_call a \<Longrightarrow> P a"
  shows "full_frame Always (logs P) P (E :: 's env)"
proof
  fix st st' :: "run_impl \<times> 's world"
  show "minor st st' \<Longrightarrow> logs P st st'" by (rule minor_logs)
qed (auto simp: moves_modR logs_def assms intro: announce_logs log_logs)

interpretation silent: full_frame Always "logs (\<lambda>a. \<not> is_call a)" "\<lambda>a. \<not> is_call a" E for E
  by (rule logs_full_frame)

interpretation single: full_frame Always "logs (calls_only k)" "calls_only k" E for k E
  by (rule logs_full_frame) (simp add: calls_only_def)

lemma guard_records:
  assumes g: "guard_effect E node current at_rest st = (st', Done False)" and "has_effect node"
    and "\<not> ri_deterministic_replay (fst st)" and "en_store E = Some ops"
  shows "\<exists>new. wd_log (snd st') = wd_log (snd st) @ new \<and> list_all (\<lambda>a. \<not> is_call a) new \<and>
    (\<exists>a \<in> set new. records (en_lib E) current a)"
proof -
  have "fence_effect E node current at_rest st = (st', Done False)"
    using g guard_blocked [of st node E current at_rest st' False]
    by (cases "effect_blocked (fst st) node") (auto simp: guard_effect_def run_eval)
  then obtain st1 status where e: "effect_status E current st = (st1, Done status)"
      and t: "thenA (whenA (\<not> ri_deterministic_replay (fst st1) \<and> status \<noteq> ''committed'') (prepare_effect E node current))
        (retA (status = ''committed'')) st1 = (st', Done False)"
    using assms(2) unfolding fence_effect_def
    by (auto simp: at_rest_def bindA_eval returnA_def dest!: bindA_Done split: if_splits)
  have m: "minor st st1" using movesD [OF quiet_effect_status e] by simp
  then have q: "wd_log (snd st1) = wd_log (snd st)" and "\<not> ri_deterministic_replay (fst st1)"
    using assms(3) by (simp_all add: minor_def)
  then have p: "prepare_effect E node current st1 = (st', Done ())"
    using t by (auto simp: thenA_def retA_def when_eval dest!: bindA_Done)
  from prepare_records [OF p assms(4)] obtain a where
    "wd_log (snd st') = wd_log (snd st1) @ [a]" and a: "records (en_lib E) current a" by blast
  then show ?thesis using q a by (cases a) auto
qed

section \<open>Write-ahead\<close>

text \<open>What an action adds to the log of a run of a workflow is written ahead.\<close>

definition ahead :: "WorkflowIR \<Rightarrow> jsonlib \<Rightarrow> run_impl \<times> 's world \<Rightarrow> run_impl \<times> 's world \<Rightarrow> bool" where
  "ahead w L st st' = (ri_workflow (fst st) = w \<longrightarrow> ri_workflow (fst st') = w \<and>
     (\<exists>new. wd_log (snd st') = wd_log (snd st) @ new \<and> written_ahead w L new))"

interpretation aheading: action_frame Always "ahead w L" for w L
proof
  fix st :: "run_impl \<times> 's world"
  show "ahead w L st st" by (auto simp: ahead_def written_ahead_def)
next
  fix st st' st'' :: "run_impl \<times> 's world"
  assume "ahead w L st st'" "ahead w L st' st''"
  then show "ahead w L st st''" by (fastforce simp: ahead_def intro: written_ahead_append)
qed

lemma logs_ahead:
  assumes "logs P st st'" and "\<And>new. list_all P new \<Longrightarrow> written_ahead w L new"
  shows "ahead w L st st'"
  using assms by (auto simp: logs_def ahead_def)

lemma silent_ahead: "moves Always (logs (\<lambda>a. \<not> is_call a)) m \<Longrightarrow> moves Always (ahead w L) m"
  unfolding moves_def
  by (auto intro!: logs_ahead [of "\<lambda>a. \<not> is_call a"] written_ahead_other simp: list_all_iff)

text \<open>What follows the guard of a node.\<close>

definition after_guard :: "'s env \<Rightarrow> NodeIR \<Rightarrow> string \<Rightarrow> flags \<Rightarrow> bool \<Rightarrow> ('s, exec_result) act" where
  "after_guard E node current fl committed =
    bindA (resolve_input E node current) (\<lambda>node_input.
    bindA (execute_node E node current fl committed node_input) (\<lambda>result.
    finish_node E node current node_input result))"

lemma visit_after_guard: "visit_node E node current fl = bindA (guard_effect E node current fl) (after_guard E node current fl)"
  by (simp add: visit_node_def after_guard_def [abs_def])

lemma single_after_guard: "moves Always (logs (calls_only current)) (after_guard E node current fl committed)"
  unfolding after_guard_def
  by (intro logging.moves_bind single.moves_input single.moves_finish single.moves_execute_node)
    (simp add: calls_ok_def calls_only_def)

lemma silent_committed: "moves Always (logs (\<lambda>a. \<not> is_call a)) (after_guard E node current fl True)"
  unfolding after_guard_def execute_node_def if_True
  by (intro logging.moves_rules silent.moves_input silent.moves_finish silent.frame_base)

lemma silent_replay:
  assumes "find_node w current = Some node" and "ri_workflow (fst st) = w" and "ri_deterministic_replay (fst st)"
    and "after_guard E node current fl committed st = (st', x)"
  shows "logs (\<lambda>a. \<not> is_call a) st st'"
proof -
  have "moves Always (bound w (ri_options (fst st)) True) (after_guard E node current fl committed)"
    unfolding after_guard_def
    by (intro bounded.moves_bind guarded.moves_input guarded.moves_finish bound_execute_node [OF assms(1)])
      (simp add: policy_blocks_def)
  then have "logs (permitted w (ri_options (fst st)) True) st st'"
    using assms(2-4) by (auto dest!: movesD simp: bound_def fixed_def)
  moreover have "permitted w opt True a \<Longrightarrow> \<not> is_call a" for opt a by (cases a) auto
  ultimately show ?thesis unfolding logs_def by (auto simp: list_all_iff)
qed

lemma guard_silent: "guard_effect E node current fl st = (st', x) \<Longrightarrow> logs (\<lambda>a. \<not> is_call a) st st'"
  using movesD [OF silent.moves_guard] by fastforce

lemma ahead_guarded:
  assumes n: "find_node w current = Some node" and s: "en_store E = Some ops" and w: "ri_workflow (fst st) = w"
    and g: "guard_effect E node current at_rest st = (st1, Done committed)"
    and a: "after_guard E node current at_rest committed st1 = (st2, x)"
  shows "ahead w (en_lib E) st st2"
proof -
  have g1: "logs (\<lambda>a. \<not> is_call a) st st1" using guard_silent [OF g] .
  have w1: "ri_workflow (fst st1) = w" and d: "ri_deterministic_replay (fst st1) = ri_deterministic_replay (fst st)"
    using g1 w by (simp_all add: logs_def)
  consider (plain) "\<not> has_effect node" | (silent) "committed \<or> ri_deterministic_replay (fst st1)"
    | (fenced) "has_effect node" "committed = False" "\<not> ri_deterministic_replay (fst st)" using d by blast
  then show ?thesis
  proof cases
    case plain
    have "logs (calls_only current) st1 st2" using movesD [OF single_after_guard a] by simp
    then have "ahead w (en_lib E) st1 st2"
      by (rule logs_ahead)
        (auto intro!: written_ahead_other simp: list_all_iff calls_only_def effectful_def n plain)
    moreover have "ahead w (en_lib E) st st1"
      using g1 by (rule logs_ahead) (auto intro!: written_ahead_other simp: list_all_iff)
    ultimately show ?thesis by (rule aheading.composed [rotated])
  next
    case silent
    have "logs (\<lambda>a. \<not> is_call a) st1 st2"
      using silent silent_replay [OF n w1 _ a] movesD [OF silent_committed [of E node current at_rest], of st1 st2 x] a by auto
    then have "logs (\<lambda>a. \<not> is_call a) st st2" using g1 by (blast intro: logging.composed)
    then show ?thesis by (rule logs_ahead) (auto intro!: written_ahead_other simp: list_all_iff)
  next
    case fenced
    have "logs (calls_only current) st1 st2" using movesD [OF single_after_guard a] by simp
    then obtain new' where 2: "wd_log (snd st2) = wd_log (snd st1) @ new'" "list_all (calls_only current) new'"
        "ri_workflow (fst st2) = w" using w1 by (auto simp: logs_def)
    obtain new where 1: "wd_log (snd st1) = wd_log (snd st) @ new" "list_all (\<lambda>a. \<not> is_call a) new"
        "\<exists>a \<in> set new. records (en_lib E) current a"
      using guard_records [OF g [unfolded fenced(2)] fenced(1,3) s] by blast
    have "written_ahead w (en_lib E) new" using 1(2) by (intro written_ahead_other) (auto simp: list_all_iff)
    then have "written_ahead w (en_lib E) (new @ new')" by (rule written_ahead_calls [OF 2(2) _ 1(3)])
    then show ?thesis using 1(1) 2(1,3) by (auto simp: ahead_def)
  qed
qed

lemma ahead_visit:
  assumes "find_node w current = Some node" and "en_store E = Some ops"
  shows "moves Always (ahead w (en_lib E)) (visit_node E node current at_rest)"
proof (rule movesI)
  fix st st' x
  assume v: "visit_node E node current at_rest st = (st', x)"
  show "ahead w (en_lib E) st st'"
  proof (cases "ri_workflow (fst st) = w")
    case w: True
    have g: "ahead w (en_lib E) st st1" if "guard_effect E node current at_rest st = (st1, y)" for st1 y
      using guard_silent [OF that] by (rule logs_ahead) (auto intro!: written_ahead_other simp: list_all_iff)
    from v show ?thesis unfolding visit_after_guard
      by (cases rule: bindA_outcomes) (auto intro: g ahead_guarded [OF assms w])
  qed (simp add: ahead_def)
qed

lemma ahead_enter:
  assumes "en_store E = Some ops"
  shows "moves Always (ahead w (en_lib E)) (enter_node E w current at_rest)"
  unfolding enter_node_def
  by (intro aheading.moves_rules ahead_visit [OF _ assms] silent.moves_start_node [THEN silent_ahead]
      quiet_inject [THEN quiet_logs, THEN silent_ahead] quiet_state [THEN quiet_logs, THEN silent_ahead])

lemma ahead_rested:
  assumes "en_store E = Some ops"
  shows "moves Always (ahead (ri_workflow r) (en_lib E)) (rested E last_result r)"
  unfolding rested_def
  by (intro aheading.moves_rules silent_ahead [OF silent.moves_observe(2)] silent_ahead [OF silent.moves_event]
      ahead_enter [OF assms])

lemma ahead_iterate:
  assumes s: "en_store E = Some ops" and c: "calm r" and i: "iterate E last_result (r, wd) = (st', x)"
  shows "ahead (ri_workflow r) (en_lib E) (r, wd) st'"
  using movesD [OF ahead_rested [OF s] i [unfolded iterate_rested [OF c]]] by simp

lemma ahead_loop:
  assumes s: "en_store E = Some ops" and "calm r" and "run_loop E fuel last_result (r, wd) = (st', x)"
  shows "ahead (ri_workflow r) (en_lib E) (r, wd) st'"
  using assms(2,3)
proof (induction fuel arbitrary: r wd last_result)
  case 0
  then show ?case using aheading.still by (auto simp: terminateA_def)
next
  case (Suc fuel)
  show ?case
  proof (cases "ri_current r = []")
    case True
    then show ?thesis using Suc.prems(2) aheading.still by (auto simp: bindA_eval returnA_def)
  next
    case False
    then have "bindA (iterate E last_result) (run_loop E fuel) (r, wd) = (st', x)"
      using Suc.prems(2) by (simp add: bindA_eval)
    then show ?thesis
    proof (cases rule: bindA_outcomes)
      case (ended st1 y)
      obtain r1 wd1 where st1: "st1 = (r1, wd1)" by (cases st1)
      have "calm r1" "ri_workflow r1 = ri_workflow r"
        using iterate_counts [OF ended(1) Suc.prems(1)] st1 by auto
      then have "ahead (ri_workflow r) (en_lib E) st1 st'" using Suc.IH [of r1 y wd1] ended(2) st1 by simp
      then show ?thesis using ahead_iterate [OF s Suc.prems(1) ended(1)] by (blast intro: aheading.composed)
    qed (use ahead_iterate [OF s Suc.prems(1)] in auto)
  qed
qed

section \<open>Properties\<close>

text \<open>
  C18. Effects are written ahead: in a run with a state store and no pending work, whatever the workflow, the
  host and the store do, every call of an executor with an external or irreversible effect that
  \<open>execute_step\<close> makes comes after the store accepted a checkpoint in which the effect of that node is
  marked as prepared. So a crash during the call leaves a record from which recovery sees that the effect
  may have happened.
\<close>

theorem effect_write_ahead:
  assumes "execute_step E fuel input (r, wd) = ((r', wd'), x)" and "calm r" and "en_store E = Some ops"
  shows "\<exists>new. wd_log wd' = wd_log wd @ new \<and> written_ahead (ri_workflow r) (en_lib E) new"
proof -
  let ?R = "ahead (ri_workflow r) (en_lib E) :: run_impl \<times> 's world \<Rightarrow> _"
  have "?R (r, wd) (r', wd')"
  proof (cases "ri_completed r")
    case True
    then have "stored_result E (r, wd) = ((r', wd'), x)" using assms(1) by (simp add: execute_step_def bindA_eval)
    then show ?thesis using movesD [OF silent_ahead [OF quiet_logs [OF quiet_stored_result]]] by fastforce
  next
    case False
    then have "bindA (whenA (\<not> ri_initialized r) (initialize E input)) (\<lambda>_. run_loop E fuel (ok_result (JObj []))) (r, wd) =
        ((r', wd'), x)" (is "bindA ?init _ _ = _")
      using assms(1) by (simp add: execute_step_def bindA_eval thenA_def)
    moreover have init: "moves Always ?R ?init"
      by (intro aheading.moves_when silent_ahead [OF silent.moves_initialize])
    moreover have keep: "moves Always (keeps (\<lambda>r. (ri_workflow r, awaited r))) ?init"
      by (intro steady.keeping.moves_when steady.kept.moves_initialize)
    ultimately show ?thesis
    proof (cases rule: bindA_outcomes)
      case (ended st1 y)
      obtain r1 wd1 where st1: "st1 = (r1, wd1)" by (cases st1)
      have "keeps (\<lambda>r. (ri_workflow r, awaited r)) (r, wd) st1" using movesD [OF keep ended(1)] by simp
      then have "calm r1" "ri_workflow r1 = ri_workflow r" using assms(2) st1 by (auto simp: keeps_def calm_def)
      then have "?R st1 (r', wd')" using ahead_loop [OF assms(3), of r1] ended(2) st1 by metis
      moreover have "?R (r, wd) st1" using movesD [OF init ended(1)] by simp
      ultimately show ?thesis by (blast intro: aheading.composed)
    qed (use movesD [OF init] in fastforce)+
  qed
  then show ?thesis by (auto simp: ahead_def)
qed

theorem effect_write_ahead_witness:
  "\<exists>new. wd_log (snd (fst (execute_step store_env (Suc (Suc (Suc 0))) (JObj [])
       (started_run write_flow default_options, plain_world)))) = new \<and>
     map called new = [None, Some ''a'', None, None, None] \<and> written_ahead write_flow plain_lib new"
proof -
  obtain r' wd' x where e: "execute_step store_env (Suc (Suc (Suc 0))) (JObj [])
      (started_run write_flow default_options, plain_world) = ((r', wd'), x)" by (metis prod.collapse)
  have "calm (started_run write_flow default_options)" and "en_store store_env = Some memory_ops"
    by (simp_all add: calm_def started_run_def new_run_def store_env_def)
  from effect_write_ahead [OF e this] show ?thesis
    using sample_write e by (simp add: plain_world_def started_run_def new_run_def store_env_def plain_env_def)
qed

text \<open>
  C19. What is settled is not repeated: when the state of a run says that the effect of a node is committed, or
  that it was prepared and the replay policy of the node is neither safe nor idempotent, a visit of the
  node calls no executor. In the second case the run returns the request for a manual decision.
\<close>

theorem settled_effect_not_repeated:
  assumes "effect_status E current (r, wd) = (st, Done status)" and "has_effect node"
    and "status = ''committed'' \<or> status = ''prepared'' \<and> nd_replay node \<noteq> Safe \<and> nd_replay node \<noteq> Idempotent"
    and "visit_node E node current fl (r, wd) = ((r', wd'), x)"
  shows "\<exists>new. wd_log wd' = wd_log wd @ new \<and> list_all (\<lambda>a. \<not> is_call a) new \<and>
    (\<not> effect_blocked r node \<and> status = ''prepared'' \<longrightarrow> x = Return (fail_result ''effect_unknown''
       ''EFFECT_RECOVERY_REQUIRES_MANUAL''
       ''Prepared non-idempotent effect cannot be executed automatically after recovery.''))"
proof -
  have v: "bindA (guard_effect E node current fl) (after_guard E node current fl) (r, wd) = ((r', wd'), x)"
    using assms(4) by (simp add: visit_after_guard)
  have "logs (\<lambda>a. \<not> is_call a) (r, wd) (r', wd')"
    using v
  proof (cases rule: bindA_outcomes)
    case (ended st1 committed)
    have "fence_effect E node current fl (r, wd) = (st1, Done committed)"
      using ended(1) guard_blocked [of "(r, wd)" node E current fl st1 committed]
      by (cases "effect_blocked r node") (auto simp: guard_effect_def run_eval)
    then have "committed"
      using assms(1-3) by (auto simp: fence_effect_def bindA_def [of "effect_status E current"] bindA_eval run_eval
          split: if_splits)
    then have "logs (\<lambda>a. \<not> is_call a) st1 (r', wd')" using movesD [OF silent_committed] ended(2) by fastforce
    then show ?thesis using guard_silent [OF ended(1)] by (blast intro: logging.composed)
  qed (use guard_silent in blast)+
  moreover have "x = Return (fail_result ''effect_unknown'' ''EFFECT_RECOVERY_REQUIRES_MANUAL''
       ''Prepared non-idempotent effect cannot be executed automatically after recovery.'')"
    if "\<not> effect_blocked r node" "status = ''prepared''"
    using that v assms(1-3)
    by (auto simp: guard_effect_def fence_effect_def run_eval bindA_def [of "effect_status E current"] bindA_eval)
  ultimately show ?thesis by (auto simp: logs_def)
qed

definition recovered_run :: run_impl where
  "recovered_run = (started_run write_flow default_options)\<lparr>ri_state :=
     JObj [(''_effects'', JObj [(''a'', JObj [(''status'', JStr ''prepared'')])])]\<rparr>"

theorem settled_effect_not_repeated_witness:
  "\<exists>r wd. visit_node store_env (write_node\<lparr>nd_replay := AtMostOnce\<rparr>) ''a'' at_rest (recovered_run, plain_world) =
     ((r, wd), Return (fail_result ''effect_unknown'' ''EFFECT_RECOVERY_REQUIRES_MANUAL''
       ''Prepared non-idempotent effect cannot be executed automatically after recovery.'')) \<and>
     list_all (\<lambda>a. \<not> is_call a) (wd_log wd)"
proof -
  let ?node = "write_node\<lparr>nd_replay := AtMostOnce\<rparr>"
  obtain r wd x where v: "visit_node store_env ?node ''a'' at_rest (recovered_run, plain_world) = ((r, wd), x)"
    by (metis prod.collapse)
  have "\<exists>st. effect_status store_env ''a'' (recovered_run, plain_world) = (st, Done ''prepared'')"
    by (simp add: effect_status_def recovered_run_def read_state_def touch_state_def run_eval json_eval bindR_def
        started_run_def)
  then obtain st where "effect_status store_env ''a'' (recovered_run, plain_world) = (st, Done ''prepared'')" ..
  moreover have "has_effect ?node" "\<not> effect_blocked recovered_run ?node"
    by (simp_all add: has_effect_def write_node_def effect_blocked_def recovered_run_def plain_defs not_replayable_def)
  ultimately show ?thesis
    using settled_effect_not_repeated [OF _ _ _ v, of st "''prepared''"] v
    by (auto simp: write_node_def plain_world_def)
qed

end
