(* ===== verification/Run_Retry.thy ===== *)
theory Run_Retry
  imports Run_Effects
begin

text \<open>
  The retries of a synchronous executor: the number of calls is bounded by the attempts of the node and
  by the retry budget of the run.
\<close>

definition calls_upto :: "nat \<Rightarrow> run_impl \<times> 's world \<Rightarrow> run_impl \<times> 's world \<Rightarrow> bool" where
  "calls_upto n st st' = (ri_retry_remaining (fst st') = ri_retry_remaining (fst st) \<and>
     (\<exists>new. wd_log (snd st') = wd_log (snd st) @ new \<and> length (filter is_call new) \<le> n))"

interpretation budget: run_view ri_retry_remaining
  by unfold_locales

interpretation uncalled: action_frame Always "calls_upto 0"
  by unfold_locales (auto simp: calls_upto_def)

lemma calls_upto_composed: "calls_upto n st st' \<Longrightarrow> calls_upto m st' st'' \<Longrightarrow> calls_upto (n + m) st st''"
  unfolding calls_upto_def by (elim conjE exE) (auto intro!: add_mono)

lemma calls_upto_mono: "calls_upto n st st' \<Longrightarrow> n \<le> m \<Longrightarrow> calls_upto m st st'"
  by (fastforce simp: calls_upto_def)

lemma calls_upto_bind:
  assumes "moves Always (calls_upto n) m" and "\<And>x. moves Always (calls_upto k) (f x)"
  shows "moves Always (calls_upto (n + k)) (bindA m f)"
proof (rule movesI)
  fix st st'' y
  assume "bindA m f st = (st'', y)"
  then show "calls_upto (n + k) st st''"
    by (cases rule: bindA_outcomes)
      (auto dest!: movesD [OF assms(1)] movesD [OF assms(2)] intro: calls_upto_composed calls_upto_mono)
qed

lemmas calls_upto_before = calls_upto_bind [of 0, simplified] and calls_upto_after = calls_upto_bind [of _ _ 0, simplified]

lemma calls_upto_silent:
  assumes "moves Always (logs (\<lambda>a. \<not> is_call a)) m" and "moves Always (keeps ri_retry_remaining) m"
  shows "moves Always (calls_upto 0) m"
  using assms unfolding moves_def by (auto simp: calls_upto_def logs_def keeps_def list_all_iff filter_empty_conv)

lemma calls_upto_weaken: "moves Always (calls_upto 0) m \<Longrightarrow> moves Always (calls_upto n) m"
  unfolding moves_def by (auto intro: calls_upto_mono)

lemma quiet_upto: "quiet m \<Longrightarrow> moves Always (calls_upto 0) m"
  by (rule calls_upto_silent [OF quiet_logs budget.keeps_quiet])

lemmas upto_parts =
  calls_upto_silent [OF silent.moves_acquire budget.kept.moves_acquire]
  calls_upto_silent [OF silent.moves_release budget.kept.moves_release]
  calls_upto_silent [OF silent.moves_settle budget.kept.moves_settle]
  calls_upto_silent [OF silent.moves_event budget.kept.moves_event]
  quiet_upto [OF quiet_elapsed]

text \<open>An action in front of the call, and one behind it.\<close>

lemma upto_then:
  "moves Always (calls_upto 0) a \<Longrightarrow> moves Always (calls_upto n) b \<Longrightarrow> moves Always (calls_upto n) (thenA a b)"
  "moves Always (calls_upto n) a \<Longrightarrow> moves Always (calls_upto 0) b \<Longrightarrow> moves Always (calls_upto n) (thenA a b)"
  unfolding thenA_def by (simp_all add: calls_upto_before calls_upto_after)

lemma upto_cases:
  "(\<And>x y. moves Always (calls_upto n) (f x y)) \<Longrightarrow> moves Always (calls_upto n) (case p of (x, y) \<Rightarrow> f x y)"
  "(\<And>x. moves Always (calls_upto n) (g x)) \<Longrightarrow> (\<And>x. moves Always (calls_upto n) (h x)) \<Longrightarrow>
    moves Always (calls_upto n) (case z of Inl x \<Rightarrow> g x | Inr x \<Rightarrow> h x)"
  "moves Always (calls_upto n) a \<Longrightarrow> moves Always (calls_upto n) b \<Longrightarrow> moves Always (calls_upto n) (if c then a else b)"
  by (cases p; cases z; simp)+

lemma upto_call: "moves Always (calls_upto (Suc 0)) (call_executor E executor ctx timeout node_input)"
proof -
  have log: "moves Always (calls_upto (Suc 0)) (case i of None \<Rightarrow> retA () | Some j \<Rightarrow> logA (Called executor ctx j))" for i
    by (cases i) (auto simp: logA_def modW_def calls_upto_def retA_def moves_def)
  have cancel: "moves Always (calls_upto 0) (modR cancel_attempt)"
    by (simp add: moves_modR calls_upto_def cancel_attempt_def)
  show ?thesis
    unfolding call_executor_def
    by (intro calls_upto_before quiet_upto [OF quiet_ask] upto_cases(1) upto_then(2) log cancel uncalled.moves_rules)
qed

lemma upto_perform: "moves Always (calls_upto (Suc 0)) (perform_attempt E r node current node_input max_attempts attempt)"
proof -
  have "moves Always (calls_upto 0) (thenA (whenA b (release_event E current n))
      (bindA (settle_effect E node current committed result) (\<lambda>(leave, result). f leave result)))"
    if "\<And>leave result. moves Always (calls_upto 0) (f leave result)" for b n committed result f
    by (intro uncalled.moves_rules upto_parts that)
  note tail = this
  show ?thesis
    unfolding perform_attempt_def Let_def
    by (intro calls_upto_before upto_parts upto_cases(2,3) uncalled.moves_pure calls_upto_weaken [OF uncalled.moves_pure(1)]
        calls_upto_after upto_call upto_cases(1) tail uncalled.moves_rules)
qed

section \<open>The budget\<close>

text \<open>Calls made and budget left, against the budget before and the calls that are free.\<close>

definition spends :: "nat \<Rightarrow> nat \<Rightarrow> run_impl \<times> 's world \<Rightarrow> run_impl \<times> 's world \<Rightarrow> bool" where
  "spends most free st st' = (\<exists>new. wd_log (snd st') = wd_log (snd st) @ new \<and> length (filter is_call new) \<le> most \<and>
     length (filter is_call new) + unat (ri_retry_remaining (fst st')) \<le> unat (ri_retry_remaining (fst st)) + free)"

lemma spends_composed: "spends n k st st' \<Longrightarrow> spends m l st' st'' \<Longrightarrow> spends (n + m) (k + l) st st''"
  unfolding spends_def by (elim exE conjE) (auto intro!: exI)

lemma spends_mono: "spends n k st st' \<Longrightarrow> n \<le> m \<Longrightarrow> k \<le> l \<Longrightarrow> spends m l st st'"
  unfolding spends_def by (elim exE conjE) auto

lemma attempt_spends:
  assumes "sync_attempt E node current node_input max_attempts attempt st = (st', x)"
  shows "spends (Suc 0) (if 1 < attempt then 0 else 1) st st'"
proof -
  let ?perform = "perform_attempt E (fst st) node current node_input max_attempts attempt"
  let ?paid = "((fst st)\<lparr>ri_retry_remaining := ri_retry_remaining (fst st) - 1\<rparr>, snd st)"
  consider (none) "1 < attempt" "ri_retry_remaining (fst st) = 0" | (paid) "1 < attempt" "ri_retry_remaining (fst st) \<noteq> 0"
    | (free) "\<not> 1 < attempt" by blast
  then show ?thesis
  proof cases
    case none
    then show ?thesis using assms by (auto simp: sync_attempt_def bindA_eval retA_def spends_def)
  next
    case paid
    then have "?perform ?paid = (st', x)" using assms by (simp add: sync_attempt_def bindA_eval run_eval)
    then have "calls_upto (Suc 0) ?paid st'" using movesD [OF upto_perform] by fastforce
    moreover have "0 < unat (ri_retry_remaining (fst st))" using paid(2) by (simp add: unat_gt_0)
    ultimately show ?thesis using paid by (auto simp: calls_upto_def spends_def unat_minus_one)
  next
    case free
    then have "?perform st = (st', x)" using assms by (simp add: sync_attempt_def bindA_eval run_eval)
    then have "calls_upto (Suc 0) st st'" using movesD [OF upto_perform] by fastforce
    then show ?thesis using free by (auto simp: calls_upto_def spends_def)
  qed
qed

lemma attempts_spend:
  assumes "sync_attempts E node current node_input max_attempts n result st = (st', x)" and "int n \<le> max_attempts"
  shows "spends n (if int n = max_attempts then 1 else 0) st st'"
  using assms
proof (induction n arbitrary: result st)
  case 0
  then show ?case by (auto simp: retA_def spends_def)
next
  case (Suc n)
  let ?first = "sync_attempt E node current node_input max_attempts (max_attempts - int n)"
  have one: "spends (Suc 0) (if int (Suc n) = max_attempts then 1 else 0) st st1" if "?first st = (st1, y)" for st1 y
    using attempt_spends [OF that] Suc.prems(2) by (auto elim: spends_mono)
  from Suc.prems(1) have "bindA ?first (\<lambda>x. case x of Inl result \<Rightarrow> retA result
      | Inr result \<Rightarrow> sync_attempts E node current node_input max_attempts n result) st = (st', x)" by simp
  then show ?case
  proof (cases rule: bindA_outcomes)
    case (ended st1 y)
    have "spends n 0 st1 st'"
    proof (cases y)
      case (Inl z)
      then show ?thesis using ended(2) by (auto simp: retA_def spends_def)
    next
      case (Inr z)
      then show ?thesis using Suc.IH [of z st1] ended(2) Suc.prems(2) by simp
    qed
    then show ?thesis using spends_composed [OF one [OF ended(1)]] by fastforce
  qed (use one in \<open>auto elim: spends_mono\<close>)
qed

section \<open>Property\<close>

text \<open>
  C21. Retries are bounded: the attempts of a synchronous node call the executor at most as often as the node
  allows, and every call but the first is paid from the retry budget of the run, whatever the executor,
  the leases and the store answer and however the attempts end.
\<close>

theorem retry_budget_bounds_calls:
  assumes "run_sync E node current node_input result (r, wd) = ((r', wd'), x)"
  shows "\<exists>new. wd_log wd' = wd_log wd @ new \<and> length (filter is_call new) \<le> nat (attempts_of node) \<and>
    length (filter is_call new) + unat (ri_retry_remaining r') \<le> unat (ri_retry_remaining r) + 1"
proof (cases "0 \<le> attempts_of node")
  case True
  then have "spends (nat (attempts_of node)) 1 (r, wd) (r', wd')"
    using attempts_spend [OF assms [unfolded run_sync_def]] by (simp split: if_splits)
  then show ?thesis by (simp add: spends_def)
next
  case False
  then show ?thesis using assms by (auto simp: run_sync_def retA_def)
qed

definition failing_env :: "memory_store env" where
  "failing_env = plain_env\<lparr>en_call := (\<lambda>_ _ _ _.
     \<lparr>cr_result = Inr (fail_with ''tool_error'' ''BUSY'' [] True), cr_committed = False, cr_in_time = True\<rparr>)\<rparr>"

definition poor_run :: run_impl where
  "poor_run = started_run tool_flow (default_options\<lparr>ro_retry_budget := 1\<rparr>)"

lemma poor_calls:
  "case run_sync failing_env ((plain_node ''a'' Tool)\<lparr>nd_max_attempts := 3\<rparr>) ''a'' (JObj []) (ok_result JNull)
     (poor_run, plain_world) of ((r, wd), x) \<Rightarrow> length (filter is_call (wd_log wd)) = 2 \<and> ri_retry_remaining r = 0"
  by (simp add: sample_eval failing_env_def poor_run_def retry_wait_def int_of_delay_def eval_nat_numeral fail_with_def
      cong: weak_congs)

theorem retry_budget_bounds_calls_witness:
  "\<exists>r wd x. run_sync failing_env ((plain_node ''a'' Tool)\<lparr>nd_max_attempts := 3\<rparr>) ''a'' (JObj []) (ok_result JNull)
       (poor_run, plain_world) = ((r, wd), x) \<and>
     length (filter is_call (wd_log wd)) = 2 \<and> ri_retry_remaining r = 0 \<and>
     length (filter is_call (wd_log wd)) + unat (ri_retry_remaining r) \<le> unat (ri_retry_remaining poor_run) + 1"
proof -
  obtain r wd x where e: "run_sync failing_env ((plain_node ''a'' Tool)\<lparr>nd_max_attempts := 3\<rparr>) ''a'' (JObj [])
      (ok_result JNull) (poor_run, plain_world) = ((r, wd), x)" by (metis prod.collapse)
  show ?thesis using retry_budget_bounds_calls [OF e] poor_calls e by (auto simp: plain_world_def)
qed

end
