(* ===== verification/Run_Restore.thy ===== *)
theory Run_Restore
  imports Run_Retry
begin

text \<open>
  Checkpoints and recovery: a checkpoint that the JSON library reads back restores the run, with the running
  nodes set back and the retry budget reduced to what was left.

  The library writes and reads a tree back up to the tag of non-negative integers (\<open>canon\<close>).
\<close>

section \<open>Reading back\<close>

lemma sm_get_fold_put:
  "sm_get (fold (\<lambda>(k, v). sm_put k v) kvs m) k = (case map_of (rev kvs) k of None \<Rightarrow> sm_get m k | Some v \<Rightarrow> Some v)"
  by (induction kvs arbitrary: m) (auto simp: map_add_def split: option.splits)

lemma sm_ok_fold_put: "sm_ok m \<Longrightarrow> sm_ok (fold (\<lambda>(k, v). sm_put k v) kvs m)"
  by (induction kvs arbitrary: m) auto

lemma map_of_rev: "distinct (map fst m) \<Longrightarrow> map_of (rev m) = map_of m"
proof (induction m)
  case (Cons p m)
  then have "map_of m (fst p) = None" by (simp add: map_of_eq_None_iff)
  with Cons show ?case by (cases p) (auto simp: map_add_def fun_eq_iff split: option.splits)
qed simp

lemma fold_put_over:
  assumes "sm_ok m" and "sm_ok m0" and "set (sm_keys m0) \<subseteq> set (sm_keys m)"
  shows "fold (\<lambda>(k, v). sm_put k v) m m0 = m"
proof (rule sm_ext [OF sm_ok_fold_put [OF assms(2)] assms(1)])
  fix k
  have "map_of (rev m) = map_of m" using sm_ok_distinct [OF assms(1)] by (simp add: map_of_rev)
  then show "sm_get (fold (\<lambda>(k, v). sm_put k v) m m0) k = sm_get m k"
    using assms(3) sm_get_None_iff [of m k] sm_get_None_iff [of m0 k] unfolding sm_get_fold_put
    by (auto simp: sm_get_map_of split: option.splits)
qed

lemma j_get_jobj: "j_get (canon (jobj kvs)) k d = Inr (case map_of (rev kvs) k of None \<Rightarrow> d | Some v \<Rightarrow> canon v)"
  by (simp add: jobj_def canon.simps j_get_def sm_get_map sm_get_fold_put split: option.split)

lemma read_number [simp]: "as_uint64 (canon (ju64 w)) = Inr w" "as_uint (canon (ju32 v)) = Inr v"
  using uint_lt2p [of w] uint_lt2p [of v] by (auto simp: as_uint64_def as_uint_def ju64_def ju32_def in_range_def)

lemma sm_get_member: "sm_ok m \<Longrightarrow> (k, v) \<in> set m \<Longrightarrow> sm_get m k = Some v"
  using map_of_is_SomeI [OF sm_ok_distinct, of m k v] by (simp add: sm_get_map_of)

lemma read_members_map:
  assumes "j_at cp key = Inr (JObj (map (\<lambda>(k, v). (k, g v)) m))" and "sm_ok m"
    and "\<And>k v. (k, v) \<in> set m \<Longrightarrow> conv (g v) = Inr (h v)"
  shows "read_members conv cp key = Inr (map (\<lambda>(k, v). (k, h v)) m)"
proof -
  have "list_all2 (\<lambda>k y. bindR (bindR (j_at (JObj (map (\<lambda>(k, v). (k, g v)) m)) k) conv) (\<lambda>v. Inr (k, v)) = Inr y)
      (map fst m) (map (\<lambda>(k, v). (k, h v)) m)"
    using assms(3) sm_get_member [OF assms(2)]
    by (auto simp: list.rel_map j_at_def j_get_def sm_get_map intro!: list.rel_refl_strong)
  then show ?thesis
    by (simp add: read_members_def assms(1) member_names_def mapR_Inr o_def case_prod_unfold)
qed

section \<open>The restored run\<close>

definition recovered_options :: "run_impl \<Rightarrow> run_options" where
  "recovered_options r = (ri_options r)\<lparr>ro_retry_budget := ri_retry_remaining r\<rparr>"

definition set_back :: "NodeStatus \<Rightarrow> NodeStatus" where
  "set_back s = (if s = Running then Pending else s)"

text \<open>What a recovery keeps of a run: everything but its pending work, its cancellation and its clock.\<close>

definition recovered :: "workflow \<Rightarrow> run_impl \<Rightarrow> run_impl" where
  "recovered w r = (create_run w (recovered_options r))\<lparr>ri_current := ri_current r,
     ri_workflow_input := canon (ri_workflow_input r), ri_outputs := canon (ri_outputs r), ri_state := canon (ri_state r),
     ri_error := canon (ri_error r), ri_run := canon (ri_run r), ri_step := ri_step r, ri_elapsed_ms := ri_elapsed_ms r,
     ri_is_suspended := ri_is_suspended r, ri_completed := ri_completed r, ri_initialized := True,
     ri_event_sequence := ri_event_sequence r + 1, ri_store_version := ri_store_version r,
     ri_trace_id := ri_trace_id r, ri_last_span_id := ri_last_span_id r, ri_invocation_id := ri_invocation_id r,
     ri_current_span_id := ri_current_span_id r, ri_parent_span_id := ri_parent_span_id r,
     ri_causation_id := ri_last_span_id r,
     ri_node_status := map (\<lambda>(k, s). (k, set_back s)) (ri_node_status r), ri_hits := ri_hits r, ri_loops := ri_loops r\<rparr>"

text \<open>The tables of a run are maps, its counters have 32 bits and every node has a status.\<close>

definition run_ok :: "run_impl \<Rightarrow> bool" where
  "run_ok r = (sm_ok (ri_node_status r) \<and> sm_ok (ri_hits r) \<and> sm_ok (ri_loops r) \<and> sm_ok (ro_component_identities (ri_options r)) \<and>
     (\<forall>n \<in> set (wf_nodes (ri_workflow r)). sm_has (ri_node_status r) (nd_id n)) \<and>
     (\<forall>x \<in> set (ri_hits r) \<union> set (ri_loops r). - (2 ^ 31) \<le> snd x \<and> snd x < 2 ^ 31))"

lemma mode_of_name [simp]: "mode_of (run_mode_name m) = m"
  by (cases m) (simp_all add: mode_of_def)

lemma capture_of_name [simp]: "capture_of (capture_name c) = c"
  by (cases c) (simp_all add: capture_of_def)

lemma status_of_name [simp]: "status_of (node_status_name s) = s"
  by (cases s) (simp_all add: status_of_def)

lemmas doc_eval = checkpoint_doc_def j_get_jobj get_string_def get_bool_def get_u64_def get_u32_def j_at_def Let_def

lemma restored_identity:
  assumes "ri_fingerprint r = wf_digest (wk_compiled w)" and "ri_bundle_digest r = wk_bundle_digest w"
  shows "check_identity L w (canon (checkpoint_doc r)) = Inr ()"
  using assms by (simp add: check_identity_def doc_eval)

lemma canon_JStr_map: "canon (JObj (map (\<lambda>(k, v). (k, JStr (f v))) m)) = JObj (map (\<lambda>(k, v). (k, JStr (f v))) m)"
  by simp

lemma restored_options:
  assumes "sm_ok (ro_component_identities (ri_options r))"
  shows "read_options L (canon (checkpoint_doc r)) = Inr (recovered_options r)"
proof -
  have "read_members (as_string L) (canon (checkpoint_doc r)) ''component_identities'' = Inr (ro_component_identities (ri_options r))"
    using read_members_map [of "canon (checkpoint_doc r)" "''component_identities''" JStr "ro_component_identities (ri_options r)"
        "as_string L" "\<lambda>v. v"] assms
    by (simp add: doc_eval)
  moreover have "fold (\<lambda>(k, v). sm_put k v) (ro_component_identities (ri_options r)) [] = ro_component_identities (ri_options r)"
    by (rule fold_put_over [OF assms]) simp_all
  moreover have "(if (if ro_child_record_retention (ri_options r) = Keep then ''keep'' else ''delete_on_parent_commit'') = ''keep''
      then Keep else DeleteOnParentCommit) = ro_child_record_retention (ri_options r)"
    by (cases "ro_child_record_retention (ri_options r)") simp_all
  ultimately show ?thesis
    by (simp add: read_options_def doc_eval recovered_options_def)
qed

lemma restored_progress:
  "read_progress L (canon (checkpoint_doc r)) x = Inr (x\<lparr>ri_current := ri_current r,
     ri_workflow_input := canon (ri_workflow_input r), ri_outputs := canon (ri_outputs r), ri_state := canon (ri_state r),
     ri_error := canon (ri_error r), ri_run := canon (ri_run r), ri_step := ri_step r, ri_elapsed_ms := ri_elapsed_ms r,
     ri_is_suspended := ri_is_suspended r, ri_completed := ri_completed r, ri_initialized := True,
     ri_event_sequence := ri_event_sequence r, ri_store_version := ri_store_version r\<rparr>)"
  by (simp add: read_progress_def doc_eval)

lemma restored_trace:
  "read_trace L (canon (checkpoint_doc r)) x = Inr (x\<lparr>ri_trace_id := ri_trace_id r, ri_last_span_id := ri_last_span_id r,
     ri_invocation_id := ri_invocation_id r, ri_current_span_id := ri_current_span_id r,
     ri_parent_span_id := ri_parent_span_id r, ri_causation_id := ri_causation_id r\<rparr>)"
  by (simp add: read_trace_def doc_eval)

lemma fresh_status_keys: "set (sm_keys (fold (\<lambda>n. sm_put (nd_id n) s) nodes m)) = nd_id ` set nodes \<union> set (sm_keys m)"
  by (induction nodes arbitrary: m) (auto simp del: set_map)

lemma fresh_status_ok: "sm_ok m \<Longrightarrow> sm_ok (fold (\<lambda>n. sm_put (nd_id n) s) nodes m)"
  by (induction nodes arbitrary: m) auto

text \<open>Every running node has a policy that allows another execution.\<close>

definition resumable :: "run_impl \<Rightarrow> bool" where
  "resumable r = (\<forall>(k, s) \<in> set (ri_node_status r). s = Running \<longrightarrow>
     (case find_node (ri_workflow r) k of None \<Rightarrow> False | Some node \<Rightarrow> \<not> not_replayable (nd_replay node)))"

lemma restored_counters:
  assumes "run_ok r" and "resumable r" and "ri_workflow x = ri_workflow r"
    and "ri_node_status x = fold (\<lambda>n. sm_put (nd_id n) Pending) (wf_nodes (ri_workflow r)) []"
  shows "read_counters L (canon (checkpoint_doc r)) x = Inr (x\<lparr>ri_node_status := map (\<lambda>(k, s). (k, set_back s)) (ri_node_status r),
     ri_hits := ri_hits r, ri_loops := ri_loops r\<rparr>)"
proof -
  let ?cp = "canon (checkpoint_doc r)"
  have status: "read_members (\<lambda>j. bindR (as_string L j) (\<lambda>s. Inr (status_of s))) ?cp ''node_status'' = Inr (ri_node_status r)"
    using read_members_map [of ?cp "''node_status''" "\<lambda>v. JStr (node_status_name v)" "ri_node_status r" _ "\<lambda>v. v"] assms(1)
    by (simp add: doc_eval run_ok_def)
  have "read_members as_int ?cp ''hits'' = Inr (ri_hits r)" "read_members as_int ?cp ''loops'' = Inr (ri_loops r)"
    using read_members_map [of ?cp "''hits''" JInt "ri_hits r" as_int "\<lambda>v. v"]
      read_members_map [of ?cp "''loops''" JInt "ri_loops r" as_int "\<lambda>v. v"] assms(1)
    by (force simp: doc_eval run_ok_def as_int_def in_range_def)+
  moreover have "fold (\<lambda>(k, v). sm_put k v) (ri_hits r) [] = ri_hits r" "fold (\<lambda>(k, v). sm_put k v) (ri_loops r) [] = ri_loops r"
    using assms(1) by (simp_all add: fold_put_over run_ok_def)
  moreover have "fold (\<lambda>(k, v). sm_put k v) (ri_node_status r) (ri_node_status x) = ri_node_status r"
    using assms(1,4) fresh_status_keys [of Pending "wf_nodes (ri_workflow r)" "[]"]
    by (intro fold_put_over) (auto simp: run_ok_def fresh_status_ok sm_get_None_iff)
  moreover have "mapR (settle_status (ri_workflow x)) (ri_node_status r) = Inr (map (\<lambda>(k, s). (k, set_back s)) (ri_node_status r))"
    using assms(2,3)
    by (auto simp: mapR_Inr list.rel_map resumable_def settle_status_def set_back_def intro!: list.rel_refl_strong
        split: option.splits)
  ultimately show ?thesis by (simp add: read_counters_def status)
qed

lemma emit_keeps_run:
  assumes "ri_run r = JObj (map (\<lambda>(k, v). (k, canon v)) m)" and "sm_get m ''id'' = Some (JStr ident)"
  shows "\<exists>wd'. emit E name node attempt result payload level (r, wd) = ((r, wd'), Done ()) \<and> wd_store wd' = wd_store wd"
  using assms
  by (auto simp: emit_def run_eval askA_def tickA_def get_string_def j_get_def sm_get_map split: prod.split)

lemma restored_event_keeps_run:
  assumes "ri_run x = JObj (map (\<lambda>(k, v). (k, canon v)) m)" and "sm_get m ''id'' = Some (JStr ident)"
    and "j_get cp ''event_sequence'' (JInt 0) = Inr sequence"
  shows "\<exists>wd'. restored_event E cp (x, wd) = ((x\<lparr>ri_event_sequence := ri_event_sequence x + 1, ri_causation_id := ri_last_span_id x\<rparr>, wd'),
      Done ()) \<and> wd_store wd' = wd_store wd"
proof -
  let ?x = "x\<lparr>ri_event_sequence := ri_event_sequence x + 1, ri_causation_id := ri_last_span_id x\<rparr>"
  obtain payload where "restored_event E cp (x, wd) = emit E ''run_restored'' (ri_current x) 0 None payload Metadata (?x, wd)"
    using assms(1,3) by (auto simp: restored_event_def run_eval announce_def bump_def j_get_def sm_get_map)
  then show ?thesis using emit_keeps_run [of ?x m ident] assms(1,2) by auto
qed

text \<open>
  C22. A checkpoint restores its run: for a well-formed run whose running nodes may be executed again, and a
  JSON library that reads the checkpoint back, \<open>restore_run\<close> on an engine without a store succeeds with the
  recovered run. That run has the position, data, counters, options, trace context and store version of the
  original; its running nodes are pending again, its budget is what was left, and its next event follows
  the numbering of the original.
\<close>

theorem checkpoint_restores_run:
  assumes "parse_json (en_lib E) (checkpoint (en_lib E) r) = Inr (canon (checkpoint_doc r))"
    and "run_ok r" and "resumable r" and "ri_run r = JObj m" and "sm_get m ''id'' = Some (JStr ident)"
    and "ri_workflow r = wk_compiled w" and "ri_fingerprint r = wf_digest (wk_compiled w)"
    and "ri_bundle_digest r = wk_bundle_digest w" and "en_store E = None"
  shows "\<exists>wd'. restore_run E w (checkpoint (en_lib E) r) (r0, wd) = ((recovered w r, wd'), Done ()) \<and>
    wd_store wd' = wd_store wd"
proof -
  let ?cp = "canon (checkpoint_doc r)" and ?L = "en_lib E"
  let ?read = "(create_run w (recovered_options r))\<lparr>ri_current := ri_current r,
     ri_workflow_input := canon (ri_workflow_input r), ri_outputs := canon (ri_outputs r), ri_state := canon (ri_state r),
     ri_error := canon (ri_error r), ri_run := canon (ri_run r), ri_step := ri_step r, ri_elapsed_ms := ri_elapsed_ms r,
     ri_is_suspended := ri_is_suspended r, ri_completed := ri_completed r, ri_initialized := True,
     ri_event_sequence := ri_event_sequence r, ri_store_version := ri_store_version r,
     ri_trace_id := ri_trace_id r, ri_last_span_id := ri_last_span_id r, ri_invocation_id := ri_invocation_id r,
     ri_current_span_id := ri_current_span_id r, ri_parent_span_id := ri_parent_span_id r,
     ri_causation_id := ri_causation_id r\<rparr>"
  let ?counted = "?read\<lparr>ri_node_status := map (\<lambda>(k, s). (k, set_back s)) (ri_node_status r), ri_hits := ri_hits r,
     ri_loops := ri_loops r\<rparr>"
  have options: "read_options ?L ?cp = Inr (recovered_options r)" using assms(2) by (simp add: restored_options run_ok_def)
  have counted: "read_counters ?L ?cp ?read = Inr ?counted"
    using restored_counters [OF assms(2,3), of ?read] assms(6) by (simp add: create_run_def new_run_def)
  have run: "canon (ri_run r) = JObj (map (\<lambda>(k, v). (k, canon v)) m)" using assms(4) by (simp add: canon.simps)
  define x where "x = ?counted"
  have "restore_run E w (checkpoint ?L r) (r0, wd) = restored_event E ?cp (x, wd)"
    using assms(1,7-9) options counted
    by (simp add: x_def restore_run_def run_eval restored_identity restored_progress restored_trace claim_record_def)
  moreover have "ri_run x = JObj (map (\<lambda>(k, v). (k, canon v)) m)" by (simp add: x_def run)
  moreover have "j_get ?cp ''event_sequence'' (JInt 0) = Inr (canon (ju64 (ri_event_sequence r)))" by (simp add: doc_eval)
  moreover have "x\<lparr>ri_event_sequence := ri_event_sequence x + 1, ri_causation_id := ri_last_span_id x\<rparr> = recovered w r"
    unfolding recovered_def x_def by (rule run_impl.equality) simp_all
  ultimately show ?thesis using restored_event_keeps_run [of x m ident ?cp _ E wd] assms(5) by metis
qed

definition stopped_run :: run_impl where
  "stopped_run = (started_run tool_flow default_options)\<lparr>ri_node_status := [(''a'', Running), (''z'', Pending)], ri_step := 1\<rparr>"

text \<open>A library that reads back this checkpoint.\<close>

definition reading_env :: "memory_store env" where
  "reading_env = plain_env\<lparr>en_lib := plain_lib\<lparr>jl_parse := (\<lambda>_ _. Inr (canon (checkpoint_doc stopped_run)))\<rparr>\<rparr>"

definition tool_workflow :: workflow where
  "tool_workflow = \<lparr>wk_root = JNull, wk_compiled = tool_flow, wk_bundle_digest = []\<rparr>"

theorem checkpoint_restores_run_witness:
  "\<exists>wd. restore_run reading_env tool_workflow (checkpoint (en_lib reading_env) stopped_run) (stopped_run, plain_world) =
     ((recovered tool_workflow stopped_run, wd), Done ()) \<and>
   ri_node_status (recovered tool_workflow stopped_run) = [(''a'', Pending), (''z'', Pending)]"
proof -
  have "parse_json (en_lib reading_env) (checkpoint (en_lib reading_env) stopped_run) = Inr (canon (checkpoint_doc stopped_run))"
    by (simp add: reading_env_def parse_json_def checkpoint_def write_json_def plain_lib_def)
  moreover have "run_ok stopped_run" "resumable stopped_run"
    by (simp_all add: run_ok_def resumable_def stopped_run_def plain_defs find_node_def not_replayable_def sm_ok_def)
  ultimately show ?thesis
    using checkpoint_restores_run [of reading_env stopped_run "[(''id'', JStr ''run-1'')]" "''run-1''" tool_workflow stopped_run plain_world]
    by (auto simp: stopped_run_def tool_workflow_def plain_defs reading_env_def recovered_def set_back_def)
qed

end
