(* ===== verification/Trace_Replay.thy ===== *)
theory Trace_Replay
  imports Run_Api
begin

text \<open>
  Replay of recorded runs and shadow evaluation (\<open>dage.cpp\<close>: \<open>prepare_trace_replay\<close>,
  \<open>compare_shadow_evaluation\<close>). A trace is read event by event; the lemmas show what an accepted trace has: for
  every run in it the events from its start without a gap, and in the plan exactly the recorded executor
  outcomes, in order.
\<close>

section \<open>Plans\<close>

record TraceReplayOutcome = replay_outcome_record +
  rp_attempt :: u32

record TraceReplayPlan =
  pl_source_run_id :: string
  pl_trace_id :: string
  pl_workflow_digest :: string
  pl_bundle_digest :: string
  pl_workflow_input :: json
  pl_executor_outcomes :: "TraceReplayOutcome list"
  pl_expected_result :: exec_result

definition replay_error :: "string \<Rightarrow> string \<Rightarrow> err" where
  "replay_error code message =
    \<lparr>err_category = ''trace_replay'', err_code = code, err_message = message, err_retryable = False\<rparr>"

abbreviation replay_failure :: "string \<Rightarrow> string \<Rightarrow> (err + 'a) res" where
  "replay_failure code message \<equiv> Inr (Inl (replay_error code message))"

record reading =
  rg_plan :: TraceReplayPlan
  rg_finished :: bool
  rg_previous :: "(string, u64) smap"

text \<open>A payload in a \<open>try\<close> block: a failure to parse is reported by the given message.\<close>

definition payload_of :: "jsonlib \<Rightarrow> string \<Rightarrow> string \<Rightarrow> string \<Rightarrow> (json \<Rightarrow> (err + 'a) res) \<Rightarrow> (err + 'a) res" where
  "payload_of L text code message k = (case parse_json L text of
     Inl _ \<Rightarrow> replay_failure code message | Inr payload \<Rightarrow> k payload)"

definition reparsed :: "jsonlib \<Rightarrow> json \<Rightarrow> json res" where
  "reparsed L j = parse_json L (write_json L j False)"

definition start_reading :: "jsonlib \<Rightarrow> string \<Rightarrow> string \<Rightarrow> EventEnvelope \<Rightarrow> (err + reading) res" where
  "start_reading L workflow_digest bundle_digest e =
    (if ev_schema_version e \<noteq> 1 then replay_failure ''REPLAY_SCHEMA_UNSUPPORTED'' ''unsupported trace schema''
     else if ev_workflow_digest e \<noteq> workflow_digest then replay_failure ''REPLAY_WORKFLOW_MISMATCH'' ''trace Workflow digest does not match''
     else if bundle_digest \<noteq> [] \<and> ev_bundle_digest e \<noteq> bundle_digest
     then replay_failure ''REPLAY_BUNDLE_MISMATCH'' ''trace Bundle digest does not match''
     else payload_of L (ev_payload_json e) ''REPLAY_FULL_TRACE_REQUIRED'' ''run_started payload is missing or invalid'' (\<lambda>payload.
       bindR (is_member payload ''workflow_input'') (\<lambda>has.
       if \<not> has then replay_failure ''REPLAY_FULL_TRACE_REQUIRED'' ''Full trace with workflow input is required''
       else bindR (bindR (j_at payload ''workflow_input'') (reparsed L)) (\<lambda>input.
       Inr (Inr \<lparr>rg_plan = \<lparr>pl_source_run_id = ev_run_id e, pl_trace_id = ev_trace_id e,
             pl_workflow_digest = ev_workflow_digest e, pl_bundle_digest = ev_bundle_digest e, pl_workflow_input = input,
             pl_executor_outcomes = [], pl_expected_result = fail_result [] [] []\<rparr>,
           rg_finished = False, rg_previous = [(ev_run_id e, ev_sequence e)]\<rparr>)))))"

definition outcome_for :: "EventEnvelope \<Rightarrow> exec_result \<Rightarrow> TraceReplayOutcome" where
  "outcome_for e result = \<lparr>rp_invocation_id = ev_invocation_id e, rp_node_id = ev_node_id e, rp_result = result,
     rp_attempt = ev_attempt e\<rparr>"

definition add_result :: "EventEnvelope \<Rightarrow> exec_result \<Rightarrow> reading \<Rightarrow> reading" where
  "add_result e result g = g\<lparr>rg_plan := (rg_plan g)\<lparr>pl_executor_outcomes :=
     pl_executor_outcomes (rg_plan g) @ [outcome_for e result]\<rparr>\<rparr>"

definition read_success :: "jsonlib \<Rightarrow> EventEnvelope \<Rightarrow> reading \<Rightarrow> (err + reading) res" where
  "read_success L e g =
    (if ev_invocation_id e = [] then replay_failure ''REPLAY_INVOCATION_ID_REQUIRED'' ''executor event has no invocation identity''
     else if ev_payload_json e = [] then replay_failure ''REPLAY_FULL_TRACE_REQUIRED'' ''executor output is missing''
     else payload_of L (ev_payload_json e) ''REPLAY_PAYLOAD_INVALID'' ''executor output is invalid JSON'' (\<lambda>output.
       Inr (Inr (add_result e (ok_result output) g))))"

definition read_failure :: "jsonlib \<Rightarrow> EventEnvelope \<Rightarrow> reading \<Rightarrow> (err + reading) res" where
  "read_failure L e g =
    (if ev_invocation_id e = [] then replay_failure ''REPLAY_INVOCATION_ID_REQUIRED'' ''executor event has no invocation identity''
     else payload_of L (ev_payload_json e) ''REPLAY_FULL_TRACE_REQUIRED'' ''executor failure details are missing'' (\<lambda>payload.
       bindR (get_string L payload ''category'' ''execution_error'') (\<lambda>category.
       bindR (get_string L payload ''code'' ''REPLAY_FAILURE'') (\<lambda>code.
       bindR (get_string L payload ''message'' ''Recorded failure.'') (\<lambda>message.
       bindR (get_bool payload ''retryable'' False) (\<lambda>retryable.
       Inr (Inr (add_result e (fail_with category code message retryable) g))))))))"

definition read_completion :: "jsonlib \<Rightarrow> EventEnvelope \<Rightarrow> reading \<Rightarrow> (err + reading) res" where
  "read_completion L e g =
    payload_of L (ev_payload_json e) ''REPLAY_FULL_TRACE_REQUIRED'' ''final result is missing'' (\<lambda>payload.
    bindR (get_bool payload ''success'' False) (\<lambda>success.
    bindR (if success then bindR (bindR (j_at payload ''output'') (reparsed L)) (\<lambda>output. Inr (ok_result output))
      else bindR (j_at payload ''error'') (\<lambda>error.
        bindR (get_string L error ''category'' ''execution_error'') (\<lambda>category.
        bindR (get_string L error ''code'' ''RUN_FAILED'') (\<lambda>code.
        bindR (get_string L error ''message'' ''Recorded failure.'') (\<lambda>message.
        Inr (fail_result category code message)))))) (\<lambda>result.
    Inr (Inr (g\<lparr>rg_plan := (rg_plan g)\<lparr>pl_expected_result := result\<rparr>, rg_finished := True\<rparr>)))))"

definition read_event :: "jsonlib \<Rightarrow> EventEnvelope \<Rightarrow> reading \<Rightarrow> (err + reading) res" where
  "read_event L e g =
    (if ev_trace_id e \<noteq> pl_trace_id (rg_plan g) then Inr (Inr g)
     else case sm_get (rg_previous g) (ev_run_id e) of
       None \<Rightarrow>
         if ev_event e \<noteq> ''run_started'' then replay_failure ''REPLAY_TRACE_INCOMPLETE'' ''child run is missing run_started''
         else Inr (Inr (g\<lparr>rg_previous := sm_put (ev_run_id e) (ev_sequence e) (rg_previous g)\<rparr>))
     | Some prior \<Rightarrow>
         if ev_sequence e \<le> prior then replay_failure ''REPLAY_SEQUENCE_INVALID'' ''trace sequence is not strictly increasing''
         else if ev_sequence e \<noteq> prior + 1 then replay_failure ''REPLAY_TRACE_INCOMPLETE'' ''trace contains a sequence gap''
         else let g' = g\<lparr>rg_previous := sm_put (ev_run_id e) (ev_sequence e) (rg_previous g)\<rparr> in
           if ev_event e = ''node_succeeded'' \<and> ev_executor e \<noteq> [] then read_success L e g'
           else if ev_event e = ''node_failed'' \<and> ev_executor e \<noteq> [] then read_failure L e g'
           else if ev_event e = ''run_completed'' \<and> ev_run_id e = pl_source_run_id (rg_plan g') then read_completion L e g'
           else Inr (Inr g'))"

fun read_events :: "jsonlib \<Rightarrow> EventEnvelope list \<Rightarrow> reading \<Rightarrow> (err + reading) res" where
  "read_events L [] g = Inr (Inr g)"
| "read_events L (e # es) g = bindR (read_event L e g) (\<lambda>r. case r of Inl x \<Rightarrow> Inr (Inl x) | Inr g' \<Rightarrow> read_events L es g')"

text \<open>Everything before the first start of a run is skipped. The outer error is an exception that leaves the
  function.\<close>

definition prepare_trace_replay :: "jsonlib \<Rightarrow> EventEnvelope list \<Rightarrow> string \<Rightarrow> string \<Rightarrow> (err + TraceReplayPlan) res" where
  "prepare_trace_replay L events workflow_digest bundle_digest =
    (case dropWhile (\<lambda>e. ev_event e \<noteq> ''run_started'') events of
       [] \<Rightarrow> replay_failure ''REPLAY_RUN_NOT_FOUND'' ''trace has no run_started event''
     | e # es \<Rightarrow>
         bindR (start_reading L workflow_digest bundle_digest e) (\<lambda>s. case s of Inl x \<Rightarrow> Inr (Inl x) | Inr g0 \<Rightarrow>
         bindR (read_events L es g0) (\<lambda>r. case r of Inl x \<Rightarrow> Inr (Inl x) | Inr g \<Rightarrow>
         if \<not> rg_finished g then replay_failure ''REPLAY_TRACE_INCOMPLETE'' ''trace has no run_completed event''
         else Inr (Inr (rg_plan g)))))"

definition replay_run :: "workflow \<Rightarrow> TraceReplayPlan \<Rightarrow> ('s, unit) act" where
  "replay_run w plan = create_replay_run w (pl_workflow_digest plan) (pl_bundle_digest plan)
     (map replay_outcome_record.truncate (pl_executor_outcomes plan))"

section \<open>What an accepted trace has\<close>

definition of_run :: "string \<Rightarrow> EventEnvelope list \<Rightarrow> EventEnvelope list" where
  "of_run r es = filter (\<lambda>e. ev_run_id e = r) es"

definition in_trace :: "string \<Rightarrow> EventEnvelope list \<Rightarrow> EventEnvelope list" where
  "in_trace t es = filter (\<lambda>e. ev_trace_id e = t) es"

definition executor_event :: "EventEnvelope \<Rightarrow> bool" where
  "executor_event e = ((ev_event e = ''node_succeeded'' \<or> ev_event e = ''node_failed'') \<and> ev_executor e \<noteq> [])"

definition identity_of :: "EventEnvelope \<Rightarrow> string \<times> string \<times> u32" where
  "identity_of e = (ev_invocation_id e, ev_node_id e, ev_attempt e)"

text \<open>Events of one run without a gap, from its start.\<close>

fun gapless :: "EventEnvelope list \<Rightarrow> bool" where
  "gapless (e # f # es) = (ev_sequence e < ev_sequence f \<and> ev_sequence f = ev_sequence e + 1 \<and> gapless (f # es))"
| "gapless _ = True"

definition complete_run :: "EventEnvelope list \<Rightarrow> bool" where
  "complete_run es = (es \<noteq> [] \<longrightarrow> ev_event (hd es) = ''run_started'' \<and> gapless es)"

lemma gapless_snoc:
  "gapless (es @ [e]) \<longleftrightarrow> gapless es \<and> (es \<noteq> [] \<longrightarrow> ev_sequence (last es) < ev_sequence e \<and> ev_sequence e = ev_sequence (last es) + 1)"
  by (induction es rule: gapless.induct) auto

definition reads :: "EventEnvelope list \<Rightarrow> reading \<Rightarrow> bool" where
  "reads es g = ((\<forall>r. complete_run (of_run r es) \<and>
      sm_get (rg_previous g) r = (if of_run r es = [] then None else Some (ev_sequence (last (of_run r es))))) \<and>
     map (\<lambda>x. (rp_invocation_id x, rp_node_id x, rp_attempt x)) (pl_executor_outcomes (rg_plan g)) =
       map identity_of (filter executor_event (tl es)) \<and>
     (\<forall>x \<in> set (filter executor_event (tl es)). ev_invocation_id x \<noteq> []) \<and>
     (rg_finished g \<longleftrightarrow> (\<exists>x \<in> set (tl es). ev_event x = ''run_completed'' \<and> ev_run_id x = pl_source_run_id (rg_plan g))))"

text \<open>What reading one event does to the state.\<close>

lemma read_eventD:
  assumes "read_event L e g = Inr (Inr g')" and "ev_trace_id e = pl_trace_id (rg_plan g)"
  shows "pl_trace_id (rg_plan g') = pl_trace_id (rg_plan g) \<and> pl_source_run_id (rg_plan g') = pl_source_run_id (rg_plan g) \<and>
    pl_workflow_digest (rg_plan g') = pl_workflow_digest (rg_plan g) \<and> pl_bundle_digest (rg_plan g') = pl_bundle_digest (rg_plan g) \<and>
    rg_previous g' = sm_put (ev_run_id e) (ev_sequence e) (rg_previous g) \<and>
    (case sm_get (rg_previous g) (ev_run_id e) of None \<Rightarrow> ev_event e = ''run_started''
     | Some prior \<Rightarrow> prior < ev_sequence e \<and> ev_sequence e = prior + 1) \<and>
    map (\<lambda>x. (rp_invocation_id x, rp_node_id x, rp_attempt x)) (pl_executor_outcomes (rg_plan g')) =
      map (\<lambda>x. (rp_invocation_id x, rp_node_id x, rp_attempt x)) (pl_executor_outcomes (rg_plan g)) @
        (if executor_event e then [identity_of e] else []) \<and>
    (executor_event e \<longrightarrow> ev_invocation_id e \<noteq> []) \<and>
    (rg_finished g' \<longleftrightarrow> rg_finished g \<or> sm_get (rg_previous g) (ev_run_id e) \<noteq> None \<and>
       ev_event e = ''run_completed'' \<and> ev_run_id e = pl_source_run_id (rg_plan g))"
  using assms
  by (auto simp: read_event_def read_success_def read_failure_def read_completion_def payload_of_def add_result_def
      outcome_for_def identity_of_def executor_event_def Let_def bindR_Inr not_le split: if_split_asm option.split_asm sum.split_asm)

definition anchored :: "EventEnvelope list \<Rightarrow> reading \<Rightarrow> bool" where
  "anchored es g = (es \<noteq> [] \<and> ev_run_id (hd es) = pl_source_run_id (rg_plan g) \<and> ev_trace_id (hd es) = pl_trace_id (rg_plan g) \<and>
     ev_workflow_digest (hd es) = pl_workflow_digest (rg_plan g) \<and> ev_bundle_digest (hd es) = pl_bundle_digest (rg_plan g))"

lemma of_run_snoc: "of_run r (es @ [e]) = of_run r es @ (if ev_run_id e = r then [e] else [])"
  by (simp add: of_run_def)

lemma reads_step:
  assumes "reads es g" and "anchored es g" and "read_event L e g = Inr (Inr g')" and "ev_trace_id e = pl_trace_id (rg_plan g)"
  shows "reads (es @ [e]) g' \<and> anchored (es @ [e]) g'"
proof -
  note d = read_eventD [OF assms(3,4)]
  have prev: "sm_get (rg_previous g) r = (if of_run r es = [] then None else Some (ev_sequence (last (of_run r es))))"
    and runs: "complete_run (of_run r es)" for r
    using assms(1) by (simp_all add: reads_def)
  have src: "of_run (pl_source_run_id (rg_plan g)) es \<noteq> []"
    using assms(2) by (cases es) (simp_all add: anchored_def of_run_def)
  have complete: "complete_run (of_run r (es @ [e]))" for r
  proof (cases "ev_run_id e = r \<and> of_run r es \<noteq> []")
    case True
    then have seen: "sm_get (rg_previous g) (ev_run_id e) = Some (ev_sequence (last (of_run r es)))" using prev [of r] by simp
    have next_seq: "case sm_get (rg_previous g) (ev_run_id e) of None \<Rightarrow> ev_event e = ''run_started''
        | Some prior \<Rightarrow> prior < ev_sequence e \<and> ev_sequence e = prior + 1" using d by blast
    note step = next_seq [unfolded seen option.case]
    have "gapless (of_run r es @ [e])"
      unfolding gapless_snoc using runs [of r] True step by (auto simp: complete_run_def)
    then show ?thesis using runs [of r] True by (simp add: of_run_snoc complete_run_def)
  next
    case False
    then show ?thesis using runs [of r] d prev [of r] by (auto simp: of_run_snoc complete_run_def)
  qed
  have tl: "tl (es @ [e]) = tl es @ [e]" using assms(2) by (simp add: anchored_def)
  have after: "sm_get (rg_previous g') r = (if of_run r (es @ [e]) = [] then None else Some (ev_sequence (last (of_run r (es @ [e])))))" for r
    using d prev [of r] by (simp add: of_run_snoc)
  have fin: "rg_finished g' \<longleftrightarrow> (\<exists>x \<in> set (tl es @ [e]). ev_event x = ''run_completed'' \<and> ev_run_id x = pl_source_run_id (rg_plan g'))"
  proof -
    have "rg_finished g \<longleftrightarrow> (\<exists>x \<in> set (tl es). ev_event x = ''run_completed'' \<and> ev_run_id x = pl_source_run_id (rg_plan g))"
      using assms(1) by (simp add: reads_def)
    moreover have "sm_get (rg_previous g) (ev_run_id e) \<noteq> None" if "ev_run_id e = pl_source_run_id (rg_plan g)"
      using src prev [of "ev_run_id e"] that by simp
    ultimately show ?thesis using d by auto
  qed
  have out: "map (\<lambda>x. (rp_invocation_id x, rp_node_id x, rp_attempt x)) (pl_executor_outcomes (rg_plan g')) =
       map identity_of (filter executor_event (tl es @ [e]))"
      "\<forall>x \<in> set (filter executor_event (tl es @ [e])). ev_invocation_id x \<noteq> []"
    using assms(1) d by (auto simp: reads_def)
  have "reads (es @ [e]) g'" unfolding reads_def tl by (intro conjI allI complete after out fin)
  moreover have "anchored (es @ [e]) g'" using assms(2) d by (simp add: anchored_def)
  ultimately show ?thesis ..
qed

lemma read_events_reads:
  assumes "reads es g" and "anchored es g" and "read_events L later g = Inr (Inr g')"
  shows "reads (es @ in_trace (ev_trace_id (hd es)) later) g' \<and> anchored (es @ in_trace (ev_trace_id (hd es)) later) g'"
  using assms
proof (induction later arbitrary: es g)
  case (Cons e later)
  then obtain g1 where g1: "read_event L e g = Inr (Inr g1)" "read_events L later g1 = Inr (Inr g')"
    by (auto simp: bindR_nested)
  have t: "ev_trace_id (hd es) = pl_trace_id (rg_plan g)" "es \<noteq> []" using Cons.prems(2) by (simp_all add: anchored_def)
  show ?case
  proof (cases "ev_trace_id e = pl_trace_id (rg_plan g)")
    case True
    then have one: "reads (es @ [e]) g1" "anchored (es @ [e]) g1" using reads_step [OF Cons.prems(1,2) g1(1)] by simp_all
    have "hd (es @ [e]) = hd es" using t(2) by simp
    then show ?thesis using Cons.IH [OF one g1(2)] True t(1) by (simp add: in_trace_def)
  next
    case False
    then have "g1 = g" using g1(1) by (simp add: read_event_def)
    then show ?thesis using Cons.IH [OF Cons.prems(1,2)] g1(2) False t(1) by (simp add: in_trace_def)
  qed
qed (simp add: in_trace_def)

lemma start_readingD:
  assumes "start_reading L wd bd e = Inr (Inr g)" and "ev_event e = ''run_started''"
  shows "reads [e] g \<and> anchored [e] g \<and> ev_workflow_digest e = wd \<and> (bd \<noteq> [] \<longrightarrow> ev_bundle_digest e = bd) \<and> ev_schema_version e = 1"
proof -
  have g: "rg_previous g = [(ev_run_id e, ev_sequence e)]" "pl_executor_outcomes (rg_plan g) = []" "\<not> rg_finished g" "anchored [e] g"
      "ev_workflow_digest e = wd \<and> (bd \<noteq> [] \<longrightarrow> ev_bundle_digest e = bd) \<and> ev_schema_version e = 1"
    using assms(1) by (auto simp: start_reading_def payload_of_def bindR_Inr anchored_def split: if_split_asm sum.split_asm)
  then show ?thesis using assms(2) by (simp add: reads_def complete_run_def of_run_def)
qed

text \<open>
  C40. An accepted trace can be replayed. When a plan is made from recorded events, it belongs to the first run that
  starts in them, whose workflow digest is the expected one, and the bundle digest as well when one is given. Among
  the events of that trace, those of every run, child runs included, begin with its start and follow without a
  gap or a repetition; the source run is completed; and the outcomes of the plan stand for the recorded
  executor events, each exactly once and in the recorded order, with invocation, node and attempt.
\<close>

theorem replay_plan_faithful:
  assumes "prepare_trace_replay L events wd bd = Inr (Inr plan)"
  shows "\<exists>skipped e rest. events = skipped @ e # rest \<and> (\<forall>x \<in> set skipped. ev_event x \<noteq> ''run_started'') \<and>
    ev_event e = ''run_started'' \<and> ev_workflow_digest e = wd \<and> (bd \<noteq> [] \<longrightarrow> ev_bundle_digest e = bd) \<and>
    pl_source_run_id plan = ev_run_id e \<and> pl_workflow_digest plan = ev_workflow_digest e \<and> pl_bundle_digest plan = ev_bundle_digest e \<and>
    (let trace = in_trace (ev_trace_id e) rest in
      (\<forall>r. complete_run (of_run r (e # trace))) \<and>
      (\<exists>x \<in> set trace. ev_event x = ''run_completed'' \<and> ev_run_id x = ev_run_id e) \<and>
      map (\<lambda>x. (rp_invocation_id x, rp_node_id x, rp_attempt x)) (pl_executor_outcomes plan) =
        map identity_of (filter executor_event trace))"
proof -
  let ?p = "\<lambda>e. ev_event e \<noteq> ''run_started''"
  obtain e rest where d: "dropWhile ?p events = e # rest"
    using assms by (cases "dropWhile ?p events") (simp_all add: prepare_trace_replay_def)
  have split: "events = takeWhile ?p events @ e # rest" using takeWhile_dropWhile_id [of ?p events] by (simp add: d)
  have start: "ev_event e = ''run_started''" using hd_dropWhile [of ?p events] d by simp
  obtain g0 g where g: "start_reading L wd bd e = Inr (Inr g0)" "read_events L rest g0 = Inr (Inr g)" "rg_finished g" "plan = rg_plan g"
    using assms d by (auto simp: prepare_trace_replay_def bindR_nested split: if_split_asm)
  note s = start_readingD [OF g(1) start]
  have r: "reads (e # in_trace (ev_trace_id e) rest) g" "anchored (e # in_trace (ev_trace_id e) rest) g"
    using read_events_reads [of "[e]" g0 L rest g] s g(2) by simp_all
  have skip: "\<forall>x \<in> set (takeWhile ?p events). ?p x" by (auto dest: set_takeWhileD)
  have ids: "pl_source_run_id plan = ev_run_id e" "pl_workflow_digest plan = ev_workflow_digest e" "pl_bundle_digest plan = ev_bundle_digest e"
    using r(2) g(4) by (simp_all add: anchored_def)
  have runs: "\<forall>x. complete_run (of_run x (e # in_trace (ev_trace_id e) rest))" using r(1) by (simp add: reads_def)
  have fin: "\<exists>x \<in> set (in_trace (ev_trace_id e) rest). ev_event x = ''run_completed'' \<and> ev_run_id x = ev_run_id e"
    using r(1) g(3,4) ids(1) by (simp add: reads_def)
  have out: "map (\<lambda>x. (rp_invocation_id x, rp_node_id x, rp_attempt x)) (pl_executor_outcomes plan) =
      map identity_of (filter executor_event (in_trace (ev_trace_id e) rest))"
    using r(1) g(4) by (simp add: reads_def)
  show ?thesis unfolding Let_def
    by (intro exI [of _ "takeWhile ?p events"] exI [of _ e] exI [of _ rest] conjI split skip start ids runs fin out) (use s in blast)+
qed

section \<open>A recorded run\<close>

definition blank_event :: EventEnvelope where
  "blank_event = \<lparr>ev_schema_version = 1, ev_sequence = 0, ev_timestamp_unix_ms = 0, ev_elapsed_ms = 0, ev_attempt = 1,
     ev_event = [], ev_run_id = ''r'', ev_invocation_id = ''root'', ev_workflow_digest = ''d'', ev_bundle_digest = [],
     ev_node_id = [], ev_node_type = [], ev_executor = [], ev_category = [], ev_code = [], ev_payload_json = ''{}'',
     ev_trace_id = ''t'', ev_span_id = [], ev_parent_span_id = [], ev_causation_id = []\<rparr>"

definition recorded :: "EventEnvelope list" where
  "recorded = [blank_event\<lparr>ev_event := ''run_started'', ev_sequence := 1\<rparr>,
     blank_event\<lparr>ev_event := ''node_succeeded'', ev_sequence := 2, ev_node_id := ''n'', ev_executor := ''x''\<rparr>,
     blank_event\<lparr>ev_event := ''run_completed'', ev_sequence := 3\<rparr>]"

text \<open>A reader for which every document is the same object.\<close>

definition recorded_lib :: jsonlib where
  "recorded_lib = \<lparr>jl_parse = (\<lambda>_ _. Inr (JObj [(''success'', JBool True), (''workflow_input'', JNull)])), jl_write = (\<lambda>_ _. []),
     jl_number_text = (\<lambda>_. []), jl_double = (\<lambda>_. 0), jl_what = (\<lambda>_. [])\<rparr>"

lemma recorded_prepares:
  "\<exists>plan. prepare_trace_replay recorded_lib recorded ''d'' [] = Inr (Inr plan) \<and> length (pl_executor_outcomes plan) = 1"
  by (simp add: prepare_trace_replay_def recorded_def blank_event_def start_reading_def payload_of_def parse_json_def recorded_lib_def
      is_member_def j_at_def j_get_def get_bool_def reparsed_def read_event_def read_success_def read_completion_def add_result_def Let_def
      write_json_def word_le_nat_alt)

theorem replay_plan_faithful_witness:
  "\<exists>plan. prepare_trace_replay recorded_lib recorded ''d'' [] = Inr (Inr plan) \<and> pl_source_run_id plan = ''r'' \<and>
     map (\<lambda>x. (rp_invocation_id x, rp_node_id x, rp_attempt x)) (pl_executor_outcomes plan) = [(''root'', ''n'', 1)]"
proof -
  obtain plan where p: "prepare_trace_replay recorded_lib recorded ''d'' [] = Inr (Inr plan)" using recorded_prepares by blast
  from replay_plan_faithful [OF p] obtain skipped e rest where f: "recorded = skipped @ e # rest"
      "\<forall>x \<in> set skipped. ev_event x \<noteq> ''run_started''" "pl_source_run_id plan = ev_run_id e"
      "map (\<lambda>x. (rp_invocation_id x, rp_node_id x, rp_attempt x)) (pl_executor_outcomes plan) =
        map identity_of (filter executor_event (in_trace (ev_trace_id e) rest))"
    unfolding Let_def by (elim exE conjE)
  have "skipped = []" using f(1,2) by (cases skipped) (auto simp: recorded_def)
  then have whole: "recorded = e # rest" using f(1) by simp
  have "e = hd recorded" "rest = tl recorded" unfolding whole by (rule list.sel [symmetric])+
  then have "pl_source_run_id plan = ''r''"
      "map (\<lambda>x. (rp_invocation_id x, rp_node_id x, rp_attempt x)) (pl_executor_outcomes plan) = [(''root'', ''n'', 1)]"
    using f(3,4) by (simp_all add: recorded_def blank_event_def in_trace_def executor_event_def identity_of_def)
  then show ?thesis using p by (intro exI conjI)
qed

section \<open>Shadow evaluation\<close>

text \<open>The arithmetic of \<open>double\<close> is a record of its operations.\<close>

record 'f doubles =
  db_zero :: 'f
  db_finite :: "'f \<Rightarrow> bool"
  db_less :: "'f \<Rightarrow> 'f \<Rightarrow> bool"
  db_at_least :: "'f \<Rightarrow> 'f \<Rightarrow> bool"
  db_neg :: "'f \<Rightarrow> 'f"
  db_add :: "'f \<Rightarrow> 'f \<Rightarrow> 'f"
  db_sub :: "'f \<Rightarrow> 'f \<Rightarrow> 'f"
  db_mul :: "'f \<Rightarrow> 'f \<Rightarrow> 'f"

record EvaluationSample =
  sa_label :: string
  sa_workflow_digest :: string
  sa_result :: exec_result
  sa_trace :: "EventEnvelope list"

record 'f MetricDefinition =
  me_name :: string
  me_weight :: 'f
  me_regression_tolerance :: 'f
  me_evaluate :: "(EvaluationSample \<Rightarrow> 'f result) option"

record 'f MetricComparison =
  mc_name :: string
  mc_baseline :: 'f
  mc_candidate :: 'f
  mc_delta :: 'f
  mc_weighted_delta :: 'f
  mc_regressed :: bool

record 'f ShadowEvaluationReport =
  sr_baseline_label :: string
  sr_candidate_label :: string
  sr_candidate_is_shadow :: bool
  sr_outputs_equal :: bool
  sr_recommended :: bool
  sr_weighted_score_delta :: 'f
  sr_metrics :: "'f MetricComparison list"

definition evaluation_error :: "string \<Rightarrow> string \<Rightarrow> err" where
  "evaluation_error code message =
    \<lparr>err_category = ''evaluation'', err_code = code, err_message = message, err_retryable = False\<rparr>"

definition same_outputs :: "jsonlib \<Rightarrow> exec_result \<Rightarrow> exec_result \<Rightarrow> bool" where
  "same_outputs L a b = (er_success a = er_success b \<and>
     (if er_success a then write_json L (er_output a) False = write_json L (er_output b) False
      else ee_category (er_error a) = ee_category (er_error b) \<and> ee_code (er_error a) = ee_code (er_error b)))"

definition shadow_trace :: "jsonlib \<Rightarrow> EventEnvelope list \<Rightarrow> bool" where
  "shadow_trace L es = (case dropWhile (\<lambda>e. ev_event e \<noteq> ''run_started'') es of
     [] \<Rightarrow> False
   | e # _ \<Rightarrow> bindR (parse_json L (ev_payload_json e)) (\<lambda>p. get_string L p ''run_mode'' []) = Inr ''shadow'')"

definition compare_metric :: "'f doubles \<Rightarrow> EvaluationSample \<Rightarrow> EvaluationSample \<Rightarrow> 'f MetricDefinition \<Rightarrow> 'f MetricComparison result" where
  "compare_metric D baseline candidate m =
    (case me_evaluate m of
       None \<Rightarrow> Inl (evaluation_error ''METRIC_INVALID'' ''metric name, evaluator, weight, or tolerance is invalid'')
     | Some evaluate \<Rightarrow>
         if me_name m = [] \<or> db_less D (me_weight m) (db_zero D) \<or> db_less D (me_regression_tolerance m) (db_zero D)
         then Inl (evaluation_error ''METRIC_INVALID'' ''metric name, evaluator, weight, or tolerance is invalid'')
         else (case evaluate baseline of
           Inl e \<Rightarrow> Inl (evaluation_error ''METRIC_BASELINE_FAILED'' (me_name m @ '': '' @ err_message e))
         | Inr base \<Rightarrow> (case evaluate candidate of
             Inl e \<Rightarrow> Inl (evaluation_error ''METRIC_CANDIDATE_FAILED'' (me_name m @ '': '' @ err_message e))
           | Inr new_value \<Rightarrow>
               if \<not> db_finite D base \<or> \<not> db_finite D new_value
               then Inl (evaluation_error ''METRIC_NON_FINITE'' (me_name m @ '' returned a non-finite value''))
               else let delta = db_sub D new_value base in
                 Inr \<lparr>mc_name = me_name m, mc_baseline = base, mc_candidate = new_value, mc_delta = delta,
                   mc_weighted_delta = db_mul D delta (me_weight m),
                   mc_regressed = db_less D delta (db_neg D (me_regression_tolerance m))\<rparr>)))"

definition compare_shadow_evaluation :: "jsonlib \<Rightarrow> 'f doubles \<Rightarrow> EvaluationSample \<Rightarrow> EvaluationSample \<Rightarrow> 'f MetricDefinition list \<Rightarrow>
    'f ShadowEvaluationReport result" where
  "compare_shadow_evaluation L D baseline candidate metrics =
    (if metrics = [] then Inl (evaluation_error ''METRICS_REQUIRED'' ''at least one metric is required'')
     else if sa_workflow_digest baseline = [] \<or> sa_workflow_digest candidate = []
     then Inl (evaluation_error ''WORKFLOW_IDENTITY_REQUIRED'' ''both samples require Workflow digests'')
     else if \<not> shadow_trace L (sa_trace candidate)
     then Inl (evaluation_error ''CANDIDATE_NOT_SHADOW'' ''candidate trace must identify a Shadow run'')
     else bindR (mapR (compare_metric D baseline candidate) metrics) (\<lambda>comparisons.
       let score = fold (\<lambda>c acc. db_add D acc (mc_weighted_delta c)) comparisons (db_zero D) in
       Inr \<lparr>sr_baseline_label = sa_label baseline, sr_candidate_label = sa_label candidate, sr_candidate_is_shadow = True,
         sr_outputs_equal = same_outputs L (sa_result baseline) (sa_result candidate),
         sr_recommended = (er_success (sa_result candidate) \<and> \<not> list_ex mc_regressed comparisons \<and> db_at_least D score (db_zero D)),
         sr_weighted_score_delta = score, sr_metrics = comparisons\<rparr>))"

lemma mapR_value: "mapR f xs = Inr ys \<Longrightarrow> x \<in> set xs \<Longrightarrow> \<exists>y \<in> set ys. f x = Inr y"
  by (induction xs arbitrary: ys) (auto simp: bindR_Inr)

text \<open>A candidate is recommended only when its shadow run succeeded and no metric fell by more than its tolerance.\<close>

lemma recommended_candidates:
  assumes "compare_shadow_evaluation L D baseline candidate metrics = Inr report" and "sr_recommended report"
    and "m \<in> set metrics" and "me_evaluate m = Some f"
  shows "er_success (sa_result candidate) \<and> shadow_trace L (sa_trace candidate) \<and>
    (\<exists>x y. f baseline = Inr x \<and> f candidate = Inr y \<and> db_finite D x \<and> db_finite D y \<and>
      \<not> db_less D (db_sub D y x) (db_neg D (me_regression_tolerance m)))"
proof -
  obtain cs where c: "mapR (compare_metric D baseline candidate) metrics = Inr cs" "er_success (sa_result candidate)"
      "\<not> list_ex mc_regressed cs" "shadow_trace L (sa_trace candidate)"
    using assms(1,2) by (auto simp: compare_shadow_evaluation_def bindR_Inr Let_def split: if_split_asm)
  obtain k where "compare_metric D baseline candidate m = Inr k" "k \<in> set cs"
    using mapR_value [OF c(1) assms(3)] by (elim bexE)
  then show ?thesis using c(2-4) assms(4)
    by (auto simp: compare_metric_def Let_def list_ex_iff split: if_split_asm sum.split_asm)
qed

end
