(* ===== verification/Spec2Isabelle.thy ===== *)
theory Spec2Isabelle
  imports State_Store Workflow_Load Patch_Inverse Resolver_Fuel Zip_Limits Production Resource_Lease Scheduler Run_Restore Trace_Replay
begin

text \<open>
  DAGE executes workflows: directed graphs of nodes, written in JSON, whose tool and model nodes are functions of
  the host. A workflow is loaded, validated and compiled; a run walks the compiled graph, calls executors, keeps
  outputs and events, and saves checkpoints from which it can be recovered. Around this engine stand state stores,
  resource leases, a thread pool, trace sinks, patches of workflows, and bundles: packages of workflows and
  configuration that a resolver combines under versions, lockfiles and signatures, and that tools keep in
  directories, archives and a cache. This development models these parts in the order of the code below \<open>src/\<close>.

  \<^bold>\<open>How the code is represented.\<close> Structs are records, enumerations are datatypes, fixed-width integers are words,
  ordered maps are sorted association lists (\<open>smap\<close> in \<open>Dage_Prelude\<close>). A \<open>Result\<close> is a sum with an error record
  on the left; exceptions are the left side of \<open>res\<close>. Operations on objects take and return the state. What the
  sources only call is an argument: the JSON library (\<open>jsonlib\<close>, \<open>codec\<close>), the cryptographic primitives
  (\<open>crypto\<close>), zlib (\<open>zlib\<close>), floating-point arithmetic (\<open>doubles\<close>), the functions of the host (\<open>env\<close>), and
  the outcomes of system calls, which are chosen freely so that the properties cover every failure.

  \<^bold>\<open>Theories, sources and what is shown.\<close>

  \<^item> \<open>Dage_Prelude\<close>, \<open>Json_Value\<close>, \<open>Std_String\<close>, \<open>Sha256\<close>: shared vocabulary, JSON trees, the string operations in
    use, and \<open>sha256.cpp\<close> with the shape of its digests.

  \<^item> \<open>State_Store\<close> (\<open>reliability.cpp\<close>): the stores in memory and in files. Exchanges are atomic under every failure of
    a write; as long as a run is not erased, no sequence of calls loses an update, and a recovery claim fences the
    former owner; the file store refines the memory store, records survive encoding.

  \<^item> \<open>Expr_Eval\<close> (\<open>dage.cpp\<close>, conditions and templates), \<open>Workflow_IR\<close> (\<open>ir.cpp\<close>), \<open>Workflow_Validate\<close> and
    \<open>Workflow_Load\<close> (\<open>dage.cpp\<close>, \<open>Engine::validate\<close> and \<open>load\<close>): conditions are evaluated as disjunctions of
    conjunctions when no atom contains a connective; references of a loaded workflow resolve, cycles of plain edges are bounded, effect policies hold.

  \<^item> \<open>Resource_Lease\<close> (\<open>resource_lease.cpp\<close>), \<open>Scheduler\<close> (\<open>scheduler.cpp\<close>), \<open>Trace\<close> (\<open>trace.cpp\<close>,
    \<open>opentelemetry.cpp\<close>): step relations with invariants by rule induction. Units are conserved, lapsed leases stay
    lapsed, aging bounds how long a request can be overtaken; the queue of the pool is first in, first out; the trace queue accounts for
    every event, redaction is complete.

  \<^item> \<open>Run_State\<close>, \<open>Run_Step\<close>, \<open>Run_Api\<close> (\<open>dage.cpp\<close>, \<open>Run::Impl\<close>, \<open>execute_step\<close> and the operations around it), with
    \<open>Run_Laws\<close>, \<open>Run_Sample\<close>, \<open>Run_Safety\<close>, \<open>Run_Effects\<close>, \<open>Run_Loop\<close>, \<open>Run_Retry\<close> and \<open>Run_Restore\<close>: which
    executors a run may call, effects recorded before they happen and not repeated once settled, termination, the
    bound on retries, and recovery from a checkpoint.

  \<^item> \<open>Trace_Replay\<close> (\<open>dage.cpp\<close>, \<open>prepare_trace_replay\<close>, \<open>compare_shadow_evaluation\<close>): an accepted trace is complete,
    and the plan made from it has exactly the recorded outcomes.

  \<^item> \<open>Workflow_Patch\<close>, \<open>Patch_Analysis\<close>, \<open>Patch_Laws\<close>, \<open>Patch_Inverse\<close> (\<open>dage.cpp\<close>, \<open>apply_patch\<close> to
    \<open>diff_workflows\<close>): the dry run predicts the application of patches whose changes name actions and nodes by
    strings, the analysis is exact, the inverse patch restores when the entry of the original is still a node.

  \<^item> \<open>Resource_Path\<close> (\<open>resource_provider.cpp\<close>), \<open>Bundle_Load\<close> and \<open>Bundle_Laws\<close> (\<open>bundle.cpp\<close>): paths, loading, merging of
    configuration, which follows rules stated independently as the relation \<open>config_merge\<close>, and the files that the
    signed payload covers.

  \<^item> \<open>Bundle_Resolver\<close> with \<open>Resolver_Laws\<close>, \<open>Resolver_Sample\<close>, \<open>Resolver_Lock\<close>, \<open>Resolver_Trust\<close>, \<open>Resolver_Fuel\<close>
    (\<open>bundle_resolver.cpp\<close>): sound graphs, lockfiles that reproduce a graph and refuse another, the quorum behind a
    signature policy, termination.

  \<^item> \<open>Zip_Provider\<close>, \<open>Zip_Laws\<close>, \<open>Zip_Limits\<close>, \<open>Directory_Provider\<close> (\<open>tool_resource_providers.cpp\<close>): archives and
    directories within their limits, and the repositories made of them.

  \<^item> \<open>Bundle_Store\<close>, \<open>Store_Laws\<close>, \<open>Store_Safety\<close>, \<open>Store_Files\<close> (\<open>bundle_store.cpp\<close>): the cache, its garbage
    collection, atomic lockfiles. \<open>Production\<close> and this theory compose resolver, trust and cache into one deployment.

  \<^bold>\<open>Interfaces.\<close> Where one part relies on another, a locale states the contract and is interpreted on the model of
  the provider: among them \<open>provider_contract\<close> for the resource providers in memory, in archives and in directories,
  \<open>repository_contract\<close> for the repository the resolver reads, \<open>versioned_store\<close> for the two state stores with all
  their mutating operations, and \<open>content_store\<close> for the cache.

  \<^bold>\<open>Fuel.\<close> Three loops take fuel. \<open>execute_step\<close>: one unit for every step left before the limit of steps and one
  more, when no work is pending; more never changes the result (\<open>Run_Loop\<close>). \<open>parallel_loop\<close>: one unit for every
  branch not yet launched and one more. \<open>resolve\<close>: the depth of the traversal is bounded by the number of bundle
  names (\<open>Resolver_Fuel\<close>); \<open>None\<close> stands for too little fuel and for nothing else.

  \<^bold>\<open>Not modelled.\<close> The C interface (\<open>c_api.cpp\<close>, \<open>dage.h\<close>) and the language bindings: they forward to the operations
  above, and what they add concerns pointers, buffers and lifetimes, for which the development has no heap. The timer
  thread: the run receives its effect as callbacks. The exports to drawing tools and the command line: text output.
  Windows branches of the file operations, failing system calls inside a directory listing and failing
  removals of cache directories are outside the view of the file system; the removal of a temporary file after a
  failed atomic write may fail. Threads are interleaved at the steps of the step relations,
  not below. Exhausted memory is not represented.
\<close>

section \<open>Deployment\<close>

text \<open>
  C36. A production deployment holds together. Take the options that \<open>verified_production_profile\<close> makes from a
  lockfile, a keyring, a trust policy and a signature policy, and a graph that the resolver returns with them.
  Every bundle of the graph has a digest that \<open>lockfile_digests\<close> reports for the lockfile; it is signed by at
  least the required number of different usable keys of the keyring, and at least by one; and a garbage
  collection of the cache that retains the digests of the lockfile leaves what the cache opens for the bundle
  as it was, whatever else it removes and however it ends.
\<close>

theorem production_deployment_safe:
  assumes "verified_production_profile (cd_lib C) lock repo (find_key keys) trust policy offline = Inr opts"
    and "resolve fuel C K opts P = Some (Inr g)" and "sm_get (gr_bundles g) k = Some b"
    and "lockfile_digests (cd_lib C) lock = Inr live" and "live \<subseteq> set retained"
    and "sm_ok (ca_entries c)" and "garbage_collect C names retained gc c = (c', r)"
  shows "bu_digest b \<in> live \<and> 0 < required_signatures policy b \<and>
    required_signatures policy b \<le> card (signers K keys trust b) \<and>
    cache_open C V c' (bu_digest b) = cache_open C V c (bu_digest b)"
proof -
  have o: "op_keys opts = Some (find_key keys)" "op_trust opts = Some trust" "op_signature_policy opts = policy"
      "op_lock_json opts = lock" "op_mode opts = Verified \<or> op_mode opts = Offline" "sp_kind policy \<noteq> Disabled"
    using assms(1) by (auto simp: verified_production_profile_def split: if_splits sum.splits)
  obtain locks where locks: "parse_lock (cd_lib C) (op_lock_json opts) = Inr locks"
    and adm: "admitted \<lparr>rv_codec = C, rv_crypto = K, rv_options = opts, rv_locks = locks\<rparr> b"
    using resolved_admitted [OF assms(2,3)] by blast
  have "\<exists>lock. sm_get locks (bu_id b) = Some lock \<and> lk_digest lock = bu_digest b"
    using adm o(5) by (auto simp: admitted_def locked_mode_def)
  then have live: "bu_digest b \<in> live" using parse_lock_live [OF locks] assms(4) o(4) by metis
  have "verify_signatures K opts b = Inr ()" using adm o(5) by (auto simp: admitted_def verified_mode_def)
  then have "0 < required_signatures policy b \<and> required_signatures policy b \<le> card (signers K keys trust b)"
    using quorum_sound [OF o(1,2)] o(3,6) by simp
  moreover have "cache_open C V c' (bu_digest b) = cache_open C V c (bu_digest b)"
    using gc_keeps_retained [OF assms(6,7)] live assms(5) by blast
  ultimately show ?thesis using live by blast
qed

theorem production_deployment_safe_witness:
  "bu_digest bundle_b \<in> {bu_digest bundle_a, bu_digest bundle_b} \<and>
   required_signatures deployed_policy bundle_b \<le> card (signers lenient_crypto sample_keyring allow_known_keys bundle_b) \<and>
   cache_open deployed_codec plain_fs
     (fst (garbage_collect deployed_codec [name_of (CHR ''a'')] [bu_digest bundle_a, bu_digest bundle_b]
       \<lparr>gc_dry_run = False, gc_max_removals = 5\<rparr> two_entries)) (bu_digest bundle_b) =
   cache_open deployed_codec plain_fs two_entries (bu_digest bundle_b)"
proof -
  have b: "sm_get (gr_bundles (sample_graph Verified)) ''b'' = Some bundle_b" by (simp add: sample_graph_def)
  have live: "{bu_digest bundle_a, bu_digest bundle_b} \<subseteq> set [bu_digest bundle_a, bu_digest bundle_b]" by simp
  from production_deployment_safe [OF deployed_profile deployed_resolves b deployed_lock live two_entries_ok prod.collapse [symmetric]]
  show ?thesis by blast
qed

end
